(* ===== verification/Py_Prelude.thy ===== *)
theory Py_Prelude
  imports Complex_Main "HOL-Library.Char_ord"
begin

text \<open>
  What every component of the development uses of Python itself.

  \<^item> Values: a decoded JSON document is a \<open>json\<close> value, a \<open>dict\<close> an association list in
    insertion order, an \<open>int\<close> an unbounded \<open>int\<close> and a \<open>float\<close> a rational, an infinity
    or NaN. Comparison and truth follow Python: \<open>True == 1 == 1.0\<close>, NaN equals nothing,
    dictionaries compare without regard to order.
  \<^item> Text: a \<open>str\<close> is a \<open>string\<close> whose characters are the code points 0 to 255; a code
    point beyond them has no counterpart, and every text function below is exact on these.
  \<^item> Errors: the exception classes of the repository and of the builtins it meets are one
    datatype, and a fallible function returns \<open>exn + 'a\<close>.
  \<^item> Standard library: \<open>str.strip\<close>, \<open>str.split\<close>, \<open>str.replace\<close>, \<open>str.lower\<close>, \<open>int(text, 16)\<close>,
    \<open>uuid.UUID\<close> and \<open>set\<close> membership of unhashable values.
\<close>

named_theorems py_simps \<open>unfolding rules of the Python layer\<close>

section \<open>Exceptions and results\<close>

datatype exn =
    GrantRefused string
  | SiteRefused string
  | TransactionRefused string
  | RegistryError string
  | SelectionError string
  | ValidationError string
  | ValueError string
  | RpcError int string
  | RuntimeError string
  | KeyError string
  | TypeError
  | AttributeError
  | OverflowError
  | OSError
  | IntegrityError
  | DatabaseError

type_synonym 'a res = "exn + 'a"

text \<open>The repository's own refusals are subclasses of \<open>ValueError\<close>.\<close>

fun is_value_error :: "exn \<Rightarrow> bool" where
  "is_value_error (GrantRefused _) = True"
| "is_value_error (SiteRefused _) = True"
| "is_value_error (TransactionRefused _) = True"
| "is_value_error (RegistryError _) = True"
| "is_value_error (ValueError _) = True"
| "is_value_error (RpcError _ _) = True"
| "is_value_error _ = False"

definition bindr :: "'a res \<Rightarrow> ('a \<Rightarrow> 'b res) \<Rightarrow> 'b res" where
  "bindr m k = (case m of Inl e \<Rightarrow> Inl e | Inr x \<Rightarrow> k x)"

lemma bindr_simps [simp]:
  "bindr (Inl e) k = Inl e"
  "bindr (Inr x) k = k x"
  by (simp_all add: bindr_def)

lemma bindr_Inr_iff: "bindr m k = Inr y \<longleftrightarrow> (\<exists>x. m = Inr x \<and> k x = Inr y)"
  by (cases m) auto

lemma bindr_Inl_iff: "bindr m k = Inl e \<longleftrightarrow> m = Inl e \<or> (\<exists>x. m = Inr x \<and> k x = Inl e)"
  by (cases m) auto

text \<open>A check that raises when its condition does not hold.\<close>

definition require :: "bool \<Rightarrow> exn \<Rightarrow> unit res" where
  "require c e = (if c then Inr () else Inl e)"

lemma require_simps [simp]:
  "require True e = Inr ()"
  "require False e = Inl e"
  by (simp_all add: require_def)

lemma require_Inr_iff [simp]: "require c e = Inr u \<longleftrightarrow> c"
  by (simp add: require_def)

lemma require_Inl_iff [simp]: "require c e = Inl e' \<longleftrightarrow> \<not> c \<and> e' = e"
  by (auto simp: require_def)

text \<open>A loop over a list whose body may raise, and the list comprehension over such a body.\<close>

fun for_each :: "('a \<Rightarrow> unit res) \<Rightarrow> 'a list \<Rightarrow> unit res" where
  "for_each f [] = Inr ()"
| "for_each f (x # xs) = bindr (f x) (\<lambda>_. for_each f xs)"

fun map_res :: "('a \<Rightarrow> 'b res) \<Rightarrow> 'a list \<Rightarrow> 'b list res" where
  "map_res f [] = Inr []"
| "map_res f (x # xs) = bindr (f x) (\<lambda>y. bindr (map_res f xs) (\<lambda>ys. Inr (y # ys)))"

fun any_res :: "('a \<Rightarrow> bool res) \<Rightarrow> 'a list \<Rightarrow> bool res" where
  "any_res f [] = Inr False"
| "any_res f (x # xs) = bindr (f x) (\<lambda>b. if b then Inr True else any_res f xs)"

lemma for_each_Inr_iff: "for_each f xs = Inr u \<longleftrightarrow> (\<forall>x \<in> set xs. f x = Inr ())"
  by (induction xs) (auto simp: bindr_Inr_iff)

lemma map_res_Inr_iff:
  "map_res f xs = Inr ys \<longleftrightarrow> length ys = length xs \<and> (\<forall>i < length xs. f (xs ! i) = Inr (ys ! i))"
proof (induction xs arbitrary: ys)
  case Nil
  then show ?case by auto
next
  case (Cons x xs)
  show ?case
    by (cases ys) (auto simp: bindr_Inr_iff Cons.IH nth_Cons split: nat.splits)
qed

lemma map_res_total: "(\<And>x. x \<in> set xs \<Longrightarrow> f x = Inr (g x)) \<Longrightarrow> map_res f xs = Inr (map g xs)"
  by (induction xs) simp_all

lemmas res_iffs = bindr_Inr_iff bindr_Inl_iff for_each_Inr_iff

section \<open>Floats\<close>

datatype flt = Fin rat | PosInf | NegInf | NaN

fun flt_eq :: "flt \<Rightarrow> flt \<Rightarrow> bool" where
  "flt_eq (Fin a) (Fin b) = (a = b)"
| "flt_eq PosInf PosInf = True"
| "flt_eq NegInf NegInf = True"
| "flt_eq _ _ = False"

fun flt_less :: "flt \<Rightarrow> flt \<Rightarrow> bool" where
  "flt_less NaN _ = False"
| "flt_less _ NaN = False"
| "flt_less (Fin a) (Fin b) = (a < b)"
| "flt_less NegInf x = (x \<noteq> NegInf)"
| "flt_less (Fin a) PosInf = True"
| "flt_less (Fin a) NegInf = False"
| "flt_less PosInf _ = False"

definition flt_le :: "flt \<Rightarrow> flt \<Rightarrow> bool" where
  "flt_le a b \<longleftrightarrow> flt_less a b \<or> flt_eq a b"

fun isfinite :: "flt \<Rightarrow> bool" where
  "isfinite (Fin _) = True"
| "isfinite _ = False"

text \<open>\<open>int(x)\<close> of a float: truncation towards zero; NaN and infinities raise.\<close>

definition trunc :: "rat \<Rightarrow> int" where
  "trunc r = (if r < 0 then - \<lfloor>- r\<rfloor> else \<lfloor>r\<rfloor>)"

fun int_of_flt :: "flt \<Rightarrow> int res" where
  "int_of_flt (Fin r) = Inr (trunc r)"
| "int_of_flt NaN = Inl (ValueError ''cannot convert float NaN to integer'')"
| "int_of_flt _ = Inl OverflowError"

lemma trunc_of_int [simp]: "trunc (of_int i) = i"
  by (simp add: trunc_def)

lemma trunc_numeral [simp]: "trunc (numeral n) = numeral n" "trunc 0 = 0" "trunc 1 = 1"
  using trunc_of_int [of "numeral n"] trunc_of_int [of 0] trunc_of_int [of 1] by simp_all

section \<open>JSON values\<close>

datatype json =
    JNull
  | JBool bool
  | JInt int
  | JFlt flt
  | JStr string
  | JArr "json list"
  | JObj "(string \<times> json) list"

type_synonym dict = "(string \<times> json) list"

definition is_str :: "json \<Rightarrow> bool" where
  "is_str v = (case v of JStr _ \<Rightarrow> True | _ \<Rightarrow> False)"

definition is_list :: "json \<Rightarrow> bool" where
  "is_list v = (case v of JArr _ \<Rightarrow> True | _ \<Rightarrow> False)"

definition is_dict :: "json \<Rightarrow> bool" where
  "is_dict v = (case v of JObj _ \<Rightarrow> True | _ \<Rightarrow> False)"

text \<open>\<open>type(v) is int\<close>, \<open>isinstance(v, int)\<close> (which a bool passes), \<open>type(v) is bool\<close>.\<close>

definition type_is_int :: "json \<Rightarrow> bool" where
  "type_is_int v = (case v of JInt _ \<Rightarrow> True | _ \<Rightarrow> False)"

definition isinstance_int :: "json \<Rightarrow> bool" where
  "isinstance_int v = (case v of JInt _ \<Rightarrow> True | JBool _ \<Rightarrow> True | _ \<Rightarrow> False)"

definition type_is_bool :: "json \<Rightarrow> bool" where
  "type_is_bool v = (case v of JBool _ \<Rightarrow> True | _ \<Rightarrow> False)"

lemma is_str_iff: "is_str v \<longleftrightarrow> (\<exists>s. v = JStr s)"
  by (cases v) (simp_all add: is_str_def)

lemma is_list_iff: "is_list v \<longleftrightarrow> (\<exists>xs. v = JArr xs)"
  by (cases v) (simp_all add: is_list_def)

lemma is_dict_iff: "is_dict v \<longleftrightarrow> (\<exists>d. v = JObj d)"
  by (cases v) (simp_all add: is_dict_def)

lemma type_is_int_iff: "type_is_int v \<longleftrightarrow> (\<exists>i. v = JInt i)"
  by (cases v) (simp_all add: type_is_int_def)

lemma type_is_bool_iff: "type_is_bool v \<longleftrightarrow> (\<exists>b. v = JBool b)"
  by (cases v) (simp_all add: type_is_bool_def)

lemmas json_type_iffs = is_str_iff is_list_iff is_dict_iff type_is_int_iff type_is_bool_iff

lemma json_type_simps [simp]:
  "is_str (JStr s)" "\<not> is_str JNull" "\<not> is_str (JBool b)" "\<not> is_str (JInt i)"
  "\<not> is_str (JFlt f)" "\<not> is_str (JArr xs)" "\<not> is_str (JObj d)"
  "is_list (JArr xs)" "\<not> is_list JNull" "\<not> is_list (JBool b)" "\<not> is_list (JInt i)"
  "\<not> is_list (JFlt f)" "\<not> is_list (JStr s)" "\<not> is_list (JObj d)"
  "is_dict (JObj d)" "\<not> is_dict JNull" "\<not> is_dict (JBool b)" "\<not> is_dict (JInt i)"
  "\<not> is_dict (JFlt f)" "\<not> is_dict (JStr s)" "\<not> is_dict (JArr xs)"
  "type_is_int (JInt i)" "\<not> type_is_int JNull" "\<not> type_is_int (JBool b)"
  "\<not> type_is_int (JFlt f)" "\<not> type_is_int (JStr s)" "\<not> type_is_int (JArr xs)"
  "\<not> type_is_int (JObj d)" "type_is_bool (JBool b)" "\<not> type_is_bool JNull"
  "\<not> type_is_bool (JInt i)" "\<not> type_is_bool (JFlt f)" "\<not> type_is_bool (JStr s)"
  "\<not> type_is_bool (JArr xs)" "\<not> type_is_bool (JObj d)"
  by (simp_all add: is_str_def is_list_def is_dict_def type_is_int_def type_is_bool_def)

text \<open>Contents of a value already known to have the type; other types never reach these.\<close>

definition str_of :: "json \<Rightarrow> string" where
  "str_of v = (case v of JStr s \<Rightarrow> s | _ \<Rightarrow> [])"

definition list_of :: "json \<Rightarrow> json list" where
  "list_of v = (case v of JArr xs \<Rightarrow> xs | _ \<Rightarrow> [])"

definition dict_of :: "json \<Rightarrow> dict" where
  "dict_of v = (case v of JObj d \<Rightarrow> d | _ \<Rightarrow> [])"

definition int_of :: "json \<Rightarrow> int" where
  "int_of v = (case v of JInt i \<Rightarrow> i | JBool b \<Rightarrow> (if b then 1 else 0) | _ \<Rightarrow> 0)"

lemma content_simps [simp]:
  "str_of (JStr s) = s" "list_of (JArr xs) = xs" "dict_of (JObj d) = d" "int_of (JInt i) = i"
  by (simp_all add: str_of_def list_of_def dict_of_def int_of_def)

text \<open>\<open>d.get(k, default)\<close>, \<open>k in d\<close>, \<open>d[k]\<close>, \<open>set(d)\<close> and \<open>d[k] = v\<close>.\<close>

definition get_or :: "dict \<Rightarrow> string \<Rightarrow> json \<Rightarrow> json" where
  "get_or d k v = (case map_of d k of None \<Rightarrow> v | Some w \<Rightarrow> w)"

definition get :: "dict \<Rightarrow> string \<Rightarrow> json" where
  "get d k = get_or d k JNull"

definition has :: "dict \<Rightarrow> string \<Rightarrow> bool" where
  "has d k \<longleftrightarrow> map_of d k \<noteq> None"

definition item :: "dict \<Rightarrow> string \<Rightarrow> json res" where
  "item d k = (case map_of d k of None \<Rightarrow> Inl (KeyError k) | Some w \<Rightarrow> Inr w)"

definition keys :: "dict \<Rightarrow> string list" where
  "keys d = map fst d"

definition same_keys :: "dict \<Rightarrow> string list \<Rightarrow> bool" where
  "same_keys d ks \<longleftrightarrow> set (keys d) = set ks"

fun put :: "dict \<Rightarrow> string \<Rightarrow> json \<Rightarrow> dict" where
  "put [] k v = [(k, v)]"
| "put ((k', w) # d) k v = (if k' = k then (k, v) # d else (k', w) # put d k v)"

lemma has_iff: "has d k \<longleftrightarrow> k \<in> set (keys d)"
  by (induction d) (auto simp: has_def keys_def)

lemma has_get: "has d k \<Longrightarrow> map_of d k = Some (get d k)"
  by (auto simp: has_def get_def get_or_def)

lemma item_has: "has d k \<Longrightarrow> item d k = Inr (get d k)"
  by (auto simp: has_def item_def get_def get_or_def)

lemma map_of_put [simp]: "map_of (put d k v) = (map_of d)(k \<mapsto> v)"
  by (induction d k v rule: put.induct) (auto simp: fun_eq_iff)

lemma get_put [simp]: "get (put d k v) k' = (if k' = k then v else get d k')"
  by (simp add: get_def get_or_def)

lemma has_put [simp]: "has (put d k v) k' \<longleftrightarrow> k' = k \<or> has d k'"
  by (simp add: has_def)

lemma same_keys_has: "same_keys d ks \<Longrightarrow> k \<in> set ks \<Longrightarrow> has d k"
  by (simp add: has_iff same_keys_def)

lemma get_eq_has: "get d k \<noteq> JNull \<Longrightarrow> has d k"
  by (auto simp: get_def get_or_def has_def split: option.splits)

text \<open>Python equality and truth.\<close>

definition num_of :: "json \<Rightarrow> flt option" where
  "num_of v = (case v of JBool b \<Rightarrow> Some (Fin (if b then 1 else 0))
     | JInt i \<Rightarrow> Some (Fin (of_int i)) | JFlt f \<Rightarrow> Some f | _ \<Rightarrow> None)"

fun py_eq :: "json \<Rightarrow> json \<Rightarrow> bool"
  and py_eq_list :: "json list \<Rightarrow> json list \<Rightarrow> bool"
  and py_eq_dict :: "dict \<Rightarrow> dict \<Rightarrow> bool" where
  "py_eq JNull w = (w = JNull)"
| "py_eq (JStr s) w = (w = JStr s)"
| "py_eq (JArr xs) w = (case w of JArr ys \<Rightarrow> py_eq_list xs ys | _ \<Rightarrow> False)"
| "py_eq (JObj d) w = (case w of JObj e \<Rightarrow> length d = length e \<and> py_eq_dict d e | _ \<Rightarrow> False)"
| "py_eq (JBool b) w = (case num_of w of None \<Rightarrow> False | Some y \<Rightarrow> flt_eq (Fin (if b then 1 else 0)) y)"
| "py_eq (JInt i) w = (case num_of w of None \<Rightarrow> False | Some y \<Rightarrow> flt_eq (Fin (of_int i)) y)"
| "py_eq (JFlt f) w = (case num_of w of None \<Rightarrow> False | Some y \<Rightarrow> flt_eq f y)"
| "py_eq_list [] ys = (ys = [])"
| "py_eq_list (x # xs) ys = (case ys of [] \<Rightarrow> False | y # ys' \<Rightarrow> py_eq x y \<and> py_eq_list xs ys')"
| "py_eq_dict [] e = True"
| "py_eq_dict ((k, v) # d) e = (case map_of e k of None \<Rightarrow> False | Some w \<Rightarrow> py_eq v w \<and> py_eq_dict d e)"

lemma py_eq_JStr [simp]: "py_eq v (JStr s) \<longleftrightarrow> v = JStr s"
  by (cases v) (auto simp: num_of_def)

lemma py_eq_empty_dict [simp]: "py_eq v (JObj []) \<longleftrightarrow> v = JObj []"
  by (cases v) (auto simp: num_of_def)

lemma py_eq_empty_list [simp]: "py_eq v (JArr []) \<longleftrightarrow> v = JArr []"
proof (cases v)
  case (JArr xs)
  then show ?thesis by (cases xs) simp_all
qed (simp_all add: num_of_def)

fun truthy :: "json \<Rightarrow> bool" where
  "truthy JNull = False"
| "truthy (JBool b) = b"
| "truthy (JInt i) = (i \<noteq> 0)"
| "truthy (JFlt f) = (\<not> flt_eq f (Fin 0))"
| "truthy (JStr s) = (s \<noteq> [])"
| "truthy (JArr xs) = (xs \<noteq> [])"
| "truthy (JObj d) = (d \<noteq> [])"

text \<open>\<open>v in {...}\<close> for a set of text: hashing a list or dict raises.\<close>

definition in_strs :: "json \<Rightarrow> string list \<Rightarrow> bool res" where
  "in_strs v ss = (case v of JArr _ \<Rightarrow> Inl TypeError | JObj _ \<Rightarrow> Inl TypeError
     | JStr s \<Rightarrow> Inr (s \<in> set ss) | _ \<Rightarrow> Inr False)"

lemma in_strs_True: "in_strs v ss = Inr True \<longleftrightarrow> (\<exists>s \<in> set ss. v = JStr s)"
  by (cases v) (auto simp: in_strs_def)

lemma in_strs_JStr [simp]: "in_strs (JStr s) ss = Inr (s \<in> set ss)"
  by (simp add: in_strs_def)

section \<open>Text\<close>

definition code :: "char \<Rightarrow> nat" where
  "code c = of_char c"

definition between :: "char \<Rightarrow> char \<Rightarrow> char \<Rightarrow> bool" where
  "between lo hi c \<longleftrightarrow> lo \<le> c \<and> c \<le> hi"

abbreviation is_lower :: "char \<Rightarrow> bool" where
  "is_lower \<equiv> between CHR ''a'' CHR ''z''"

abbreviation is_upper :: "char \<Rightarrow> bool" where
  "is_upper \<equiv> between CHR ''A'' CHR ''Z''"

abbreviation is_digit :: "char \<Rightarrow> bool" where
  "is_digit \<equiv> between CHR ''0'' CHR ''9''"

definition is_alnum :: "char \<Rightarrow> bool" where
  "is_alnum c \<longleftrightarrow> is_lower c \<or> is_upper c \<or> is_digit c"

definition is_hex :: "char \<Rightarrow> bool" where
  "is_hex c \<longleftrightarrow> is_digit c \<or> between CHR ''a'' CHR ''f'' c"

text \<open>\<open>str.isspace\<close> on the code points 0 to 255, which \<open>str.strip()\<close> removes.\<close>

definition is_space :: "char \<Rightarrow> bool" where
  "is_space c \<longleftrightarrow> 9 \<le> code c \<and> code c \<le> 13 \<or> 28 \<le> code c \<and> code c \<le> 32 \<or> code c = 133 \<or> code c = 160"

definition strip_by :: "(char \<Rightarrow> bool) \<Rightarrow> string \<Rightarrow> string" where
  "strip_by p s = rev (dropWhile p (rev (dropWhile p s)))"

abbreviation py_strip :: "string \<Rightarrow> string" where
  "py_strip \<equiv> strip_by is_space"

definition starts :: "string \<Rightarrow> string \<Rightarrow> bool" where
  "starts p s \<longleftrightarrow> take (length p) s = p"

definition ends :: "string \<Rightarrow> string \<Rightarrow> bool" where
  "ends p s \<longleftrightarrow> starts (rev p) (rev s)"

fun contains :: "string \<Rightarrow> string \<Rightarrow> bool" where
  "contains p [] = (p = [])"
| "contains p (c # s) = (starts p (c # s) \<or> contains p s)"

function py_replace :: "string \<Rightarrow> string \<Rightarrow> string \<Rightarrow> string" where
  "py_replace old new s =
     (if old = [] \<or> s = [] then s
      else if starts old s then new @ py_replace old new (drop (length old) s)
      else hd s # py_replace old new (tl s))"
  by pat_completeness auto
termination
  by (relation "measure (\<lambda>(old, new, s). length s)") auto

declare py_replace.simps [simp del]

fun split_on :: "char \<Rightarrow> string \<Rightarrow> string list" where
  "split_on c [] = [[]]"
| "split_on c (x # xs) = (if x = c then [] # split_on c xs
     else (case split_on c xs of [] \<Rightarrow> [[x]] | w # ws \<Rightarrow> (x # w) # ws))"

fun join :: "string \<Rightarrow> string list \<Rightarrow> string" where
  "join sep [] = []"
| "join sep [w] = w"
| "join sep (w # v # ws) = w @ sep @ join sep (v # ws)"

lemma split_on_ne [simp]: "split_on c s \<noteq> []"
  by (induction s) (auto split: list.splits)

lemma join_Cons: "ws \<noteq> [] \<Longrightarrow> join sep (w # ws) = w @ sep @ join sep ws"
  by (cases ws) simp_all

lemma join_split_on: "join [c] (split_on c s) = s"
proof (induction s)
  case (Cons x s)
  obtain w ws where sp: "split_on c s = w # ws"
    by (meson split_on_ne neq_Nil_conv)
  show ?case
    using Cons.IH by (cases ws) (auto simp: sp)
qed simp

lemma split_on_no_sep: "w \<in> set (split_on c s) \<Longrightarrow> c \<notin> set w"
proof (induction s arbitrary: w)
  case (Cons x s)
  obtain v vs where sp: "split_on c s = v # vs"
    by (meson split_on_ne neq_Nil_conv)
  from Cons show ?case
    by (auto simp: sp split: if_splits)
qed simp

lemma concat_split_on: "set s \<subseteq> insert c (\<Union>w \<in> set (split_on c s). set w)"
proof (induction s)
  case (Cons x s)
  obtain v vs where sp: "split_on c s = v # vs"
    by (meson split_on_ne neq_Nil_conv)
  from Cons show ?case by (auto simp: sp)
qed simp

lemma starts_code [code]:
  "starts [] s = True" "starts (c # p) [] = False" "starts (c # p) (d # s) = (c = d \<and> starts p s)"
  by (auto simp: starts_def)

lemma starts_append [simp]: "starts p (p @ s)"
  by (simp add: starts_def)

lemma starts_iff: "starts p s \<longleftrightarrow> (\<exists>t. s = p @ t)"
  by (metis append_eq_conv_conj append_take_drop_id starts_def)

text \<open>\<open>str.lower\<close> on the code points 0 to 255.\<close>

definition lower_char :: "char \<Rightarrow> char" where
  "lower_char c = (if 65 \<le> code c \<and> code c \<le> 90 \<or> 192 \<le> code c \<and> code c \<le> 222 \<and> code c \<noteq> 215
     then char_of (code c + 32) else c)"

lemma lower_char_code [code]:
  "lower_char (Char b0 b1 b2 b3 b4 b5 b6 b7) =
     (if b6 \<and> \<not> b5 \<and> (if b7 then \<not> (b0 \<and> b1 \<and> b2 \<and> b4)
        else (b0 \<or> b1 \<or> b2 \<or> b3 \<or> b4) \<and> \<not> (b3 \<and> b4 \<and> (b2 \<or> b0 \<and> b1)))
      then Char b0 b1 b2 b3 b4 True b6 b7 else Char b0 b1 b2 b3 b4 b5 b6 b7)"
  by (cases b0; cases b1; cases b2; cases b3; cases b4; cases b5; cases b6; cases b7)
    (simp_all add: lower_char_def code_def char_of_def bit_0)

definition py_lower :: "string \<Rightarrow> string" where
  "py_lower s = map lower_char s"

text \<open>\<open>len(s.encode())\<close>: a code point above 127 is two bytes of UTF-8.\<close>

definition utf8_len :: "string \<Rightarrow> nat" where
  "utf8_len s = sum_list (map (\<lambda>c. if code c < 128 then 1 else 2) s)"

text \<open>A decimal numeral and its value.\<close>

definition digit_val :: "char \<Rightarrow> nat" where
  "digit_val c = code c - 48"

definition dec_val :: "string \<Rightarrow> int" where
  "dec_val s = foldl (\<lambda>n c. 10 * n + int (digit_val c)) 0 s"

section \<open>uuid.UUID\<close>

definition is_hexdigit :: "char \<Rightarrow> bool" where
  "is_hexdigit c \<longleftrightarrow> is_hex c \<or> between CHR ''A'' CHR ''F'' c"

text \<open>The digit part of \<open>int(text, 16)\<close>: digits with single underscores between them.\<close>

fun hex_digits :: "string \<Rightarrow> string option" where
  "hex_digits [] = None"
| "hex_digits [c] = (if is_hexdigit c then Some [c] else None)"
| "hex_digits (c # d # s) = (if is_hexdigit c
     then map_option (Cons c) (hex_digits (if d = CHR ''_'' then s else d # s)) else None)"

text \<open>\<open>int(text, 16)\<close> as its sign and its digits: blanks around, a sign, a \<open>0x\<close> prefix.\<close>

definition py_int16 :: "string \<Rightarrow> (bool \<times> string) option" where
  "py_int16 s =
     (let t = py_strip s;
          neg = (t \<noteq> [] \<and> hd t = CHR ''-'');
          u = (if t \<noteq> [] \<and> hd t \<in> {CHR ''-'', CHR ''+''} then tl t else t);
          v = (if starts ''0x'' u \<or> starts ''0X'' u then drop 2 u else u);
          w = (if v \<noteq> u \<and> starts ''_'' v then tl v else v)
      in map_option (Pair neg) (hex_digits w))"

text \<open>
  \<open>str(UUID(value))\<close>. The 32 characters that \<open>UUID\<close> keeps hold at most 32 digits, so the value
  is below 2 to the power 128 and its text is the digits in lower case, filled up with zeros.
\<close>

definition uuid_of :: "string \<Rightarrow> string res" where
  "uuid_of s =
     (let h = py_replace ''-'' [] (strip_by (\<lambda>c. c \<in> {CHR ''{'', CHR ''}''})
                (py_replace ''uuid:'' [] (py_replace ''urn:'' [] s)))
      in if length h \<noteq> 32 then Inl (ValueError ''badly formed hexadecimal UUID string'')
         else (case py_int16 h of
             None \<Rightarrow> Inl (ValueError ''invalid literal for int()'')
           | Some (neg, ds) \<Rightarrow>
               if neg \<and> (\<exists>c \<in> set ds. c \<noteq> CHR ''0'') then Inl (ValueError ''int is out of range'')
               else (let u = replicate (32 - length ds) CHR ''0'' @ py_lower ds in
                 Inr (take 8 u @ ''-'' @ take 4 (drop 8 u) @ ''-'' @ take 4 (drop 12 u) @ ''-''
                   @ take 4 (drop 16 u) @ ''-'' @ drop 20 u))))"

definition is_uuid :: "string \<Rightarrow> bool" where
  "is_uuid s \<longleftrightarrow> uuid_of s = Inr s"

section \<open>Dates\<close>

text \<open>\<open>date.fromisoformat(value).isoformat() == value\<close>: a valid day in the form YYYY-MM-DD.\<close>

definition days_in_month :: "int \<Rightarrow> int \<Rightarrow> int" where
  "days_in_month y m = (if m = 2 then if y mod 4 = 0 \<and> (y mod 100 \<noteq> 0 \<or> y mod 400 = 0) then 29 else 28
     else if m \<in> {4, 6, 9, 11} then 30 else 31)"

definition iso_date :: "string \<Rightarrow> bool" where
  "iso_date s \<longleftrightarrow> length s = 10 \<and> s ! 4 = CHR ''-'' \<and> s ! 7 = CHR ''-''
     \<and> list_all is_digit (take 4 s) \<and> list_all is_digit (take 2 (drop 5 s)) \<and> list_all is_digit (drop 8 s)
     \<and> (let y = dec_val (take 4 s); m = dec_val (take 2 (drop 5 s)); d = dec_val (drop 8 s) in
        1 \<le> y \<and> 1 \<le> m \<and> m \<le> 12 \<and> 1 \<le> d \<and> d \<le> days_in_month y m)"

end
