(* ===== verification/Py_Effects.thy ===== *)
theory Py_Effects
  imports Py_Prelude
begin

text \<open>
  Stateful Python. An operation is a function from the state to its result (a value or the
  exception it raised) and the state it leaves, so an exception keeps what was written before it;
  \<open>transaction\<close> is the context manager that undoes those writes. What the code takes from
  outside (the clock, fresh identifiers, SHA-256, the decimal text of a float) is the record \<open>env\<close>: the \<open>n\<close>-th reading
  of the clock is \<open>clock n\<close>, an arbitrary sequence, so a clock that stands still or runs backwards
  is covered. The state counts the readings.

  \<open>wp\<close> is the weakest precondition of an operation; with its equations in the simplifier a
  property of all outcomes of a composed operation reduces to its primitive steps. The equations
  \<open>eff_iffs\<close> do the same for a single outcome that is known to have happened.
\<close>

named_theorems wp_simps \<open>weakest preconditions of the operations\<close>
named_theorems eff_iffs \<open>when an operation has a given outcome\<close>

type_synonym ('s, 'a) eff = "'s \<Rightarrow> 'a res \<times> 's"

definition ret :: "'a \<Rightarrow> ('s, 'a) eff" where
  "ret x s = (Inr x, s)"

definition raise :: "exn \<Rightarrow> ('s, 'a) eff" where
  "raise e s = (Inl e, s)"

definition bindS :: "('s, 'a) eff \<Rightarrow> ('a \<Rightarrow> ('s, 'b) eff) \<Rightarrow> ('s, 'b) eff" where
  "bindS m k s = (case m s of (Inl e, s') \<Rightarrow> (Inl e, s') | (Inr x, s') \<Rightarrow> k x s')"

definition gets :: "('s \<Rightarrow> 'a) \<Rightarrow> ('s, 'a) eff" where
  "gets f s = (Inr (f s), s)"

definition modify :: "('s \<Rightarrow> 's) \<Rightarrow> ('s, unit) eff" where
  "modify f s = (Inr (), f s)"

definition lift :: "'a res \<Rightarrow> ('s, 'a) eff" where
  "lift r s = (r, s)"

definition check :: "bool \<Rightarrow> exn \<Rightarrow> ('s, unit) eff" where
  "check c e s = ((if c then Inr () else Inl e), s)"

text \<open>\<open>try: m except ...: h\<close> with a handler for the exceptions it names.\<close>

definition catch :: "('s, 'a) eff \<Rightarrow> (exn \<Rightarrow> bool) \<Rightarrow> (exn \<Rightarrow> ('s, 'a) eff) \<Rightarrow> ('s, 'a) eff" where
  "catch m p h s = (case m s of (Inl e, s') \<Rightarrow> if p e then h e s' else (Inl e, s') | (Inr x, s') \<Rightarrow> (Inr x, s'))"

fun for_eachS :: "('a \<Rightarrow> ('s, unit) eff) \<Rightarrow> 'a list \<Rightarrow> ('s, unit) eff" where
  "for_eachS f [] = ret ()"
| "for_eachS f (x # xs) = bindS (f x) (\<lambda>_. for_eachS f xs)"

fun mapS :: "('a \<Rightarrow> ('s, 'b) eff) \<Rightarrow> 'a list \<Rightarrow> ('s, 'b list) eff" where
  "mapS f [] = ret []"
| "mapS f (x # xs) = bindS (f x) (\<lambda>y. bindS (mapS f xs) (\<lambda>ys. ret (y # ys)))"

lemmas eff_defs = ret_def raise_def bindS_def gets_def modify_def lift_def check_def

section \<open>One outcome\<close>

lemma ret_iff [eff_iffs]: "ret x s = (r, s') \<longleftrightarrow> r = Inr x \<and> s' = s"
  by (auto simp: ret_def)

lemma raise_iff [eff_iffs]: "raise e s = (r, s') \<longleftrightarrow> r = Inl e \<and> s' = s"
  by (auto simp: raise_def)

lemma gets_iff [eff_iffs]: "gets f s = (r, s') \<longleftrightarrow> r = Inr (f s) \<and> s' = s"
  by (auto simp: gets_def)

lemma modify_iff [eff_iffs]: "modify f s = (r, s') \<longleftrightarrow> r = Inr () \<and> s' = f s"
  by (auto simp: modify_def)

lemma lift_iff [eff_iffs]: "lift m s = (r, s') \<longleftrightarrow> r = m \<and> s' = s"
  by (auto simp: lift_def)

lemma check_Inr_iff [eff_iffs]: "check c e s = (Inr x, s') \<longleftrightarrow> c \<and> s' = s"
  by (auto simp: check_def)

lemma check_Inl_iff [eff_iffs]: "check c e s = (Inl e', s') \<longleftrightarrow> \<not> c \<and> e' = e \<and> s' = s"
  by (auto simp: check_def)

lemma bindS_Inr_iff [eff_iffs]:
  "bindS m k s = (Inr y, s') \<longleftrightarrow> (\<exists>x s1. m s = (Inr x, s1) \<and> k x s1 = (Inr y, s'))"
  by (auto simp: bindS_def split: prod.splits sum.splits)

lemma bindS_Inl_iff [eff_iffs]:
  "bindS m k s = (Inl e, s') \<longleftrightarrow>
     m s = (Inl e, s') \<or> (\<exists>x s1. m s = (Inr x, s1) \<and> k x s1 = (Inl e, s'))"
  by (auto simp: bindS_def split: prod.splits sum.splits)

lemma bindS_eqI: "m s = (Inr x, s1) \<Longrightarrow> bindS m k s = k x s1"
  by (simp add: bindS_def)

section \<open>All outcomes\<close>

definition wp :: "('s, 'a) eff \<Rightarrow> ('a \<Rightarrow> 's \<Rightarrow> bool) \<Rightarrow> (exn \<Rightarrow> 's \<Rightarrow> bool) \<Rightarrow> 's \<Rightarrow> bool" where
  "wp m Q E s = (case m s of (Inl e, s') \<Rightarrow> E e s' | (Inr x, s') \<Rightarrow> Q x s')"

lemma wp_ret [wp_simps]: "wp (ret x) Q E = Q x"
  by (simp add: fun_eq_iff wp_def ret_def)

lemma wp_raise [wp_simps]: "wp (raise e) Q E s \<longleftrightarrow> E e s"
  by (simp add: wp_def raise_def)

lemma wp_gets [wp_simps]: "wp (gets f) Q E s \<longleftrightarrow> Q (f s) s"
  by (simp add: wp_def gets_def)

lemma wp_modify [wp_simps]: "wp (modify f) Q E s \<longleftrightarrow> Q () (f s)"
  by (simp add: wp_def modify_def)

lemma wp_lift [wp_simps]: "wp (lift r) Q E s \<longleftrightarrow> (case r of Inl e \<Rightarrow> E e s | Inr x \<Rightarrow> Q x s)"
  by (simp add: wp_def lift_def)

lemma wp_check [wp_simps]: "wp (check c e) Q E s \<longleftrightarrow> (if c then Q () s else E e s)"
  by (simp add: wp_def check_def)

lemma wp_bindS [wp_simps]: "wp (bindS m k) Q E = wp m (\<lambda>x. wp (k x) Q E) E"
  by (auto simp: fun_eq_iff wp_def bindS_def split: prod.splits sum.splits)

lemma wp_catch [wp_simps]:
  "wp (catch m p h) Q E s \<longleftrightarrow> wp m Q (\<lambda>e s'. if p e then wp (h e) Q E s' else E e s') s"
  by (auto simp: wp_def catch_def split: prod.splits sum.splits)

lemma wp_if [wp_simps]: "wp (if c then m else n) Q E s \<longleftrightarrow> (if c then wp m Q E s else wp n Q E s)"
  by simp

lemma wp_mono:
  "wp m Q E s \<Longrightarrow> (\<And>x s'. Q x s' \<Longrightarrow> Q' x s') \<Longrightarrow> (\<And>e s'. E e s' \<Longrightarrow> E' e s') \<Longrightarrow> wp m Q' E' s"
  by (auto simp: wp_def split: prod.splits sum.splits)

lemma wp_conj:
  "wp m Q E s \<Longrightarrow> wp m Q' E' s \<Longrightarrow> wp m (\<lambda>x s'. Q x s' \<and> Q' x s') (\<lambda>e s'. E e s' \<and> E' e s') s"
  by (auto simp: wp_def split: prod.splits sum.splits)

lemma wp_snd: "wp m (\<lambda>_. P) (\<lambda>_. P) s \<longleftrightarrow> P (snd (m s))"
  by (auto simp: wp_def split: prod.splits sum.splits)

lemma wp_outcome: "wp m Q E s \<Longrightarrow> m s = (Inr x, s') \<Longrightarrow> Q x s'"
  by (simp add: wp_def)

lemma wp_raised: "wp m Q E s \<Longrightarrow> m s = (Inl e, s') \<Longrightarrow> E e s'"
  by (simp add: wp_def)

text \<open>The same as introduction rules, for goals that are taken apart step by step.\<close>

lemma wp_bindI: "wp m (\<lambda>x. wp (k x) Q X) X s \<Longrightarrow> wp (bindS m k) Q X s"
  by (simp add: wp_bindS)

lemma wp_checkI: "(c \<Longrightarrow> Q () s) \<Longrightarrow> (\<not> c \<Longrightarrow> X e s) \<Longrightarrow> wp (check c e) Q X s"
  by (simp add: wp_check)

lemma wp_liftI: "(\<And>x. r = Inr x \<Longrightarrow> Q x s) \<Longrightarrow> (\<And>e. r = Inl e \<Longrightarrow> X e s) \<Longrightarrow> wp (lift r) Q X s"
  by (simp add: wp_lift split: sum.split)

lemma wp_getsI: "Q (f s) s \<Longrightarrow> wp (gets f) Q X s"
  by (simp add: wp_gets)

section \<open>Frames\<close>

text \<open>
  A frame is a reflexive and transitive relation between the state before and the state after;
  an operation built from parts that respect it respects it. An invariant is the frame
  ``if it held before it holds after''.
\<close>

locale frame =
  fixes R :: "'s \<Rightarrow> 's \<Rightarrow> bool"
  assumes refl: "R s s"
    and trans: "R s t \<Longrightarrow> R t u \<Longrightarrow> R s u"
begin

lemma keeps_bind:
  assumes "R s (snd (m s))" and "\<And>x s1. m s = (Inr x, s1) \<Longrightarrow> R s1 (snd (k x s1))"
  shows "R s (snd (bindS m k s))"
proof -
  obtain r s1 where m: "m s = (r, s1)" by (cases "m s")
  show ?thesis
  proof (cases r)
    case (Inl e)
    with assms(1) m show ?thesis by (simp add: bindS_def)
  next
    case (Inr x)
    with m have "R s s1" "R s1 (snd (k x s1))" using assms by auto
    with m Inr show ?thesis by (simp add: bindS_def trans)
  qed
qed

lemma keeps_for_each:
  assumes "\<And>x s. x \<in> set xs \<Longrightarrow> R s (snd (f x s))"
  shows "R s (snd (for_eachS f xs s))"
  using assms
proof (induction xs arbitrary: s)
  case Nil
  then show ?case by (simp add: ret_def refl)
next
  case (Cons x xs)
  then show ?case by (auto intro!: keeps_bind)
qed

lemma keeps_mapS:
  assumes "\<And>x s. x \<in> set xs \<Longrightarrow> R s (snd (f x s))"
  shows "R s (snd (mapS f xs s))"
  using assms
proof (induction xs arbitrary: s)
  case Nil
  then show ?case by (simp add: ret_def refl)
next
  case (Cons x xs)
  have "R s1 (snd (bindS (mapS f xs) (\<lambda>ys. ret (y # ys)) s1))" for y s1
    by (rule keeps_bind) (use Cons in \<open>simp_all add: ret_def refl\<close>)
  with Cons.prems show ?case by (auto intro: keeps_bind)
qed

end

definition kept :: "('s \<Rightarrow> bool) \<Rightarrow> 's \<Rightarrow> 's \<Rightarrow> bool" where
  "kept I s s' \<longleftrightarrow> (I s \<longrightarrow> I s')"

interpretation kept: frame "kept I"
  by unfold_locales (auto simp: kept_def)

section \<open>The outside world\<close>

record env =
  clock :: "nat \<Rightarrow> flt"
  uuid4 :: "nat \<Rightarrow> string"
  token :: "nat \<Rightarrow> string"
  sha256 :: "string \<Rightarrow> string"
  float_text :: "flt \<Rightarrow> string"

record world =
  ticks :: nat
  ids :: nat
  tokens :: nat

definition read_clock :: "env \<Rightarrow> ('a world_scheme, flt) eff" where
  "read_clock E s = (Inr (clock E (ticks s)), s\<lparr>ticks := Suc (ticks s)\<rparr>)"

definition fresh_uuid :: "env \<Rightarrow> ('a world_scheme, string) eff" where
  "fresh_uuid E s = (Inr (uuid4 E (ids s)), s\<lparr>ids := Suc (ids s)\<rparr>)"

definition fresh_token :: "env \<Rightarrow> ('a world_scheme, string) eff" where
  "fresh_token E s = (Inr (token E (tokens s)), s\<lparr>tokens := Suc (tokens s)\<rparr>)"

lemma world_iffs [eff_iffs]:
  "read_clock E s = (r, s') \<longleftrightarrow> r = Inr (clock E (ticks s)) \<and> s' = s\<lparr>ticks := Suc (ticks s)\<rparr>"
  "fresh_uuid E s = (q, s') \<longleftrightarrow> q = Inr (uuid4 E (ids s)) \<and> s' = s\<lparr>ids := Suc (ids s)\<rparr>"
  "fresh_token E s = (q, s') \<longleftrightarrow> q = Inr (token E (tokens s)) \<and> s' = s\<lparr>tokens := Suc (tokens s)\<rparr>"
  by (auto simp: read_clock_def fresh_uuid_def fresh_token_def)

lemma world_wps [wp_simps]:
  "wp (read_clock E) Q X s \<longleftrightarrow> Q (clock E (ticks s)) (s\<lparr>ticks := Suc (ticks s)\<rparr>)"
  "wp (fresh_uuid E) Q' X s \<longleftrightarrow> Q' (uuid4 E (ids s)) (s\<lparr>ids := Suc (ids s)\<rparr>)"
  "wp (fresh_token E) Q' X s \<longleftrightarrow> Q' (token E (tokens s)) (s\<lparr>tokens := Suc (tokens s)\<rparr>)"
  by (simp_all add: wp_def read_clock_def fresh_uuid_def fresh_token_def)

lemma wp_clockI: "Q (clock E (ticks s)) (s\<lparr>ticks := Suc (ticks s)\<rparr>) \<Longrightarrow> wp (read_clock E) Q X s"
  by (simp add: world_wps)

text \<open>
  A database transaction: an exception restores the tables, never the outside world. With
  \<open>keep\<close> an exception of the named kind commits what was written before it.
\<close>

definition restore :: "'a world_scheme \<Rightarrow> 'a world_scheme \<Rightarrow> 'a world_scheme" where
  "restore s s' = s\<lparr>ticks := ticks s', ids := ids s', tokens := tokens s'\<rparr>"

definition transaction_keeping :: "(exn \<Rightarrow> bool) \<Rightarrow> ('a world_scheme, 'b) eff \<Rightarrow> ('a world_scheme, 'b) eff" where
  "transaction_keeping keep m s = (case m s of
       (Inr x, s') \<Rightarrow> (Inr x, s')
     | (Inl e, s') \<Rightarrow> (Inl e, if keep e then s' else restore s s'))"

definition transaction :: "('a world_scheme, 'b) eff \<Rightarrow> ('a world_scheme, 'b) eff" where
  "transaction = transaction_keeping (\<lambda>_. False)"

lemma transaction_keeping_Inr [eff_iffs]:
  "transaction_keeping keep m s = (Inr x, s') \<longleftrightarrow> m s = (Inr x, s')"
  by (auto simp: transaction_keeping_def split: prod.splits sum.splits)

lemma transaction_Inr [eff_iffs]: "transaction m s = (Inr x, s') \<longleftrightarrow> m s = (Inr x, s')"
  by (simp add: transaction_def transaction_keeping_Inr)

lemma transaction_Inl [eff_iffs]:
  "transaction m s = (Inl e, s') \<longleftrightarrow> (\<exists>t. m s = (Inl e, t) \<and> s' = restore s t)"
  by (auto simp: transaction_def transaction_keeping_def split: prod.splits sum.splits)

lemma wp_transaction_keeping [wp_simps]:
  "wp (transaction_keeping keep m) Q E s \<longleftrightarrow>
     wp m Q (\<lambda>e s'. E e (if keep e then s' else restore s s')) s"
  by (auto simp: wp_def transaction_keeping_def split: prod.splits sum.splits)

lemma wp_transaction [wp_simps]:
  "wp (transaction m) Q E s \<longleftrightarrow> wp m Q (\<lambda>e s'. E e (restore s s')) s"
  by (simp add: transaction_def wp_transaction_keeping)

end
