(* ===== verification/Ledger_Core.thy ===== *)
theory Ledger_Core
  imports Py_Effects
begin

text \<open>
  What the durable ledgers share. A table is a list of rows in insertion order with a key
  column; \<open>find_by\<close>, \<open>update_by\<close> and \<open>append\<close> are \<open>SELECT ... WHERE key=?\<close>,
  \<open>UPDATE ... WHERE key=?\<close> and \<open>INSERT\<close>. The locale \<open>keyed_store\<close> is what the ledgers rely on
  of such a table, and the lists satisfy it. The locale \<open>status_machine\<close> is a system whose
  steps move each entry's status along a fixed graph; its lemmas hold of every reachable state
  of every ledger that interprets it.
\<close>

section \<open>Tables\<close>

definition find_by :: "('r \<Rightarrow> string) \<Rightarrow> 'r list \<Rightarrow> string \<Rightarrow> 'r option" where
  "find_by key rows k = List.find (\<lambda>r. key r = k) rows"

definition update_by :: "('r \<Rightarrow> string) \<Rightarrow> string \<Rightarrow> ('r \<Rightarrow> 'r) \<Rightarrow> 'r list \<Rightarrow> 'r list" where
  "update_by key k f rows = map (\<lambda>r. if key r = k then f r else r) rows"

lemma find_by_simps [simp]:
  "find_by key [] k = None"
  "find_by key (r # rows) k = (if key r = k then Some r else find_by key rows k)"
  by (simp_all add: find_by_def)

lemma find_by_Some: "find_by key rows k = Some r \<Longrightarrow> r \<in> set rows \<and> key r = k"
  by (induction rows) (auto split: if_splits)

lemma find_by_None: "find_by key rows k = None \<longleftrightarrow> k \<notin> key ` set rows"
  by (induction rows) auto

lemma find_by_append:
  "find_by key (rows @ [r]) k =
     (case find_by key rows k of Some x \<Rightarrow> Some x | None \<Rightarrow> if key r = k then Some r else None)"
  by (induction rows) auto

lemma find_by_update:
  "(\<And>r. key (f r) = key r) \<Longrightarrow>
   find_by key (update_by key k f rows) k' =
     (if k' = k then map_option f (find_by key rows k) else find_by key rows k')"
  by (induction rows) (auto simp: update_by_def)

lemma find_None: "List.find p rs = None \<Longrightarrow> r \<in> set rs \<Longrightarrow> \<not> p r"
  by (simp add: find_None_iff)

lemma find_by_map: "(\<And>r. key (f r) = key r) \<Longrightarrow> find_by key (map f rs) k = map_option f (find_by key rs k)"
  by (induction rs) auto

lemma find_by_filter:
  "(\<And>r. key r = k \<Longrightarrow> p r) \<Longrightarrow> find_by key (filter p rows) k = find_by key rows k"
  by (induction rows) auto

lemma keys_update_by: "(\<And>r. key (f r) = key r) \<Longrightarrow> map key (update_by key k f rows) = map key rows"
  by (induction rows) (auto simp: update_by_def)

lemma length_update_by [simp]: "length (update_by key k f rows) = length rows"
  by (simp add: update_by_def)

lemma distinct_find_by: "distinct (map key rows) \<Longrightarrow> r \<in> set rows \<Longrightarrow> find_by key rows (key r) = Some r"
  by (induction rows) force+

lemma set_update_by: "set (update_by key k f rows) = (\<lambda>r. if key r = k then f r else r) ` set rows"
  by (simp add: update_by_def)

text \<open>\<open>ORDER BY\<close>: a stable insertion sort by a strict order.\<close>

fun insert_by :: "('a \<Rightarrow> 'a \<Rightarrow> bool) \<Rightarrow> 'a \<Rightarrow> 'a list \<Rightarrow> 'a list" where
  "insert_by lt x [] = [x]"
| "insert_by lt x (y # ys) = (if lt y x then y # insert_by lt x ys else x # y # ys)"

definition order_by :: "('a \<Rightarrow> 'a \<Rightarrow> bool) \<Rightarrow> 'a list \<Rightarrow> 'a list" where
  "order_by lt xs = foldr (insert_by lt) xs []"

lemma set_order_by [simp]: "set (order_by lt xs) = set xs"
proof -
  have "set (insert_by lt x ys) = insert x (set ys)" for x ys
    by (induction ys) auto
  then show ?thesis by (induction xs) (simp_all add: order_by_def)
qed

lemma length_order_by [simp]: "length (order_by lt xs) = length xs"
proof -
  have "length (insert_by lt x ys) = Suc (length ys)" for x ys
    by (induction ys) auto
  then show ?thesis by (induction xs) (simp_all add: order_by_def)
qed

text \<open>The table interface the ledgers rely on.\<close>

locale keyed_store =
  fixes key :: "'r \<Rightarrow> string"
    and lookup :: "'t \<Rightarrow> string \<Rightarrow> 'r option"
    and update :: "string \<Rightarrow> ('r \<Rightarrow> 'r) \<Rightarrow> 't \<Rightarrow> 't"
    and insert_row :: "'r \<Rightarrow> 't \<Rightarrow> 't"
  assumes lookup_key: "lookup t k = Some r \<Longrightarrow> key r = k"
    and lookup_update: "(\<And>r. key (f r) = key r) \<Longrightarrow>
      lookup (update k f t) k' = (if k' = k then map_option f (lookup t k) else lookup t k')"
    and lookup_insert: "lookup t (key r) = None \<Longrightarrow>
      lookup (insert_row r t) k' = (if k' = key r then Some r else lookup t k')"
begin

lemma update_frame: "(\<And>r. key (f r) = key r) \<Longrightarrow> k' \<noteq> k \<Longrightarrow> lookup (update k f t) k' = lookup t k'"
  by (simp add: lookup_update)

lemma update_hit: "(\<And>r. key (f r) = key r) \<Longrightarrow> lookup t k = Some r \<Longrightarrow> lookup (update k f t) k = Some (f r)"
  by (simp add: lookup_update)

lemma insert_hit: "lookup t (key r) = None \<Longrightarrow> lookup (insert_row r t) (key r) = Some r"
  by (simp add: lookup_insert)

lemma insert_frame:
  "lookup t (key r) = None \<Longrightarrow> lookup t k = Some x \<Longrightarrow> lookup (insert_row r t) k = Some x"
  by (auto simp: lookup_insert)

end

interpretation rows: keyed_store key "find_by key" "update_by key" "\<lambda>r t. t @ [r]"
  by unfold_locales (auto simp: find_by_update find_by_append dest: find_by_Some split: option.splits)

section \<open>Tables whose rows only move forward\<close>

text \<open>
  A table is sound when its keys are unique and every row is good; it moves forward to another
  when each of its rows is still there and has moved along \<open>moves\<close>. The locale states what a
  ledger has to know of its rows; its lemmas reduce each \<open>UPDATE\<close> and \<open>INSERT\<close> to one row.
\<close>

definition table_ok :: "('r \<Rightarrow> string) \<Rightarrow> ('r \<Rightarrow> bool) \<Rightarrow> 'r list \<Rightarrow> bool" where
  "table_ok key good rs \<longleftrightarrow> distinct (map key rs) \<and> (\<forall>r \<in> set rs. good r)"

definition table_moves :: "('r \<Rightarrow> string) \<Rightarrow> ('r \<Rightarrow> 'r \<Rightarrow> bool) \<Rightarrow> 'r list \<Rightarrow> 'r list \<Rightarrow> bool" where
  "table_moves key moves rs rs' \<longleftrightarrow>
     (\<forall>k r. find_by key rs k = Some r \<longrightarrow> (\<exists>r'. find_by key rs' k = Some r' \<and> moves r r'))"

lemma table_ok_row: "table_ok key good rs \<Longrightarrow> find_by key rs k = Some r \<Longrightarrow> good r \<and> key r = k"
  by (auto simp: table_ok_def dest: find_by_Some)

lemma table_ok_unique: "table_ok key good rs \<Longrightarrow> q \<in> set rs \<Longrightarrow> find_by key rs (key q) = Some r \<Longrightarrow> q = r"
  by (auto simp: table_ok_def distinct_find_by)

lemma table_ok_mem: "table_ok key good rs \<Longrightarrow> q \<in> set rs \<Longrightarrow> find_by key rs (key q) = Some q"
  by (simp add: table_ok_def distinct_find_by)

text \<open>Rows that exclude each other: two related rows of the table have the same key.\<close>

definition at_most_one :: "('r \<Rightarrow> string) \<Rightarrow> ('r \<Rightarrow> 'r \<Rightarrow> bool) \<Rightarrow> 'r set \<Rightarrow> bool" where
  "at_most_one key R S \<longleftrightarrow> (\<forall>q \<in> S. \<forall>r \<in> S. R q r \<longrightarrow> key q = key r)"

lemma at_most_one_replace:
  assumes "at_most_one key R S" and "\<And>q. q \<in> S \<Longrightarrow> q \<noteq> r \<Longrightarrow> \<not> R q x \<and> \<not> R x q"
  shows "at_most_one key R (insert x (S - {r}))"
  using assms unfolding at_most_one_def by blast

lemma at_most_one_insert:
  assumes "at_most_one key R S" and "\<And>q. q \<in> S \<Longrightarrow> \<not> R q x \<and> \<not> R x q"
  shows "at_most_one key R (insert x S)"
  using assms unfolding at_most_one_def by blast

lemma at_most_oneD: "at_most_one key R S \<Longrightarrow> q \<in> S \<Longrightarrow> r \<in> S \<Longrightarrow> R q r \<Longrightarrow> key q = key r"
  by (simp add: at_most_one_def)

locale row_moves =
  fixes key :: "'r \<Rightarrow> string" and moves :: "'r \<Rightarrow> 'r \<Rightarrow> bool"
  assumes moves_key: "moves r r' \<Longrightarrow> key r' = key r"
    and moves_refl: "moves r r"
    and moves_trans: "moves r r' \<Longrightarrow> moves r' r'' \<Longrightarrow> moves r r''"
begin

lemma table_refl: "table_moves key moves rs rs"
  by (auto simp: table_moves_def moves_refl)

lemma table_trans: "table_moves key moves rs rs' \<Longrightarrow> table_moves key moves rs' rs'' \<Longrightarrow> table_moves key moves rs rs''"
  unfolding table_moves_def by (meson moves_trans)

text \<open>On a sound table an update by key changes one row.\<close>

lemma update_as_set:
  assumes "table_ok key good rs" and "find_by key rs k = Some r"
  shows "set (update_by key k f rs) = insert (f r) (set rs - {r})"
proof -
  have one: "q = r \<longleftrightarrow> key q = k" if "q \<in> set rs" for q
    using that assms table_ok_row table_ok_mem by fastforce
  have "set (update_by key k f rs) = (\<lambda>q. if q = r then f r else q) ` set rs"
    unfolding set_update_by by (rule image_cong [OF refl]) (use one in metis)
  moreover have "r \<in> set rs" using assms(2) find_by_Some by fast
  ultimately show ?thesis by auto
qed

lemma update_fits:
  assumes "table_ok key good rs" and "find_by key rs k = Some r"
  shows "update_by key k f rs = update_by key k (\<lambda>_. f r) rs"
proof -
  have "q = r" if "q \<in> set rs" "key q = k" for q
    using that assms table_ok_unique by fastforce
  then show ?thesis by (auto simp: update_by_def)
qed

lemma update_find:
  assumes "table_ok key good rs" and "find_by key rs k = Some r" and "moves r (f r)"
  shows "find_by key (update_by key k f rs) k' = (if k' = k then Some (f r) else find_by key rs k')"
proof -
  have k: "key r = k" using assms(1,2) table_ok_row by fast
  define g where "g q = (if key q = k then f r else q)" for q
  have "update_by key k f rs = update_by key k g rs"
    using update_fits [OF assms(1,2)] by (simp add: update_by_def g_def cong: if_cong)
  moreover have "key (g q) = key q" for q using moves_key [OF assms(3)] k by (simp add: g_def)
  ultimately show ?thesis using assms(2) k by (simp add: find_by_update g_def)
qed

lemma update_keys:
  assumes "table_ok key good rs" and "find_by key rs k = Some r" and "moves r (f r)"
  shows "map key (update_by key k f rs) = map key rs"
proof -
  have "key q = k \<Longrightarrow> q \<in> set rs \<Longrightarrow> key (f q) = k" for q
    using assms table_ok_unique moves_key by (metis table_ok_row)
  then show ?thesis by (auto simp: update_by_def)
qed

lemma update_moves:
  assumes "table_ok key good rs" and "find_by key rs k = Some r" and "moves r (f r)" and "good (f r)"
  shows "table_ok key good (update_by key k f rs) \<and> table_moves key moves rs (update_by key k f rs)"
proof
  show "table_ok key good (update_by key k f rs)"
    using assms update_as_set [OF assms(1,2)] update_keys [where f = f, OF assms(1-3)] by (auto simp: table_ok_def)
  show "table_moves key moves rs (update_by key k f rs)"
    using assms(2,3) by (auto simp: table_moves_def update_find [where f = f, OF assms(1-3)] moves_refl)
qed

lemma insert_moves:
  assumes "table_ok key good rs" and "key r \<notin> key ` set rs" and "good r"
  shows "table_ok key good (rs @ [r]) \<and> table_moves key moves rs (rs @ [r])"
  using assms by (auto simp: table_ok_def table_moves_def find_by_append moves_refl)

end

section \<open>Status graphs\<close>

locale status_machine =
  fixes view :: "'s \<Rightarrow> 'k \<Rightarrow> 'st option"
    and step :: "'s \<Rightarrow> 's \<Rightarrow> bool"
    and edge :: "'st \<Rightarrow> 'st \<Rightarrow> bool"
  assumes step_moves: "step s s' \<Longrightarrow> view s k = Some a \<Longrightarrow> \<exists>b. view s' k = Some b \<and> edge\<^sup>*\<^sup>* a b"
begin

lemma run_moves: "step\<^sup>*\<^sup>* s s' \<Longrightarrow> view s k = Some a \<Longrightarrow> \<exists>b. view s' k = Some b \<and> edge\<^sup>*\<^sup>* a b"
proof (induction rule: rtranclp_induct)
  case base
  then show ?case by blast
next
  case (step t u)
  then obtain b where "view t k = Some b" "edge\<^sup>*\<^sup>* a b" by blast
  with step_moves [OF step.hyps(2)] show ?case by (meson rtranclp_trans)
qed

lemma closed_set_stable:
  assumes "step\<^sup>*\<^sup>* s s'" and "view s k = Some a" and "a \<in> T"
    and closed: "\<And>x y. x \<in> T \<Longrightarrow> edge x y \<Longrightarrow> y \<in> T"
  shows "\<exists>b \<in> T. view s' k = Some b"
proof -
  obtain b where "view s' k = Some b" "edge\<^sup>*\<^sup>* a b" using run_moves assms(1,2) by blast
  moreover have "b \<in> T" using \<open>edge\<^sup>*\<^sup>* a b\<close> \<open>a \<in> T\<close> by (induction) (auto intro: closed)
  ultimately show ?thesis by blast
qed

lemma terminal_stable:
  assumes "step\<^sup>*\<^sup>* s s'" and "view s k = Some a" and "\<And>y. edge a y \<Longrightarrow> y = a"
  shows "view s' k = Some a"
  using closed_set_stable [OF assms(1,2), of "{a}"] assms(3) by auto

end

end
