(* ===== verification/Py_Json.thy ===== *)
theory Py_Json
  imports Py_Effects
begin

text \<open>
  \<open>json.dumps\<close>: the text whose length the budgets bound and whose digest the ledgers store. The
  options the repository passes (\<open>sort_keys\<close>, \<open>separators\<close>, \<open>ensure_ascii\<close>) are arguments;
  the shortest decimal text of a float is the parameter \<open>fr\<close>.
\<close>

section \<open>Numbers and text\<close>

function dec_text :: "int \<Rightarrow> string" where
  "dec_text n = (if n < 10 then [char_of (48 + nat n)] else dec_text (n div 10) @ [char_of (48 + nat (n mod 10))])"
  by pat_completeness auto
termination
  by (relation "measure nat") auto

declare dec_text.simps [simp del]

definition int_text :: "int \<Rightarrow> string" where
  "int_text n = (if n < 0 then ''-'' @ dec_text (- n) else dec_text n)"

definition hex4 :: "nat \<Rightarrow> string" where
  "hex4 n = map (\<lambda>d. char_of (if d < 10 then 48 + d else 87 + d)) [n div 4096, n div 256 mod 16, n div 16 mod 16, n mod 16]"

definition esc_char :: "bool \<Rightarrow> char \<Rightarrow> string" where
  "esc_char ascii c =
     (if c = CHR 0x22 then [CHR 0x5C, CHR 0x22]
      else if c = CHR 0x5C then [CHR 0x5C, CHR 0x5C]
      else if code c = 10 then [CHR 0x5C, CHR ''n'']
      else if code c = 13 then [CHR 0x5C, CHR ''r'']
      else if code c = 9 then [CHR 0x5C, CHR ''t'']
      else if code c = 12 then [CHR 0x5C, CHR ''f'']
      else if code c = 8 then [CHR 0x5C, CHR ''b'']
      else if code c < 32 \<or> ascii \<and> 127 \<le> code c then [CHR 0x5C, CHR ''u''] @ hex4 (code c)
      else [c])"

text \<open>Evaluation compares characters instead of their numbers.\<close>

lemma code_eq: "code c = code d \<longleftrightarrow> c = d" and code_less: "code c < code d \<longleftrightarrow> c < d" and code_le: "code c \<le> code d \<longleftrightarrow> c \<le> d"
  by (simp_all add: code_def less_char_def less_eq_char_def)

lemma esc_char_code [code]:
  "esc_char ascii c =
     (if c = CHR 0x22 then [CHR 0x5C, CHR 0x22]
      else if c = CHR 0x5C then [CHR 0x5C, CHR 0x5C]
      else if c = CHR 0x0A then [CHR 0x5C, CHR ''n'']
      else if c = CHR 0x0D then [CHR 0x5C, CHR ''r'']
      else if c = CHR 0x09 then [CHR 0x5C, CHR ''t'']
      else if c = CHR 0x0C then [CHR 0x5C, CHR ''f'']
      else if c = CHR 0x08 then [CHR 0x5C, CHR ''b'']
      else if c < CHR 0x20 \<or> ascii \<and> CHR 0x7F \<le> c then [CHR 0x5C, CHR ''u''] @ hex4 (code c)
      else [c])"
proof -
  have n: "code CHR 0x0A = 10" "code CHR 0x0D = 13" "code CHR 0x09 = 9" "code CHR 0x0C = 12" "code CHR 0x08 = 8" "code CHR 0x20 = 32" "code CHR 0x7F = 127"
    by (simp_all add: code_def)
  show ?thesis unfolding esc_char_def n [symmetric] code_eq code_less code_le ..
qed

definition str_text :: "bool \<Rightarrow> string \<Rightarrow> string" where
  "str_text ascii s = [CHR 0x22] @ concat (map (esc_char ascii) s) @ [CHR 0x22]"

section \<open>Documents\<close>

text \<open>Dictionary entries in the order of their keys (\<open>sort_keys=True\<close>).\<close>

fun lex_less :: "string \<Rightarrow> string \<Rightarrow> bool" where
  "lex_less _ [] = False"
| "lex_less [] (_ # _) = True"
| "lex_less (a # s) (b # t) = (a < b \<or> a = b \<and> lex_less s t)"

fun insert_key :: "string \<times> 'v \<Rightarrow> (string \<times> 'v) list \<Rightarrow> (string \<times> 'v) list" where
  "insert_key e [] = [e]"
| "insert_key e (f # d) = (if lex_less (fst f) (fst e) then f # insert_key e d else e # f # d)"

definition sort_keys :: "(string \<times> 'v) list \<Rightarrow> (string \<times> 'v) list" where
  "sort_keys d = foldr insert_key d []"

record style =
  sorted_keys :: bool
  item_sep :: string
  key_sep :: string
  ensure_ascii :: bool

fun dumps :: "(flt \<Rightarrow> string) \<Rightarrow> style \<Rightarrow> json \<Rightarrow> string"
  and dumps_list :: "(flt \<Rightarrow> string) \<Rightarrow> style \<Rightarrow> json list \<Rightarrow> string list"
  and dumps_dict :: "(flt \<Rightarrow> string) \<Rightarrow> style \<Rightarrow> dict \<Rightarrow> (string \<times> string) list" where
  "dumps fr st JNull = ''null''"
| "dumps fr st (JBool b) = (if b then ''true'' else ''false'')"
| "dumps fr st (JInt i) = int_text i"
| "dumps fr st (JFlt f) = (case f of Fin _ \<Rightarrow> fr f | PosInf \<Rightarrow> ''Infinity'' | NegInf \<Rightarrow> ''-Infinity'' | NaN \<Rightarrow> ''NaN'')"
| "dumps fr st (JStr s) = str_text (ensure_ascii st) s"
| "dumps fr st (JArr xs) = ''['' @ join (item_sep st) (dumps_list fr st xs) @ '']''"
| "dumps fr st (JObj d) = [CHR 0x7B]
     @ join (item_sep st) (map (\<lambda>(k, t). str_text (ensure_ascii st) k @ key_sep st @ t)
         (if sorted_keys st then sort_keys (dumps_dict fr st d) else dumps_dict fr st d)) @ [CHR 0x7D]"
| "dumps_list fr st [] = []"
| "dumps_list fr st (x # xs) = dumps fr st x # dumps_list fr st xs"
| "dumps_dict fr st [] = []"
| "dumps_dict fr st ((k, v) # d) = (k, dumps fr st v) # dumps_dict fr st d"

text \<open>\<open>json.dumps(value)\<close> and \<open>json.dumps(value, sort_keys=True, separators=(',', ':'))\<close>.\<close>

definition plain_style :: style where
  "plain_style = \<lparr>sorted_keys = False, item_sep = '', '', key_sep = '': '', ensure_ascii = True\<rparr>"

definition sorted_style :: style where
  "sorted_style = \<lparr>sorted_keys = True, item_sep = '', '', key_sep = '': '', ensure_ascii = True\<rparr>"

definition canonical_style :: style where
  "canonical_style = \<lparr>sorted_keys = True, item_sep = '','', key_sep = '':'', ensure_ascii = True\<rparr>"

lemma set_insert_key [simp]: "set (insert_key e d) = insert e (set d)"
  by (induction d) auto

lemma set_sort_keys [simp]: "set (sort_keys d) = set d"
  by (induction d) (auto simp: sort_keys_def)

lemma length_sort_keys [simp]: "length (sort_keys d) = length d"
proof -
  have "length (insert_key e d) = Suc (length d)" for e :: "string \<times> 'a" and d
    by (induction d) auto
  then show ?thesis by (induction d) (simp_all add: sort_keys_def)
qed

lemma lex_less_irrefl [simp]: "\<not> lex_less s s"
  by (induction s) auto

lemma lex_less_trans: "lex_less s t \<Longrightarrow> lex_less t u \<Longrightarrow> lex_less s u"
  by (induction s t arbitrary: u rule: lex_less.induct) (case_tac u; auto)+

lemma lex_less_total: "s \<noteq> t \<Longrightarrow> lex_less s t \<or> lex_less t s"
  by (induction s t rule: lex_less.induct) (auto simp: neq_Nil_conv)

text \<open>\<open>json.dumps(..., allow_nan=False)\<close> raises on an infinity or NaN anywhere in the document.\<close>

fun finite_json :: "json \<Rightarrow> bool"
  and finite_list :: "json list \<Rightarrow> bool"
  and finite_dict :: "dict \<Rightarrow> bool" where
  "finite_json (JFlt f) = isfinite f"
| "finite_json (JArr xs) = finite_list xs"
| "finite_json (JObj d) = finite_dict d"
| "finite_json _ = True"
| "finite_list [] = True"
| "finite_list (x # xs) = (finite_json x \<and> finite_list xs)"
| "finite_dict [] = True"
| "finite_dict ((k, v) # d) = (finite_json v \<and> finite_dict d)"

end
