(* ===== verification/Py_Regex.thy ===== *)
theory Py_Regex
  imports Py_Prelude
begin

text \<open>
  The regular expressions of the repository. A pattern is a term of \<open>rexp\<close> that keeps the shape
  of the source's pattern (a character class, a sequence, an alternative, a repetition), and
  \<open>fullmatch\<close> decides it by derivatives, with the derivatives kept small. \<open>fullmatch_lang\<close>
  shows the decision agrees with the pattern's language; the lemmas after it turn the shapes the
  source uses most (a class repeated within bounds, a first character and a bounded rest) into
  plain conditions on the text.
\<close>

datatype rexp =
    Nothing
  | Empty
  | Cls "char \<Rightarrow> bool"
  | Seq rexp rexp
  | Alt rexp rexp
  | Rep rexp nat nat
  | Many rexp nat

section \<open>Languages\<close>

definition conc :: "string set \<Rightarrow> string set \<Rightarrow> string set" where
  "conc A B = {u @ v | u v. u \<in> A \<and> v \<in> B}"

fun lpow :: "string set \<Rightarrow> nat \<Rightarrow> string set" where
  "lpow A 0 = {[]}"
| "lpow A (Suc n) = conc A (lpow A n)"

fun lang :: "rexp \<Rightarrow> string set" where
  "lang Nothing = {}"
| "lang Empty = {[]}"
| "lang (Cls p) = {[c] | c. p c}"
| "lang (Seq r q) = conc (lang r) (lang q)"
| "lang (Alt r q) = lang r \<union> lang q"
| "lang (Rep r lo hi) = (\<Union>n \<in> {lo..hi}. lpow (lang r) n)"
| "lang (Many r lo) = (\<Union>n \<in> {lo..}. lpow (lang r) n)"

section \<open>Derivatives\<close>

fun nullable :: "rexp \<Rightarrow> bool" where
  "nullable Nothing = False"
| "nullable Empty = True"
| "nullable (Cls p) = False"
| "nullable (Seq r q) = (nullable r \<and> nullable q)"
| "nullable (Alt r q) = (nullable r \<or> nullable q)"
| "nullable (Rep r lo hi) = (lo \<le> hi \<and> (lo = 0 \<or> nullable r))"
| "nullable (Many r lo) = (lo = 0 \<or> nullable r)"

fun mk_seq :: "rexp \<Rightarrow> rexp \<Rightarrow> rexp" where
  "mk_seq Nothing q = Nothing"
| "mk_seq Empty q = q"
| "mk_seq r q = Seq r q"

fun mk_alt :: "rexp \<Rightarrow> rexp \<Rightarrow> rexp" where
  "mk_alt Nothing q = q"
| "mk_alt r Nothing = r"
| "mk_alt r q = Alt r q"

fun deriv :: "char \<Rightarrow> rexp \<Rightarrow> rexp" where
  "deriv c Nothing = Nothing"
| "deriv c Empty = Nothing"
| "deriv c (Cls p) = (if p c then Empty else Nothing)"
| "deriv c (Seq r q) = (if nullable r then mk_alt (mk_seq (deriv c r) q) (deriv c q)
     else mk_seq (deriv c r) q)"
| "deriv c (Alt r q) = mk_alt (deriv c r) (deriv c q)"
| "deriv c (Rep r lo hi) = (if hi = 0 \<or> hi < lo then Nothing
     else mk_seq (deriv c r) (Rep r (lo - 1) (hi - 1)))"
| "deriv c (Many r lo) = mk_seq (deriv c r) (Many r (lo - 1))"

fun fullmatch :: "rexp \<Rightarrow> string \<Rightarrow> bool" where
  "fullmatch r [] = nullable r"
| "fullmatch r (c # s) = fullmatch (deriv c r) s"

lemma conc_empty [simp]: "conc {} B = {}" "conc A {} = {}" "conc {[]} B = B" "conc A {[]} = A"
  by (auto simp: conc_def)

lemma Nil_conc: "[] \<in> conc A B \<longleftrightarrow> [] \<in> A \<and> [] \<in> B"
  by (auto simp: conc_def)

lemma Nil_lpow: "[] \<in> lpow A n \<longleftrightarrow> n = 0 \<or> [] \<in> A"
  by (induction n) (auto simp: Nil_conc)

lemma nullable_lang: "nullable r \<longleftrightarrow> [] \<in> lang r"
proof (induction r)
  case (Rep r lo hi)
  then show ?case by (auto simp: Nil_lpow)
qed (auto simp: Nil_conc Nil_lpow)

lemma lang_mk_seq [simp]: "lang (mk_seq r q) = conc (lang r) (lang q)"
  by (cases r) auto

lemma lang_mk_alt [simp]: "lang (mk_alt r q) = lang r \<union> lang q"
  by (cases r; cases q) auto

lemma Cons_conc:
  "c # xs \<in> conc A B \<longleftrightarrow> xs \<in> conc {u. c # u \<in> A} B \<or> [] \<in> A \<and> c # xs \<in> B"
  by (auto simp: conc_def Cons_eq_append_conv)

lemma conc_Cls: "conc {[c] | c. p c} B = {c # v | c v. p c \<and> v \<in> B}"
  unfolding conc_def by (auto; metis append_Cons append_Nil)

lemma lpow_pad: "[] \<in> A \<Longrightarrow> v \<in> lpow A n \<Longrightarrow> v \<in> lpow A (Suc n)"
  by (auto simp: conc_def intro: exI [of _ "[]"])

lemma Cons_lpow: "c # xs \<in> lpow A (Suc n) \<longleftrightarrow> xs \<in> conc {u. c # u \<in> A} (lpow A n)"
proof (induction n)
  case 0
  then show ?case by simp
next
  case (Suc n)
  have "c # xs \<in> lpow A (Suc (Suc n)) \<longleftrightarrow>
      xs \<in> conc {u. c # u \<in> A} (lpow A (Suc n)) \<or> [] \<in> A \<and> c # xs \<in> lpow A (Suc n)"
    by (simp add: Cons_conc)
  also have "\<dots> \<longleftrightarrow> xs \<in> conc {u. c # u \<in> A} (lpow A (Suc n))"
  proof -
    have "xs \<in> conc {u. c # u \<in> A} (lpow A (Suc n))" if "[] \<in> A" "c # xs \<in> lpow A (Suc n)"
    proof -
      from that(2) Suc obtain u v where "xs = u @ v" "c # u \<in> A" "v \<in> lpow A n"
        by (auto simp: conc_def)
      with lpow_pad [OF that(1)] show ?thesis unfolding conc_def by blast
    qed
    then show ?thesis by blast
  qed
  finally show ?case .
qed

lemma conc_UN: "conc A (\<Union>n \<in> I. B n) = (\<Union>n \<in> I. conc A (B n))"
  by (auto simp: conc_def)

lemma Cons_lpow_UN:
  "c # xs \<in> (\<Union>n \<in> I. lpow A n) \<longleftrightarrow> (\<exists>n. Suc n \<in> I \<and> xs \<in> conc {u. c # u \<in> A} (lpow A n))"
proof -
  have "c # xs \<in> lpow A m \<longleftrightarrow> (\<exists>n. m = Suc n \<and> xs \<in> conc {u. c # u \<in> A} (lpow A n))" for m
    by (cases m) (simp_all add: Cons_lpow del: lpow.simps(2))
  then show ?thesis by auto
qed

lemma lang_deriv: "xs \<in> lang (deriv c r) \<longleftrightarrow> c # xs \<in> lang r"
proof (induction r arbitrary: xs)
  case (Seq r q)
  then have "{u. c # u \<in> lang r} = lang (deriv c r)" by auto
  with Seq show ?case by (simp add: Cons_conc nullable_lang)
next
  case (Rep r lo hi)
  have D: "{u. c # u \<in> lang r} = lang (deriv c r)" using Rep by auto
  have I: "Suc n \<in> {lo..hi} \<longleftrightarrow> n \<in> {lo - 1..hi - 1} \<and> hi \<noteq> 0 \<and> lo \<le> hi" for n
    by auto
  have "c # xs \<in> lang (Rep r lo hi) \<longleftrightarrow> (\<exists>n. Suc n \<in> {lo..hi} \<and> xs \<in> conc (lang (deriv c r)) (lpow (lang r) n))"
    by (simp only: lang.simps Cons_lpow_UN D)
  also have "\<dots> \<longleftrightarrow> xs \<in> lang (deriv c (Rep r lo hi))"
    unfolding I by (auto simp: conc_UN)
  finally show ?case by simp
next
  case (Many r lo)
  have D: "{u. c # u \<in> lang r} = lang (deriv c r)" using Many by auto
  have "c # xs \<in> lang (Many r lo) \<longleftrightarrow> (\<exists>n. Suc n \<in> {lo..} \<and> xs \<in> conc (lang (deriv c r)) (lpow (lang r) n))"
    by (simp only: lang.simps Cons_lpow_UN D)
  also have "\<dots> \<longleftrightarrow> xs \<in> lang (deriv c (Many r lo))"
    by (auto simp: conc_UN le_diff_conv)
  finally show ?case by simp
qed (auto simp: Cons_conc)

theorem fullmatch_lang: "fullmatch r s \<longleftrightarrow> s \<in> lang r"
  by (induction s arbitrary: r) (simp_all add: nullable_lang lang_deriv)

section \<open>The common shapes\<close>

lemma fullmatch_Nothing [simp]: "\<not> fullmatch Nothing s"
  by (simp add: fullmatch_lang)

lemma fullmatch_Empty [simp]: "fullmatch Empty s \<longleftrightarrow> s = []"
  by (auto simp: fullmatch_lang)

lemma lpow_Cls: "lpow {[c] | c. p c} n = {s. length s = n \<and> list_all p s}"
proof (induction n)
  case (Suc n)
  show ?case
    by (auto simp: Suc conc_Cls length_Suc_conv)
qed auto

lemma fullmatch_Rep_Cls [simp]:
  "fullmatch (Rep (Cls p) lo hi) s \<longleftrightarrow> lo \<le> length s \<and> length s \<le> hi \<and> list_all p s"
  by (auto simp: fullmatch_lang lpow_Cls)

lemma fullmatch_Many_Cls [simp]:
  "fullmatch (Many (Cls p) lo) s \<longleftrightarrow> lo \<le> length s \<and> list_all p s"
  by (auto simp: fullmatch_lang lpow_Cls)

lemma fullmatch_Seq_Cls [simp]:
  "fullmatch (Seq (Cls p) r) s \<longleftrightarrow> (case s of [] \<Rightarrow> False | c # t \<Rightarrow> p c \<and> fullmatch r t)"
  by (cases s) (auto simp: fullmatch_lang conc_Cls)

lemma fullmatch_Alt [simp]: "fullmatch (Alt r q) s \<longleftrightarrow> fullmatch r s \<or> fullmatch q s"
  by (simp add: fullmatch_lang)

text \<open>A literal, an optional part and a search anywhere in the text.\<close>

fun Lit :: "string \<Rightarrow> rexp" where
  "Lit [] = Empty"
| "Lit (c # s) = Seq (Cls ((=) c)) (Lit s)"

definition Opt :: "rexp \<Rightarrow> rexp" where
  "Opt r = Alt Empty r"

definition Anything :: rexp where
  "Anything = Many (Cls (\<lambda>_. True)) 0"

definition search :: "rexp \<Rightarrow> string \<Rightarrow> bool" where
  "search r s = fullmatch (Seq Anything (Seq r Anything)) s"

lemma lang_Lit [simp]: "lang (Lit s) = {s}"
  by (induction s) (auto simp: conc_def)

lemma lang_Anything [simp]: "lang Anything = UNIV"
  using fullmatch_Many_Cls [of "\<lambda>_. True" 0] by (auto simp: Anything_def fullmatch_lang list_all_iff)

lemma search_iff: "search r s \<longleftrightarrow> (\<exists>u v w. s = u @ v @ w \<and> v \<in> lang r)"
  by (auto simp: search_def fullmatch_lang conc_def)

text \<open>\<open>[lower-case hexadecimal]{n}\<close>, the digests and commit names of the repository.\<close>

definition hex_text :: "nat \<Rightarrow> string \<Rightarrow> bool" where
  "hex_text n s = fullmatch (Rep (Cls is_hex) n n) s"

end
