(* ===== verification/Py_Url.thy ===== *)
theory Py_Url
  imports Py_Prelude
begin

text \<open>
  \<open>urllib.parse.urlsplit\<close> and the attributes of its result that the endpoint checks read. A
  network location with both square brackets (an IPv6 literal) raises here; where the library
  accepts such a literal, every endpoint check of the repository refuses it in its own name.
\<close>

record url =
  scheme :: string
  netloc :: string
  path :: string
  query :: string
  fragment :: string

definition partition_at :: "char \<Rightarrow> string \<Rightarrow> string \<times> bool \<times> string" where
  "partition_at c s = (let h = takeWhile (\<lambda>x. x \<noteq> c) s in
     if length h = length s then (s, False, []) else (h, True, drop (Suc (length h)) s))"

definition rpartition_at :: "char \<Rightarrow> string \<Rightarrow> string \<times> bool \<times> string" where
  "rpartition_at c s = (case partition_at c (rev s) of (h, found, t) \<Rightarrow>
     if found then (rev t, True, rev h) else ([], False, s))"

definition scheme_char :: "char \<Rightarrow> bool" where
  "scheme_char c \<longleftrightarrow> is_alnum c \<or> c \<in> {CHR ''+'', CHR ''-'', CHR ''.''}"

definition urlsplit :: "string \<Rightarrow> url res" where
  "urlsplit u0 =
     (let u1 = filter (\<lambda>c. c \<notin> {CHR 0x09, CHR 0x0D, CHR 0x0A}) (dropWhile (\<lambda>c. code c \<le> 32) u0);
          (sch, colon, rest) = partition_at CHR '':'' u1;
          good = (colon \<and> sch \<noteq> [] \<and> (is_lower (hd sch) \<or> is_upper (hd sch)) \<and> list_all scheme_char sch);
          sc = (if good then py_lower sch else []);
          u2 = (if good then rest else u1);
          has_net = starts ''//'' u2;
          body = drop 2 u2;
          net = (if has_net then takeWhile (\<lambda>c. c \<notin> {CHR ''/'', CHR ''?'', CHR ''#''}) body else []);
          u3 = (if has_net then drop (length net) body else u2);
          (u4, _, frag) = partition_at CHR ''#'' u3;
          (pa, _, qu) = partition_at CHR ''?'' u4
      in if CHR ''['' \<in> set net \<or> CHR '']'' \<in> set net then Inl (ValueError ''Invalid IPv6 URL'')
         else Inr \<lparr>scheme = sc, netloc = net, path = pa, query = qu, fragment = frag\<rparr>)"

definition hostinfo :: "url \<Rightarrow> string \<times> string" where
  "hostinfo u = (case rpartition_at CHR ''@'' (netloc u) of (_, _, h) \<Rightarrow>
     case partition_at CHR '':'' h of (host, _, port) \<Rightarrow> (host, port))"

text \<open>\<open>hostname\<close> is \<open>None\<close> when empty; a zone after a percent sign keeps its case.\<close>

definition hostname :: "url \<Rightarrow> string option" where
  "hostname u = (let h = fst (hostinfo u) in if h = [] then None
     else case partition_at CHR ''%'' h of (a, found, z) \<Rightarrow>
       Some (py_lower a @ (if found then ''%'' else []) @ z))"

definition port :: "url \<Rightarrow> int option res" where
  "port u = (let p = snd (hostinfo u) in if p = [] then Inr None
     else if \<not> list_all is_digit p then Inl (ValueError ''Port could not be cast to integer value'')
     else if 65535 < (foldl (\<lambda>n c. 10 * n + int (digit_val c)) 0 p) then Inl (ValueError ''Port out of range 0-65535'')
     else Inr (Some (foldl (\<lambda>n c. 10 * n + int (digit_val c)) 0 p)))"

definition username :: "url \<Rightarrow> string" where
  "username u = (case rpartition_at CHR ''@'' (netloc u) of (info, found, _) \<Rightarrow>
     if found then fst (partition_at CHR '':'' info) else [])"

definition password :: "url \<Rightarrow> string" where
  "password u = (case rpartition_at CHR ''@'' (netloc u) of (info, found, _) \<Rightarrow>
     if found then snd (snd (partition_at CHR '':'' info)) else [])"

text \<open>\<open>username\<close> and \<open>password\<close> are only tested for truth, where \<open>None\<close> and \<open>''\<close> agree.\<close>

lemma takeWhile_no: "c \<notin> set s \<Longrightarrow> takeWhile (\<lambda>x. x \<noteq> c) s = s"
  by (induction s) auto

lemma partition_at_no: "c \<notin> set s \<Longrightarrow> partition_at c s = (s, False, [])"
  by (simp add: partition_at_def takeWhile_no)

lemma partition_at_found: "c \<notin> set a \<Longrightarrow> partition_at c (a @ c # b) = (a, True, b)"
proof -
  assume "c \<notin> set a"
  then have "takeWhile (\<lambda>x. x \<noteq> c) (a @ c # b) = a"
    by (induction a) auto
  then show ?thesis by (simp add: partition_at_def)
qed

lemma partition_at_eq: "partition_at c s = (a, f, b) \<Longrightarrow> s = a @ (if f then c # b else [])"
proof -
  assume p: "partition_at c s = (a, f, b)"
  show ?thesis
  proof (cases "c \<in> set s")
    case True
    then obtain x y where "s = x @ c # y" "c \<notin> set x" by (meson split_list_first)
    with p show ?thesis by (auto simp: partition_at_found)
  next
    case False
    with p show ?thesis by (auto simp: partition_at_no)
  qed
qed

end
