(* ===== verification/Site_Registry.thy ===== *)
theory Site_Registry
  imports Py_Json Py_Regex Py_Url
begin

text \<open>
  \<open>scripts/openclaw_site_registry.py\<close>: the operator's website profiles. A profile is the decoded
  configuration document itself, checked field by field in the order of the source; the
  registry is the association list \<open>_profiles\<close> from account names to checked profiles. The
  parameter \<open>fi\<close> is \<open>date.fromisoformat\<close> as the day's ordinal (None where it raises).
\<close>

definition SCOPES :: "string list" where
  "SCOPES = [''search'', ''prepare_booking'', ''prepare_purchase'', ''read'']"

definition OPERATIONS :: "string list" where
  "OPERATIONS = [''search'', ''prepare'', ''read'']"

definition LOGIN_MODES :: "string list" where
  "LOGIN_MODES = [''automatic'', ''owner'']"

definition ACTIONS :: "string list" where
  "ACTIONS = [''navigate'', ''login'', ''fill'', ''submit_search'', ''read'', ''prepare'']"

definition FORBIDDEN_FIELDS :: "string list" where
  "FORBIDDEN_FIELDS = [''url'', ''uri'', ''targeturl'', ''selector'', ''selectors'', ''headers'', ''cookie'', ''cookies'',
     ''password'', ''credential'', ''credentials'', ''credentialid'', ''secret'', ''secretid'',
     ''token'', ''accesstoken'', ''config'', ''driver'', ''javascript'', ''script'', ''command'',
     ''username'', ''login'', ''loginmode'', ''email'']"

section \<open>Text checks\<close>

definition host_char :: "char \<Rightarrow> bool" where
  "host_char c \<longleftrightarrow> is_lower c \<or> is_digit c"

definition host_tail :: rexp where
  "host_tail = Opt (Seq (Rep (Cls (\<lambda>c. host_char c \<or> c = CHR ''-'')) 0 61) (Cls host_char))"

definition HOST_PATTERN :: rexp where
  "HOST_PATTERN = Seq (Many (Seq (Cls host_char) (Seq host_tail (Lit ''.''))) 1) (Seq (Cls is_lower) host_tail)"

text \<open>
  The lookahead \<open>(?=.{1,253}$)\<close> bounds the length, since no character the rest accepts is a
  line break. \<open>ipaddress.ip_address\<close> accepts four decimal octets (an IPv6 address holds a colon,
  which the pattern has refused).
\<close>

definition is_ipv4 :: "string \<Rightarrow> bool" where
  "is_ipv4 s \<longleftrightarrow> (let parts = split_on CHR ''.'' s in length parts = 4 \<and>
     (\<forall>p \<in> set parts. p \<noteq> [] \<and> length p \<le> 3 \<and> list_all is_digit p \<and> (p = ''0'' \<or> hd p \<noteq> CHR ''0'') \<and> dec_val p \<le> 255))"

definition account_name :: "json \<Rightarrow> string res" where
  "account_name v = (case v of
       JStr s \<Rightarrow>
         if \<not> (1 \<le> length s \<and> length s \<le> 253 \<and> fullmatch HOST_PATTERN s)
            \<or> (\<exists>e \<in> set [''.localhost'', ''.local'', ''.internal'', ''.lan'', ''.home'', ''.arpa'', ''.ts.net'']. ends e s)
         then Inl (SiteRefused ''Website identifier refused'')
         else if is_ipv4 s then Inl (SiteRefused ''Website identifier refused'')
         else Inr s
     | _ \<Rightarrow> Inl (SiteRefused ''Website identifier refused''))"

definition has_control :: "string \<Rightarrow> bool" where
  "has_control s \<longleftrightarrow> (\<exists>c \<in> set s. code c < 32 \<or> code c = 127)"

definition text_of :: "json \<Rightarrow> nat \<Rightarrow> string res" where
  "text_of v maximum = (case v of
       JStr s \<Rightarrow> if 1 \<le> length s \<and> length s \<le> maximum \<and> \<not> has_control s then Inr s
                 else Inl (SiteRefused ''Website profile refused'')
     | _ \<Rightarrow> Inl (SiteRefused ''Website profile refused''))"

definition field_name :: "string \<Rightarrow> string res" where
  "field_name s = (if fullmatch (Seq (Cls is_lower) (Rep (Cls (\<lambda>c. is_lower c \<or> is_digit c \<or> c = CHR ''_'')) 0 31)) s
       \<and> py_replace ''_'' [] s \<notin> set FORBIDDEN_FIELDS
     then Inr s else Inl (SiteRefused ''Operation parameter field refused''))"

text \<open>\<open>[A-Za-z][A-Za-z0-9+.-]*://|javascript:|data:\<close>, ignoring case.\<close>

fun LitI :: "string \<Rightarrow> rexp" where
  "LitI [] = Empty"
| "LitI (c # s) = Seq (Cls (\<lambda>x. lower_char x = c)) (LitI s)"

definition URL_TEXT :: rexp where
  "URL_TEXT = Alt (Seq (Cls (\<lambda>c. is_lower c \<or> is_upper c)) (Seq (Many (Cls scheme_char) 0) (Lit ''://'')))
     (Alt (LitI ''javascript:'') (LitI ''data:''))"

definition parameter_envelope :: "env \<Rightarrow> json \<Rightarrow> dict res" where
  "parameter_envelope E v = (case v of
       JObj d \<Rightarrow>
         if length d > 16 \<or> utf8_len (dumps (float_text E) plain_style v) > 4096
         then Inl (SiteRefused ''Website operation parameters refused'')
         else bindr (for_each (\<lambda>(name, entry).
             bindr (field_name name) (\<lambda>_.
             case entry of
               JStr s \<Rightarrow> require (\<not> (length s > 512 \<or> has_control s \<or> search URL_TEXT s))
                           (SiteRefused ''Website operation parameters refused'')
             | _ \<Rightarrow> require (type_is_bool entry \<or> (type_is_int entry \<and> -100000 \<le> int_of entry \<and> int_of entry \<le> 100000))
                      (SiteRefused ''Website operation parameters refused''))) d)
           (\<lambda>_. Inr d)
     | _ \<Rightarrow> Inl (SiteRefused ''Website operation parameters refused''))"

definition https_url :: "json \<Rightarrow> string list \<Rightarrow> bool \<Rightarrow> string res" where
  "https_url v domains post =
     bindr (text_of v 2048) (\<lambda>s.
     bindr (urlsplit s) (\<lambda>u.
     if scheme u \<noteq> ''https'' \<or> hostname u \<notin> Some ` set domains \<or> username u \<noteq> [] \<or> password u \<noteq> []
        \<or> Some (netloc u) \<noteq> hostname u \<or> fragment u \<noteq> [] \<or> CHR 0x5C \<in> set s \<or> CHR ''{'' \<in> set s \<or> CHR ''}'' \<in> set s
        \<or> (\<exists>c \<in> set s. is_space c) \<or> post \<and> query u \<noteq> []
     then Inl (SiteRefused ''Website endpoint refused'') else Inr s))"

definition selector :: "json \<Rightarrow> string res" where
  "selector v = bindr (text_of v 240) (\<lambda>s.
     if \<exists>f \<in> set [''javascript:'', ''<script'', ''eval('', ''=>'']. contains f (py_lower s)
     then Inl (SiteRefused ''Website selector refused'') else Inr s)"

section \<open>Parameter schemas\<close>

definition parameter_rule :: "json \<Rightarrow> dict res" where
  "parameter_rule v = (case v of
       JObj rule \<Rightarrow>
         if get rule ''type'' \<notin> {JStr ''string'', JStr ''integer'', JStr ''boolean''}
         then Inl (SiteRefused ''Operation parameter schema refused'')
         else if get rule ''type'' = JStr ''string'' then
           (let low = get_or rule ''minLength'' (JInt 0); high = get_or rule ''maxLength'' (JInt 256) in
            if \<not> set (keys rule) \<subseteq> {''type'', ''minLength'', ''maxLength'', ''enum'', ''format''}
            then Inl (SiteRefused ''Operation parameter schema refused'')
            else if \<not> (type_is_int low \<and> type_is_int high \<and> 0 \<le> int_of low \<and> int_of low \<le> int_of high \<and> int_of high \<le> 512)
            then Inl (SiteRefused ''Operation string bounds refused'')
            else if has rule ''format'' \<and> get rule ''format'' \<noteq> JStr ''date''
            then Inl (SiteRefused ''Operation string format refused'')
            else if has rule ''enum'' \<and>
                \<not> (case get rule ''enum'' of
                     JArr xs \<Rightarrow> 1 \<le> length xs \<and> length xs \<le> 32 \<and>
                       list_all (\<lambda>x. case x of JStr t \<Rightarrow> int_of low \<le> int (length t) \<and> int (length t) \<le> int_of high | _ \<Rightarrow> False) xs
                   | _ \<Rightarrow> False)
            then Inl (SiteRefused ''Operation string choices refused'')
            else Inr rule)
         else if get rule ''type'' = JStr ''integer'' then
           (let low = get_or rule ''minimum'' (JInt (-100000)); high = get_or rule ''maximum'' (JInt 100000) in
            if \<not> set (keys rule) \<subseteq> {''type'', ''minimum'', ''maximum''}
            then Inl (SiteRefused ''Operation parameter schema refused'')
            else if \<not> (type_is_int low \<and> type_is_int high \<and> -100000 \<le> int_of low \<and> int_of low \<le> int_of high \<and> int_of high \<le> 100000)
            then Inl (SiteRefused ''Operation integer bounds refused'')
            else Inr rule)
         else if \<not> same_keys rule [''type''] then Inl (SiteRefused ''Operation parameter schema refused'')
         else Inr rule
     | _ \<Rightarrow> Inl (SiteRefused ''Operation parameter schema refused''))"

text \<open>A list of distinct texts, as its texts.\<close>

definition strings :: "json \<Rightarrow> string list option" where
  "strings v = (case v of JArr xs \<Rightarrow> if list_all is_str xs then Some (map str_of xs) else None | _ \<Rightarrow> None)"

definition entry_strings :: "dict \<Rightarrow> string \<Rightarrow> string list" where
  "entry_strings d k = (case strings (get d k) of None \<Rightarrow> [] | Some xs \<Rightarrow> xs)"

definition form_operation :: "dict \<Rightarrow> string list \<Rightarrow> string \<times> json \<Rightarrow> unit res" where
  "form_operation profile domains e = (case e of (operation, JObj specification) \<Rightarrow>
       if \<not> {''url'', ''fields''} \<subseteq> set (keys specification)
          \<or> \<not> set (keys specification) \<subseteq> {''url'', ''fields'', ''submit_selector'', ''result_selector''}
       then Inl (SiteRefused ''Website form operation refused'')
       else bindr (https_url (get specification ''url'') domains False) (\<lambda>_.
         case get specification ''fields'' of
           JObj flds \<Rightarrow>
             if \<not> set (keys flds) \<subseteq> set (keys (dict_of (get (dict_of (get (dict_of (get profile ''operations'')) operation)) ''parameters'')))
             then Inl (SiteRefused ''Website form fields refused'')
             else if operation = ''read'' \<and> flds \<noteq> [] then Inl (SiteRefused ''Read operation cannot fill a form'')
             else bindr (for_each (\<lambda>(_, w). bindr (selector w) (\<lambda>_. Inr ())) flds) (\<lambda>_.
               bindr (if has specification ''submit_selector'' then
                   if operation \<noteq> ''search'' \<or> ''submit_search'' \<notin> set (entry_strings profile ''actions'')
                   then Inl (SiteRefused ''Preparation cannot submit a transaction'')
                   else bindr (selector (get specification ''submit_selector'')) (\<lambda>_. Inr ())
                 else Inr ()) (\<lambda>_.
               bindr (if has specification ''result_selector''
                   then bindr (selector (get specification ''result_selector'')) (\<lambda>_. Inr ()) else Inr ()) (\<lambda>_.
               require (set ([''navigate'', ''read''] @ (if flds \<noteq> [] then [''fill''] else [])) \<subseteq> set (entry_strings profile ''actions''))
                 (SiteRefused ''Website action policy differs''))))
         | _ \<Rightarrow> Inl (SiteRefused ''Website form fields refused''))
     | _ \<Rightarrow> Inl (SiteRefused ''Website form operation refused''))"

definition login_check :: "dict \<Rightarrow> dict \<Rightarrow> unit res" where
  "login_check profile config =
     (let req = [''username_selector'', ''password_selector'', ''submit_selector'', ''success_selector''] in
      case get config ''login'' of
        JObj login \<Rightarrow>
          if \<not> set req \<subseteq> set (keys login) \<or> \<not> set (keys login) \<subseteq> set (''username_continue_selector'' # req) \<or> \<not> has config ''login_url''
          then Inl (SiteRefused ''Website login configuration refused'')
          else bindr (for_each (\<lambda>(_, w). bindr (selector w) (\<lambda>_. Inr ())) login) (\<lambda>_.
            require ({''navigate'', ''login'', ''fill''} \<subseteq> set (entry_strings profile ''actions''))
              (SiteRefused ''Website login action policy differs''))
      | _ \<Rightarrow> Inl (SiteRefused ''Website login configuration refused''))"

definition network_post :: "string list \<Rightarrow> string \<times> json \<Rightarrow> unit res" where
  "network_post domains e = (case e of (u, purposes) \<Rightarrow>
     bindr (https_url (JStr u) domains True) (\<lambda>_.
     case strings purposes of
       None \<Rightarrow> Inl (SiteRefused ''Website network policy refused'')
     | Some ps \<Rightarrow> require (ps \<noteq> [] \<and> distinct ps \<and> set ps \<subseteq> {''LOGIN'', ''READ''}) (SiteRefused ''Website network policy refused'')))"

definition driver_configuration :: "dict \<Rightarrow> unit res" where
  "driver_configuration profile = (let domains = entry_strings profile ''domains'' in
     case get profile ''driver_config'' of
       JObj config \<Rightarrow>
         if \<not> set (keys config) \<subseteq> {''login_url'', ''login'', ''operations'', ''network_posts''}
         then Inl (SiteRefused ''Website driver configuration refused'')
         else if get profile ''login_mode'' = JStr ''owner'' \<and> \<not> has config ''login_url''
         then Inl (SiteRefused ''Owner sign-in requires a registered login endpoint'')
         else bindr (if has config ''login_url'' then bindr (https_url (get config ''login_url'') domains False) (\<lambda>_. Inr ()) else Inr ()) (\<lambda>_.
           bindr (if has config ''login'' then login_check profile config else Inr ()) (\<lambda>_.
           case get_or config ''network_posts'' (JObj []) of
             JObj posts \<Rightarrow>
               if length posts > 32 then Inl (SiteRefused ''Website network policy refused'')
               else bindr (for_each (network_post domains) posts) (\<lambda>_.
               case get_or config ''operations'' (JObj []) of
                 JObj operations \<Rightarrow>
                   if \<not> set (keys operations) \<subseteq> set (keys (dict_of (get profile ''operations'')))
                   then Inl (SiteRefused ''Website form operations refused'')
                   else if get profile ''driver'' = JStr ''form'' \<and> set (keys operations) \<noteq> set (keys (dict_of (get profile ''operations'')))
                   then Inl (SiteRefused ''Complete reviewed form operations required'')
                   else for_each (form_operation profile domains) operations
               | _ \<Rightarrow> Inl (SiteRefused ''Website form operations refused''))
           | _ \<Rightarrow> Inl (SiteRefused ''Website network policy refused'')))
     | _ \<Rightarrow> Inl (SiteRefused ''Website driver configuration refused''))"

section \<open>Profiles\<close>

definition policy_list :: "dict \<Rightarrow> string \<times> nat \<Rightarrow> unit res" where
  "policy_list profile e = (case e of (key, maximum) \<Rightarrow>
     case strings (get profile key) of
       None \<Rightarrow> Inl (SiteRefused ''Website policy list refused'')
     | Some xs \<Rightarrow> require (1 \<le> length xs \<and> length xs \<le> maximum \<and> distinct xs) (SiteRefused ''Website policy list refused''))"

definition profile_operation :: "dict \<Rightarrow> string \<times> json \<Rightarrow> unit res" where
  "profile_operation profile e = (case e of (operation, JObj specification) \<Rightarrow>
       if \<not> same_keys specification [''scope'', ''parameters'', ''required'']
          \<or> get specification ''scope'' \<notin> JStr ` set (entry_strings profile ''scopes'')
          \<or> operation = ''search'' \<and> get specification ''scope'' \<noteq> JStr ''search''
          \<or> operation = ''read'' \<and> get specification ''scope'' \<noteq> JStr ''read''
          \<or> operation = ''prepare'' \<and> get specification ''scope'' \<notin> {JStr ''prepare_booking'', JStr ''prepare_purchase''}
       then Inl (SiteRefused ''Website operation scope refused'')
       else (case (get specification ''parameters'', strings (get specification ''required'')) of
           (JObj parameters, Some required) \<Rightarrow>
             if length parameters > 16 \<or> \<not> distinct required \<or> \<not> set required \<subseteq> set (keys parameters)
             then Inl (SiteRefused ''Website operation fields refused'')
             else for_each (\<lambda>(name, rule). bindr (field_name name) (\<lambda>_. bindr (parameter_rule rule) (\<lambda>_. Inr ()))) parameters
         | _ \<Rightarrow> Inl (SiteRefused ''Website operation fields refused''))
     | _ \<Rightarrow> Inl (SiteRefused ''Website operation scope refused''))"

text \<open>The two \<open>setdefault\<close> calls, and the checks that follow them in \<open>validate_profile\<close>.\<close>

definition set_defaults :: "dict \<Rightarrow> dict" where
  "set_defaults value =
     (let p1 = (if has value ''qualified'' then value else value @ [(''qualified'', JBool False)])
      in if has p1 ''login_mode'' then p1 else p1 @ [(''login_mode'', JStr ''automatic'')])"

definition profile_operations :: "dict \<Rightarrow> unit res" where
  "profile_operations profile = (case get profile ''operations'' of
       JObj operations \<Rightarrow>
         if operations = [] \<or> \<not> set (keys operations) \<subseteq> set OPERATIONS
         then Inl (SiteRefused ''Website operations refused'')
         else bindr (for_each (profile_operation profile) operations) (\<lambda>_.
           require ((\<lambda>(_, s). get (dict_of s) ''scope'') ` set operations = JStr ` set (entry_strings profile ''scopes''))
             (SiteRefused ''Website scope has no registered operation''))
     | _ \<Rightarrow> Inl (SiteRefused ''Website operations refused''))"

definition profile_policy :: "string \<Rightarrow> dict \<Rightarrow> unit res" where
  "profile_policy account profile =
     (if get profile ''login_mode'' \<notin> JStr ` set LOGIN_MODES
      then Inl (SiteRefused ''Website login mode refused'')
      else bindr (for_each (policy_list profile) [(''domains'', 24), (''scopes'', 4), (''actions'', 6)]) (\<lambda>_.
        bindr (for_each (\<lambda>d. bindr (account_name (JStr d)) (\<lambda>_. Inr ())) (entry_strings profile ''domains'')) (\<lambda>_.
        if account \<notin> set (entry_strings profile ''domains'')
        then Inl (SiteRefused ''Website account domain must be registered'')
        else if \<not> set (entry_strings profile ''scopes'') \<subseteq> set SCOPES \<or> \<not> set (entry_strings profile ''actions'') \<subseteq> set ACTIONS
        then Inl (SiteRefused ''Website action policy refused'')
        else bindr (profile_operations profile) (\<lambda>_.
          if get profile ''driver'' = JStr ''hotels''
              \<and> \<not> set [''navigate'', ''login'', ''fill'', ''submit_search'', ''read''] \<subseteq> set (entry_strings profile ''actions'')
          then Inl (SiteRefused ''Hotels driver action policy differs'')
          else driver_configuration profile))))"

definition validate_profile :: "json \<Rightarrow> dict res" where
  "validate_profile v =
     (let req = [''account'', ''label'', ''driver'', ''domains'', ''scopes'', ''actions'', ''operations'', ''driver_config''] in
      case v of JObj value \<Rightarrow>
        if \<not> set req \<subseteq> set (keys value) \<or> \<not> set (keys value) \<subseteq> set (''qualified'' # ''login_mode'' # req)
        then Inl (SiteRefused ''Website profile refused'')
        else bindr (account_name (get value ''account'')) (\<lambda>account.
          bindr (text_of (get value ''label'') 80) (\<lambda>_.
          if get value ''driver'' \<notin> {JStr ''hotels'', JStr ''form''} \<or> \<not> type_is_bool (get_or value ''qualified'' (JBool False))
          then Inl (SiteRefused ''Website driver refused'')
          else bindr (profile_policy account (set_defaults value)) (\<lambda>_. Inr (set_defaults value))))
      | _ \<Rightarrow> Inl (SiteRefused ''Website profile refused''))"

section \<open>The registry\<close>

type_synonym registry = "(string \<times> dict) list"

fun register_all :: "json list \<Rightarrow> registry \<Rightarrow> registry res" where
  "register_all [] reg = Inr reg"
| "register_all (c # cs) reg = bindr (validate_profile c) (\<lambda>profile.
     if str_of (get profile ''account'') \<in> fst ` set reg then Inl (SiteRefused ''Duplicate website profile refused'')
     else register_all cs (reg @ [(str_of (get profile ''account''), profile)]))"

definition site_registry :: "json \<Rightarrow> registry res" where
  "site_registry v = (case v of
       JArr profiles \<Rightarrow> if length profiles > 32 then Inl (SiteRefused ''Website registry refused'') else register_all profiles []
     | _ \<Rightarrow> Inl (SiteRefused ''Website registry refused''))"

text \<open>\<open>from_file\<close> decodes every object through \<open>unique\<close>, which refuses a repeated field.\<close>

fun unique :: "(string \<times> json) list \<Rightarrow> dict \<Rightarrow> dict res" where
  "unique [] value = Inr value"
| "unique ((key, entry) # pairs) value =
     (if has value key then Inl (SiteRefused ''Duplicate website configuration field refused'')
      else unique pairs (value @ [(key, entry)]))"

definition from_config :: "json \<Rightarrow> registry res" where
  "from_config v = (case v of
       JObj config \<Rightarrow>
         if \<not> same_keys config [''schema_version'', ''sites''] \<or> get config ''schema_version'' \<noteq> JInt 1
         then Inl (SiteRefused ''Website registry refused'') else site_registry (get config ''sites'')
     | _ \<Rightarrow> Inl (SiteRefused ''Website registry refused''))"

definition accounts :: "registry \<Rightarrow> string list" where
  "accounts reg = map fst (sort_keys reg)"

definition profile :: "registry \<Rightarrow> json \<Rightarrow> dict res" where
  "profile reg account = bindr (account_name account) (\<lambda>a.
     case map_of reg a of None \<Rightarrow> Inl (SiteRefused ''Website is not registered'') | Some p \<Rightarrow> Inr p)"

definition validate_scope :: "registry \<Rightarrow> json \<Rightarrow> json \<Rightarrow> string res" where
  "validate_scope reg account scope = bindr (profile reg account) (\<lambda>p.
     if scope \<in> JStr ` set (entry_strings p ''scopes'') then Inr (str_of scope)
     else Inl (SiteRefused ''Website scope is not registered''))"

definition operation_scope :: "registry \<Rightarrow> json \<Rightarrow> json \<Rightarrow> json res" where
  "operation_scope reg account operation = bindr (profile reg account) (\<lambda>p.
     if operation \<in> JStr ` set (keys (dict_of (get p ''operations'')))
     then Inr (get (dict_of (get (dict_of (get p ''operations'')) (str_of operation))) ''scope'')
     else Inl (SiteRefused ''Website operation is not registered''))"

text \<open>\<open>allows_url\<close> catches \<open>ValueError\<close> and \<open>TypeError\<close>, which is all its calls raise.\<close>

definition allows_url :: "registry \<Rightarrow> json \<Rightarrow> json \<Rightarrow> bool" where
  "allows_url reg account u = (case bindr (profile reg account) (\<lambda>p. https_url u (entry_strings p ''domains'') False)
     of Inl _ \<Rightarrow> False | Inr _ \<Rightarrow> True)"

section \<open>Operation parameters\<close>

definition check_parameter :: "dict \<Rightarrow> string \<times> json \<Rightarrow> unit res" where
  "check_parameter schema e = (case e of (name, value) \<Rightarrow> let rule = dict_of (get schema name) in
     if get rule ''type'' = JStr ''string'' then
       (case value of
          JStr s \<Rightarrow>
            if \<not> (int_of (get_or rule ''minLength'' (JInt 0)) \<le> int (length s)
                 \<and> int (length s) \<le> int_of (get_or rule ''maxLength'' (JInt 256)))
               \<or> has_control s \<or> search URL_TEXT s
               \<or> has rule ''enum'' \<and> JStr s \<notin> set (list_of (get rule ''enum''))
            then Inl (SiteRefused ''Website text parameter refused'')
            else if get rule ''format'' = JStr ''date'' \<and> \<not> iso_date s
            then Inl (SiteRefused ''Website date parameter refused'')
            else Inr ()
        | _ \<Rightarrow> Inl (SiteRefused ''Website text parameter refused''))
     else if get rule ''type'' = JStr ''integer'' then
       require (type_is_int value \<and> int_of (get_or rule ''minimum'' (JInt (-100000))) \<le> int_of value
           \<and> int_of value \<le> int_of (get_or rule ''maximum'' (JInt 100000)))
         (SiteRefused ''Website integer parameter refused'')
     else require (type_is_bool value) (SiteRefused ''Website boolean parameter refused''))"

definition from_iso :: "(string \<Rightarrow> int option) \<Rightarrow> json \<Rightarrow> int res" where
  "from_iso fi v = (case v of JStr s \<Rightarrow> (case fi s of None \<Rightarrow> Inl (ValueError ''Invalid isoformat string'') | Some n \<Rightarrow> Inr n)
     | _ \<Rightarrow> Inl TypeError)"

definition validate_parameters :: "env \<Rightarrow> (string \<Rightarrow> int option) \<Rightarrow> registry \<Rightarrow> json \<Rightarrow> json \<Rightarrow> json \<Rightarrow> dict res" where
  "validate_parameters E fi reg account operation v =
     bindr (profile reg account) (\<lambda>p.
     bindr (operation_scope reg account operation) (\<lambda>_.
     let specification = dict_of (get (dict_of (get p ''operations'')) (str_of operation));
         schema = dict_of (get specification ''parameters'')
     in case v of
       JObj parameters \<Rightarrow>
         if \<not> set (entry_strings specification ''required'') \<subseteq> set (keys parameters)
            \<or> \<not> set (keys parameters) \<subseteq> set (keys schema)
            \<or> utf8_len (dumps (float_text E) plain_style v) > 4096
         then Inl (SiteRefused ''Website operation parameters refused'')
         else bindr (for_each (check_parameter schema) parameters) (\<lambda>_.
           if has parameters ''check_in'' \<and> has parameters ''check_out'' then
             bindr (from_iso fi (get parameters ''check_in'')) (\<lambda>start.
             bindr (from_iso fi (get parameters ''check_out'')) (\<lambda>finish.
             if 1 \<le> finish - start \<and> finish - start \<le> 365 then Inr parameters
             else Inl (SiteRefused ''Website stay duration refused'')))
           else Inr parameters)
     | _ \<Rightarrow> Inl (SiteRefused ''Website operation parameters refused'')))"


section \<open>The default registry\<close>

definition HOTEL_PARAMETERS :: dict where
  "HOTEL_PARAMETERS =
     [(''destination'', JObj [(''type'', JStr ''string''), (''minLength'', JInt 1), (''maxLength'', JInt 160)]),
      (''check_in'', JObj [(''type'', JStr ''string''), (''format'', JStr ''date''), (''maxLength'', JInt 10)]),
      (''check_out'', JObj [(''type'', JStr ''string''), (''format'', JStr ''date''), (''maxLength'', JInt 10)]),
      (''adults'', JObj [(''type'', JStr ''integer''), (''minimum'', JInt 1), (''maximum'', JInt 32)]),
      (''rooms'', JObj [(''type'', JStr ''integer''), (''minimum'', JInt 1), (''maximum'', JInt 16)])]"

definition DEFAULT_HOTELS :: dict where
  "DEFAULT_HOTELS =
     [(''account'', JStr ''hotels.com''), (''label'', JStr ''Hotels.com''), (''driver'', JStr ''hotels''),
      (''domains'', JArr [JStr ''hotels.com'', JStr ''www.hotels.com'', JStr ''da.hotels.com'']),
      (''scopes'', JArr [JStr ''search'', JStr ''prepare_booking'', JStr ''read'']),
      (''actions'', JArr (map (\<lambda>e. JStr (fst e)) (sort_keys (map (\<lambda>a. (a, ())) ACTIONS)))),
      (''operations'', JObj
        [(''search'', JObj [(''scope'', JStr ''search''), (''parameters'', JObj HOTEL_PARAMETERS),
            (''required'', JArr (map JStr (keys HOTEL_PARAMETERS)))]),
         (''prepare'', JObj [(''scope'', JStr ''prepare_booking''), (''parameters'', JObj HOTEL_PARAMETERS),
            (''required'', JArr (map JStr (keys HOTEL_PARAMETERS)))]),
         (''read'', JObj [(''scope'', JStr ''read''), (''parameters'', JObj []), (''required'', JArr [])])]),
      (''driver_config'', JObj [(''login_url'', JStr ''https://da.hotels.com/login'')]),
      (''login_mode'', JStr ''owner''), (''qualified'', JBool False)]"

lemma default_profile: "validate_profile (JObj DEFAULT_HOTELS) = Inr DEFAULT_HOTELS"
  by code_simp


section \<open>What a checked profile guarantees\<close>

lemma account_name_Inr: "account_name v = Inr s \<Longrightarrow> v = JStr s"
  by (auto simp: account_name_def split: json.splits if_splits)

text \<open>A public host name: it matches the pattern, is no address and no name of a private zone.\<close>

definition public_host :: "string \<Rightarrow> bool" where
  "public_host s \<longleftrightarrow> length s \<le> 253 \<and> fullmatch HOST_PATTERN s \<and> \<not> is_ipv4 s
     \<and> (\<forall>e \<in> set [''.localhost'', ''.local'', ''.internal'', ''.lan'', ''.home'', ''.arpa'', ''.ts.net'']. \<not> ends e s)"

lemma account_name_public: "account_name v = Inr s \<Longrightarrow> public_host (str_of v)"
  by (auto simp: account_name_def public_host_def split: json.splits if_splits)

definition operation_of :: "dict \<Rightarrow> string \<Rightarrow> dict" where
  "operation_of p operation = dict_of (get (dict_of (get p ''operations'')) operation)"

definition good_profile :: "string \<Rightarrow> dict \<Rightarrow> bool" where
  "good_profile a p \<longleftrightarrow> get p ''account'' = JStr a \<and> a \<in> set (entry_strings p ''domains'')
     \<and> (\<forall>d \<in> set (entry_strings p ''domains''). public_host d)
     \<and> set (entry_strings p ''scopes'') \<subseteq> set SCOPES \<and> set (entry_strings p ''actions'') \<subseteq> set ACTIONS
     \<and> set (keys (dict_of (get p ''operations''))) \<subseteq> set OPERATIONS
     \<and> (\<forall>e \<in> set (dict_of (get p ''operations'')). profile_operation p e = Inr ())
     \<and> driver_configuration p = Inr ()"

lemma get_append_absent: "\<not> has d k \<Longrightarrow> get (d @ [(k, v)]) k' = (if k' = k then v else get d k')"
  by (auto simp: get_def get_or_def has_def map_add_def split: option.splits)

lemma get_set_defaults: "k \<notin> {''qualified'', ''login_mode''} \<Longrightarrow> get (set_defaults d) k = get d k"
  by (auto simp: set_defaults_def Let_def get_append_absent)

lemma profile_policy_good:
  assumes "profile_policy a p = Inr ()" and "get p ''account'' = JStr a"
  shows "good_profile a p"
proof -
  from assms have "for_each (\<lambda>d. bindr (account_name (JStr d)) (\<lambda>_. Inr ())) (entry_strings p ''domains'') = Inr ()"
      "a \<in> set (entry_strings p ''domains'')" "set (entry_strings p ''scopes'') \<subseteq> set SCOPES"
      "set (entry_strings p ''actions'') \<subseteq> set ACTIONS" "profile_operations p = Inr ()" "driver_configuration p = Inr ()"
    by (simp_all add: profile_policy_def res_iffs split: if_splits)
  then show ?thesis
    using assms(2) account_name_public [of "JStr _"]
    by (auto simp: good_profile_def profile_operations_def res_iffs split: json.splits if_splits)
qed

lemma validate_profile_good:
  assumes "validate_profile v = Inr p"
  shows "good_profile (str_of (get p ''account'')) p"
proof -
  from assms obtain d a where d: "v = JObj d" "account_name (get d ''account'') = Inr a"
      "profile_policy a (set_defaults d) = Inr ()" "p = set_defaults d"
    by (cases v) (auto simp: validate_profile_def Let_def res_iffs simp del: list.set split: if_splits)
  with account_name_Inr [OF d(2)] profile_policy_good [OF d(3)] show ?thesis
    by (simp add: get_set_defaults)
qed

definition good_registry :: "registry \<Rightarrow> bool" where
  "good_registry reg \<longleftrightarrow> distinct (map fst reg) \<and> (\<forall>(a, p) \<in> set reg. good_profile a p)"

lemma register_all_good:
  "register_all cs reg = Inr reg' \<Longrightarrow> good_registry reg \<Longrightarrow> good_registry reg' \<and> length reg' = length cs + length reg"
proof (induction cs arbitrary: reg)
  case (Cons c cs)
  then obtain p where p: "validate_profile c = Inr p" "str_of (get p ''account'') \<notin> fst ` set reg"
      "register_all cs (reg @ [(str_of (get p ''account''), p)]) = Inr reg'"
    by (auto simp: res_iffs split: if_splits)
  have "good_registry (reg @ [(str_of (get p ''account''), p)])"
    using Cons.prems(2) p(1,2) validate_profile_good by (auto simp: good_registry_def)
  with Cons.IH [OF p(3)] show ?case by simp
qed simp

lemma site_registry_good: "site_registry v = Inr reg \<Longrightarrow> good_registry reg \<and> length reg \<le> 32"
proof -
  assume "site_registry v = Inr reg"
  then obtain cs where "length cs \<le> 32" "register_all cs [] = Inr reg"
    by (cases v) (auto simp: site_registry_def not_less split: if_splits)
  moreover have "good_registry []" by (simp add: good_registry_def)
  ultimately show ?thesis using register_all_good [of cs "[]" reg] by simp
qed

lemma registry_lookup: "good_registry reg \<Longrightarrow> profile reg account = Inr p \<Longrightarrow> \<exists>a. account = JStr a \<and> (a, p) \<in> set reg \<and> good_profile a p"
  by (auto simp: profile_def good_registry_def res_iffs dest!: account_name_Inr dest: map_of_SomeD split: option.splits)

lemma https_url_Inr:
  "https_url v domains post = Inr s \<Longrightarrow> v = JStr s \<and> 1 \<le> length s \<and> length s \<le> 2048 \<and> \<not> has_control s \<and> (\<forall>c \<in> set s. \<not> is_space c)
     \<and> (\<exists>u. urlsplit s = Inr u \<and> scheme u = ''https'' \<and> netloc u \<in> set domains \<and> hostname u = Some (netloc u) \<and> fragment u = []
          \<and> username u = [] \<and> password u = [] \<and> (post \<longrightarrow> query u = []))"
  by (auto simp: https_url_def text_of_def res_iffs split: json.splits if_splits)

lemma field_name_rules: "field_name s = Inr t \<Longrightarrow> t = s \<and> py_replace ''_'' [] s \<notin> set FORBIDDEN_FIELDS"
  by (auto simp: field_name_def split: if_splits)

text \<open>What any accepted parameter value satisfies, whatever the operator's schema says.\<close>

definition bounded_value :: "json \<Rightarrow> bool" where
  "bounded_value w = (case w of JStr s \<Rightarrow> length s \<le> 512 \<and> \<not> has_control s \<and> \<not> search URL_TEXT s
     | JInt i \<Rightarrow> -100000 \<le> i \<and> i \<le> 100000 | JBool _ \<Rightarrow> True | _ \<Rightarrow> False)"

lemma parameter_rule_string:
  "parameter_rule (JObj r) = Inr r' \<Longrightarrow> get r ''type'' = JStr ''string'' \<Longrightarrow> int_of (get_or r ''maxLength'' (JInt 256)) \<le> 512"
  by (simp add: parameter_rule_def Let_def split: if_splits)

lemma parameter_rule_integer:
  "parameter_rule (JObj r) = Inr r' \<Longrightarrow> get r ''type'' = JStr ''integer'' \<Longrightarrow>
     -100000 \<le> int_of (get_or r ''minimum'' (JInt (-100000))) \<and> int_of (get_or r ''maximum'' (JInt 100000)) \<le> 100000"
  by (simp add: parameter_rule_def Let_def split: if_splits)

lemma check_parameter_bounded:
  assumes "check_parameter schema (n, w) = Inr ()" and "get schema n = JObj r" and "parameter_rule (JObj r) = Inr r'"
  shows "bounded_value w"
proof (cases "get r ''type'' = JStr ''string''")
  case True
  with assms parameter_rule_string [OF assms(3)] show ?thesis
    by (cases w) (auto simp: check_parameter_def bounded_value_def split: if_splits)
next
  case False
  with assms parameter_rule_integer [OF assms(3)] show ?thesis
    by (cases w) (auto simp: check_parameter_def bounded_value_def type_is_int_def split: if_splits)
qed

lemma profile_operation_schema:
  assumes "profile_operation p (operation, JObj spec) = Inr ()" and "has (dict_of (get spec ''parameters'')) n"
  shows "field_name n = Inr n \<and> (\<exists>r r'. get (dict_of (get spec ''parameters'')) n = JObj r \<and> parameter_rule (JObj r) = Inr r')"
proof -
  from assms(1) obtain ps where ps: "get spec ''parameters'' = JObj ps"
      "for_each (\<lambda>(name, rule). bindr (field_name name) (\<lambda>_. bindr (parameter_rule rule) (\<lambda>_. Inr ()))) ps = Inr ()"
    by (simp add: profile_operation_def split: if_splits json.splits option.splits)
  have "field_name name = Inr name \<and> (\<exists>r'. parameter_rule rule = Inr r')" if "(name, rule) \<in> set ps" for name rule
  proof -
    have "bindr (field_name name) (\<lambda>_. bindr (parameter_rule rule) (\<lambda>_. Inr ())) = Inr ()"
      using ps(2) that unfolding for_each_Inr_iff by fastforce
    then show ?thesis using field_name_rules by (fastforce simp: bindr_Inr_iff)
  qed
  moreover have "(n, get ps n) \<in> set ps" using assms(2) ps(1) has_get by (fastforce dest: map_of_SomeD)
  ultimately have "field_name n = Inr n" "\<exists>r'. parameter_rule (get ps n) = Inr r'" by blast+
  moreover have "parameter_rule r = Inr r' \<Longrightarrow> \<exists>d. r = JObj d" for r r'
    by (cases r) (simp_all add: parameter_rule_def)
  ultimately show ?thesis using ps(1) by (metis content_simps(3))
qed

lemma from_iso_Inr: "from_iso fi w = Inr k \<Longrightarrow> \<exists>i. w = JStr i \<and> fi i = Some k"
  by (auto simp: from_iso_def split: json.splits option.splits)

section \<open>Properties\<close>

text \<open>
  C9: a registry that loads holds at most 32 sites, no account twice, and every site under its own
  account name: a public host that its own domain list contains, all of whose domains are public
  hosts, with known scopes, actions and operations only.
\<close>

theorem registry_sound:
  assumes "site_registry v = Inr reg"
  shows "good_registry reg \<and> length reg \<le> 32 \<and>
    (\<forall>(a, p) \<in> set reg. get p ''account'' = JStr a \<and> public_host a \<and> a \<in> set (entry_strings p ''domains''))"
proof -
  have "good_profile a p \<Longrightarrow> public_host a" for a p by (auto simp: good_profile_def)
  moreover have "good_profile a p \<Longrightarrow> get p ''account'' = JStr a \<and> a \<in> set (entry_strings p ''domains'')" for a p
    by (simp add: good_profile_def)
  ultimately show ?thesis using site_registry_good [OF assms] unfolding good_registry_def by blast
qed

theorem registry_sound_witness:
  "site_registry (JArr [JObj DEFAULT_HOTELS]) = Inr [(''hotels.com'', DEFAULT_HOTELS)] \<and> good_registry [(''hotels.com'', DEFAULT_HOTELS)]"
proof -
  have *: "site_registry (JArr [JObj DEFAULT_HOTELS]) = Inr [(''hotels.com'', DEFAULT_HOTELS)]"
    by (simp add: site_registry_def default_profile) (simp add: DEFAULT_HOTELS_def get_def get_or_def)
  from * registry_sound [OF *] show ?thesis by simp
qed

text \<open>
  C7: a URL the registry allows for an account is an https URL whose authority is exactly one of
  that account's registered public hosts: no port, no user name, no fragment, no blank and no
  control character.
\<close>

theorem allows_url_sound:
  assumes "site_registry v = Inr reg" and "allows_url reg account url"
  shows "\<exists>a p s u. account = JStr a \<and> (a, p) \<in> set reg \<and> url = JStr s \<and> urlsplit s = Inr u \<and> scheme u = ''https''
    \<and> netloc u \<in> set (entry_strings p ''domains'') \<and> public_host (netloc u) \<and> hostname u = Some (netloc u)
    \<and> username u = [] \<and> password u = [] \<and> fragment u = [] \<and> \<not> has_control s \<and> (\<forall>c \<in> set s. \<not> is_space c)"
proof -
  from assms(2) obtain p s where p: "profile reg account = Inr p" "https_url url (entry_strings p ''domains'') False = Inr s"
    by (auto simp: allows_url_def res_iffs split: sum.splits)
  obtain a where a: "account = JStr a" "(a, p) \<in> set reg" "good_profile a p"
    using registry_lookup site_registry_good [OF assms(1)] p(1) by blast
  have "\<forall>d \<in> set (entry_strings p ''domains''). public_host d" using a(3) by (simp add: good_profile_def)
  with a https_url_Inr [OF p(2)] show ?thesis by blast
qed

theorem allows_url_sound_witness:
  "allows_url [(''hotels.com'', DEFAULT_HOTELS)] (JStr ''hotels.com'') (JStr ''https://www.hotels.com/a?b=1'') \<and>
   (\<exists>u. urlsplit ''https://www.hotels.com/a?b=1'' = Inr u \<and> scheme u = ''https'')"
proof -
  have reg: "site_registry (JArr [JObj DEFAULT_HOTELS]) = Inr [(''hotels.com'', DEFAULT_HOTELS)]"
    by (simp add: site_registry_def default_profile) (simp add: DEFAULT_HOTELS_def get_def get_or_def)
  have "allows_url [(''hotels.com'', DEFAULT_HOTELS)] (JStr ''hotels.com'') (JStr ''https://www.hotels.com/a?b=1'')"
    by code_simp
  with allows_url_sound [OF reg this] show ?thesis by blast
qed

text \<open>
  C8: parameters that the registry accepts for an operation are the caller's own document; every
  name is declared by the operation, every required name is present, no name is one of the
  forbidden fields, and every value is a text of at most 512 characters with no URL and no control
  character, an integer of at most 100000 in size, or a boolean. A stay lasts 1 to 365 days.
\<close>

theorem parameters_sound:
  assumes reg: "site_registry v = Inr reg" and ok: "validate_parameters E fi reg account operation vals = Inr ps"
  shows "\<exists>a p oper spec. account = JStr a \<and> (a, p) \<in> set reg \<and> operation = JStr oper \<and> spec = operation_of p oper
    \<and> vals = JObj ps \<and> set (entry_strings spec ''required'') \<subseteq> set (keys ps) \<and> set (keys ps) \<subseteq> set (keys (dict_of (get spec ''parameters'')))
    \<and> (\<forall>(n, w) \<in> set ps. py_replace ''_'' [] n \<notin> set FORBIDDEN_FIELDS \<and> bounded_value w)
    \<and> (has ps ''check_in'' \<and> has ps ''check_out'' \<longrightarrow> (\<exists>i j k l. get ps ''check_in'' = JStr i \<and> get ps ''check_out'' = JStr j
        \<and> fi i = Some k \<and> fi j = Some l \<and> 1 \<le> l - k \<and> l - k \<le> 365))"
proof -
  from ok obtain p x where p: "profile reg account = Inr p" "operation_scope reg account operation = Inr x"
    by (auto simp: validate_parameters_def res_iffs)
  obtain a where a: "account = JStr a" "(a, p) \<in> set reg" "good_profile a p"
    using registry_lookup site_registry_good [OF reg] p(1) by blast
  obtain oper where oper: "operation = JStr oper" "has (dict_of (get p ''operations'')) oper"
    using p by (auto simp: operation_scope_def has_iff split: if_splits)
  define spec where "spec = operation_of p oper"
  define schema where "schema = dict_of (get spec ''parameters'')"
  from ok p oper obtain "vals = JObj ps" "set (entry_strings spec ''required'') \<subseteq> set (keys ps)" and
      keys: "set (keys ps) \<subseteq> set (keys schema)" and each: "\<forall>e \<in> set ps. check_parameter schema e = Inr ()" and
      stay: "has ps ''check_in'' \<and> has ps ''check_out'' \<longrightarrow> (\<exists>k l. from_iso fi (get ps ''check_in'') = Inr k
        \<and> from_iso fi (get ps ''check_out'') = Inr l \<and> 1 \<le> l - k \<and> l - k \<le> 365)"
    by (cases vals) (auto simp: validate_parameters_def Let_def res_iffs spec_def schema_def operation_of_def split: if_splits)
  have "(oper, get (dict_of (get p ''operations'')) oper) \<in> set (dict_of (get p ''operations''))"
    using oper(2) has_get map_of_SomeD by fastforce
  then have op: "profile_operation p (oper, get (dict_of (get p ''operations'')) oper) = Inr ()"
    using a(3) by (simp add: good_profile_def)
  then have "get (dict_of (get p ''operations'')) oper = JObj spec"
    by (auto simp: profile_operation_def spec_def operation_of_def split: json.splits)
  with op have op': "profile_operation p (oper, JObj spec) = Inr ()" by simp
  have "py_replace ''_'' [] n \<notin> set FORBIDDEN_FIELDS \<and> bounded_value w" if "(n, w) \<in> set ps" for n w
  proof -
    have "has schema n" using that keys by (force simp: has_iff Py_Prelude.keys_def)
    from profile_operation_schema [OF op' this [unfolded schema_def]] show ?thesis
      using each that check_parameter_bounded [of schema n w] field_name_rules [of n n] unfolding schema_def by blast
  qed
  moreover have "has ps ''check_in'' \<and> has ps ''check_out'' \<longrightarrow> (\<exists>i j k l. get ps ''check_in'' = JStr i \<and> get ps ''check_out'' = JStr j
        \<and> fi i = Some k \<and> fi j = Some l \<and> 1 \<le> l - k \<and> l - k \<le> 365)"
    using stay from_iso_Inr by metis
  ultimately show ?thesis
    using a oper(1) spec_def \<open>vals = JObj ps\<close> \<open>set (entry_strings spec ''required'') \<subseteq> set (keys ps)\<close> keys unfolding schema_def
    by (rule_tac x = a in exI, rule_tac x = p in exI, rule_tac x = oper in exI, rule_tac x = spec in exI) auto
qed

definition stay_parameters :: dict where
  "stay_parameters = [(''destination'', JStr ''Aarhus''), (''check_in'', JStr ''2026-05-01''), (''check_out'', JStr ''2026-05-04''),
     (''adults'', JInt 2), (''rooms'', JInt 1)]"

lemma stay_checks:
  "profile [(''hotels.com'', DEFAULT_HOTELS)] (JStr ''hotels.com'') = Inr DEFAULT_HOTELS"
  "operation_scope [(''hotels.com'', DEFAULT_HOTELS)] (JStr ''hotels.com'') (JStr ''search'') = Inr (JStr ''search'')"
  "get (dict_of (get (dict_of (get DEFAULT_HOTELS ''operations'')) ''search'')) ''parameters'' = JObj HOTEL_PARAMETERS"
  "for_each (check_parameter HOTEL_PARAMETERS) stay_parameters = Inr ()"
  "set (entry_strings (dict_of (get (dict_of (get DEFAULT_HOTELS ''operations'')) ''search'')) ''required'') \<subseteq> set (keys stay_parameters)"
  "set (keys stay_parameters) \<subseteq> set (keys HOTEL_PARAMETERS)"
  "utf8_len (dumps (\<lambda>_. []) plain_style (JObj stay_parameters)) \<le> 4096"
  "has stay_parameters ''check_in''" "has stay_parameters ''check_out''"
  "get stay_parameters ''check_in'' = JStr ''2026-05-01''" "get stay_parameters ''check_out'' = JStr ''2026-05-04''"
  by code_simp+

theorem parameters_sound_witness:
  "validate_parameters \<lparr>clock = \<lambda>_. Fin 0, uuid4 = \<lambda>_. [], token = \<lambda>_. [], sha256 = \<lambda>_. [], float_text = \<lambda>_. []\<rparr>
      (\<lambda>s. if s = ''2026-05-01'' then Some 739737 else Some 739740) [(''hotels.com'', DEFAULT_HOTELS)] (JStr ''hotels.com'') (JStr ''search'')
      (JObj stay_parameters) = Inr stay_parameters \<and> list_all (\<lambda>(n, w). bounded_value w) stay_parameters"
    (is "validate_parameters ?E ?fi ?reg ?a ?o (JObj ?ps) = _ \<and> _")
proof -
  have reg: "site_registry (JArr [JObj DEFAULT_HOTELS]) = Inr ?reg"
    by (simp add: site_registry_def default_profile) (simp add: DEFAULT_HOTELS_def get_def get_or_def)
  have *: "validate_parameters ?E ?fi ?reg ?a ?o (JObj ?ps) = Inr ?ps"
    using stay_checks by (simp add: validate_parameters_def from_iso_def)
  from * parameters_sound [OF reg *] show ?thesis unfolding list_all_iff by blast
qed

end
