(* ===== verification/Access_Grants.thy ===== *)
theory Access_Grants
  imports Ledger_Core Site_Registry
begin

text \<open>
  \<open>scripts/openclaw_access_grants.py\<close>: access requests, owner decisions and expiring grants. The
  three SQL tables are the fields of the state; every public method is one transaction that
  restores the tables when it raises. The registry and the \<open>execution_available\<close> callback of the
  constructor are arguments. The lemmas show the ledger's invariant, that a
  request moves only along pending, active and the terminal states, and what a caller may conclude
  from each method that returns.
\<close>

section \<open>State\<close>

record request_row =
  req_id :: string
  req_actor :: string
  request_key :: string
  req_scope :: string
  requested_minutes :: int
  created :: int
  req_digest :: string
  req_status :: string
  approved :: "int option"
  expires :: "int option"
  last_seen :: int
  req_account :: string

record challenge_row =
  nonce_hash :: string
  challenge_for :: string
  challenge_digest :: string
  challenge_action :: string
  challenge_expires :: int

record access = world +
  requests :: "request_row list"
  challenges :: "challenge_row list"
  events :: "(string \<times> string \<times> int) list"

type_synonym availability = "(string \<Rightarrow> string \<Rightarrow> json res) option"

section \<open>Argument checks\<close>

definition identity :: "json \<Rightarrow> string res" where
  "identity v = (case v of
       JStr s \<Rightarrow> if fullmatch (Seq (Cls is_lower) (Rep (Cls (\<lambda>c. is_lower c \<or> is_digit c \<or> c = CHR ''_'' \<or> c = CHR ''-'')) 0 31)) s
                 then Inr s else Inl (GrantRefused ''Actor refused'')
     | _ \<Rightarrow> Inl (GrantRefused ''Actor refused''))"

definition request_id :: "json \<Rightarrow> string res" where
  "request_id v = (case v of
       JStr s \<Rightarrow> bindr (uuid_of s) (\<lambda>u. if u \<noteq> s then Inl (GrantRefused ''Request reference refused'') else Inr s)
     | _ \<Rightarrow> Inl (GrantRefused ''Request reference refused''))"

definition minutes :: "json \<Rightarrow> int res" where
  "minutes v = (if \<not> type_is_int v \<or> \<not> (1 \<le> int_of v \<and> int_of v \<le> 1440)
     then Inl (GrantRefused ''Duration refused'') else Inr (int_of v))"

definition digest :: "env \<Rightarrow> dict \<Rightarrow> string" where
  "digest E d = sha256 E (dumps (float_text E) canonical_style (JObj d))"

definition REQUEST_KEY :: rexp where
  "REQUEST_KEY = Rep (Cls (\<lambda>c. is_alnum c \<or> c = CHR ''_'' \<or> c = CHR ''-'')) 16 128"

section \<open>Rows\<close>

definition now :: "env \<Rightarrow> ('a access_scheme, int) eff" where
  "now E = bindS (read_clock E) (\<lambda>t. bindS (lift (int_of_flt t)) (\<lambda>v.
     if v < 0 then raise (GrantRefused ''Clock refused'') else ret v))"

definition fetch :: "string \<Rightarrow> ('a access_scheme, request_row) eff" where
  "fetch ref = bindS (gets (\<lambda>s. find_by req_id (requests s) ref)) (\<lambda>o'.
     case o' of None \<Rightarrow> raise TypeError | Some r \<Rightarrow> ret r)"

definition log_event :: "string \<Rightarrow> string \<Rightarrow> int \<Rightarrow> ('a access_scheme, unit) eff" where
  "log_event ref action t = modify (\<lambda>s. s\<lparr>events := events s @ [(ref, action, t)]\<rparr>)"

definition delete_challenges :: "string \<Rightarrow> ('a access_scheme, unit) eff" where
  "delete_challenges ref = modify (\<lambda>s. s\<lparr>challenges := filter (\<lambda>c. challenge_for c \<noteq> ref) (challenges s)\<rparr>)"

definition update_request :: "string \<Rightarrow> (request_row \<Rightarrow> request_row) \<Rightarrow> ('a access_scheme, unit) eff" where
  "update_request ref f = modify (\<lambda>s. s\<lparr>requests := update_by req_id ref f (requests s)\<rparr>)"

text \<open>Comparing with a column that holds NULL raises \<open>TypeError\<close>.\<close>

definition expired_at :: "int \<Rightarrow> request_row \<Rightarrow> bool res" where
  "expired_at t r =
     (if req_status r \<in> {''pending'', ''active''} \<and> t < last_seen r then Inr True
      else if req_status r = ''pending'' \<and> (t < created r \<or> t \<ge> created r + 3600) then Inr True
      else if req_status r = ''active'' then
        (case approved r of None \<Rightarrow> Inl TypeError | Some a \<Rightarrow>
           if t < a then Inr True
           else (case expires r of None \<Rightarrow> Inl TypeError | Some e \<Rightarrow> Inr (t \<ge> e)))
      else Inr False)"

definition row :: "env \<Rightarrow> json \<Rightarrow> ('a access_scheme, request_row) eff" where
  "row E v =
     bindS (lift (request_id v)) (\<lambda>ref.
     bindS (gets (\<lambda>s. find_by req_id (requests s) ref)) (\<lambda>found.
     case found of
       None \<Rightarrow> raise (GrantRefused ''Request unavailable'')
     | Some r \<Rightarrow>
         bindS (now E) (\<lambda>t.
         bindS (lift (expired_at t r)) (\<lambda>expired.
         if expired then
           bindS (update_request ref (\<lambda>q. q\<lparr>req_status := ''expired''\<rparr>)) (\<lambda>_.
           bindS (delete_challenges ref) (\<lambda>_.
           bindS (log_event ref ''expired'' t) (\<lambda>_. fetch ref)))
         else if t > last_seen r then
           bindS (update_request ref (\<lambda>q. q\<lparr>last_seen := t\<rparr>)) (\<lambda>_. fetch ref)
         else ret r))))"

definition opt_int :: "int option \<Rightarrow> json" where
  "opt_int v = (case v of None \<Rightarrow> JNull | Some i \<Rightarrow> JInt i)"

definition available :: "registry \<Rightarrow> availability \<Rightarrow> string \<Rightarrow> string \<Rightarrow> bool" where
  "available reg ready account scope =
     (case bindr (profile reg (JStr account)) (\<lambda>p. bindr (validate_scope reg (JStr account) (JStr scope)) (\<lambda>_.
        if \<not> truthy (get p ''qualified'') then Inr False
        else (case ready of None \<Rightarrow> Inr False | Some f \<Rightarrow> bindr (f account scope) (\<lambda>b. Inr (b = JBool True)))))
      of Inl _ \<Rightarrow> False | Inr b \<Rightarrow> b)"

definition public :: "registry \<Rightarrow> availability \<Rightarrow> request_row \<Rightarrow> dict res" where
  "public reg ready r = bindr (account_name (JStr (req_account r))) (\<lambda>account. Inr
     [(''request_id'', JStr (req_id r)), (''actor'', JStr (req_actor r)), (''account'', JStr account),
      (''scope'', JStr (req_scope r)), (''requested_minutes'', JInt (requested_minutes r)),
      (''requested_at'', JInt (created r)), (''request_digest'', JStr (req_digest r)),
      (''status'', JStr (req_status r)), (''approved_at'', opt_int (approved r)), (''expires_at'', opt_int (expires r)),
      (''account_execution_available'', JBool (available reg ready account (req_scope r))),
      (''transaction_execution_available'', JBool False)])"

section \<open>Operations\<close>

text \<open>The row's document after its expiry has been settled: the end of most methods.\<close>

definition public_row :: "env \<Rightarrow> registry \<Rightarrow> availability \<Rightarrow> json \<Rightarrow> ('a access_scheme, dict) eff" where
  "public_row E reg ready v = bindS (row E v) (\<lambda>r. lift (public reg ready r))"

definition immutable_request :: "string \<Rightarrow> string \<Rightarrow> string \<Rightarrow> string \<Rightarrow> int \<Rightarrow> int \<Rightarrow> dict" where
  "immutable_request ref actor account scope duration t =
     [(''request_id'', JStr ref), (''actor'', JStr actor), (''account'', JStr account),
      (''scope'', JStr scope), (''requested_minutes'', JInt duration), (''requested_at'', JInt t)]"

definition insert_request :: "request_row \<Rightarrow> ('a access_scheme, unit) eff" where
  "insert_request r = bindS (gets requests) (\<lambda>rs.
     if req_id r \<in> req_id ` set rs \<or> (req_actor r, request_key r) \<in> (\<lambda>q. (req_actor q, request_key q)) ` set rs
     then raise IntegrityError else modify (\<lambda>s. s\<lparr>requests := requests s @ [r]\<rparr>))"

text \<open>The \<open>isinstance\<close> and pattern checks of \<open>request\<close>; the account, scope and key are then text.\<close>

definition request_values :: "registry \<Rightarrow> json \<Rightarrow> (string \<times> string \<times> int \<times> string) res" where
  "request_values reg v = (case v of
       JObj values \<Rightarrow>
         if \<not> same_keys values [''account'', ''scope'', ''minutes'', ''request_key'']
            \<or> get values ''scope'' \<notin> JStr ` set SCOPES
            \<or> \<not> (case get values ''request_key'' of JStr k \<Rightarrow> fullmatch REQUEST_KEY k | _ \<Rightarrow> False)
         then Inl (GrantRefused ''Access request refused'')
         else (case validate_scope reg (get values ''account'') (get values ''scope'') of
             Inl (SiteRefused _) \<Rightarrow> Inl (GrantRefused ''Website access is not registered'')
           | Inl e \<Rightarrow> Inl e
           | Inr _ \<Rightarrow> bindr (minutes (get values ''minutes'')) (\<lambda>duration.
               Inr (str_of (get values ''account''), str_of (get values ''scope''), duration, str_of (get values ''request_key''))))
     | _ \<Rightarrow> Inl (GrantRefused ''Access request refused''))"

definition pending_of :: "string \<Rightarrow> request_row list \<Rightarrow> request_row list" where
  "pending_of actor rs = filter (\<lambda>r. req_actor r = actor \<and> req_status r = ''pending'') rs"

definition request_tx :: "env \<Rightarrow> registry \<Rightarrow> availability \<Rightarrow> string \<Rightarrow> string \<times> string \<times> int \<times> string \<Rightarrow> ('a access_scheme, dict \<times> bool) eff" where
  "request_tx E reg ready actor v = (case v of (account, scope, duration, key) \<Rightarrow>
     bindS (gets (\<lambda>s. pending_of actor (requests s))) (\<lambda>pending.
     bindS (for_eachS (\<lambda>entry. bindS (row E (JStr (req_id entry))) (\<lambda>_. ret ())) pending) (\<lambda>_.
     bindS (gets (\<lambda>s. List.find (\<lambda>r. req_actor r = actor \<and> request_key r = key) (requests s))) (\<lambda>old.
     case old of
       Some r \<Rightarrow>
         if req_account r \<noteq> account \<or> req_scope r \<noteq> scope \<or> requested_minutes r \<noteq> duration
         then raise (GrantRefused ''Request key already bound'')
         else bindS (public_row E reg ready (JStr (req_id r))) (\<lambda>d. ret (d, False))
     | None \<Rightarrow>
         bindS (gets requests) (\<lambda>rs.
         if int (length rs) \<ge> 10000 then raise (GrantRefused ''Access ledger capacity reached'')
         else if length (pending_of actor rs) \<ge> 20 then raise (GrantRefused ''Pending request budget reached'')
         else
           bindS (fresh_uuid E) (\<lambda>ref.
           bindS (now E) (\<lambda>t.
           bindS (insert_request \<lparr>req_id = ref, req_actor = actor, request_key = key, req_scope = scope,
               requested_minutes = duration, created = t,
               req_digest = digest E (immutable_request ref actor account scope duration t), req_status = ''pending'',
               approved = None, expires = None, last_seen = t, req_account = account\<rparr>) (\<lambda>_.
           bindS (log_event ref ''requested'' t) (\<lambda>_.
           bindS (public_row E reg ready (JStr ref)) (\<lambda>d. ret (d, True)))))))))))"

definition request :: "env \<Rightarrow> registry \<Rightarrow> availability \<Rightarrow> json \<Rightarrow> json \<Rightarrow> ('a access_scheme, dict \<times> bool) eff" where
  "request E reg ready actor values =
     bindS (lift (identity actor)) (\<lambda>a.
     bindS (lift (request_values reg values)) (\<lambda>v.
     transaction (request_tx E reg ready a v)))"

text \<open>\<open>actor=None\<close> is the owner's view of any request.\<close>

definition actor_check :: "json \<Rightarrow> unit res" where
  "actor_check actor = (if actor = JNull then Inr () else bindr (identity actor) (\<lambda>_. Inr ()))"

definition status :: "env \<Rightarrow> registry \<Rightarrow> availability \<Rightarrow> json \<Rightarrow> json \<Rightarrow> ('a access_scheme, dict) eff" where
  "status E reg ready v actor =
     bindS (lift (actor_check actor)) (\<lambda>_. transaction (
     bindS (row E v) (\<lambda>r.
     if actor \<noteq> JNull \<and> actor \<noteq> JStr (req_actor r) then raise (GrantRefused ''Request unavailable'')
     else lift (public reg ready r))))"

definition newest_first :: "request_row \<Rightarrow> request_row \<Rightarrow> bool" where
  "newest_first a b \<longleftrightarrow> created a > created b \<or> created a = created b \<and> lex_less (req_id a) (req_id b)"

definition listing :: "env \<Rightarrow> registry \<Rightarrow> availability \<Rightarrow> ('a access_scheme, dict list) eff" where
  "listing E reg ready = transaction (
     bindS (gets (\<lambda>s. take 50 (order_by newest_first (requests s)))) (\<lambda>rs.
     mapS (\<lambda>r. public_row E reg ready (JStr (req_id r))) rs))"

definition insert_challenge :: "challenge_row \<Rightarrow> ('a access_scheme, unit) eff" where
  "insert_challenge c = bindS (gets challenges) (\<lambda>cs.
     if nonce_hash c \<in> nonce_hash ` set cs then raise IntegrityError
     else modify (\<lambda>s. s\<lparr>challenges := challenges s @ [c]\<rparr>))"

definition challenge_tx :: "env \<Rightarrow> json \<Rightarrow> string \<Rightarrow> ('a access_scheme, string) eff" where
  "challenge_tx E v action =
     bindS (row E v) (\<lambda>r.
     bindS (now E) (\<lambda>t.
     bindS (modify (\<lambda>s. s\<lparr>challenges := filter (\<lambda>c. challenge_expires c > t) (challenges s)\<rparr>)) (\<lambda>_.
     bindS (gets (\<lambda>s. int (length (challenges s)))) (\<lambda>n.
     if n \<ge> 1000 then raise (GrantRefused ''Review challenge budget reached'')
     else
       bindS (fresh_token E) (\<lambda>nonce.
       bindS (insert_challenge \<lparr>nonce_hash = sha256 E nonce, challenge_for = str_of v, challenge_digest = req_digest r,
           challenge_action = action, challenge_expires = t + 300\<rparr>) (\<lambda>_. ret nonce))))))"

definition challenge :: "env \<Rightarrow> json \<Rightarrow> json \<Rightarrow> ('a access_scheme, string) eff" where
  "challenge E v action =
     bindS (lift (in_strs action [''approve'', ''deny'', ''revoke''])) (\<lambda>known.
     if \<not> known then raise (GrantRefused ''Decision refused'') else transaction (challenge_tx E v (str_of action)))"

definition decide_args :: "json \<Rightarrow> json \<Rightarrow> json \<Rightarrow> json \<Rightarrow> (string \<times> string \<times> int \<times> string) res" where
  "decide_args request_digest action duration nonce =
     bindr (in_strs action [''approve'', ''deny'', ''revoke'']) (\<lambda>known.
     if \<not> known \<or> \<not> is_str nonce \<or> length (str_of nonce) > 128 then Inl (GrantRefused ''Decision refused'')
     else bindr (minutes duration) (\<lambda>m.
       if \<not> is_str request_digest \<or> \<not> hex_text 64 (str_of request_digest)
       then Inl (GrantRefused ''Review digest refused'')
       else Inr (str_of request_digest, str_of action, m, str_of nonce)))"

definition settle :: "string \<Rightarrow> int \<Rightarrow> int \<Rightarrow> request_row \<Rightarrow> request_row" where
  "settle action t duration q =
     (if action = ''approve'' then q\<lparr>req_status := ''active'', approved := Some t, expires := Some (t + duration * 60)\<rparr>
      else q\<lparr>req_status := (if action = ''deny'' then ''denied'' else ''revoked'')\<rparr>)"

definition decide_tx :: "env \<Rightarrow> registry \<Rightarrow> availability \<Rightarrow> json \<Rightarrow> string \<times> string \<times> int \<times> string \<Rightarrow> ('a access_scheme, dict) eff" where
  "decide_tx E reg ready v args = (case args of (request_digest, action, duration, nonce) \<Rightarrow>
     bindS (row E v) (\<lambda>r.
     bindS (now E) (\<lambda>t.
     bindS (gets (\<lambda>s. find_by nonce_hash (challenges s) (sha256 E nonce))) (\<lambda>found.
     let ref = str_of v in
     if req_digest r \<noteq> request_digest \<or> (case found of None \<Rightarrow> True | Some c \<Rightarrow>
          challenge_for c \<noteq> ref \<or> challenge_digest c \<noteq> request_digest \<or> challenge_action c \<noteq> action \<or> t \<ge> challenge_expires c)
     then raise (GrantRefused ''Review challenge refused'')
     else if action \<in> {''approve'', ''deny''} \<and> req_status r \<noteq> ''pending'' \<or> action = ''revoke'' \<and> req_status r \<noteq> ''active''
     then raise (GrantRefused ''Decision no longer applicable'')
     else
       bindS (update_request ref (settle action t duration)) (\<lambda>_.
       bindS (delete_challenges ref) (\<lambda>_.
       bindS (log_event ref action t) (\<lambda>_.
       public_row E reg ready v)))))))"

definition decide :: "env \<Rightarrow> registry \<Rightarrow> availability \<Rightarrow> json \<Rightarrow> json \<Rightarrow> json \<Rightarrow> json \<Rightarrow> json \<Rightarrow> ('a access_scheme, dict) eff" where
  "decide E reg ready v request_digest action duration nonce =
     bindS (lift (decide_args request_digest action duration nonce)) (\<lambda>args. transaction (decide_tx E reg ready v args))"

definition authorize :: "env \<Rightarrow> registry \<Rightarrow> availability \<Rightarrow> json \<Rightarrow> json \<Rightarrow> json \<Rightarrow> json \<Rightarrow> ('a access_scheme, dict) eff" where
  "authorize E reg ready actor v scope account =
     (if scope \<notin> JStr ` set SCOPES then raise (GrantRefused ''Execution scope refused'')
      else bindS (status E reg ready v actor) (\<lambda>d.
        case validate_scope reg (get d ''account'') scope of
          Inl (SiteRefused _) \<Rightarrow> raise (GrantRefused ''Website access is not registered'')
        | Inl e \<Rightarrow> raise e
        | Inr _ \<Rightarrow>
            if account \<noteq> JNull \<and> \<not> py_eq (get d ''account'') account then raise (GrantRefused ''Grant belongs to another website'')
            else if get d ''status'' \<noteq> JStr ''active'' \<or> get d ''scope'' \<noteq> scope then raise (GrantRefused ''Account access not active'')
            else ret d))"


section \<open>The invariant and the status graph\<close>

definition grant_edge :: "string \<Rightarrow> string \<Rightarrow> bool" where
  "grant_edge a b \<longleftrightarrow> (a, b) \<in> {(''pending'', ''active''), (''pending'', ''denied''), (''pending'', ''expired''),
     (''active'', ''revoked''), (''active'', ''expired'')}"

definition same_request :: "request_row \<Rightarrow> request_row \<Rightarrow> bool" where
  "same_request r r' \<longleftrightarrow> req_id r' = req_id r \<and> req_actor r' = req_actor r \<and> request_key r' = request_key r
     \<and> req_scope r' = req_scope r \<and> requested_minutes r' = requested_minutes r \<and> created r' = created r
     \<and> req_digest r' = req_digest r \<and> req_account r' = req_account r"

definition good_row :: "env \<Rightarrow> request_row \<Rightarrow> bool" where
  "good_row E r \<longleftrightarrow> req_status r \<in> {''pending'', ''active'', ''denied'', ''revoked'', ''expired''}
     \<and> 1 \<le> requested_minutes r \<and> requested_minutes r \<le> 1440 \<and> 0 \<le> created r \<and> created r \<le> last_seen r
     \<and> req_digest r = digest E (immutable_request (req_id r) (req_actor r) (req_account r) (req_scope r) (requested_minutes r) (created r))
     \<and> (req_status r \<in> {''pending'', ''denied''} \<longrightarrow> approved r = None \<and> expires r = None)
     \<and> (req_status r \<in> {''active'', ''revoked''} \<longrightarrow>
          (case (approved r, expires r) of (Some a, Some e) \<Rightarrow> 0 \<le> a \<and> a + 60 \<le> e \<and> e \<le> a + 86400 | _ \<Rightarrow> False))"

definition good_challenge :: "request_row list \<Rightarrow> challenge_row \<Rightarrow> bool" where
  "good_challenge rs c \<longleftrightarrow> challenge_action c \<in> {''approve'', ''deny'', ''revoke''}
     \<and> (\<exists>r \<in> set rs. req_id r = challenge_for c \<and> req_digest r = challenge_digest c)"

definition ledger_inv :: "env \<Rightarrow> 'a access_scheme \<Rightarrow> bool" where
  "ledger_inv E s \<longleftrightarrow> distinct (map req_id (requests s))
     \<and> distinct (map (\<lambda>r. (req_actor r, request_key r)) (requests s))
     \<and> length (requests s) \<le> 10000 \<and> (\<forall>r \<in> set (requests s). good_row E r)
     \<and> (\<forall>actor. length (pending_of actor (requests s)) \<le> 20)
     \<and> distinct (map nonce_hash (challenges s)) \<and> length (challenges s) \<le> 1000
     \<and> (\<forall>c \<in> set (challenges s). good_challenge (requests s) c)"

definition request_moves :: "request_row \<Rightarrow> request_row \<Rightarrow> bool" where
  "request_moves r r' \<longleftrightarrow> same_request r r' \<and> grant_edge\<^sup>*\<^sup>* (req_status r) (req_status r') \<and> last_seen r \<le> last_seen r'"

definition advances :: "env \<Rightarrow> 'a access_scheme \<Rightarrow> 'a access_scheme \<Rightarrow> bool" where
  "advances E s s' \<longleftrightarrow> (ledger_inv E s \<longrightarrow> ledger_inv E s' \<and>
     (\<forall>k r. find_by req_id (requests s) k = Some r \<longrightarrow>
        (\<exists>r'. find_by req_id (requests s') k = Some r' \<and> request_moves r r')))"

lemma request_moves_refl [simp]: "request_moves r r"
  by (simp add: request_moves_def same_request_def)

lemma request_moves_trans: "request_moves r r' \<Longrightarrow> request_moves r' r'' \<Longrightarrow> request_moves r r''"
  by (auto simp: request_moves_def same_request_def)

lemma advances_refl [simp]: "advances E s s"
  by (simp add: advances_def)

lemma advances_trans: "advances E s t \<Longrightarrow> advances E t u \<Longrightarrow> advances E s u"
  unfolding advances_def by (meson request_moves_trans)

interpretation adv: frame "advances E"
  by unfold_locales (auto intro: advances_trans)

lemma advances_inv: "advances E s s' \<Longrightarrow> ledger_inv E s \<Longrightarrow> ledger_inv E s'"
  by (simp add: advances_def)

lemma advances_tables:
  "requests s' = requests s \<Longrightarrow> challenges s' = challenges s \<Longrightarrow> advances E s s'"
  by (auto simp: advances_def ledger_inv_def)

lemma advances_world [simp]:
  "advances E s (s\<lparr>ticks := n\<rparr>)" "advances E s (s\<lparr>ids := n\<rparr>)" "advances E s (s\<lparr>tokens := n\<rparr>)"
  "advances E s (s\<lparr>events := ev\<rparr>)" "advances E s (restore s t)"
  by (simp_all add: advances_tables restore_def)

text \<open>An edge never leads back to pending, so the pending budget cannot grow.\<close>

lemma edge_to_pending: "grant_edge\<^sup>*\<^sup>* a ''pending'' \<Longrightarrow> a = ''pending''"
  by (erule rtranclp.cases) (auto simp: grant_edge_def)

lemma pending_after_update:
  assumes "\<And>r. r \<in> set rs \<Longrightarrow> req_id r = ref \<Longrightarrow> request_moves r (f r)"
  shows "length (pending_of actor (update_by req_id ref f rs)) \<le> length (pending_of actor rs)"
  using assms
proof (induction rs)
  case Nil
  then show ?case by (simp add: pending_of_def update_by_def)
next
  case (Cons r rs)
  have "req_status (f r) = ''pending'' \<Longrightarrow> req_id r = ref \<Longrightarrow> req_status r = ''pending'' \<and> req_actor (f r) = req_actor r"
    using Cons.prems [of r] edge_to_pending by (auto simp: request_moves_def same_request_def)
  with Cons show ?case
    by (auto simp: pending_of_def update_by_def request_moves_def same_request_def)
qed

lemma good_challenge_update:
  assumes "\<And>r. r \<in> set rs \<Longrightarrow> req_id r = ref \<Longrightarrow> request_moves r (f r)" and "good_challenge rs c"
  shows "good_challenge (update_by req_id ref f rs) c"
proof -
  obtain r where r: "r \<in> set rs" "req_id r = challenge_for c" "req_digest r = challenge_digest c"
      and a: "challenge_action c \<in> {''approve'', ''deny'', ''revoke''}"
    using assms(2) unfolding good_challenge_def by blast
  let ?r = "if req_id r = ref then f r else r"
  have "?r \<in> set (update_by req_id ref f rs)" using r(1) by (simp add: set_update_by)
  moreover have "req_id ?r = challenge_for c \<and> req_digest ?r = challenge_digest c"
    using r assms(1) [OF r(1)] by (auto simp: request_moves_def same_request_def)
  ultimately show ?thesis using a unfolding good_challenge_def by blast
qed

lemma advances_update:
  assumes f: "\<And>r. r \<in> set (requests s) \<Longrightarrow> req_id r = ref \<Longrightarrow> request_moves r (f r)"
    and g: "\<And>r. r \<in> set (requests s) \<Longrightarrow> req_id r = ref \<Longrightarrow> good_row E r \<Longrightarrow> good_row E (f r)"
  shows "advances E s (s\<lparr>requests := update_by req_id ref f (requests s)\<rparr>)"
proof -
  define f' where "f' r = (if r \<in> set (requests s) \<and> req_id r = ref then f r else r)" for r
  have eq: "update_by req_id ref f (requests s) = update_by req_id ref f' (requests s)"
    by (simp add: update_by_def f'_def)
  have f': "request_moves r (f' r)" for r
    using f by (simp add: f'_def)
  then have same: "req_id (f' r) = req_id r" "req_actor (f' r) = req_actor r" "request_key (f' r) = request_key r" for r
    by (auto simp: request_moves_def same_request_def)
  have ids: "map req_id (update_by req_id ref f' rs) = map req_id rs" for rs
    by (rule keys_update_by) (simp add: same)
  have ks: "map (\<lambda>r. (req_actor r, request_key r)) (update_by req_id ref f' rs) = map (\<lambda>r. (req_actor r, request_key r)) rs" for rs
    by (simp add: update_by_def same)
  have pend: "length (pending_of a (update_by req_id ref f' (requests s))) \<le> length (pending_of a (requests s))" for a
    by (rule pending_after_update) (rule f')
  have chal: "good_challenge (requests s) c \<Longrightarrow> good_challenge (update_by req_id ref f' (requests s)) c" for c
    by (rule good_challenge_update) (rule f')
  have good: "r \<in> set (requests s) \<Longrightarrow> good_row E r \<Longrightarrow> good_row E (f' r)" for r
    using g by (simp add: f'_def)
  show ?thesis
    unfolding eq advances_def
  proof (intro impI conjI allI)
    assume inv: "ledger_inv E s"
    then show "ledger_inv E (s\<lparr>requests := update_by req_id ref f' (requests s)\<rparr>)"
      using order_trans [OF pend] chal good by (auto simp: ledger_inv_def ids ks set_update_by)
    fix k r assume "find_by req_id (requests s) k = Some r"
    then show "\<exists>r'. find_by req_id (requests (s\<lparr>requests := update_by req_id ref f' (requests s)\<rparr>)) k = Some r' \<and> request_moves r r'"
      using f' by (auto simp: find_by_update same)
  qed
qed

lemma advances_delete:
  "advances E s (s\<lparr>challenges := filter p (challenges s)\<rparr>)"
  using order_trans [OF length_filter_le]
  by (auto simp: advances_def ledger_inv_def distinct_map inj_on_def)

section \<open>Settling a row\<close>

text \<open>
  What \<open>row\<close> establishes: the row returned is the one stored under the reference, and if it is
  still pending or active its window contains the clock reading of this call.
\<close>

definition live :: "int \<Rightarrow> request_row \<Rightarrow> bool" where
  "live t r \<longleftrightarrow> (req_status r = ''pending'' \<longrightarrow> created r \<le> t \<and> t < created r + 3600 \<and> last_seen r = t)
     \<and> (req_status r = ''active'' \<longrightarrow> last_seen r = t \<and>
          (case (approved r, expires r) of (Some a, Some e) \<Rightarrow> a \<le> t \<and> t < e | _ \<Rightarrow> False))"

definition settled_row :: "request_row \<Rightarrow> request_row \<Rightarrow> bool" where
  "settled_row q r \<longleftrightarrow> req_status q \<in> {''pending'', ''active''} \<and> r = q\<lparr>req_status := ''expired''\<rparr> \<or> (\<exists>l. r = q\<lparr>last_seen := l\<rparr>)"

lemma settled_row_simps [simp]:
  "settled_row q q" "settled_row q (q\<lparr>last_seen := t\<rparr>)"
  "req_status q \<in> {''pending'', ''active''} \<Longrightarrow> settled_row q (q\<lparr>req_status := ''expired''\<rparr>)"
  by (auto simp: settled_row_def intro: exI [of _ "last_seen q"])

definition settled :: "env \<Rightarrow> json \<Rightarrow> request_row \<Rightarrow> 'a access_scheme \<Rightarrow> 'a access_scheme \<Rightarrow> bool" where
  "settled E v r s s' \<longleftrightarrow> advances E s s' \<and> v = JStr (req_id r) \<and> find_by req_id (requests s') (req_id r) = Some r
     \<and> (\<exists>t. int_of_flt (clock E (ticks s)) = Inr t \<and> 0 \<le> t \<and> live t r) \<and> ticks s' = Suc (ticks s)
     \<and> ids s' = ids s \<and> tokens s' = tokens s
     \<and> (\<exists>q. find_by req_id (requests s) (req_id r) = Some q \<and> settled_row q r)
     \<and> map req_id (requests s') = map req_id (requests s) \<and> set (challenges s') \<subseteq> set (challenges s)
     \<and> (\<forall>c. find_by nonce_hash (challenges s') c \<noteq> None \<longrightarrow> find_by nonce_hash (challenges s') c = find_by nonce_hash (challenges s) c)"

lemma request_id_Inr: "request_id v = Inr ref \<Longrightarrow> v = JStr ref \<and> is_uuid ref"
  by (auto simp: request_id_def is_uuid_def res_iffs split: json.splits if_splits)

lemma wp_now [wp_simps]:
  "wp (now E) Q X s \<longleftrightarrow> (case int_of_flt (clock E (ticks s)) of
       Inl e \<Rightarrow> X e (s\<lparr>ticks := Suc (ticks s)\<rparr>)
     | Inr t \<Rightarrow> if t < 0 then X (GrantRefused ''Clock refused'') (s\<lparr>ticks := Suc (ticks s)\<rparr>) else Q t (s\<lparr>ticks := Suc (ticks s)\<rparr>))"
  by (simp add: now_def wp_simps split: sum.splits)

lemma expire_moves:
  "req_status r \<in> {''pending'', ''active''} \<Longrightarrow> request_moves r (r\<lparr>req_status := ''expired''\<rparr>)"
  by (auto simp: request_moves_def same_request_def grant_edge_def)

lemma expired_at_True: "expired_at t r = Inr True \<Longrightarrow> req_status r \<in> {''pending'', ''active''}"
  by (auto simp: expired_at_def split: if_splits option.splits)

lemma expired_at_False:
  "expired_at t r = Inr False \<Longrightarrow> good_row E r \<Longrightarrow> live t (r\<lparr>last_seen := (if t > last_seen r then t else last_seen r)\<rparr>)"
  by (auto simp: expired_at_def live_def good_row_def split: if_splits option.splits)

lemma expired_at_total: "good_row E r \<Longrightarrow> \<exists>b. expired_at t r = Inr b"
  by (auto simp: expired_at_def good_row_def split: option.splits)


definition expire :: "string \<Rightarrow> int \<Rightarrow> 'a access_scheme \<Rightarrow> 'a access_scheme" where
  "expire ref t s = s\<lparr>requests := update_by req_id ref (\<lambda>q. q\<lparr>req_status := ''expired''\<rparr>) (requests s),
     challenges := filter (\<lambda>c. challenge_for c \<noteq> ref) (challenges s), events := events s @ [(ref, ''expired'', t)]\<rparr>"

definition touch :: "string \<Rightarrow> int \<Rightarrow> 'a access_scheme \<Rightarrow> 'a access_scheme" where
  "touch ref t s = s\<lparr>requests := update_by req_id ref (\<lambda>q. q\<lparr>last_seen := t\<rparr>) (requests s)\<rparr>"

lemma advances_expire:
  assumes "find_by req_id (requests s) ref = Some r" and "ledger_inv E s" and "req_status r \<in> {''pending'', ''active''}"
  shows "advances E s (expire ref t s)"
proof -
  have only: "q \<in> set (requests s) \<Longrightarrow> req_id q = ref \<Longrightarrow> q = r" for q
    using assms(1,2) distinct_find_by by (fastforce simp: ledger_inv_def)
  have "advances E s (s\<lparr>requests := update_by req_id ref (\<lambda>q. q\<lparr>req_status := ''expired''\<rparr>) (requests s)\<rparr>)"
    by (rule advances_update) (use only assms(3) expire_moves in \<open>auto simp: good_row_def\<close>)
  then show ?thesis
    unfolding expire_def
    by (rule advances_trans) (rule advances_trans [OF advances_delete], rule advances_tables, simp_all)
qed

lemma advances_touch:
  assumes "find_by req_id (requests s) ref = Some r" and "ledger_inv E s" and "last_seen r \<le> t"
  shows "advances E s (touch ref t s)"
proof -
  have only: "q \<in> set (requests s) \<Longrightarrow> req_id q = ref \<Longrightarrow> q = r" for q
    using assms(1,2) distinct_find_by by (fastforce simp: ledger_inv_def)
  show ?thesis
    unfolding touch_def
    by (rule advances_update) (use only assms(3) in \<open>auto simp: good_row_def request_moves_def same_request_def digest_def\<close>)
qed

lemma wp_fetch [wp_simps]:
  "wp (fetch ref) Q X s \<longleftrightarrow> (case find_by req_id (requests s) ref of None \<Rightarrow> X TypeError s | Some r \<Rightarrow> Q r s)"
  by (simp add: fetch_def wp_simps split: option.splits)

lemma wp_table_writes [wp_simps]:
  "wp (log_event ref action t) Q X s \<longleftrightarrow> Q () (s\<lparr>events := events s @ [(ref, action, t)]\<rparr>)"
  "wp (delete_challenges ref) Q X s \<longleftrightarrow> Q () (s\<lparr>challenges := filter (\<lambda>c. challenge_for c \<noteq> ref) (challenges s)\<rparr>)"
  "wp (update_request ref f) Q X s \<longleftrightarrow> Q () (s\<lparr>requests := update_by req_id ref f (requests s)\<rparr>)"
  by (simp_all add: log_event_def delete_challenges_def update_request_def wp_simps)

lemma find_filter_Some:
  "distinct (map key rs) \<Longrightarrow> find_by key (filter p rs) k = Some c \<Longrightarrow> find_by key rs k = Some c"
  by (induction rs) (auto split: if_splits dest!: find_by_Some)

text \<open>A refusal of \<open>row\<close> has written nothing.\<close>

definition untouched :: "'a access_scheme \<Rightarrow> 'a access_scheme \<Rightarrow> bool" where
  "untouched s s' \<longleftrightarrow> requests s' = requests s \<and> challenges s' = challenges s \<and> events s' = events s \<and> ids s' = ids s"

lemma untouched_simps [simp]: "untouched s s" "untouched s (s\<lparr>ticks := n\<rparr>)"
  by (simp_all add: untouched_def)

lemma untouched_advances: "untouched s s' \<Longrightarrow> advances E s s'"
  by (simp add: untouched_def advances_tables)

lemma row_spec:
  assumes inv: "ledger_inv E s"
  shows "wp (row E v) (\<lambda>r s'. settled E v r s s') (\<lambda>_. untouched s) s"
proof (cases "request_id v")
  case (Inl e)
  then show ?thesis by (simp add: row_def wp_simps)
next
  case (Inr ref)
  then have v: "v = JStr ref" using request_id_Inr by blast
  show ?thesis
  proof (cases "find_by req_id (requests s) ref")
    case None
    then show ?thesis by (simp add: row_def wp_simps Inr)
  next
    case (Some r)
    then have r: "req_id r = ref" "good_row E r" using find_by_Some inv by (fastforce simp: ledger_inv_def)+
    let ?s = "s\<lparr>ticks := Suc (ticks s)\<rparr>"
    have inv': "ledger_inv E ?s" "find_by req_id (requests ?s) ref = Some r"
      using inv Some by (simp_all add: ledger_inv_def)
    have main: "(if b then settled E v (r\<lparr>req_status := ''expired''\<rparr>) s (expire ref t ?s)
        else if last_seen r < t then settled E v (r\<lparr>last_seen := t\<rparr>) s (touch ref t ?s) else settled E v r s ?s)"
      if t: "int_of_flt (clock E (ticks s)) = Inr t" "0 \<le> t" and b: "expired_at t r = Inr b" for t b
    proof (cases b)
      case True
      have "advances E s (expire ref t ?s)"
        using advances_expire [OF inv'(2,1), of t] expired_at_True [of t r] b True advances_trans [OF advances_world(1)] by simp
      moreover have "distinct (map nonce_hash (challenges s))" using inv by (simp add: ledger_inv_def)
      ultimately show ?thesis
        using True t r Some v expired_at_True [of t r] b
        by (auto simp: settled_def expire_def find_by_update live_def keys_update_by find_filter_Some)
    next
      case False
      have "advances E s (touch ref t ?s)" if "last_seen r < t"
        using advances_touch [OF inv'(2,1), of t] that advances_trans [OF advances_world(1)] less_imp_le by blast
      then show ?thesis
        using False t r Some v expired_at_False [of t r E] b
        by (auto simp: settled_def touch_def find_by_update keys_update_by)
    qed
    show ?thesis
    proof (cases "int_of_flt (clock E (ticks s))")
      case (Inl e)
      with \<open>request_id v = Inr ref\<close> Some show ?thesis by (simp add: row_def wp_simps)
    next
      case (Inr t)
      obtain b where b: "expired_at t r = Inr b" using expired_at_total [OF r(2)] by blast
      from main [OF Inr _ b] show ?thesis
        by (cases "t < 0") (simp_all add: row_def wp_simps \<open>request_id v = Inr ref\<close> Some Inr b find_by_update expire_def touch_def split: if_splits)
    qed
  qed
qed

lemma settled_advances: "settled E v r s s' \<Longrightarrow> advances E s s'"
  by (simp add: settled_def)

lemma wp_row:
  assumes "ledger_inv E s" and "\<And>r s'. settled E v r s s' \<Longrightarrow> ledger_inv E s' \<Longrightarrow> Q r s'"
    and "\<And>e s'. untouched s s' \<Longrightarrow> X e s'"
  shows "wp (row E v) Q X s"
  by (rule wp_mono [OF row_spec [OF assms(1)]]) (meson assms advances_inv settled_advances)+

lemma wp_public_row:
  assumes "ledger_inv E s" and "\<And>r d s'. settled E v r s s' \<Longrightarrow> ledger_inv E s' \<Longrightarrow> public reg ready r = Inr d \<Longrightarrow> Q d s'"
    and "\<And>e s'. advances E s s' \<Longrightarrow> X e s'"
  shows "wp (public_row E reg ready v) Q X s"
  unfolding public_row_def wp_bindS
  by (rule wp_row [OF assms(1)]) (use assms in \<open>auto simp: wp_simps settled_advances untouched_advances split: sum.splits\<close>)

section \<open>Every operation keeps the invariant\<close>

lemma keeps_now: "advances E s (snd (now E s))"
  unfolding wp_snd [symmetric] by (simp add: wp_simps split: sum.splits)

lemma keeps_row: "advances E s (snd (row E v s))"
proof (cases "ledger_inv E s")
  case True
  show ?thesis unfolding wp_snd [symmetric] by (rule wp_row [OF True]) (simp_all add: settled_advances untouched_advances)
qed (simp add: advances_def)

lemma keeps_public_row: "advances E s (snd (public_row E reg ready v s))"
  unfolding public_row_def by (intro adv.keeps_bind keeps_row) (simp add: lift_def)

lemma keeps_transaction: "advances E s (snd (m s)) \<Longrightarrow> advances E s (snd (transaction m s))"
  by (auto simp: transaction_def transaction_keeping_def split: prod.splits sum.splits)

lemma keeps_status: "advances E s (snd (status E reg ready v actor s))"
  unfolding status_def
  by (intro adv.keeps_bind keeps_transaction keeps_row) (auto simp: lift_def raise_def)

lemma keeps_listing: "advances E s (snd (listing E reg ready s))"
  unfolding listing_def
  by (intro adv.keeps_bind keeps_transaction adv.keeps_mapS keeps_public_row) (simp add: gets_def)

lemma keeps_authorize: "advances E s (snd (authorize E reg ready actor v scope account s))"
  unfolding authorize_def
  by (auto intro!: adv.keeps_bind keeps_status simp: raise_def ret_def split: sum.splits exn.splits)


definition challenged :: "env \<Rightarrow> json \<Rightarrow> string \<Rightarrow> string \<Rightarrow> 'a access_scheme \<Rightarrow> 'a access_scheme \<Rightarrow> bool" where
  "challenged E v action nonce s s' \<longleftrightarrow> advances E s s' \<and>
     (\<exists>r t. v = JStr (req_id r) \<and> find_by req_id (requests s') (req_id r) = Some r \<and> int_of_flt (clock E (Suc (ticks s))) = Inr t
        \<and> find_by nonce_hash (challenges s') (sha256 E nonce) = Some \<lparr>nonce_hash = sha256 E nonce, challenge_for = req_id r,
            challenge_digest = req_digest r, challenge_action = action, challenge_expires = t + 300\<rparr>)"

lemma advances_insert_challenge:
  assumes "nonce_hash c \<notin> nonce_hash ` set (challenges s)" "length (challenges s) < 1000" "good_challenge (requests s) c"
  shows "advances E s (s\<lparr>challenges := challenges s @ [c]\<rparr>)"
  using assms by (auto simp: advances_def ledger_inv_def)

lemma challenge_tx_spec:
  assumes inv: "ledger_inv E s" and action: "action \<in> {''approve'', ''deny'', ''revoke''}"
  shows "wp (challenge_tx E v action) (\<lambda>nonce s'. challenged E v action nonce s s') (\<lambda>_ _. True) s"
  unfolding challenge_tx_def wp_bindS
proof (rule wp_row [OF inv], goal_cases)
  case (1 r s1)
  then have r: "v = JStr (req_id r)" "find_by req_id (requests s1) (req_id r) = Some r" "ticks s1 = Suc (ticks s)"
    by (auto simp: settled_def)
  have step: "challenged E v action nonce s
      (s1\<lparr>ticks := n, tokens := m, challenges := filter (\<lambda>c. t < challenge_expires c) (challenges s1) @ [c]\<rparr>)"
    if c: "c = \<lparr>nonce_hash = sha256 E nonce, challenge_for = req_id r, challenge_digest = req_digest r,
            challenge_action = action, challenge_expires = t + 300\<rparr>"
      and new: "sha256 E nonce \<notin> nonce_hash ` set (filter (\<lambda>c. t < challenge_expires c) (challenges s1))"
      and room: "length (filter (\<lambda>c. t < challenge_expires c) (challenges s1)) < 1000"
      and t: "int_of_flt (clock E (Suc (ticks s))) = Inr t" for nonce n m t c
  proof -
    let ?s2 = "s1\<lparr>ticks := n, tokens := m, challenges := filter (\<lambda>c. t < challenge_expires c) (challenges s1)\<rparr>"
    have "advances E s ?s2"
      using 1(1) advances_trans [OF settled_advances]
        advances_trans [OF advances_tables [of "s1\<lparr>ticks := n, tokens := m\<rparr>" s1 E] advances_delete [where p = "\<lambda>c. t < challenge_expires c"]]
      by fastforce
    moreover have "good_challenge (requests ?s2) c"
      using c action find_by_Some [OF r(2)] by (auto simp: good_challenge_def)
    with new room c have "advances E ?s2 (?s2\<lparr>challenges := challenges ?s2 @ [c]\<rparr>)"
      by (intro advances_insert_challenge) auto
    ultimately have "advances E s (?s2\<lparr>challenges := challenges ?s2 @ [c]\<rparr>)" by (rule advances_trans)
    moreover have "find_by nonce_hash (filter (\<lambda>c. t < challenge_expires c) (challenges s1)) (sha256 E nonce) = None"
      using new find_by_None by blast
    ultimately show ?thesis
      using r t by (auto simp: challenged_def c find_by_append)
  qed
  show ?case
    using step by (auto simp: wp_simps insert_challenge_def r(1,3) split: sum.splits)
qed simp

definition next_status :: "string \<Rightarrow> string" where
  "next_status action = (if action = ''approve'' then ''active'' else if action = ''deny'' then ''denied'' else ''revoked'')"

definition decided :: "env \<Rightarrow> registry \<Rightarrow> availability \<Rightarrow> json \<Rightarrow> string \<Rightarrow> string \<Rightarrow> int \<Rightarrow> string \<Rightarrow> dict
    \<Rightarrow> 'a access_scheme \<Rightarrow> 'a access_scheme \<Rightarrow> bool" where
  "decided E reg ready v request_digest action duration nonce d s s' \<longleftrightarrow> advances E s s' \<and>
     (\<exists>q c t r. v = JStr (req_id q) \<and> find_by req_id (requests s) (req_id q) = Some q \<and> req_digest q = request_digest
        \<and> req_status q = (if action = ''revoke'' then ''active'' else ''pending'')
        \<and> find_by nonce_hash (challenges s) (sha256 E nonce) = Some c \<and> challenge_for c = req_id q
        \<and> challenge_digest c = request_digest \<and> challenge_action c = action
        \<and> int_of_flt (clock E (Suc (ticks s))) = Inr t \<and> t < challenge_expires c
        \<and> find_by req_id (requests s') (req_id q) = Some r
        \<and> (req_status r = next_status action \<or> action = ''approve'' \<and> req_status r = ''expired'')
        \<and> (action = ''approve'' \<longrightarrow> approved r = Some t \<and> expires r = Some (t + duration * 60))
        \<and> public reg ready r = Inr d \<and> (\<forall>c \<in> set (challenges s'). challenge_for c \<noteq> req_id q))"

lemma settle_moves:
  assumes "req_status r = (if action = ''revoke'' then ''active'' else ''pending'')" and "action \<in> {''approve'', ''deny'', ''revoke''}"
  shows "request_moves r (settle action t duration r)"
  using assms by (auto simp: request_moves_def same_request_def settle_def grant_edge_def)

lemma settle_good:
  assumes "good_row E r" "req_status r = (if action = ''revoke'' then ''active'' else ''pending'')"
    and "1 \<le> duration" "duration \<le> 1440" "0 \<le> t" "action \<in> {''approve'', ''deny'', ''revoke''}"
  shows "good_row E (settle action t duration r)"
proof -
  consider "action = ''approve''" | "action = ''deny''" | "action = ''revoke''" using assms(6) by blast
  then show ?thesis
    by cases (use assms in \<open>simp_all add: settle_def good_row_def split: option.splits\<close>)
qed

lemma advances_settle:
  assumes inv: "ledger_inv E s" and r: "find_by req_id (requests s) ref = Some r"
    and st: "req_status r = (if action = ''revoke'' then ''active'' else ''pending'')"
    and d: "1 \<le> duration" "duration \<le> 1440" "0 \<le> t" "action \<in> {''approve'', ''deny'', ''revoke''}"
  shows "advances E s (s\<lparr>requests := update_by req_id ref (settle action t duration) (requests s)\<rparr>)"
proof -
  have only: "q = r" if "q \<in> set (requests s)" "req_id q = ref" for q
    using inv r distinct_find_by that by (fastforce simp: ledger_inv_def)
  show ?thesis
  proof (rule advances_update)
    fix q assume q: "q \<in> set (requests s)" "req_id q = ref"
    show "request_moves q (settle action t duration q)" using only [OF q] st d(4) by (simp add: settle_moves)
    show "good_row E q \<Longrightarrow> good_row E (settle action t duration q)" using only [OF q] st d by (simp add: settle_good)
  qed
qed

text \<open>A row that \<open>row\<close> reports as not expired had the same status before.\<close>

lemma settled_row_status: "settled_row q r \<Longrightarrow> req_status r \<noteq> ''expired'' \<Longrightarrow> req_status q = req_status r"
  by (auto simp: settled_row_def)

lemma settled_row_same:
  "settled_row q r \<Longrightarrow> same_request q r \<and> req_id r = req_id q \<and> req_digest r = req_digest q \<and> approved r = approved q \<and> expires r = expires q"
  by (auto simp: settled_row_def same_request_def)

lemma after_settle:
  assumes "settled E v r s s'" and "find_by req_id (requests s) (str_of v) = Some q"
  shows "settled_row q r"
  using assms by (auto simp: settled_def)

lemma action_cases:
  assumes "action \<in> {''approve'', ''deny'', ''revoke''}"
  obtains "action = ''approve''" | "action = ''deny''" | "action = ''revoke''"
  using assms by blast

lemma decide_tx_spec:
  assumes inv: "ledger_inv E s" and d: "1 \<le> duration" "duration \<le> 1440"
    and action: "action \<in> {''approve'', ''deny'', ''revoke''}"
  shows "wp (decide_tx E reg ready v (request_digest, action, duration, nonce))
    (\<lambda>x s'. decided E reg ready v request_digest action duration nonce x s s') (\<lambda>_ _. True) s"
  unfolding decide_tx_def wp_bindS prod.case
proof (rule wp_row [OF inv], goal_cases)
  case (1 r s1)
  then have r: "v = JStr (req_id r)" "find_by req_id (requests s1) (req_id r) = Some r" "ticks s1 = Suc (ticks s)"
    and ch: "find_by nonce_hash (challenges s1) k = Some c \<Longrightarrow> find_by nonce_hash (challenges s) k = Some c" for k c
    by (auto simp: settled_def)
  obtain q where q: "find_by req_id (requests s) (req_id r) = Some q" "settled_row q r"
    using 1(1) by (auto simp: settled_def)
  have step: "wp (public_row E reg ready v) (\<lambda>x s'. decided E reg ready v g a duration nonce x s s') (\<lambda>_ _. True)
      (s1\<lparr>ticks := n, requests := update_by req_id (req_id r) (settle a t duration) (requests s1),
         challenges := filter (\<lambda>c. challenge_for c \<noteq> req_id r) (challenges s1), events := ev\<rparr>)" (is "wp _ _ _ ?s2")
    if c: "find_by nonce_hash (challenges s1) (sha256 E nonce) = Some c" "challenge_for c = req_id r"
        "challenge_digest c = g" "challenge_action c = a" "t < challenge_expires c"
      and st: "req_status r = (if a = ''revoke'' then ''active'' else ''pending'')" "req_digest r = g"
      and t: "int_of_flt (clock E (Suc (ticks s))) = Inr t" "0 \<le> t" and a: "a \<in> {''approve'', ''deny'', ''revoke''}" for c t n ev g a
  proof -
    have "advances E s1 ?s2"
      by (rule advances_trans [OF advances_settle [OF 1(2) r(2) st(1) d t(2) a]],
          rule advances_trans [OF advances_delete [where p = "\<lambda>c. challenge_for c \<noteq> req_id r"]], rule advances_tables) simp_all
    then have adv: "advances E s ?s2" using advances_trans settled_advances 1(1) by blast
    let ?r = "settle a t duration r"
    have key: "req_id (settle a t duration x) = req_id x" for x by (simp add: settle_def)
    have found: "find_by req_id (requests ?s2) (req_id r) = Some ?r" using r(2) by (simp add: find_by_update key)
    show ?thesis
    proof (rule wp_public_row)
      show "ledger_inv E ?s2" using adv inv advances_inv by blast
      fix r' x s3 assume r': "settled E v r' ?s2 s3" "public reg ready r' = Inr x"
      have id: "req_id r' = req_id r" "find_by req_id (requests s3) (req_id r) = Some r'"
        using r'(1) r(1) by (auto simp: settled_def)
      have sr: "settled_row ?r r'" using after_settle [OF r'(1)] found r(1) by simp
      have st': "req_status r' = next_status a \<or> a = ''approve'' \<and> req_status r' = ''expired''"
        by (cases rule: action_cases [OF a]) (use sr in \<open>auto simp: settled_row_def settle_def next_status_def\<close>)
      have "advances E s s3" using adv advances_trans settled_advances r'(1) by blast
      moreover have "\<forall>c \<in> set (challenges s3). challenge_for c \<noteq> req_id r"
        using r'(1) by (auto simp: settled_def)
      moreover have "a = ''approve'' \<Longrightarrow> approved r' = Some t \<and> expires r' = Some (t + duration * 60)"
        using settled_row_same [OF sr] by (simp add: settle_def)
      moreover have "req_status q = req_status r" using settled_row_status [OF q(2)] st by auto
      ultimately show "decided E reg ready v g a duration nonce x s s3"
        using st' st t c(2-5) ch [OF c(1)] q(1) settled_row_same [OF q(2)] id r'(2) r(1) unfolding decided_def by fastforce
    qed simp
  qed
  show ?case
    using action by (cases rule: action_cases)
      (auto simp: wp_simps Let_def r(1,3) intro!: step [unfolded r(1)] split: sum.splits option.splits)
qed simp

text \<open>The sweep of the actor's pending requests keeps the table's keys.\<close>

definition sweeps :: "env \<Rightarrow> 'a access_scheme \<Rightarrow> 'a access_scheme \<Rightarrow> bool" where
  "sweeps E s s' \<longleftrightarrow> advances E s s' \<and> (ledger_inv E s \<longrightarrow> map req_id (requests s') = map req_id (requests s) \<and> ids s' = ids s)"

interpretation sweep: frame "sweeps E"
proof
  show "sweeps E s s" for s by (simp add: sweeps_def)
  show "sweeps E s u" if "sweeps E s t" "sweeps E t u" for s t u
    using that advances_trans advances_inv unfolding sweeps_def by metis
qed

lemma sweeps_row: "sweeps E s (snd (bindS (row E v) (\<lambda>_. ret ()) s))"
proof (cases "ledger_inv E s")
  case True
  show ?thesis
    unfolding wp_snd [symmetric] wp_bindS wp_ret
    by (rule wp_row [OF True]) (simp_all add: sweeps_def settled_def untouched_advances, simp_all add: untouched_def)
qed (simp add: sweeps_def advances_def)

lemma sweep_spec:
  "wp (for_eachS (\<lambda>e. bindS (row E (f e)) (\<lambda>_. ret ())) es) (\<lambda>_. sweeps E s) (\<lambda>_ _. True) s"
proof -
  have "sweeps E s (snd (for_eachS (\<lambda>e. bindS (row E (f e)) (\<lambda>_. ret ())) es s))"
    by (rule sweep.keeps_for_each) (rule sweeps_row)
  then have "wp (for_eachS (\<lambda>e. bindS (row E (f e)) (\<lambda>_. ret ())) es) (\<lambda>_. sweeps E s) (\<lambda>_. sweeps E s) s"
    by (simp add: wp_snd)
  then show ?thesis by (rule wp_mono) simp_all
qed

lemma advances_insert_request:
  assumes "req_id r \<notin> req_id ` set (requests s)"
    and "(req_actor r, request_key r) \<notin> (\<lambda>q. (req_actor q, request_key q)) ` set (requests s)"
    and "length (requests s) < 10000" and "length (pending_of (req_actor r) (requests s)) < 20" and "good_row E r"
  shows "advances E s (s\<lparr>requests := requests s @ [r]\<rparr>)"
proof -
  have "length (pending_of a (requests s @ [r])) \<le> 20" if "\<forall>a. length (pending_of a (requests s)) \<le> 20" for a
    using that assms(4) by (auto simp: pending_of_def)
  moreover have "good_challenge (requests s) c \<Longrightarrow> good_challenge (requests s @ [r]) c" for c
    by (auto simp: good_challenge_def)
  ultimately have "ledger_inv E s \<Longrightarrow> ledger_inv E (s\<lparr>requests := requests s @ [r]\<rparr>)"
    using assms(1,2,3,5) by (auto simp: ledger_inv_def)
  then show ?thesis by (auto simp: advances_def find_by_append)
qed

text \<open>What a request that was accepted guarantees of the row it answers with.\<close>

definition requested :: "env \<Rightarrow> registry \<Rightarrow> availability \<Rightarrow> string \<Rightarrow> string \<times> string \<times> int \<times> string \<Rightarrow> dict \<times> bool
    \<Rightarrow> 'a access_scheme \<Rightarrow> 'a access_scheme \<Rightarrow> bool" where
  "requested E reg ready actor v x s s' \<longleftrightarrow> advances E s s' \<and> (case (v, x) of ((account, scope, duration, key), (d, new)) \<Rightarrow>
     \<exists>r. find_by req_id (requests s') (req_id r) = Some r \<and> public reg ready r = Inr d \<and> req_actor r = actor \<and> req_account r = account
       \<and> req_scope r = scope \<and> requested_minutes r = duration \<and> request_key r = key
       \<and> map req_id (requests s') = map req_id (requests s) @ (if new then [req_id r] else [])
       \<and> (new \<longrightarrow> req_id r = uuid4 E (ids s) \<and> req_status r \<in> {''pending'', ''expired''}))"

lemma request_tx_spec:
  assumes inv: "ledger_inv E s" and d: "1 \<le> duration" "duration \<le> 1440"
  shows "wp (request_tx E reg ready actor (account, scope, duration, key))
    (\<lambda>x s'. requested E reg ready actor (account, scope, duration, key) x s s') (\<lambda>_ _. True) s"
  unfolding request_tx_def wp_bindS prod.case wp_gets
proof (rule wp_mono [OF sweep_spec], goal_cases)
  case (1 _ s1)
  then have s1: "advances E s s1" "ledger_inv E s1" "map req_id (requests s1) = map req_id (requests s)" "ids s1 = ids s"
    using inv advances_inv by (auto simp: sweeps_def)
  show ?case
  proof (cases "List.find (\<lambda>r. req_actor r = actor \<and> request_key r = key) (requests s1)")
    case (Some q)
    then have q: "find_by req_id (requests s1) (req_id q) = Some q" "req_actor q = actor" "request_key q = key"
      using s1(2) distinct_find_by [of req_id "requests s1" q] by (auto simp: find_Some_iff ledger_inv_def)
    have "requested E reg ready actor (account, scope, duration, key) (x, False) s s2"
      if "settled E (JStr (req_id q)) r s1 s2" "public reg ready r = Inr x"
        "req_account q = account \<and> req_scope q = scope \<and> requested_minutes q = duration" for r x s2
      using that q s1 after_settle [OF that(1), of q] settled_row_same [of q r] advances_trans [OF s1(1) settled_advances [OF that(1)]]
      by (auto simp: requested_def same_request_def settled_def intro!: exI [of _ r])
    then show ?thesis
      using Some by (auto simp: wp_simps intro!: wp_public_row [OF s1(2)])
  next
    case None
    then have new: "(actor, key) \<notin> (\<lambda>q. (req_actor q, request_key q)) ` set (requests s1)"
      by (auto simp: find_None_iff)
    have step: "wp (public_row E reg ready (JStr ref)) (\<lambda>x s'. requested E reg ready actor (account, scope, duration, key) (x, True) s s')
        (\<lambda>_ _. True) (s1\<lparr>ids := n, ticks := m, requests := requests s1 @ [q], events := ev\<rparr>)" (is "wp _ _ _ ?s2")
      if q: "q = \<lparr>req_id = ref, req_actor = actor, request_key = key, req_scope = scope, requested_minutes = duration, created = t,
               req_digest = digest E (immutable_request ref actor account scope duration t), req_status = ''pending'',
               approved = None, expires = None, last_seen = t, req_account = account\<rparr>"
        and ref: "ref = uuid4 E (ids s)" "ref \<notin> req_id ` set (requests s1)" and t: "0 \<le> t"
        and room: "length (requests s1) < 10000" "length (pending_of actor (requests s1)) < 20" for ref q t n m ev
    proof -
      have "advances E s1 (s1\<lparr>requests := requests s1 @ [q]\<rparr>)"
        by (rule advances_insert_request) (use q ref new room t d in \<open>simp_all add: good_row_def\<close>)
      then have adv: "advances E s ?s2"
        using advances_trans [OF s1(1)] advances_trans [OF _ advances_tables [of ?s2 "s1\<lparr>requests := requests s1 @ [q]\<rparr>"]] by simp
      have found: "find_by req_id (requests ?s2) (req_id q) = Some q"
        using ref q find_by_None [of req_id "requests s1" ref] by (simp add: find_by_append)
      have "requested E reg ready actor (account, scope, duration, key) (x, True) s s3"
        if "settled E (JStr ref) r ?s2 s3" "public reg ready r = Inr x" for r x s3
      proof -
        have sr: "settled_row q r" using after_settle [OF that(1)] found q by simp
        have same: "same_request q r" "req_status r \<in> {''pending'', ''expired''}"
          using settled_row_same [OF sr] settled_row_status [OF sr] q by auto
        have "find_by req_id (requests s3) (req_id r) = Some r" "map req_id (requests s3) = map req_id (requests s) @ [req_id r]"
          using that(1) s1(3) same(1) by (simp_all add: settled_def same_request_def)
        with same that(2) q ref advances_trans [OF adv settled_advances [OF that(1)]] show ?thesis
          by (simp add: requested_def same_request_def) (intro exI [of _ r], simp)
      qed
      then show ?thesis
        by (intro wp_public_row) (use adv inv advances_inv in \<open>auto\<close>)
    qed
    show ?thesis
      using None new s1(4) by (auto simp: wp_simps insert_request_def not_le intro!: step split: sum.splits)
  qed
qed simp


section \<open>The methods\<close>

text \<open>A method that raises leaves every table as it was.\<close>

definition rolled_back :: "'a access_scheme \<Rightarrow> 'a access_scheme \<Rightarrow> bool" where
  "rolled_back s s' \<longleftrightarrow> requests s' = requests s \<and> challenges s' = challenges s \<and> events s' = events s"

lemma rolled_back_simps [simp]: "rolled_back s s" "rolled_back s (restore s t)"
  by (simp_all add: rolled_back_def restore_def)

lemma rolled_back_advances: "rolled_back s s' \<Longrightarrow> advances E s s'"
  by (simp add: rolled_back_def advances_tables)

lemma wp_in_transaction:
  "wp m Q (\<lambda>_ _. True) s \<Longrightarrow> wp (transaction m) Q (\<lambda>_. rolled_back s) s"
  unfolding wp_transaction by (rule wp_mono) simp_all

lemma keeps_of_spec:
  assumes "wp m Q (\<lambda>_. rolled_back s) s" and "\<And>x s'. Q x s' \<Longrightarrow> advances E s s'"
  shows "advances E s (snd (m s))"
  unfolding wp_snd [symmetric] by (rule wp_mono [OF assms(1)]) (simp_all add: assms(2) rolled_back_advances)

lemma minutes_Inr: "minutes v = Inr d \<Longrightarrow> 1 \<le> d \<and> d \<le> 1440"
  by (auto simp: minutes_def split: if_splits)

lemma request_values_minutes: "request_values reg v = Inr (a, sc, d, k) \<Longrightarrow> 1 \<le> d \<and> d \<le> 1440"
  by (auto simp: request_values_def res_iffs dest: minutes_Inr split: json.splits if_splits sum.splits exn.splits)

lemma decide_args_Inr:
  "decide_args g a d n = Inr (g', a', d', n') \<Longrightarrow> 1 \<le> d' \<and> d' \<le> 1440 \<and> a' \<in> {''approve'', ''deny'', ''revoke''} \<and> a = JStr a' \<and> n = JStr n' \<and> g = JStr g'"
  by (auto simp: decide_args_def res_iffs in_strs_True is_str_iff dest: minutes_Inr split: if_splits)

lemma request_spec:
  assumes "ledger_inv E s"
  shows "wp (request E reg ready actor values) (\<lambda>x s'. \<exists>a v. identity actor = Inr a \<and> request_values reg values = Inr v
       \<and> requested E reg ready a v x s s') (\<lambda>_. rolled_back s) s"
proof (cases "identity actor")
  case a: (Inr a)
  show ?thesis
  proof (cases "request_values reg values")
    case v: (Inr v)
    obtain acc sc d k where eq: "v = (acc, sc, d, k)" by (cases v)
    have "wp (transaction (request_tx E reg ready a v)) (\<lambda>x s'. requested E reg ready a v x s s') (\<lambda>_. rolled_back s) s"
      using request_tx_spec [OF assms] request_values_minutes v eq by (intro wp_in_transaction) blast
    then show ?thesis by (simp add: request_def wp_simps a v)
  qed (simp add: request_def wp_simps a)
qed (simp add: request_def wp_simps)

lemma challenge_spec:
  assumes "ledger_inv E s"
  shows "wp (challenge E v action) (\<lambda>nonce s'. \<exists>a \<in> {''approve'', ''deny'', ''revoke''}. action = JStr a \<and> challenged E v a nonce s s')
    (\<lambda>_. rolled_back s) s"
proof (cases "in_strs action [''approve'', ''deny'', ''revoke'']")
  case (Inr b)
  show ?thesis
  proof (cases b)
    case True
    then obtain a where a: "action = JStr a" "a \<in> {''approve'', ''deny'', ''revoke''}"
      using Inr in_strs_True [of action] by auto
    have "wp (transaction (challenge_tx E v a)) (\<lambda>nonce s'. challenged E v a nonce s s') (\<lambda>_. rolled_back s) s"
      by (rule wp_in_transaction) (rule challenge_tx_spec [OF assms a(2)])
    then show ?thesis using a Inr True by (auto simp: challenge_def wp_simps elim!: wp_mono)
  qed (use Inr in \<open>simp add: challenge_def wp_simps\<close>)
qed (simp add: challenge_def wp_simps)

lemma decide_spec:
  assumes "ledger_inv E s"
  shows "wp (decide E reg ready v g action duration nonce)
    (\<lambda>x s'. \<exists>g' a d n. decide_args g action duration nonce = Inr (g', a, d, n) \<and> decided E reg ready v g' a d n x s s')
    (\<lambda>_. rolled_back s) s"
proof (cases "decide_args g action duration nonce")
  case (Inr args)
  obtain g' a d n where eq: "args = (g', a, d, n)" by (cases args)
  have "wp (transaction (decide_tx E reg ready v args)) (\<lambda>x s'. decided E reg ready v g' a d n x s s') (\<lambda>_. rolled_back s) s"
    unfolding eq using decide_args_Inr Inr eq by (intro wp_in_transaction decide_tx_spec [OF assms]) blast+
  then show ?thesis using Inr eq by (simp add: decide_def wp_simps)
qed (simp add: decide_def wp_simps)

lemma status_spec:
  assumes "ledger_inv E s"
  shows "wp (status E reg ready v actor) (\<lambda>d s'. \<exists>r. settled E v r s s' \<and> (actor = JNull \<or> actor = JStr (req_actor r)) \<and> public reg ready r = Inr d)
    (\<lambda>_. rolled_back s) s"
proof (cases "actor_check actor")
  case (Inr u)
  have "wp (row E v) (\<lambda>r. wp (if actor \<noteq> JNull \<and> actor \<noteq> JStr (req_actor r) then raise (GrantRefused ''Request unavailable'') else lift (public reg ready r))
      (\<lambda>d s'. \<exists>r. settled E v r s s' \<and> (actor = JNull \<or> actor = JStr (req_actor r)) \<and> public reg ready r = Inr d) (\<lambda>_ _. True)) (\<lambda>_ _. True) s"
    by (rule wp_row [OF assms]) (auto simp: wp_simps split: sum.splits)
  then have "wp (bindS (row E v) (\<lambda>r. if actor \<noteq> JNull \<and> actor \<noteq> JStr (req_actor r) then raise (GrantRefused ''Request unavailable'') else lift (public reg ready r)))
      (\<lambda>d s'. \<exists>r. settled E v r s s' \<and> (actor = JNull \<or> actor = JStr (req_actor r)) \<and> public reg ready r = Inr d) (\<lambda>_ _. True) s"
    by (simp add: wp_bindS)
  from wp_in_transaction [OF this] show ?thesis by (simp add: status_def wp_bindS wp_lift Inr)
qed (simp add: status_def wp_simps)

lemma public_fields:
  "public reg ready r = Inr d \<Longrightarrow> get d ''status'' = JStr (req_status r) \<and> get d ''scope'' = JStr (req_scope r)
     \<and> get d ''account'' = JStr (req_account r) \<and> get d ''actor'' = JStr (req_actor r) \<and> get d ''request_id'' = JStr (req_id r)
     \<and> get d ''approved_at'' = opt_int (approved r) \<and> get d ''expires_at'' = opt_int (expires r)"
  by (auto simp: public_def res_iffs account_name_def get_def get_or_def split: if_splits)

section \<open>Reachable ledgers\<close>

text \<open>One call of one method, its outcome without the value; a step is a call with any arguments.\<close>

datatype access_call =
    Request json json
  | Status json json
  | Listing
  | Challenge json json
  | Decide json json json json json
  | Authorize json json json json

fun run_call :: "env \<Rightarrow> registry \<Rightarrow> availability \<Rightarrow> access_call \<Rightarrow> ('a access_scheme, unit) eff" where
  "run_call E reg ready (Request actor vals) = bindS (request E reg ready actor vals) (\<lambda>_. ret ())"
| "run_call E reg ready (Status v actor) = bindS (status E reg ready v actor) (\<lambda>_. ret ())"
| "run_call E reg ready Listing = bindS (listing E reg ready) (\<lambda>_. ret ())"
| "run_call E reg ready (Challenge v action) = bindS (challenge E v action) (\<lambda>_. ret ())"
| "run_call E reg ready (Decide v g action duration nonce) = bindS (decide E reg ready v g action duration nonce) (\<lambda>_. ret ())"
| "run_call E reg ready (Authorize actor v scope account) = bindS (authorize E reg ready actor v scope account) (\<lambda>_. ret ())"

inductive access_step :: "env \<Rightarrow> registry \<Rightarrow> availability \<Rightarrow> 'a access_scheme \<Rightarrow> 'a access_scheme \<Rightarrow> bool"
  for E reg ready where
  call: "run_call E reg ready c s = (outcome, s') \<Longrightarrow> access_step E reg ready s s'"

inductive_simps access_step_iff: "access_step E reg ready s s'"

lemma snd_bind_ret: "snd (bindS m (\<lambda>_. ret ()) s) = snd (m s)"
  by (auto simp: bindS_def ret_def split: prod.splits sum.splits)

lemma run_call_advances: "advances E s (snd (run_call E reg ready c s))"
proof (cases "ledger_inv E s")
  case True
  show ?thesis
  proof (cases c)
    case (Request actor vals)
    then show ?thesis
      by (simp add: snd_bind_ret) (rule keeps_of_spec [OF request_spec [OF True]], auto simp: requested_def)
  next
    case (Challenge v action)
    then show ?thesis
      by (simp add: snd_bind_ret) (rule keeps_of_spec [OF challenge_spec [OF True]], auto simp: challenged_def)
  next
    case (Decide v g action duration nonce)
    then show ?thesis
      by (simp add: snd_bind_ret) (rule keeps_of_spec [OF decide_spec [OF True]], auto simp: decided_def)
  qed (simp_all add: snd_bind_ret keeps_status keeps_listing keeps_authorize)
qed (simp add: advances_def)

lemma access_step_advances: "access_step E reg ready s s' \<Longrightarrow> advances E s s'"
  unfolding access_step_iff using run_call_advances by (metis snd_conv)

lemma access_run_advances: "(access_step E reg ready)\<^sup>*\<^sup>* s s' \<Longrightarrow> advances E s s'"
  by (induction rule: rtranclp_induct) (auto intro: advances_trans access_step_advances)

text \<open>The status of each request, in ledgers that satisfy the invariant, moves along the graph.\<close>

definition grant_view :: "'a access_scheme \<Rightarrow> string \<Rightarrow> string option" where
  "grant_view s k = map_option req_status (find_by req_id (requests s) k)"

definition sound_step :: "env \<Rightarrow> registry \<Rightarrow> availability \<Rightarrow> 'a access_scheme \<Rightarrow> 'a access_scheme \<Rightarrow> bool" where
  "sound_step E reg ready s s' \<longleftrightarrow> ledger_inv E s \<and> access_step E reg ready s s'"

interpretation grants: status_machine grant_view "sound_step E reg ready" grant_edge
proof
  fix s s' :: "'a access_scheme" and k a
  assume "sound_step E reg ready s s'" "grant_view s k = Some a"
  then show "\<exists>b. grant_view s' k = Some b \<and> grant_edge\<^sup>*\<^sup>* a b"
    using access_step_advances [of E reg ready s s'] unfolding sound_step_def advances_def request_moves_def grant_view_def by fastforce
qed

lemma sound_run: "(access_step E reg ready)\<^sup>*\<^sup>* s s' \<Longrightarrow> ledger_inv E s \<Longrightarrow> (sound_step E reg ready)\<^sup>*\<^sup>* s s'"
proof (induction rule: rtranclp_induct)
  case (step t u)
  then have "ledger_inv E t" using access_run_advances advances_inv by blast
  with step show ?case by (meson rtranclp.rtrancl_into_rtrancl sound_step_def)
qed simp

section \<open>What lies beside the ledger\<close>

text \<open>No method touches what a larger state holds beside the three tables and the world.\<close>

definition same_more :: "'a access_scheme \<Rightarrow> 'a access_scheme \<Rightarrow> bool" where
  "same_more s s' \<longleftrightarrow> access.more s' = access.more s"

interpretation more: frame same_more
  by unfold_locales (simp_all add: same_more_def)

lemma same_more_steps [simp]:
  "same_more s s" "same_more s (snd (raise e s))" "same_more s (snd (ret x s))" "same_more s (snd (lift r s))"
  "same_more s (snd (gets f s))" "same_more s (snd (read_clock E s))" "same_more s (snd (fresh_uuid E s))"
  "same_more s (snd (fresh_token E s))" "same_more s (snd (log_event ref action t s))" "same_more s (snd (delete_challenges ref s))"
  "same_more s (snd (update_request ref g s))" "same_more s (s\<lparr>requests := rs\<rparr>)" "same_more s (s\<lparr>challenges := cs\<rparr>)"
  by (simp_all add: same_more_def raise_def ret_def lift_def gets_def read_clock_def fresh_uuid_def fresh_token_def log_event_def
      delete_challenges_def update_request_def modify_def)

lemma more_modify: "same_more s (f s) \<Longrightarrow> same_more s (snd (modify f s))"
  by (simp add: modify_def)

lemma more_transaction: "same_more s (snd (m s)) \<Longrightarrow> same_more s (snd (transaction m s))"
  by (auto simp: same_more_def transaction_def transaction_keeping_def restore_def split: prod.splits sum.splits)

lemma more_row: "same_more s (snd (row E v s))"
  unfolding row_def now_def fetch_def
  by (intro more.keeps_bind) (auto intro!: more.keeps_bind split: option.split)

lemma more_public_row: "same_more s (snd (public_row E reg ready v s))"
  unfolding public_row_def by (intro more.keeps_bind more_row) simp

lemma more_now: "same_more s (snd (now E s))"
  unfolding now_def by (intro more.keeps_bind) auto

lemmas more_intros = more.keeps_bind more_transaction more_row more_now more_public_row more.keeps_for_each more.keeps_mapS more_modify

lemma more_methods:
  "same_more s (snd (request E reg ready actor vals s))" "same_more s (snd (status E reg ready v actor s))"
  "same_more s (snd (listing E reg ready s))" "same_more s (snd (challenge E v action s))"
  "same_more s (snd (decide E reg ready v g action duration nonce s))"
proof -
  show "same_more s (snd (status E reg ready v actor s))"
    unfolding status_def by (auto intro!: more_intros)
  show "same_more s (snd (listing E reg ready s))"
    unfolding listing_def by (auto intro!: more_intros)
  show "same_more s (snd (challenge E v action s))"
    unfolding challenge_def challenge_tx_def insert_challenge_def by (auto intro!: more_intros)
  show "same_more s (snd (decide E reg ready v g action duration nonce s))"
    unfolding decide_def decide_tx_def Let_def by (auto intro!: more_intros split: prod.split)
  show "same_more s (snd (request E reg ready actor vals s))"
    unfolding request_def request_tx_def insert_request_def by (auto intro!: more_intros split: prod.split option.split)
qed

lemma more_run_call: "same_more s (snd (run_call E reg ready c s))"
  by (cases c) (auto simp: snd_bind_ret more_methods authorize_def intro!: more.keeps_bind split: sum.split exn.split)

lemma inv_row: "ledger_inv E s \<Longrightarrow> find_by req_id (requests s) k = Some r \<Longrightarrow> good_row E r"
  by (auto simp: ledger_inv_def dest: find_by_Some)

lemma settled_good:
  assumes "ledger_inv E s" and "settled E v r s s'"
  shows "good_row E r"
proof (rule inv_row)
  show "ledger_inv E s'" by (rule advances_inv [OF settled_advances [OF assms(2)] assms(1)])
  show "find_by req_id (requests s') (req_id r) = Some r" using assms(2) by (simp add: settled_def)
qed

lemma inv_key:
  assumes "ledger_inv E s" "find_by req_id (requests s) j = Some q" "find_by req_id (requests s) k = Some r"
    and "req_actor q = req_actor r" "request_key q = request_key r"
  shows "q = r"
proof -
  have "inj_on (\<lambda>r. (req_actor r, request_key r)) (set (requests s))"
    using assms(1) by (simp add: ledger_inv_def distinct_map)
  then show ?thesis
    by (rule inj_onD) (use assms(4,5) find_by_Some [OF assms(2)] find_by_Some [OF assms(3)] in simp_all)
qed

section \<open>A concrete ledger\<close>

definition demo_env :: env where
  "demo_env = \<lparr>clock = \<lambda>_. Fin 1000, uuid4 = \<lambda>_. ''00000000-0000-4000-8000-000000000001'', token = \<lambda>_. ''nonce'',
     sha256 = \<lambda>_. replicate 64 CHR ''a'', float_text = \<lambda>_. []\<rparr>"

definition demo_registry :: registry where
  "demo_registry = [(''hotels.com'', DEFAULT_HOTELS)]"

definition empty_ledger :: access where
  "empty_ledger = \<lparr>ticks = 0, ids = 0, tokens = 0, requests = [], challenges = [], events = []\<rparr>"

definition demo_row :: "string \<Rightarrow> request_row" where
  "demo_row st = \<lparr>req_id = ''00000000-0000-4000-8000-000000000001'', req_actor = ''openclaw'', request_key = replicate 16 CHR ''k'',
     req_scope = ''search'', requested_minutes = 30, created = 900, req_digest = replicate 64 CHR ''a'', req_status = st,
     approved = (if st = ''active'' then Some 950 else None), expires = (if st = ''active'' then Some 2750 else None),
     last_seen = 950, req_account = ''hotels.com''\<rparr>"

definition demo_ledger :: "string \<Rightarrow> access" where
  "demo_ledger st = empty_ledger\<lparr>requests := [demo_row st],
     challenges := [\<lparr>nonce_hash = replicate 64 CHR ''a'', challenge_for = ''00000000-0000-4000-8000-000000000001'',
        challenge_digest = replicate 64 CHR ''a'', challenge_action = ''approve'', challenge_expires = 1200\<rparr>]\<rparr>"

definition demo_values :: dict where
  "demo_values = [(''account'', JStr ''hotels.com''), (''scope'', JStr ''search''), (''minutes'', JInt 30), (''request_key'', JStr (replicate 16 CHR ''k''))]"

lemma empty_ledger_inv: "ledger_inv E empty_ledger"
  by (simp add: ledger_inv_def empty_ledger_def pending_of_def)

lemma demo_ledger_inv: "st \<in> {''pending'', ''active'', ''denied''} \<Longrightarrow> ledger_inv demo_env (demo_ledger st)"
  by (auto simp: ledger_inv_def demo_ledger_def demo_row_def empty_ledger_def pending_of_def good_row_def good_challenge_def
      demo_env_def digest_def)

lemma call_run: "(access_step E reg ready)\<^sup>*\<^sup>* s (snd (run_call E reg ready c s))"
  by (metis call r_into_rtranclp surjective_pairing)

section \<open>Properties\<close>

text \<open>
  C3: every sequence of method calls, with any arguments and any outcomes, keeps the ledger's
  invariant: references and request keys are unique, every row's digest binds its immutable
  fields, a grant lasts 1 to 1440 minutes, an actor has at most 20 pending requests, and every
  review challenge belongs to a stored request.
\<close>

theorem access_invariant:
  assumes "ledger_inv E s" and "(access_step E reg ready)\<^sup>*\<^sup>* s s'"
  shows "ledger_inv E s'"
  using assms access_run_advances advances_inv by blast

theorem access_invariant_witness: "ledger_inv demo_env (snd (run_call demo_env demo_registry None Listing empty_ledger))"
  by (rule access_invariant [OF empty_ledger_inv call_run])

text \<open>
  C4: over any sequence of calls a request keeps its identity (reference, actor, key, account,
  scope, minutes, creation time and digest) and its status only moves along
  pending to active, denied or expired and active to revoked or expired; a denied, revoked or
  expired request never changes status again.
\<close>

theorem grant_lifecycle:
  assumes "ledger_inv E s" and "(access_step E reg ready)\<^sup>*\<^sup>* s s'" and "find_by req_id (requests s) k = Some r"
  shows "\<exists>r'. find_by req_id (requests s') k = Some r' \<and> same_request r r' \<and> grant_edge\<^sup>*\<^sup>* (req_status r) (req_status r')
    \<and> (req_status r \<in> {''denied'', ''revoked'', ''expired''} \<longrightarrow> req_status r' = req_status r)"
proof -
  from access_run_advances [OF assms(2)] assms obtain r' where r': "find_by req_id (requests s') k = Some r'" "request_moves r r'"
    unfolding advances_def by blast
  have "req_status r' = req_status r" if "req_status r \<in> {''denied'', ''revoked'', ''expired''}"
  proof -
    have "grant_view s' k = Some (req_status r)"
      by (rule grants.terminal_stable [OF sound_run [OF assms(2,1)]])
        (use assms(3) that in \<open>auto simp: grant_view_def grant_edge_def\<close>)
    with r'(1) show ?thesis by (simp add: grant_view_def)
  qed
  with r' show ?thesis by (auto simp: request_moves_def)
qed

theorem grant_lifecycle_witness:
  "\<exists>r'. find_by req_id (requests (snd (run_call demo_env demo_registry None Listing (demo_ledger ''denied'')))) (req_id (demo_row ''denied'')) = Some r'
     \<and> req_status r' = ''denied''"
proof -
  have inv: "ledger_inv demo_env (demo_ledger ''denied'')" by (rule demo_ledger_inv) simp
  have run: "(access_step demo_env demo_registry None)\<^sup>*\<^sup>* (demo_ledger ''denied'') (snd (run_call demo_env demo_registry None Listing (demo_ledger ''denied'')))"
    by (rule call_run)
  have "find_by req_id (requests (demo_ledger ''denied'')) (req_id (demo_row ''denied'')) = Some (demo_row ''denied'')"
    by (simp add: demo_ledger_def)
  from grant_lifecycle [OF inv run this] show ?thesis by (auto simp: demo_row_def)
qed

text \<open>
  C1: when \<open>authorize\<close> returns, the reference names a stored request of exactly this actor, scope
  and (when asked) account, which is active, and the clock reading of this call lies in its
  approved window of at most 24 hours.
\<close>

theorem authorize_sound:
  assumes "ledger_inv E s" and "authorize E reg ready actor v scope account s = (Inr d, s')"
  shows "\<exists>r t a e. v = JStr (req_id r) \<and> find_by req_id (requests s') (req_id r) = Some r \<and> req_status r = ''active''
    \<and> (actor = JNull \<or> actor = JStr (req_actor r)) \<and> scope = JStr (req_scope r) \<and> (account = JNull \<or> account = JStr (req_account r))
    \<and> validate_scope reg (JStr (req_account r)) scope = Inr (req_scope r)
    \<and> int_of_flt (clock E (ticks s)) = Inr t \<and> approved r = Some a \<and> expires r = Some e \<and> a \<le> t \<and> t < e \<and> e \<le> a + 86400"
proof -
  from assms(2) have st: "status E reg ready v actor s = (Inr d, s')"
      and acc: "account = JNull \<or> py_eq (get d ''account'') account" "get d ''status'' = JStr ''active''" "get d ''scope'' = scope"
        "\<exists>x. validate_scope reg (get d ''account'') scope = Inr x"
    by (auto simp: authorize_def eff_iffs split: if_splits sum.splits exn.splits)
  obtain r where r: "settled E v r s s'" "actor = JNull \<or> actor = JStr (req_actor r)" "public reg ready r = Inr d"
    using wp_outcome [OF status_spec [OF assms(1)] st] by blast
  note f = public_fields [OF r(3)]
  have "good_row E r" by (rule settled_good [OF assms(1) r(1)])
  then obtain a e where ae: "approved r = Some a" "expires r = Some e" "e \<le> a + 86400"
    using acc(2) f by (auto simp: good_row_def split: option.splits)
  obtain t where t: "int_of_flt (clock E (ticks s)) = Inr t" "live t r" using r(1) by (auto simp: settled_def)
  have "validate_scope reg (JStr (req_account r)) scope = Inr (req_scope r)"
    using acc f by (auto simp: validate_scope_def res_iffs split: if_splits)
  moreover have "account = JNull \<or> account = JStr (req_account r)"
    using acc(1) f by auto
  ultimately show ?thesis
    using r acc f ae t by (auto simp: settled_def live_def intro!: exI [of _ r])
qed

theorem authorize_sound_witness:
  "\<exists>d s'. authorize demo_env demo_registry None (JStr ''openclaw'') (JStr ''00000000-0000-4000-8000-000000000001'') (JStr ''search'') JNull
      (demo_ledger ''active'') = (Inr d, s') \<and> (\<exists>r. find_by req_id (requests s') (req_id r) = Some r \<and> req_status r = ''active'')"
proof -
  have inv: "ledger_inv demo_env (demo_ledger ''active'')" by (rule demo_ledger_inv) simp
  have "\<not> isl (fst (authorize demo_env demo_registry None (JStr ''openclaw'') (JStr ''00000000-0000-4000-8000-000000000001'') (JStr ''search'') JNull
      (demo_ledger ''active'')))"
    by code_simp
  then obtain d s' where *: "authorize demo_env demo_registry None (JStr ''openclaw'') (JStr ''00000000-0000-4000-8000-000000000001'') (JStr ''search'') JNull
      (demo_ledger ''active'') = (Inr d, s')"
    by (metis prod.collapse sum.collapse(2))
  with authorize_sound [OF inv *] show ?thesis by blast
qed

text \<open>
  C2: a decision takes effect only with a live challenge that was issued for this request, this
  digest and this action: the request was pending (active for a revocation), approval sets the
  window to start now and last the owner's minutes, and no challenge of the request survives, so
  the nonce cannot be used again.
\<close>

theorem decide_sound:
  assumes "ledger_inv E s" and "decide E reg ready v (JStr g) (JStr action) (JInt m) (JStr nonce) s = (Inr d, s')"
  shows "\<exists>q c t r. v = JStr (req_id q) \<and> find_by req_id (requests s) (req_id q) = Some q \<and> req_digest q = g
    \<and> req_status q = (if action = ''revoke'' then ''active'' else ''pending'')
    \<and> find_by nonce_hash (challenges s) (sha256 E nonce) = Some c \<and> challenge_for c = req_id q \<and> challenge_digest c = g
    \<and> challenge_action c = action \<and> int_of_flt (clock E (Suc (ticks s))) = Inr t \<and> t < challenge_expires c
    \<and> find_by req_id (requests s') (req_id q) = Some r
    \<and> (req_status r = next_status action \<or> action = ''approve'' \<and> req_status r = ''expired'')
    \<and> (action = ''approve'' \<longrightarrow> approved r = Some t \<and> expires r = Some (t + m * 60))
    \<and> (\<forall>c \<in> set (challenges s'). challenge_for c \<noteq> req_id q)"
proof -
  obtain g' a m' n where args: "decide_args (JStr g) (JStr action) (JInt m) (JStr nonce) = Inr (g', a, m', n)"
      "decided E reg ready v g' a m' n d s s'"
    using wp_outcome [OF decide_spec [OF assms(1)] assms(2)] by blast
  then have "g' = g" "a = action" "m' = m" "n = nonce"
    by (auto simp: decide_args_def res_iffs minutes_def split: if_splits)
  with args(2) show ?thesis unfolding decided_def by blast
qed

theorem decide_sound_witness:
  "\<exists>d s' r. decide demo_env demo_registry None (JStr ''00000000-0000-4000-8000-000000000001'') (JStr (replicate 64 CHR ''a''))
      (JStr ''approve'') (JInt 30) (JStr ''nonce'') (demo_ledger ''pending'') = (Inr d, s')
    \<and> find_by req_id (requests s') ''00000000-0000-4000-8000-000000000001'' = Some r \<and> approved r = Some 1000 \<and> expires r = Some 2800"
proof -
  have inv: "ledger_inv demo_env (demo_ledger ''pending'')" by (rule demo_ledger_inv) simp
  have "\<not> isl (fst (decide demo_env demo_registry None (JStr ''00000000-0000-4000-8000-000000000001'') (JStr (replicate 64 CHR ''a''))
      (JStr ''approve'') (JInt 30) (JStr ''nonce'') (demo_ledger ''pending'')))"
    by code_simp
  then obtain d s' where *: "decide demo_env demo_registry None (JStr ''00000000-0000-4000-8000-000000000001'') (JStr (replicate 64 CHR ''a''))
      (JStr ''approve'') (JInt 30) (JStr ''nonce'') (demo_ledger ''pending'') = (Inr d, s')"
    by (metis prod.collapse sum.collapse(2))
  have "int_of_flt (clock demo_env n) = Inr 1000" for n by (simp add: demo_env_def)
  with decide_sound [OF inv *] obtain r where "find_by req_id (requests s') ''00000000-0000-4000-8000-000000000001'' = Some r"
      "approved r = Some 1000" "expires r = Some 2800"
    by fastforce
  with * show ?thesis by blast
qed

text \<open>
  C6: a call that raises leaves the three tables exactly as they were, so a refused request,
  review, challenge or decision has no effect; \<open>authorize\<close>, which first commits a status read, is
  the one method outside this rule.
\<close>

theorem refusal_rolls_back:
  assumes "run_call E reg ready c s = (Inl e, s')" and "\<nexists>actor v scope account. c = Authorize actor v scope account"
  shows "rolled_back s s'"
  using assms
  by (cases c) (auto simp: eff_iffs request_def status_def listing_def challenge_def decide_def split: if_splits)

theorem refusal_rolls_back_witness:
  "\<exists>e s'. run_call demo_env demo_registry None (Status (JStr ''00000000-0000-4000-8000-000000000001'') (JStr ''mallory'')) (demo_ledger ''active'') = (Inl e, s')
     \<and> rolled_back (demo_ledger ''active'') s'"
proof -
  have "isl (fst (run_call demo_env demo_registry None (Status (JStr ''00000000-0000-4000-8000-000000000001'') (JStr ''mallory'')) (demo_ledger ''active'')))"
    by code_simp
  then obtain e s' where *: "run_call demo_env demo_registry None (Status (JStr ''00000000-0000-4000-8000-000000000001'') (JStr ''mallory'')) (demo_ledger ''active'') = (Inl e, s')"
    by (metis prod.collapse sum.collapse(1))
  with refusal_rolls_back [OF *] show ?thesis by blast
qed

lemma request_values_key:
  assumes "request_values reg (JObj values) = Inr (acc, sc, m, k)"
  shows "get values ''account'' = JStr acc \<and> get values ''scope'' = JStr sc \<and> get values ''minutes'' = JInt m \<and> get values ''request_key'' = JStr k"
  using assms
  by (auto simp: request_values_def minutes_def validate_scope_def profile_def res_iffs is_str_iff type_is_int_iff str_of_def
      dest!: account_name_Inr split: if_splits sum.splits exn.splits json.splits)

text \<open>
  C5: requesting is idempotent per actor and request key. However many calls lie between them, two
  accepted requests with the same actor and key ask for the same account, scope and duration and answer with the same
  reference; the second reports that nothing was created, and the table of requests has the rows it had.
\<close>

theorem request_idempotent:
  assumes inv: "ledger_inv E s" and one: "request E reg ready actor (JObj vals) s = (Inr (d, b), s1)"
    and run: "(access_step E reg ready)\<^sup>*\<^sup>* s1 s2" and two: "request E reg ready actor (JObj vals') s2 = (Inr (d', b'), s3)"
    and key: "get vals' ''request_key'' = get vals ''request_key''"
  shows "get d' ''request_id'' = get d ''request_id'' \<and> \<not> b' \<and> map req_id (requests s3) = map req_id (requests s2)
    \<and> get vals' ''account'' = get vals ''account'' \<and> get vals' ''scope'' = get vals ''scope'' \<and> get vals' ''minutes'' = get vals ''minutes''"
proof -
  obtain a acc sc m k where v: "identity actor = Inr a" "request_values reg (JObj vals) = Inr (acc, sc, m, k)"
      and r1: "requested E reg ready a (acc, sc, m, k) (d, b) s s1"
    using wp_outcome [OF request_spec [OF inv] one] by (metis prod_cases4)
  have inv1: "ledger_inv E s1" using r1 inv advances_inv by (auto simp: requested_def)
  have inv2: "ledger_inv E s2" using inv1 run access_run_advances advances_inv by blast
  obtain acc' sc' m' k' where v': "request_values reg (JObj vals') = Inr (acc', sc', m', k')"
      and r2: "requested E reg ready a (acc', sc', m', k') (d', b') s2 s3"
    using wp_outcome [OF request_spec [OF inv2] two] v(1) by (metis prod_cases4 sum.inject(2))
  note f = request_values_key [OF v(2)] request_values_key [OF v']
  have inv3: "ledger_inv E s3" using r2 inv2 advances_inv by (auto simp: requested_def)
  obtain x where x: "find_by req_id (requests s1) (req_id x) = Some x" "public reg ready x = Inr d" "req_actor x = a" "request_key x = k"
      "req_account x = acc" "req_scope x = sc" "requested_minutes x = m"
    using r1 by (auto simp: requested_def)
  obtain y where y: "find_by req_id (requests s2) (req_id x) = Some y" "same_request x y"
    using access_run_advances [OF run] inv1 x(1) unfolding advances_def request_moves_def by blast
  obtain y' where y': "find_by req_id (requests s3) (req_id x) = Some y'" "same_request y y'"
    using r2 inv2 y(1) unfolding requested_def advances_def request_moves_def by blast
  obtain z where z: "find_by req_id (requests s3) (req_id z) = Some z" "public reg ready z = Inr d'" "req_actor z = a" "request_key z = k'"
      "req_account z = acc'" "req_scope z = sc'" "requested_minutes z = m'"
      "map req_id (requests s3) = map req_id (requests s2) @ (if b' then [req_id z] else [])"
    using r2 by (auto simp: requested_def)
  have "k' = k" using key f by simp
  then have "z = y'" by (intro inv_key [OF inv3 z(1) y'(1)]) (use x y y' z in \<open>auto simp: same_request_def\<close>)
  then have id: "req_id z = req_id x" and same: "acc' = acc" "sc' = sc" "m' = m"
    using x y y' z by (auto simp: same_request_def)
  have "req_id x \<in> set (map req_id (requests s2))" using find_by_Some [OF y(1)] by (metis image_eqI list.set_map)
  moreover have "distinct (map req_id (requests s3))" using inv3 by (simp add: ledger_inv_def)
  ultimately have "\<not> b'" using z(8) id by (auto split: if_splits)
  with id same f z(8) public_fields [OF x(2)] public_fields [OF z(2)] show ?thesis by simp
qed

theorem request_idempotent_witness:
  "\<exists>d d' s1 s3. request demo_env demo_registry None (JStr ''openclaw'') (JObj demo_values) empty_ledger = (Inr (d, True), s1)
     \<and> request demo_env demo_registry None (JStr ''openclaw'') (JObj demo_values) s1 = (Inr (d', False), s3)
     \<and> get d' ''request_id'' = get d ''request_id''"
proof -
  let ?op = "request demo_env demo_registry None (JStr ''openclaw'') (JObj demo_values)"
  have "\<not> isl (fst (?op empty_ledger)) \<and> snd (projr (fst (?op empty_ledger)))" by code_simp
  then obtain d s1 where one: "?op empty_ledger = (Inr (d, True), s1)"
    by (cases "?op empty_ledger"; cases "fst (?op empty_ledger)") auto
  have "\<not> isl (fst (?op (snd (?op empty_ledger))))" by code_simp
  then obtain d' b' s3 where two: "?op s1 = (Inr (d', b'), s3)"
    unfolding one snd_conv by (cases "?op s1"; cases "fst (?op s1)") auto
  from request_idempotent [OF empty_ledger_inv one _ two refl] one two show ?thesis by auto
qed

end
