(* ===== verification/Site_Transactions.thy ===== *)
theory Site_Transactions
  imports Access_Grants
begin

text \<open>
  \<open>scripts/openclaw_site_transactions.py\<close>: exact purchases and bookings that the owner approves
  one by one and a trusted finalizer claims once. The state extends the access ledger's, because
  the service binds \<open>authorize_grant\<close> to it; the transaction ledger has its own database, so its
  rollback leaves the access ledger alone. A \<open>TransactionRefused\<close> commits what was written before
  it (an expiry), any other exception rolls back. The callback \<open>auth\<close> and the set of qualified
  drivers are the constructor's arguments.
\<close>

section \<open>State\<close>

record txn_row =
  tx_id :: string
  tx_actor :: string
  grant_id :: string
  tx_account :: string
  tx_kind :: string
  snapshot :: dict
  tx_digest :: string
  tx_created :: int
  tx_expires :: int
  tx_last_seen :: int
  tx_status :: string
  tx_approved :: "int option"
  qualified_at_approval :: int
  qualified_set_digest :: "string option"
  execution_id :: "string option"
  claimed :: "int option"
  driver_id :: "string option"
  outcome_at :: "int option"
  receipt :: "string option"

record tx_challenge =
  txc_hash :: string
  txc_for :: string
  txc_digest :: string
  txc_action :: string
  txc_expires :: int

record site_db = access +
  txns :: "txn_row list"
  tx_challenges :: "tx_challenge list"
  tx_events :: "(string \<times> string \<times> int) list"

type_synonym drivers = "(string \<times> string \<times> string) list"
type_synonym 'a authorizer = "string \<Rightarrow> string \<Rightarrow> ('a site_db_scheme, json) eff"

definition KINDS :: "string list" where
  "KINDS = [''purchase'', ''booking'']"

section \<open>Argument checks\<close>

definition reference :: "json \<Rightarrow> string res" where
  "reference v = (case v of
       JStr s \<Rightarrow> if is_uuid s then Inr s else Inl (TransactionRefused ''Transaction reference refused'')
     | _ \<Rightarrow> Inl (TransactionRefused ''Transaction reference refused''))"

definition ACTOR_ID :: rexp where
  "ACTOR_ID = Seq (Cls is_lower) (Rep (Cls (\<lambda>c. is_lower c \<or> is_digit c \<or> c = CHR ''_'' \<or> c = CHR ''-'')) 0 31)"

definition actor_id :: "json \<Rightarrow> string res" where
  "actor_id v = (case v of
       JStr s \<Rightarrow> if fullmatch ACTOR_ID s then Inr s else Inl (TransactionRefused ''Transaction actor refused'')
     | _ \<Rightarrow> Inl (TransactionRefused ''Transaction actor refused''))"

definition ACCOUNT_ID :: rexp where
  "ACCOUNT_ID = Seq (Many (Seq (Cls host_char) (Seq host_tail (Lit ''.''))) 1) (Rep (Cls is_lower) 2 63)"

definition account_id :: "json \<Rightarrow> string res" where
  "account_id v = (case v of
       JStr s \<Rightarrow> if length s \<le> 253 \<and> fullmatch ACCOUNT_ID s then Inr s else Inl (TransactionRefused ''Transaction account refused'')
     | _ \<Rightarrow> Inl (TransactionRefused ''Transaction account refused''))"

text \<open>The characters 0 to 255 whose Unicode category starts with C: Cc and the soft hyphen (Cf).\<close>

definition category_C :: "char \<Rightarrow> bool" where
  "category_C c \<longleftrightarrow> code c < 32 \<or> 127 \<le> code c \<and> code c \<le> 159 \<or> code c = 173"

definition plain :: "json \<Rightarrow> nat \<Rightarrow> string res" where
  "plain v maximum = (case v of
       JStr s \<Rightarrow> if 1 \<le> length s \<and> length s \<le> maximum \<and> py_strip s = s
             \<and> list_all (\<lambda>c. \<not> category_C c \<and> c \<noteq> CHR ''<'' \<and> c \<noteq> CHR ''>'') s
           then Inr s else Inl (TransactionRefused ''Transaction text refused'')
     | _ \<Rightarrow> Inl (TransactionRefused ''Transaction text refused''))"

definition canonical :: "env \<Rightarrow> dict \<Rightarrow> string" where
  "canonical E d = dumps (float_text E) canonical_style (JObj d)"

definition int_within :: "json \<Rightarrow> int \<Rightarrow> int \<Rightarrow> bool" where
  "int_within v lo hi \<longleftrightarrow> type_is_int v \<and> lo \<le> int_of v \<and> int_of v \<le> hi"

definition snapshot_shape :: "dict \<Rightarrow> bool" where
  "snapshot_shape d \<longleftrightarrow>
     same_keys d [''account'', ''kind'', ''payee'', ''amount_minor'', ''currency'', ''items'', ''terms'', ''expires_at'']
     \<and> get d ''kind'' \<in> JStr ` set KINDS \<and> int_within (get d ''amount_minor'') 0 (10 ^ 12)
     \<and> (case get d ''currency'' of JStr s \<Rightarrow> fullmatch (Rep (Cls is_upper) 3 3) s | _ \<Rightarrow> False)
     \<and> int_within (get d ''expires_at'') 0 (2 ^ 53)
     \<and> (case get d ''items'' of JArr xs \<Rightarrow> 1 \<le> length xs \<and> length xs \<le> 12 | _ \<Rightarrow> False)
     \<and> (case get d ''terms'' of JArr xs \<Rightarrow> 1 \<le> length xs \<and> length xs \<le> 12 | _ \<Rightarrow> False)"

definition line_item :: "json \<Rightarrow> json res" where
  "line_item v = (case v of
       JObj d \<Rightarrow>
         if \<not> (same_keys d [''description'', ''quantity'', ''unit_amount_minor''] \<and> int_within (get d ''quantity'') 1 100
               \<and> int_within (get d ''unit_amount_minor'') 0 (10 ^ 12))
         then Inl (TransactionRefused ''Transaction line item refused'')
         else bindr (plain (get d ''description'') 240) (\<lambda>t.
           Inr (JObj [(''description'', JStr t), (''quantity'', get d ''quantity''), (''unit_amount_minor'', get d ''unit_amount_minor'')]))
     | _ \<Rightarrow> Inl (TransactionRefused ''Transaction line item refused''))"

definition line_total :: "json \<Rightarrow> int" where
  "line_total v = int_of (get (dict_of v) ''quantity'') * int_of (get (dict_of v) ''unit_amount_minor'')"

definition validate_snapshot :: "env \<Rightarrow> json \<Rightarrow> dict res" where
  "validate_snapshot E v = (case v of
       JObj d \<Rightarrow>
         if \<not> snapshot_shape d then Inl (TransactionRefused ''Exact transaction snapshot refused'')
         else bindr (map_res line_item (list_of (get d ''items''))) (\<lambda>items.
           if sum_list (map line_total items) \<noteq> int_of (get d ''amount_minor'')
           then Inl (TransactionRefused ''Transaction total differs from line items'')
           else bindr (account_id (get d ''account'')) (\<lambda>account.
             bindr (plain (get d ''payee'') 160) (\<lambda>payee.
             bindr (map_res (\<lambda>t. bindr (plain t 600) (\<lambda>s. Inr (JStr s))) (list_of (get d ''terms''))) (\<lambda>terms.
             let result = [(''account'', JStr account), (''kind'', get d ''kind''), (''payee'', JStr payee),
                   (''amount_minor'', get d ''amount_minor''), (''currency'', get d ''currency''), (''items'', JArr items),
                   (''terms'', JArr terms), (''expires_at'', get d ''expires_at'')]
             in if int (utf8_len (canonical E result)) > 12288 then Inl (TransactionRefused ''Transaction snapshot budget refused'')
                else Inr result))))
     | _ \<Rightarrow> Inl (TransactionRefused ''Exact transaction snapshot refused''))"

definition qualified_driver :: "string \<times> string \<times> string \<Rightarrow> unit res" where
  "qualified_driver e = (case e of (driver, account, kind) \<Rightarrow>
     if \<not> fullmatch (Seq (Cls is_lower) (Rep (Cls (\<lambda>c. is_lower c \<or> is_digit c \<or> c = CHR ''_'' \<or> c = CHR ''.'' \<or> c = CHR ''-'')) 0 63)) driver
     then Inl (TransactionRefused ''Qualified driver configuration refused'')
     else bindr (account_id (JStr account)) (\<lambda>_. require (kind \<in> set KINDS) (TransactionRefused ''Qualified driver configuration refused'')))"

definition configure :: "drivers \<Rightarrow> unit res" where
  "configure drivers = for_each qualified_driver drivers"

section \<open>Connection, clock and grant\<close>

definition tx_restore :: "'a site_db_scheme \<Rightarrow> 'a site_db_scheme \<Rightarrow> 'a site_db_scheme" where
  "tx_restore s s' = s'\<lparr>txns := txns s, tx_challenges := tx_challenges s, tx_events := tx_events s\<rparr>"

fun is_refusal :: "exn \<Rightarrow> bool" where
  "is_refusal (TransactionRefused _) = True"
| "is_refusal _ = False"

definition connect :: "('a site_db_scheme, 'b) eff \<Rightarrow> ('a site_db_scheme, 'b) eff" where
  "connect m s = (case m s of
       (Inr x, s') \<Rightarrow> (Inr x, s')
     | (Inl e, s') \<Rightarrow> (Inl e, if is_refusal e then s' else tx_restore s s'))"

definition tx_now :: "env \<Rightarrow> ('a site_db_scheme, int) eff" where
  "tx_now E = bindS (read_clock E) (\<lambda>t.
     if \<not> isfinite t \<or> flt_less t (Fin 0) then raise (TransactionRefused ''Transaction clock refused'') else lift (int_of_flt t))"

definition grant_ok :: "json \<Rightarrow> string \<Rightarrow> string \<Rightarrow> string \<Rightarrow> int \<Rightarrow> bool" where
  "grant_ok g actor gid account t = (case g of
       JObj d \<Rightarrow> get d ''request_id'' = JStr gid \<and> get d ''actor'' = JStr actor \<and> get d ''account'' = JStr account
         \<and> get d ''status'' = JStr ''active'' \<and> int_within (get d ''approved_at'') 0 t
         \<and> type_is_int (get d ''expires_at'') \<and> \<not> int_of (get d ''expires_at'') \<le> t
     | _ \<Rightarrow> False)"

definition grant :: "env \<Rightarrow> 'a authorizer \<Rightarrow> string \<Rightarrow> string \<Rightarrow> string \<Rightarrow> ('a site_db_scheme, dict) eff" where
  "grant E auth actor gid account =
     catch (bindS (auth actor gid) (\<lambda>g. bindS (tx_now E) (\<lambda>t.
         if grant_ok g actor gid account t then ret (dict_of g) else raise (TransactionRefused ''Active account grant required''))))
       (\<lambda>_. True) (\<lambda>_. raise (TransactionRefused ''Active account grant required''))"

section \<open>Rows\<close>

definition update_tx :: "string \<Rightarrow> (txn_row \<Rightarrow> txn_row) \<Rightarrow> ('a site_db_scheme, unit) eff" where
  "update_tx ref f = modify (\<lambda>s. s\<lparr>txns := update_by tx_id ref f (txns s)\<rparr>)"

definition drop_tx_challenges :: "string \<Rightarrow> ('a site_db_scheme, unit) eff" where
  "drop_tx_challenges ref = modify (\<lambda>s. s\<lparr>tx_challenges := filter (\<lambda>c. txc_for c \<noteq> ref) (tx_challenges s)\<rparr>)"

definition log_tx :: "string \<Rightarrow> string \<Rightarrow> int \<Rightarrow> ('a site_db_scheme, unit) eff" where
  "log_tx ref action t = modify (\<lambda>s. s\<lparr>tx_events := tx_events s @ [(ref, action, t)]\<rparr>)"

definition fetch_tx :: "string \<Rightarrow> ('a site_db_scheme, txn_row) eff" where
  "fetch_tx ref = bindS (gets (\<lambda>s. find_by tx_id (txns s) ref)) (\<lambda>found.
     case found of None \<Rightarrow> raise TypeError | Some r \<Rightarrow> ret r)"

definition tx_open :: "string \<Rightarrow> bool" where
  "tx_open st \<longleftrightarrow> st \<in> {''pending'', ''approved'', ''executing''}"

definition closed_status :: "string \<Rightarrow> string" where
  "closed_status st = (if st = ''executing'' then ''unknown'' else ''expired'')"

definition tx_row :: "env \<Rightarrow> json \<Rightarrow> ('a site_db_scheme, txn_row) eff" where
  "tx_row E v =
     bindS (lift (reference v)) (\<lambda>ref.
     bindS (gets (\<lambda>s. find_by tx_id (txns s) ref)) (\<lambda>found.
     case found of
       None \<Rightarrow> raise (TransactionRefused ''Transaction unavailable'')
     | Some r \<Rightarrow>
         bindS (tx_now E) (\<lambda>t.
         if tx_open (tx_status r) \<and> (t < tx_last_seen r \<or> t \<ge> tx_expires r) then
           (let st = closed_status (tx_status r) in
            bindS (update_tx ref (\<lambda>q. q\<lparr>tx_status := st\<rparr>)) (\<lambda>_.
            bindS (drop_tx_challenges ref) (\<lambda>_.
            bindS (log_tx ref st t) (\<lambda>_. fetch_tx ref))))
         else if t > tx_last_seen r then
           bindS (update_tx ref (\<lambda>q. q\<lparr>tx_last_seen := t\<rparr>)) (\<lambda>_. fetch_tx ref)
         else ret r)))"

definition tx_available :: "drivers \<Rightarrow> txn_row \<Rightarrow> bool" where
  "tx_available drivers r \<longleftrightarrow> (\<exists>(_, account, kind) \<in> set drivers. account = tx_account r \<and> kind = tx_kind r)"

text \<open>The matching entries differ in the driver only, so sorting by it sorts the tuples.\<close>

definition driver_digest :: "env \<Rightarrow> drivers \<Rightarrow> txn_row \<Rightarrow> string" where
  "driver_digest E drivers r =
     (let matching = sort_keys (remdups (filter (\<lambda>(_, a, k). a = tx_account r \<and> k = tx_kind r) drivers))
      in sha256 E (canonical E [(''qualified_drivers'', JArr (map (\<lambda>(d, a, k). JArr [JStr d, JStr a, JStr k]) matching))]))"

definition opt_str :: "string option \<Rightarrow> json" where
  "opt_str v = (case v of None \<Rightarrow> JNull | Some s \<Rightarrow> JStr s)"

definition tx_public :: "env \<Rightarrow> drivers \<Rightarrow> txn_row \<Rightarrow> dict res" where
  "tx_public E drivers r = bindr (item (snapshot r) ''expires_at'') (\<lambda>quote.
     Inr (foldl (\<lambda>d (k, v). put d k v) []
       ([(''transaction_id'', JStr (tx_id r)), (''actor'', JStr (tx_actor r)), (''grant_ref'', JStr (grant_id r))]
        @ snapshot r @
        [(''quote_expires_at'', quote), (''proposal_digest'', JStr (tx_digest r)), (''created_at'', JInt (tx_created r)),
         (''expires_at'', JInt (tx_expires r)), (''status'', JStr (tx_status r)), (''approved_at'', opt_int (tx_approved r)),
         (''execution_id'', opt_str (execution_id r)), (''receipt_reference'', opt_str (receipt r)),
         (''driver_qualified'', JBool (tx_available drivers r)),
         (''execution_available'', JBool (tx_available drivers r \<and> tx_status r = ''approved'' \<and> qualified_at_approval r \<noteq> 0
             \<and> qualified_set_digest r = Some (driver_digest E drivers r))),
         (''reconciliation_required'', JBool (tx_status r \<in> {''executing'', ''unknown''}))])))"

definition public_tx :: "env \<Rightarrow> drivers \<Rightarrow> json \<Rightarrow> ('a site_db_scheme, dict) eff" where
  "public_tx E drivers v = bindS (tx_row E v) (\<lambda>r. lift (tx_public E drivers r))"

section \<open>Operations\<close>

definition unresolved :: "txn_row \<Rightarrow> bool" where
  "unresolved r \<longleftrightarrow> tx_status r \<in> {''executing'', ''unknown''}"

definition insert_tx :: "txn_row \<Rightarrow> ('a site_db_scheme, unit) eff" where
  "insert_tx r = bindS (gets txns) (\<lambda>rs.
     if tx_id r \<in> tx_id ` set rs then raise IntegrityError else modify (\<lambda>s. s\<lparr>txns := txns s @ [r]\<rparr>))"

definition propose_tx :: "env \<Rightarrow> drivers \<Rightarrow> txn_row \<Rightarrow> ('a site_db_scheme, dict) eff" where
  "propose_tx E drivers r =
     bindS (gets txns) (\<lambda>rs.
     if \<exists>q \<in> set rs. tx_account q = tx_account r \<and> unresolved q
     then raise (TransactionRefused ''Account has an unresolved transaction; operator reconciliation required'')
     else if int (length rs) \<ge> 10000 then raise (TransactionRefused ''Transaction ledger capacity reached'')
     else
       bindS (insert_tx r) (\<lambda>_.
       bindS (log_tx (tx_id r) ''proposed'' (tx_created r)) (\<lambda>_.
       public_tx E drivers (JStr (tx_id r)))))"

definition immutable_tx :: "string \<Rightarrow> string \<Rightarrow> string \<Rightarrow> dict \<Rightarrow> int \<Rightarrow> int \<Rightarrow> dict" where
  "immutable_tx ref actor gid value t expiry =
     [(''transaction_id'', JStr ref), (''actor'', JStr actor), (''grant_ref'', JStr gid),
      (''snapshot'', JObj value), (''created_at'', JInt t), (''expires_at'', JInt expiry)]"

definition propose :: "env \<Rightarrow> 'a authorizer \<Rightarrow> drivers \<Rightarrow> json \<Rightarrow> json \<Rightarrow> json \<Rightarrow> ('a site_db_scheme, dict) eff" where
  "propose E auth drivers trusted_actor grant_ref snap =
     bindS (lift (actor_id trusted_actor)) (\<lambda>actor.
     bindS (lift (reference grant_ref)) (\<lambda>gid.
     bindS (lift (validate_snapshot E snap)) (\<lambda>value.
     bindS (grant E auth actor gid (str_of (get value ''account''))) (\<lambda>g.
     bindS (tx_now E) (\<lambda>t.
     let expiry = min (int_of (get value ''expires_at'')) (min (int_of (get g ''expires_at'')) (t + 900)) in
     if expiry \<le> t then raise (TransactionRefused ''Transaction quote expired'')
     else bindS (fresh_uuid E) (\<lambda>ref.
       connect (propose_tx E drivers \<lparr>tx_id = ref, tx_actor = actor, grant_id = gid, tx_account = str_of (get value ''account''),
         tx_kind = str_of (get value ''kind''), snapshot = value,
         tx_digest = sha256 E (canonical E (immutable_tx ref actor gid value t expiry)),
         tx_created = t, tx_expires = expiry, tx_last_seen = t, tx_status = ''pending'', tx_approved = None,
         qualified_at_approval = 0, qualified_set_digest = None, execution_id = None, claimed = None, driver_id = None,
         outcome_at = None, receipt = None\<rparr>)))))))"

definition review :: "env \<Rightarrow> drivers \<Rightarrow> json \<Rightarrow> json \<Rightarrow> ('a site_db_scheme, dict) eff" where
  "review E drivers v actor =
     bindS (lift (if actor = JNull then Inr [] else actor_id actor)) (\<lambda>_. connect (
     bindS (tx_row E v) (\<lambda>r.
     if actor \<noteq> JNull \<and> actor \<noteq> JStr (tx_actor r) then raise (TransactionRefused ''Transaction unavailable'')
     else lift (tx_public E drivers r))))"

definition not_applicable :: "string \<Rightarrow> txn_row \<Rightarrow> bool" where
  "not_applicable action r \<longleftrightarrow> action \<in> {''approve'', ''deny''} \<and> tx_status r \<noteq> ''pending''
     \<or> action = ''revoke'' \<and> tx_status r \<noteq> ''approved''"

definition insert_tx_challenge :: "tx_challenge \<Rightarrow> ('a site_db_scheme, unit) eff" where
  "insert_tx_challenge c = bindS (gets tx_challenges) (\<lambda>cs.
     if txc_hash c \<in> txc_hash ` set cs then raise IntegrityError
     else modify (\<lambda>s. s\<lparr>tx_challenges := tx_challenges s @ [c]\<rparr>))"

definition tx_challenge_body :: "env \<Rightarrow> json \<Rightarrow> string \<Rightarrow> ('a site_db_scheme, string) eff" where
  "tx_challenge_body E v action =
     bindS (tx_row E v) (\<lambda>r.
     bindS (tx_now E) (\<lambda>t.
     if not_applicable action r then raise (TransactionRefused ''Transaction decision no longer applicable'')
     else
       bindS (modify (\<lambda>s. s\<lparr>tx_challenges := filter (\<lambda>c. txc_expires c > t) (tx_challenges s)\<rparr>)) (\<lambda>_.
       bindS (gets (\<lambda>s. int (length (tx_challenges s)))) (\<lambda>n.
       if n \<ge> 1000 then raise (TransactionRefused ''Transaction review budget reached'')
       else
         bindS (fresh_token E) (\<lambda>nonce.
         bindS (insert_tx_challenge \<lparr>txc_hash = sha256 E nonce, txc_for = str_of v, txc_digest = tx_digest r,
             txc_action = action, txc_expires = min (t + 300) (tx_expires r)\<rparr>) (\<lambda>_. ret nonce))))))"

definition tx_challenge :: "env \<Rightarrow> json \<Rightarrow> json \<Rightarrow> ('a site_db_scheme, string) eff" where
  "tx_challenge E v action =
     (if action \<notin> JStr ` set [''approve'', ''deny'', ''revoke''] then raise (TransactionRefused ''Transaction decision refused'')
      else connect (tx_challenge_body E v (str_of action)))"

definition tx_settle :: "env \<Rightarrow> drivers \<Rightarrow> string \<Rightarrow> int \<Rightarrow> txn_row \<Rightarrow> txn_row \<Rightarrow> txn_row" where
  "tx_settle E drivers action t r q =
     (if action = ''approve'' then q\<lparr>tx_status := ''approved'', tx_approved := Some t,
         qualified_at_approval := (if tx_available drivers r then 1 else 0), qualified_set_digest := Some (driver_digest E drivers r)\<rparr>
      else q\<lparr>tx_status := (if action = ''deny'' then ''denied'' else ''revoked'')\<rparr>)"

definition tx_decide_body :: "env \<Rightarrow> 'a authorizer \<Rightarrow> drivers \<Rightarrow> json \<Rightarrow> string \<Rightarrow> string \<Rightarrow> string \<Rightarrow> ('a site_db_scheme, dict) eff" where
  "tx_decide_body E auth drivers v proposal_digest action nonce =
     bindS (tx_row E v) (\<lambda>r.
     bindS (tx_now E) (\<lambda>t.
     bindS (gets (\<lambda>s. find_by txc_hash (tx_challenges s) (sha256 E nonce))) (\<lambda>found.
     let ref = str_of v in
     if (case found of None \<Rightarrow> True | Some c \<Rightarrow> txc_for c \<noteq> ref \<or> txc_action c \<noteq> action \<or> t \<ge> txc_expires c
           \<or> txc_digest c \<noteq> proposal_digest) \<or> tx_digest r \<noteq> proposal_digest
     then raise (TransactionRefused ''Exact transaction review required'')
     else if not_applicable action r then raise (TransactionRefused ''Transaction decision no longer applicable'')
     else
       bindS (if action = ''approve'' then bindS (grant E auth (tx_actor r) (grant_id r) (tx_account r)) (\<lambda>_. ret ()) else ret ()) (\<lambda>_.
       bindS (update_tx ref (tx_settle E drivers action t r)) (\<lambda>_.
       bindS (drop_tx_challenges ref) (\<lambda>_.
       bindS (log_tx ref action t) (\<lambda>_.
       public_tx E drivers v)))))))"

definition tx_decide :: "env \<Rightarrow> 'a authorizer \<Rightarrow> drivers \<Rightarrow> json \<Rightarrow> json \<Rightarrow> json \<Rightarrow> json \<Rightarrow> ('a site_db_scheme, dict) eff" where
  "tx_decide E auth drivers v proposal_digest action nonce =
     (if action \<notin> JStr ` set [''approve'', ''deny'', ''revoke''] \<or> \<not> is_str nonce
         \<or> \<not> (1 \<le> length (str_of nonce) \<and> length (str_of nonce) \<le> 128)
         \<or> \<not> is_str proposal_digest \<or> \<not> hex_text 64 (str_of proposal_digest)
      then raise (TransactionRefused ''Transaction decision refused'')
      else connect (tx_decide_body E auth drivers v (str_of proposal_digest) (str_of action) (str_of nonce)))"

text \<open>\<open>UPDATE ... SET execution_id=?\<close> on a \<open>UNIQUE\<close> column.\<close>

definition mark_executing :: "string \<Rightarrow> string \<Rightarrow> int \<Rightarrow> string \<Rightarrow> ('a site_db_scheme, unit) eff" where
  "mark_executing ref eid t driver = bindS (gets txns) (\<lambda>rs.
     if \<exists>q \<in> set rs. tx_id q \<noteq> ref \<and> execution_id q = Some eid then raise IntegrityError
     else update_tx ref (\<lambda>q. q\<lparr>tx_status := ''executing'', execution_id := Some eid, claimed := Some t, driver_id := Some driver\<rparr>))"

definition claim_tail :: "env \<Rightarrow> drivers \<Rightarrow> json \<Rightarrow> json \<Rightarrow> txn_row \<Rightarrow> int \<Rightarrow> dict \<Rightarrow> ('a site_db_scheme, dict) eff" where
  "claim_tail E drivers v driver r t g =
     bindS (fresh_uuid E) (\<lambda>eid.
     bindS (mark_executing (str_of v) eid t (str_of driver)) (\<lambda>_.
     bindS (drop_tx_challenges (str_of v)) (\<lambda>_.
     bindS (log_tx (str_of v) ''claimed'' t) (\<lambda>_.
     bindS (public_tx E drivers v) (\<lambda>result.
     let deadline = min (tx_expires r) (min (int_of (get g ''expires_at'')) (t + 15));
         result = put result ''claim_deadline'' (JInt deadline)
     in if get result ''status'' \<noteq> JStr ''executing''
        then raise (TransactionRefused ''Transaction execution window expired; operator reconciliation required'')
        else bindS (tx_now E) (\<lambda>u.
          if u \<ge> deadline then raise (TransactionRefused ''Transaction execution window expired; operator reconciliation required'')
          else ret (put result ''claim_authorized'' (JBool True))))))))"

definition claim_body :: "env \<Rightarrow> 'a authorizer \<Rightarrow> drivers \<Rightarrow> string \<Rightarrow> json \<Rightarrow> dict \<Rightarrow> json \<Rightarrow> ('a site_db_scheme, dict) eff" where
  "claim_body E auth drivers actor v current driver =
     bindS (tx_row E v) (\<lambda>r.
     bindS (tx_now E) (\<lambda>t.
     if tx_actor r \<noteq> actor \<or> canonical E current \<noteq> canonical E (snapshot r)
     then raise (TransactionRefused ''Transaction context changed; fresh approval required'')
     else if \<not> is_str driver \<or> (str_of driver, tx_account r, tx_kind r) \<notin> set drivers \<or> qualified_at_approval r = 0
        \<or> qualified_set_digest r \<noteq> Some (driver_digest E drivers r)
     then raise (TransactionRefused ''Qualified transaction finalizer unavailable'')
     else if tx_status r \<noteq> ''approved'' then raise (TransactionRefused ''Transaction approval unavailable or consumed'')
     else
       bindS (gets txns) (\<lambda>rs.
       if \<exists>q \<in> set rs. tx_account q = tx_account r \<and> tx_id q \<noteq> str_of v \<and> unresolved q
       then raise (TransactionRefused ''Account has an unresolved transaction; operator reconciliation required'')
       else
         bindS (grant E auth actor (grant_id r) (tx_account r)) (\<lambda>g.
         claim_tail E drivers v driver r t g))))"

definition claim :: "env \<Rightarrow> 'a authorizer \<Rightarrow> drivers \<Rightarrow> json \<Rightarrow> json \<Rightarrow> json \<Rightarrow> json \<Rightarrow> ('a site_db_scheme, dict) eff" where
  "claim E auth drivers trusted_actor v current driver =
     bindS (lift (actor_id trusted_actor)) (\<lambda>actor.
     bindS (lift (validate_snapshot E current)) (\<lambda>cur.
     connect (claim_body E auth drivers actor v cur driver)))"

definition RECEIPT :: rexp where
  "RECEIPT = Seq (Cls is_alnum) (Rep (Cls (\<lambda>c. is_alnum c \<or> c \<in> {CHR ''_'', CHR ''.'', CHR '':'', CHR ''-''})) 0 127)"

definition outcome_args :: "json \<Rightarrow> json \<Rightarrow> bool" where
  "outcome_args outcome receipt_reference \<longleftrightarrow> outcome \<in> JStr ` set [''succeeded'', ''failed'', ''unknown'']
     \<and> (receipt_reference = JNull \<or> is_str receipt_reference \<and> fullmatch RECEIPT (str_of receipt_reference))
     \<and> (outcome = JStr ''succeeded'' \<or> receipt_reference = JNull)"

definition str_opt :: "json \<Rightarrow> string option" where
  "str_opt v = (case v of JStr s \<Rightarrow> Some s | _ \<Rightarrow> None)"

definition outcome_body :: "env \<Rightarrow> drivers \<Rightarrow> json \<Rightarrow> string \<Rightarrow> string \<Rightarrow> string option \<Rightarrow> ('a site_db_scheme, dict) eff" where
  "outcome_body E drivers v eid outcome rec =
     bindS (tx_row E v) (\<lambda>r.
     bindS (tx_now E) (\<lambda>t.
     if execution_id r \<noteq> Some eid then raise (TransactionRefused ''Transaction execution reference refused'')
     else if outcome_at r \<noteq> None then
       if tx_status r = outcome \<and> receipt r = rec then lift (tx_public E drivers r)
       else raise (TransactionRefused ''Terminal transaction outcome requires operator reconciliation'')
     else if \<not> unresolved r then raise (TransactionRefused ''Transaction execution reference refused'')
     else
       bindS (update_tx (str_of v) (\<lambda>q. q\<lparr>tx_status := outcome, outcome_at := Some t, receipt := rec\<rparr>)) (\<lambda>_.
       bindS (log_tx (str_of v) outcome t) (\<lambda>_.
       public_tx E drivers v))))"

definition execution_outcome :: "env \<Rightarrow> drivers \<Rightarrow> json \<Rightarrow> json \<Rightarrow> json \<Rightarrow> json \<Rightarrow> ('a site_db_scheme, dict) eff" where
  "execution_outcome E drivers v eid outcome receipt_reference =
     bindS (lift (reference eid)) (\<lambda>e.
     if \<not> outcome_args outcome receipt_reference then raise (TransactionRefused ''Transaction outcome refused'')
     else connect (outcome_body E drivers v e (str_of outcome) (str_opt receipt_reference)))"


section \<open>The invariant and the status graph\<close>

definition tx_edge :: "string \<Rightarrow> string \<Rightarrow> bool" where
  "tx_edge a b \<longleftrightarrow> (a, b) \<in> {(''pending'', ''approved''), (''pending'', ''denied''), (''pending'', ''expired''),
     (''approved'', ''executing''), (''approved'', ''revoked''), (''approved'', ''expired''),
     (''executing'', ''unknown''), (''executing'', ''succeeded''), (''executing'', ''failed''),
     (''unknown'', ''succeeded''), (''unknown'', ''failed'')}"

definition same_txn :: "txn_row \<Rightarrow> txn_row \<Rightarrow> bool" where
  "same_txn r r' \<longleftrightarrow> tx_id r' = tx_id r \<and> tx_actor r' = tx_actor r \<and> grant_id r' = grant_id r \<and> tx_account r' = tx_account r
     \<and> tx_kind r' = tx_kind r \<and> snapshot r' = snapshot r \<and> tx_digest r' = tx_digest r \<and> tx_created r' = tx_created r
     \<and> tx_expires r' = tx_expires r"

definition kept_opt :: "'v option \<Rightarrow> 'v option \<Rightarrow> bool" where
  "kept_opt x y \<longleftrightarrow> x = None \<or> y = x"

definition tx_moves :: "txn_row \<Rightarrow> txn_row \<Rightarrow> bool" where
  "tx_moves r r' \<longleftrightarrow> same_txn r r' \<and> tx_edge\<^sup>*\<^sup>* (tx_status r) (tx_status r') \<and> tx_last_seen r \<le> tx_last_seen r'
     \<and> kept_opt (execution_id r) (execution_id r')
     \<and> (outcome_at r \<noteq> None \<longrightarrow> outcome_at r' = outcome_at r \<and> receipt r' = receipt r \<and> tx_status r' = tx_status r)"

definition started :: "string \<Rightarrow> bool" where
  "started st \<longleftrightarrow> st \<in> {''executing'', ''unknown'', ''succeeded'', ''failed''}"

definition good_tx :: "env \<Rightarrow> txn_row \<Rightarrow> bool" where
  "good_tx E r \<longleftrightarrow> tx_created r < tx_expires r \<and> tx_expires r \<le> tx_created r + 900 \<and> tx_created r \<le> tx_last_seen r
     \<and> tx_digest r = sha256 E (canonical E (immutable_tx (tx_id r) (tx_actor r) (grant_id r) (snapshot r) (tx_created r) (tx_expires r)))
     \<and> get (snapshot r) ''account'' = JStr (tx_account r) \<and> get (snapshot r) ''kind'' = JStr (tx_kind r) \<and> has (snapshot r) ''expires_at''
     \<and> sum_list (map line_total (list_of (get (snapshot r) ''items''))) = int_of (get (snapshot r) ''amount_minor'')
     \<and> (started (tx_status r) \<longleftrightarrow> execution_id r \<noteq> None) \<and> (started (tx_status r) \<or> tx_status r = ''approved'' \<longrightarrow> tx_approved r \<noteq> None)
     \<and> (outcome_at r \<noteq> None \<longrightarrow> tx_status r \<in> {''succeeded'', ''failed'', ''unknown''})
     \<and> (tx_status r \<in> {''succeeded'', ''failed''} \<longrightarrow> outcome_at r \<noteq> None)"

text \<open>At most one transaction of an account is executing or unresolved, and executions are unique.\<close>

definition both_unresolved :: "txn_row \<Rightarrow> txn_row \<Rightarrow> bool" where
  "both_unresolved q r \<longleftrightarrow> unresolved q \<and> unresolved r \<and> tx_account q = tx_account r"

definition same_execution :: "txn_row \<Rightarrow> txn_row \<Rightarrow> bool" where
  "same_execution q r \<longleftrightarrow> execution_id q \<noteq> None \<and> execution_id q = execution_id r"

definition exclusive :: "txn_row list \<Rightarrow> bool" where
  "exclusive rs \<longleftrightarrow> at_most_one tx_id both_unresolved (set rs) \<and> at_most_one tx_id same_execution (set rs)"

definition tx_inv :: "env \<Rightarrow> 'a site_db_scheme \<Rightarrow> bool" where
  "tx_inv E s \<longleftrightarrow> table_ok tx_id (good_tx E) (txns s) \<and> exclusive (txns s)
     \<and> distinct (map txc_hash (tx_challenges s)) \<and> (\<forall>c \<in> set (tx_challenges s). \<exists>r \<in> set (txns s). tx_id r = txc_for c \<and> tx_digest r = txc_digest c)"

definition tx_adv :: "env \<Rightarrow> 'a site_db_scheme \<Rightarrow> 'a site_db_scheme \<Rightarrow> bool" where
  "tx_adv E s s' \<longleftrightarrow> (tx_inv E s \<longrightarrow> tx_inv E s' \<and> table_moves tx_id tx_moves (txns s) (txns s'))"

interpretation txm: row_moves tx_id tx_moves
proof
  show "tx_moves r r' \<Longrightarrow> tx_moves r' r'' \<Longrightarrow> tx_moves r r''" for r r' r''
    by (auto simp: tx_moves_def same_txn_def kept_opt_def)
qed (auto simp: tx_moves_def same_txn_def kept_opt_def)

lemma tx_adv_inv: "tx_adv E s s' \<Longrightarrow> tx_inv E s \<Longrightarrow> tx_inv E s'"
  by (simp add: tx_adv_def)

lemma tx_adv_trans: "tx_adv E s t \<Longrightarrow> tx_adv E t u \<Longrightarrow> tx_adv E s u"
  unfolding tx_adv_def by (meson txm.table_trans)

interpretation tx_frame: frame "tx_adv E"
  by unfold_locales (auto simp: tx_adv_def txm.table_refl intro: txm.table_trans)

definition same_tables :: "'a site_db_scheme \<Rightarrow> 'a site_db_scheme \<Rightarrow> bool" where
  "same_tables s s' \<longleftrightarrow> txns s' = txns s \<and> tx_challenges s' = tx_challenges s"

lemma same_tables_adv: "same_tables s s' \<Longrightarrow> tx_adv E s s'"
  by (auto simp: same_tables_def tx_adv_def tx_inv_def txm.table_refl)

lemma same_tables_simps [simp]:
  "same_tables s s" "same_tables s (s\<lparr>ticks := n\<rparr>)" "same_tables s (s\<lparr>ids := n\<rparr>)" "same_tables s (s\<lparr>tokens := n\<rparr>)"
  "same_tables s (s\<lparr>tx_events := ev\<rparr>)" "same_tables s (tx_restore s t)"
  by (simp_all add: same_tables_def tx_restore_def)

text \<open>The single-row update every method is built from.\<close>

lemma exclusive_update:
  assumes "exclusive rs" and "table_ok tx_id good rs" and "find_by tx_id rs k = Some r" and "same_txn r (f r)"
    and "unresolved (f r) \<Longrightarrow> unresolved r \<or> (\<forall>q \<in> set rs. tx_id q \<noteq> tx_id r \<and> tx_account q = tx_account r \<longrightarrow> \<not> unresolved q)"
    and "execution_id (f r) = execution_id r \<or> (\<forall>q \<in> set rs. tx_id q \<noteq> tx_id r \<longrightarrow> execution_id q \<noteq> execution_id (f r))"
  shows "exclusive (update_by tx_id k f rs)"
proof -
  have r: "r \<in> set rs" using assms(3) find_by_Some by fast
  have only: "q \<in> set rs \<Longrightarrow> tx_id q = tx_id r \<Longrightarrow> q = r" for q
    using assms(2,3) table_ok_unique find_by_Some by metis
  have id: "tx_id (f r) = tx_id r" "tx_account (f r) = tx_account r" using assms(4) by (simp_all add: same_txn_def)
  have "\<not> both_unresolved q (f r) \<and> \<not> both_unresolved (f r) q" if q: "q \<in> set rs" "q \<noteq> r" for q
  proof (rule ccontr)
    assume "\<not> ?thesis"
    then have u: "unresolved (f r)" "unresolved q" "tx_account q = tx_account r" by (auto simp: both_unresolved_def id)
    with assms(5) only q have "unresolved r" by blast
    with u have "both_unresolved q r" by (simp add: both_unresolved_def)
    with assms(1) q(1) r have "tx_id q = tx_id r" unfolding exclusive_def by (blast dest: at_most_oneD)
    with only q show False by blast
  qed
  moreover have "\<not> same_execution q (f r) \<and> \<not> same_execution (f r) q" if q: "q \<in> set rs" "q \<noteq> r" for q
  proof (rule ccontr)
    assume "\<not> ?thesis"
    then have u: "execution_id q = execution_id (f r)" "execution_id q \<noteq> None" unfolding same_execution_def by metis+
    with assms(6) only q have "execution_id (f r) = execution_id r" by metis
    with u have "same_execution q r" by (simp add: same_execution_def)
    with assms(1) q(1) r have "tx_id q = tx_id r" unfolding exclusive_def by (blast dest: at_most_oneD)
    with only q show False by blast
  qed
  ultimately show ?thesis
    using assms(1) unfolding exclusive_def txm.update_as_set [OF assms(2,3)] by (simp add: at_most_one_replace)
qed

lemma tx_adv_update:
  assumes inv: "tx_inv E s" and r: "find_by tx_id (txns s) k = Some r" and f: "tx_moves r (f r)" "good_tx E (f r)"
    and x: "unresolved (f r) \<Longrightarrow> unresolved r \<or> (\<forall>q \<in> set (txns s). tx_id q \<noteq> tx_id r \<and> tx_account q = tx_account r \<longrightarrow> \<not> unresolved q)"
    "execution_id (f r) = execution_id r \<or> (\<forall>q \<in> set (txns s). tx_id q \<noteq> tx_id r \<longrightarrow> execution_id q \<noteq> execution_id (f r))"
  shows "tx_adv E s (s\<lparr>txns := update_by tx_id k f (txns s)\<rparr>)"
proof -
  have ok: "table_ok tx_id (good_tx E) (txns s)" "exclusive (txns s)" using inv by (simp_all add: tx_inv_def)
  have "\<exists>q' \<in> set (update_by tx_id k f (txns s)). tx_id q' = i \<and> tx_digest q' = d"
    if ex: "\<exists>q \<in> set (txns s). tx_id q = i \<and> tx_digest q = d" for i d
  proof -
    obtain q where q: "q \<in> set (txns s)" "tx_id q = i" "tx_digest q = d" using ex by blast
    have "tx_id (f r) = tx_id r" "tx_digest (f r) = tx_digest r" using f(1) by (simp_all add: tx_moves_def same_txn_def)
    then show ?thesis unfolding txm.update_as_set [OF ok(1) r] using q by (cases "q = r") auto
  qed
  with txm.update_moves [where f = f, OF ok(1) r f] exclusive_update [where f = f, OF ok(2,1) r _ x] f(1) inv show ?thesis
    by (simp add: tx_adv_def tx_inv_def tx_moves_def)
qed

lemma tx_adv_drop: "tx_adv E s (s\<lparr>tx_challenges := filter p (tx_challenges s)\<rparr>)"
  by (auto simp: tx_adv_def tx_inv_def txm.table_refl distinct_map inj_on_def)

lemma tx_adv_insert:
  assumes "tx_id r \<notin> tx_id ` set (txns s)" and "good_tx E r" and "\<not> unresolved r" and "execution_id r = None"
  shows "tx_adv E s (s\<lparr>txns := txns s @ [r]\<rparr>)"
proof -
  have "exclusive (txns s) \<Longrightarrow> exclusive (txns s @ [r])"
    unfolding exclusive_def using assms(3,4)
    by (auto simp: both_unresolved_def same_execution_def intro!: at_most_one_insert)
  then show ?thesis
    using assms txm.insert_moves [of "good_tx E" "txns s" r] by (simp add: tx_adv_def tx_inv_def)
qed

lemma tx_adv_challenge:
  assumes "txc_hash c \<notin> txc_hash ` set (tx_challenges s)" and "\<exists>r \<in> set (txns s). tx_id r = txc_for c \<and> tx_digest r = txc_digest c"
  shows "tx_adv E s (s\<lparr>tx_challenges := tx_challenges s @ [c]\<rparr>)"
  using assms by (auto simp: tx_adv_def tx_inv_def txm.table_refl)


section \<open>Settling a row\<close>

lemma wp_connect:
  "wp (connect m) Q X s \<longleftrightarrow> wp m Q (\<lambda>e s'. X e (if is_refusal e then s' else tx_restore s s')) s"
  by (auto simp: wp_def connect_def split: prod.splits sum.splits)

definition tx_time :: "env \<Rightarrow> nat \<Rightarrow> int option" where
  "tx_time E n = (case clock E n of Fin x \<Rightarrow> if x < 0 then None else Some (trunc x) | _ \<Rightarrow> None)"

lemma wp_tx_now [wp_simps]:
  "wp (tx_now E) Q X s \<longleftrightarrow> (case tx_time E (ticks s) of
       None \<Rightarrow> X (TransactionRefused ''Transaction clock refused'') (s\<lparr>ticks := Suc (ticks s)\<rparr>)
     | Some t \<Rightarrow> Q t (s\<lparr>ticks := Suc (ticks s)\<rparr>))"
  by (simp add: tx_now_def tx_time_def wp_simps split: flt.splits)

lemma wp_fetch_tx [wp_simps]:
  "wp (fetch_tx ref) Q X s \<longleftrightarrow> (case find_by tx_id (txns s) ref of None \<Rightarrow> X TypeError s | Some r \<Rightarrow> Q r s)"
  by (simp add: fetch_tx_def wp_simps split: option.splits)

lemma wp_tx_writes [wp_simps]:
  "wp (log_tx ref action t) Q X s \<longleftrightarrow> Q () (s\<lparr>tx_events := tx_events s @ [(ref, action, t)]\<rparr>)"
  "wp (drop_tx_challenges ref) Q X s \<longleftrightarrow> Q () (s\<lparr>tx_challenges := filter (\<lambda>c. txc_for c \<noteq> ref) (tx_challenges s)\<rparr>)"
  "wp (update_tx ref f) Q X s \<longleftrightarrow> Q () (s\<lparr>txns := update_by tx_id ref f (txns s)\<rparr>)"
  by (simp_all add: log_tx_def drop_tx_challenges_def update_tx_def wp_simps)

lemma reference_Inr: "reference v = Inr ref \<Longrightarrow> v = JStr ref"
  by (auto simp: reference_def split: json.splits if_splits)

text \<open>The row after \<open>_row\<close>: closed when its window has passed, else with the clock reading noted.\<close>

definition tx_after :: "int \<Rightarrow> txn_row \<Rightarrow> txn_row" where
  "tx_after t r = (if tx_open (tx_status r) \<and> (t < tx_last_seen r \<or> t \<ge> tx_expires r)
     then r\<lparr>tx_status := closed_status (tx_status r)\<rparr>
     else if t > tx_last_seen r then r\<lparr>tx_last_seen := t\<rparr> else r)"

lemma tx_after_same: "same_txn r (tx_after t r)"
  by (simp add: tx_after_def same_txn_def)

lemma tx_after_fields [simp]:
  "tx_id (tx_after t r) = tx_id r" "tx_approved (tx_after t r) = tx_approved r" "execution_id (tx_after t r) = execution_id r"
  "outcome_at (tx_after t r) = outcome_at r" "receipt (tx_after t r) = receipt r" "tx_account (tx_after t r) = tx_account r"
  "qualified_at_approval (tx_after t r) = qualified_at_approval r" "qualified_set_digest (tx_after t r) = qualified_set_digest r"
  "tx_kind (tx_after t r) = tx_kind r" "tx_digest (tx_after t r) = tx_digest r" "snapshot (tx_after t r) = snapshot r"
  "tx_actor (tx_after t r) = tx_actor r" "grant_id (tx_after t r) = grant_id r" "tx_expires (tx_after t r) = tx_expires r"
  by (simp_all add: tx_after_def)

lemma tx_after_cases:
  assumes "tx_status r = ''executing'' \<Longrightarrow> P (r\<lparr>tx_status := ''unknown''\<rparr>)"
    and "tx_status r = ''pending'' \<Longrightarrow> P (r\<lparr>tx_status := ''expired''\<rparr>)"
    and "tx_status r = ''approved'' \<Longrightarrow> P (r\<lparr>tx_status := ''expired''\<rparr>)"
    and "\<And>l. tx_last_seen r \<le> l \<Longrightarrow> P (r\<lparr>tx_last_seen := l\<rparr>)"
  shows "P (tx_after t r)"
proof (cases "tx_open (tx_status r) \<and> (t < tx_last_seen r \<or> t \<ge> tx_expires r)")
  case True
  then consider "tx_status r = ''executing''" | "tx_status r = ''pending''" | "tx_status r = ''approved''"
    by (auto simp: tx_open_def)
  then show ?thesis by cases (use True assms(1-3) in \<open>simp_all add: tx_after_def closed_status_def\<close>)
next
  case False
  then have "tx_after t r = r\<lparr>tx_last_seen := max t (tx_last_seen r)\<rparr>" by (auto simp: tx_after_def max_def)
  with assms(4) show ?thesis by simp
qed

lemma tx_after_moves: "good_tx E r \<Longrightarrow> tx_moves r (tx_after t r)"
  by (rule tx_after_cases) (simp_all add: tx_moves_def same_txn_def kept_opt_def good_tx_def r_into_rtranclp tx_edge_def)

lemma tx_after_good: "good_tx E r \<Longrightarrow> good_tx E (tx_after t r)"
  by (rule tx_after_cases) (auto simp: good_tx_def started_def)

lemma tx_after_unresolved: "unresolved (tx_after t r) \<Longrightarrow> unresolved r"
  by (rule tx_after_cases [of r "\<lambda>q. unresolved q \<longrightarrow> unresolved r" t, rule_format]) (simp_all add: unresolved_def)

lemma tx_after_status:
  "tx_open (tx_status (tx_after t r)) \<Longrightarrow> tx_status (tx_after t r) = tx_status r \<and> tx_last_seen r \<le> t \<and> t < tx_expires r"
  by (auto simp: tx_after_def tx_open_def closed_status_def split: if_splits)

text \<open>The access ledger, which the transaction ledger only reads through its callback.\<close>

definition same_access :: "'a site_db_scheme \<Rightarrow> 'a site_db_scheme \<Rightarrow> bool" where
  "same_access s s' \<longleftrightarrow> requests s' = requests s \<and> challenges s' = challenges s \<and> events s' = events s"

definition tx_settled :: "env \<Rightarrow> json \<Rightarrow> txn_row \<Rightarrow> 'a site_db_scheme \<Rightarrow> 'a site_db_scheme \<Rightarrow> bool" where
  "tx_settled E v r s s' \<longleftrightarrow> tx_adv E s s' \<and> v = JStr (tx_id r) \<and> find_by tx_id (txns s') (tx_id r) = Some r
     \<and> (\<exists>q t. find_by tx_id (txns s) (tx_id r) = Some q \<and> tx_time E (ticks s) = Some t \<and> r = tx_after t q
         \<and> txns s' = update_by tx_id (tx_id r) (tx_after t) (txns s))
     \<and> set (tx_challenges s') \<subseteq> set (tx_challenges s)
     \<and> (\<forall>h c. find_by txc_hash (tx_challenges s') h = Some c \<longrightarrow> find_by txc_hash (tx_challenges s) h = Some c)
     \<and> same_access s s' \<and> ticks s' = Suc (ticks s)"

lemma update_by_id: "table_ok tx_id good rs \<Longrightarrow> find_by tx_id rs k = Some r \<Longrightarrow> f r = r \<Longrightarrow> update_by tx_id k f rs = rs"
  by (auto simp: update_by_def intro!: map_idI dest: table_ok_unique)

lemma tx_row_spec:
  assumes inv: "tx_inv E s"
  shows "wp (tx_row E v) (\<lambda>r s'. tx_settled E v r s s') (\<lambda>_ s'. same_tables s s') s"
proof (cases "reference v")
  case (Inl e)
  then show ?thesis by (simp add: tx_row_def wp_simps)
next
  case (Inr ref)
  then have v: "v = JStr ref" by (rule reference_Inr)
  show ?thesis
  proof (cases "find_by tx_id (txns s) ref")
    case None
    then show ?thesis by (simp add: tx_row_def wp_simps Inr)
  next
    case (Some q)
    show ?thesis
    proof (cases "tx_time E (ticks s)")
      case None
      then show ?thesis by (simp add: tx_row_def wp_simps Inr Some)
    next
      case t: (Some t)
      have ok: "table_ok tx_id (good_tx E) (txns s)" using inv by (simp add: tx_inv_def)
      have q: "good_tx E q" "tx_id q = ref" using table_ok_row [OF ok Some] by simp_all
      have adv: "tx_adv E s (s\<lparr>txns := update_by tx_id ref (tx_after t) (txns s)\<rparr>)"
        by (rule tx_adv_update [where f = "tx_after t", OF inv Some tx_after_moves [OF q(1)] tx_after_good [OF q(1)]])
          (simp_all add: tx_after_unresolved)
      have found: "find_by tx_id (update_by tx_id ref f (txns s)) ref = Some (f q)" if "f q = tx_after t q" for f
        using that txm.update_find [where f = f and k' = ref, OF ok Some] tx_after_moves [OF q(1)] by simp
      have fits: "update_by tx_id ref f (txns s) = update_by tx_id ref (tx_after t) (txns s)" if "f q = tx_after t q" for f
        using that txm.update_fits [OF ok Some] by metis
      have main: "tx_settled E v (tx_after t q) s (s\<lparr>ticks := Suc (ticks s), txns := update_by tx_id ref (tx_after t) (txns s),
          tx_challenges := filter p (tx_challenges s), tx_events := ev\<rparr>)" (is "tx_settled _ _ _ _ ?s'") for p ev
      proof -
        have "tx_adv E s ?s'"
          by (rule tx_adv_trans [OF adv], rule tx_adv_trans [OF tx_adv_drop [where p = p]], rule same_tables_adv)
            (simp add: same_tables_def)
        moreover have "distinct (map txc_hash (tx_challenges s))" using inv by (simp add: tx_inv_def)
        ultimately show ?thesis
          using v q(2) t Some found [of "tx_after t"]
          by (auto simp: tx_settled_def same_access_def intro: find_filter_Some)
      qed
      show ?thesis
      proof (cases "tx_open (tx_status q) \<and> (t < tx_last_seen q \<or> t \<ge> tx_expires q)")
        case True
        have f: "q\<lparr>tx_status := closed_status (tx_status q)\<rparr> = tx_after t q" using True by (simp add: tx_after_def)
        have u: "update_by tx_id ref (tx_status_update (\<lambda>_. closed_status (tx_status q))) (txns s) = update_by tx_id ref (tx_after t) (txns s)"
          by (rule fits) (simp add: f)
        show ?thesis
          using True main by (simp add: tx_row_def Let_def wp_simps Inr Some t found [of "tx_after t"] u)
      next
        case False
        have f: "q\<lparr>tx_last_seen := t\<rparr> = tx_after t q" if "t > tx_last_seen q" using False that by (auto simp: tx_after_def)
        have u: "update_by tx_id ref (tx_last_seen_update (\<lambda>_. t)) (txns s) = update_by tx_id ref (tx_after t) (txns s)" if "t > tx_last_seen q"
          by (rule fits) (simp add: f that)
        have g: "tx_after t q = q" "update_by tx_id ref (tx_after t) (txns s) = txns s" if "\<not> t > tx_last_seen q"
          using False that update_by_id [OF ok Some, of "tx_after t"] by (auto simp: tx_after_def)
        show ?thesis
          using False main [of "tx_events s" "\<lambda>_. True"] g
          by (cases "t > tx_last_seen q") (auto simp: tx_row_def wp_simps Inr Some t found [of "tx_after t"] u)
      qed
    qed
  qed
qed


lemma tx_settled_adv: "tx_settled E v r s s' \<Longrightarrow> tx_adv E s s'"
  by (simp add: tx_settled_def)

lemma wp_tx_row:
  assumes "tx_inv E s" and "\<And>r s'. tx_settled E v r s s' \<Longrightarrow> tx_inv E s' \<Longrightarrow> Q r s'" and "\<And>e s'. same_tables s s' \<Longrightarrow> X e s'"
  shows "wp (tx_row E v) Q X s"
  by (rule wp_mono [OF tx_row_spec [OF assms(1)]]) (meson assms tx_adv_inv tx_settled_adv)+

lemma wp_public_tx:
  assumes "tx_inv E s" and "\<And>r d s'. tx_settled E v r s s' \<Longrightarrow> tx_inv E s' \<Longrightarrow> tx_public E drivers r = Inr d \<Longrightarrow> Q d s'"
    and "\<And>e s'. tx_adv E s s' \<Longrightarrow> X e s'"
  shows "wp (public_tx E drivers v) Q X s"
  unfolding public_tx_def wp_bindS
  by (rule wp_tx_row [OF assms(1)]) (use assms in \<open>auto simp: wp_simps tx_settled_adv same_tables_adv split: sum.splits\<close>)

lemma tx_settled_row:
  assumes "tx_inv E s" and "tx_settled E v r s s'"
  shows "good_tx E r \<and> find_by tx_id (txns s') (tx_id r) = Some r"
proof -
  have "table_ok tx_id (good_tx E) (txns s')" using tx_adv_inv [OF tx_settled_adv [OF assms(2)] assms(1)] by (simp add: tx_inv_def)
  with assms(2) show ?thesis using table_ok_row by (fastforce simp: tx_settled_def)
qed

text \<open>What the ledger needs of the callback: it does not touch the transaction tables.\<close>

lemma wp_connected: "wp m Q (\<lambda>_ s'. tx_adv E s s') s \<Longrightarrow> wp (connect m) Q (\<lambda>_ s'. tx_adv E s s') s"
  unfolding wp_connect by (erule wp_mono) (auto simp: same_tables_adv)

lemma validate_snapshot_Inr:
  assumes "validate_snapshot E v = Inr d"
  shows "\<exists>a k. get d ''account'' = JStr a \<and> get d ''kind'' = JStr k \<and> k \<in> set KINDS \<and> has d ''expires_at''
    \<and> sum_list (map line_total (list_of (get d ''items''))) = int_of (get d ''amount_minor'')
    \<and> 0 \<le> int_of (get d ''amount_minor'') \<and> int_of (get d ''amount_minor'') \<le> 10 ^ 12"
proof -
  obtain x where x: "v = JObj x" using assms by (auto simp: validate_snapshot_def split: json.splits)
  with assms have sh: "snapshot_shape x" by (auto simp: validate_snapshot_def split: if_splits)
  from assms x sh obtain items account payee terms where
      "sum_list (map line_total items) = int_of (get x ''amount_minor'')"
      "d = [(''account'', JStr account), (''kind'', get x ''kind''), (''payee'', JStr payee), (''amount_minor'', get x ''amount_minor''),
        (''currency'', get x ''currency''), (''items'', JArr items), (''terms'', JArr terms), (''expires_at'', get x ''expires_at'')]"
    by (auto simp: validate_snapshot_def res_iffs Let_def split: if_splits)
  with sh show ?thesis by (auto simp: snapshot_shape_def int_within_def get_def get_or_def has_def)
qed

locale grant_authority =
  fixes E :: env and auth :: "'a authorizer"
  assumes auth_frame: "same_tables s (snd (auth actor gid s))"
begin

lemma wp_grant:
  assumes "\<And>g s1 u. auth actor gid s = (Inr g, s1) \<Longrightarrow> tx_time E (ticks s1) = Some u \<Longrightarrow> grant_ok g actor gid account u \<Longrightarrow>
      same_tables s (s1\<lparr>ticks := Suc (ticks s1)\<rparr>) \<Longrightarrow> Q (dict_of g) (s1\<lparr>ticks := Suc (ticks s1)\<rparr>)"
    and "\<And>e s1. same_tables s s1 \<Longrightarrow> X e s1"
  shows "wp (grant E auth actor gid account) Q X s"
proof -
  obtain x s1 where a: "auth actor gid s = (x, s1)" by (cases "auth actor gid s")
  have same: "same_tables s s1" using auth_frame [of s actor gid] a by simp
  then have same': "same_tables s (s1\<lparr>ticks := n\<rparr>)" for n by (simp add: same_tables_def)
  show ?thesis
    unfolding grant_def wp_catch wp_bindS
    by (cases x) (use a assms same same' in \<open>auto simp: wp_def [of "auth actor gid"] wp_simps split: option.splits\<close>)
qed

lemma propose_tx_spec:
  assumes "tx_inv E s" and "good_tx E r" and "tx_status r = ''pending''" and "execution_id r = None"
  shows "wp (propose_tx E drivers r) (\<lambda>d s'. tx_adv E s s' \<and> find_by tx_id (txns s) (tx_id r) = None
      \<and> (\<exists>q. find_by tx_id (txns s') (tx_id r) = Some q \<and> same_txn r q \<and> tx_public E drivers q = Inr d)
      \<and> \<not> (\<exists>q \<in> set (txns s). tx_account q = tx_account r \<and> unresolved q)) (\<lambda>_ s'. tx_adv E s s') s"
proof -
  let ?s1 = "s\<lparr>txns := txns s @ [r], tx_events := tx_events s @ [(tx_id r, ''proposed'', tx_created r)]\<rparr>"
  have step: "wp (public_tx E drivers (JStr (tx_id r))) (\<lambda>d s'. tx_adv E s s' \<and> find_by tx_id (txns s) (tx_id r) = None
      \<and> (\<exists>q. find_by tx_id (txns s') (tx_id r) = Some q \<and> same_txn r q \<and> tx_public E drivers q = Inr d)
      \<and> \<not> (\<exists>q \<in> set (txns s). tx_account q = tx_account r \<and> unresolved q)) (\<lambda>_ s'. tx_adv E s s') ?s1"
    if new: "tx_id r \<notin> tx_id ` set (txns s)" and free: "\<not> (\<exists>q \<in> set (txns s). tx_account q = tx_account r \<and> unresolved q)"
  proof -
    have "tx_adv E s (s\<lparr>txns := txns s @ [r]\<rparr>)"
      by (rule tx_adv_insert) (use new assms in \<open>simp_all add: unresolved_def\<close>)
    then have adv: "tx_adv E s ?s1"
      by (rule tx_adv_trans) (rule same_tables_adv, simp add: same_tables_def)
    have none: "find_by tx_id (txns s) (tx_id r) = None" using new find_by_None by blast
    show ?thesis
    proof (rule wp_public_tx)
      show "tx_inv E ?s1" using adv assms(1) tx_adv_inv by blast
      fix q d s' assume q: "tx_settled E (JStr (tx_id r)) q ?s1 s'" "tx_public E drivers q = Inr d"
      have id: "tx_id q = tx_id r" using q(1) by (simp add: tx_settled_def)
      then have "find_by tx_id (txns ?s1) (tx_id q) = Some r" using none by (simp add: find_by_append)
      then have "same_txn r q" using q(1) tx_after_same by (auto simp: tx_settled_def)
      with id q none adv free show "tx_adv E s s' \<and> find_by tx_id (txns s) (tx_id r) = None
        \<and> (\<exists>q. find_by tx_id (txns s') (tx_id r) = Some q \<and> same_txn r q \<and> tx_public E drivers q = Inr d)
        \<and> \<not> (\<exists>q \<in> set (txns s). tx_account q = tx_account r \<and> unresolved q)"
        using tx_adv_trans [OF adv tx_settled_adv [OF q(1)]] by (auto simp: tx_settled_def)
    next
      fix e :: exn and s' assume "tx_adv E ?s1 s'"
      with adv show "tx_adv E s s'" using tx_adv_trans by blast
    qed
  qed
  then show ?thesis
    by (auto simp: propose_tx_def insert_tx_def wp_simps same_tables_adv)
qed


definition proposed :: "drivers \<Rightarrow> json \<Rightarrow> json \<Rightarrow> json \<Rightarrow> dict \<Rightarrow> 'a site_db_scheme \<Rightarrow> 'a site_db_scheme \<Rightarrow> bool" where
  "proposed drivers trusted_actor grant_ref snap d s s' \<longleftrightarrow> tx_adv E s s' \<and>
     (\<exists>q g s1 u. trusted_actor = JStr (tx_actor q) \<and> grant_ref = JStr (grant_id q) \<and> validate_snapshot E snap = Inr (snapshot q)
        \<and> auth (tx_actor q) (grant_id q) s = (Inr g, s1) \<and> grant_ok g (tx_actor q) (grant_id q) (tx_account q) u
        \<and> tx_expires q \<le> int_of (get (dict_of g) ''expires_at'')
        \<and> find_by tx_id (txns s') (tx_id q) = Some q \<and> find_by tx_id (txns s) (tx_id q) = None \<and> tx_public E drivers q = Inr d
        \<and> \<not> (\<exists>p \<in> set (txns s). tx_account p = tx_account q \<and> unresolved p))"

lemma propose_spec:
  assumes inv: "tx_inv E s"
  shows "wp (propose E auth drivers trusted_actor grant_ref snap) (\<lambda>d s'. proposed drivers trusted_actor grant_ref snap d s s') (\<lambda>_ s'. tx_adv E s s') s"
proof -
  have step: "wp (connect (propose_tx E drivers r)) (\<lambda>d s'. proposed drivers trusted_actor grant_ref snap d s s') (\<lambda>_ s'. tx_adv E s s') s2"
    if args: "trusted_actor = JStr actor" "grant_ref = JStr gid" "validate_snapshot E snap = Inr val"
      and g: "auth actor gid s = (Inr g, s1)" "grant_ok g actor gid (str_of (get val ''account'')) u" "same_tables s s2"
      and t: "expiry = min (int_of (get val ''expires_at'')) (min (int_of (get (dict_of g) ''expires_at'')) (t + 900))" "\<not> expiry \<le> t"
      and r: "r = \<lparr>tx_id = ref, tx_actor = actor, grant_id = gid, tx_account = str_of (get val ''account''),
         tx_kind = str_of (get val ''kind''), snapshot = val,
         tx_digest = sha256 E (canonical E (immutable_tx ref actor gid val t expiry)),
         tx_created = t, tx_expires = expiry, tx_last_seen = t, tx_status = ''pending'', tx_approved = None,
         qualified_at_approval = 0, qualified_set_digest = None, execution_id = None, claimed = None, driver_id = None,
         outcome_at = None, receipt = None\<rparr>" for actor gid val g s1 s2 u t expiry r ref
  proof -
    have inv2: "tx_inv E s2" using inv g(3) same_tables_adv tx_adv_inv by blast
    have "good_tx E r" using validate_snapshot_Inr [OF args(3)] t by (auto simp: good_tx_def r started_def)
    from propose_tx_spec [OF inv2 this, of drivers]
    have "wp (propose_tx E drivers r) (\<lambda>d s'. proposed drivers trusted_actor grant_ref snap d s s') (\<lambda>_ s'. tx_adv E s2 s') s2"
    proof (rule wp_mono, goal_cases)
      case (3 d s')
      then obtain q where q: "find_by tx_id (txns s') (tx_id r) = Some q" "same_txn r q" "tx_public E drivers q = Inr d" by blast
      have "tx_expires r \<le> int_of (get (dict_of g) ''expires_at'')" using t(1) by (simp add: r)
      with q 3 args g tx_adv_trans [OF same_tables_adv [OF g(3)]] show ?case
        unfolding proposed_def by (intro conjI exI [of _ q] exI [of _ g] exI [of _ s1] exI [of _ u]) (auto simp: same_txn_def r same_tables_def)
    qed (simp_all add: r)
    then have "wp (connect (propose_tx E drivers r)) (\<lambda>d s'. proposed drivers trusted_actor grant_ref snap d s s') (\<lambda>_ s'. tx_adv E s2 s') s2"
      by (rule wp_connected)
    then show ?thesis by (rule wp_mono) (use tx_adv_trans [OF same_tables_adv [OF g(3)]] in blast)+
  qed
  show ?thesis
  proof (cases "actor_id trusted_actor")
    case a: (Inr actor)
    show ?thesis
    proof (cases "reference grant_ref")
      case g: (Inr gid)
      show ?thesis
      proof (cases "validate_snapshot E snap")
        case v: (Inr val)
        have args: "trusted_actor = JStr actor" "grant_ref = JStr gid"
          using a g by (auto simp: actor_id_def reference_def split: json.splits if_splits)
        show ?thesis
          unfolding propose_def wp_bindS wp_lift a g v sum.case
          by (rule wp_grant) (auto simp: wp_simps Let_def intro!: step [OF args v] same_tables_adv split: option.splits,
             auto simp: same_tables_def)
      qed (simp add: propose_def wp_simps a g same_tables_adv)
    qed (simp add: propose_def wp_simps a same_tables_adv)
  qed (simp add: propose_def wp_simps same_tables_adv)
qed


definition granted :: "string \<Rightarrow> string \<Rightarrow> string \<Rightarrow> json \<Rightarrow> 'a site_db_scheme \<Rightarrow> bool" where
  "granted actor gid account g s \<longleftrightarrow> (\<exists>s0 s1 u. same_access s s0 \<and> ticks s0 = Suc (Suc (ticks s)) \<and> auth actor gid s0 = (Inr g, s1)
     \<and> tx_time E (ticks s1) = Some u \<and> grant_ok g actor gid account u)"

lemma grantedI:
  "auth actor gid s0 = (Inr g, s1) \<Longrightarrow> tx_time E (ticks s1) = Some u \<Longrightarrow> grant_ok g actor gid account u \<Longrightarrow> same_access s s0 \<Longrightarrow>
     ticks s0 = Suc (Suc (ticks s)) \<Longrightarrow> granted actor gid account g s"
  unfolding granted_def by blast

lemma challenge_body_spec:
  assumes "tx_inv E s"
  shows "wp (tx_challenge_body E v action) (\<lambda>_ s'. tx_adv E s s') (\<lambda>_ s'. tx_adv E s s') s"
  unfolding tx_challenge_body_def wp_bindS
proof (rule wp_tx_row [OF assms], goal_cases)
  case (1 r s1)
  have adv1: "tx_adv E s s1" using 1 by (simp add: tx_settled_def)
  have r: "v = JStr (tx_id r)" "r \<in> set (txns s1)" using 1 by (auto simp: tx_settled_def dest: find_by_Some)
  have same: "tx_adv E s (s1\<lparr>ticks := n\<rparr>)" for n
    by (rule tx_adv_trans [OF adv1 same_tables_adv]) simp
  have drop: "tx_adv E s (s1\<lparr>ticks := n, tokens := m, tx_challenges := filter p (tx_challenges s1)\<rparr>)" for n m p
    by (rule tx_adv_trans [OF adv1], rule tx_adv_trans [OF tx_adv_drop [where p = p]], rule same_tables_adv) (simp add: same_tables_def)
  have drop': "tx_adv E s (s1\<lparr>ticks := n, tx_challenges := filter p (tx_challenges s1)\<rparr>)" for n p
    using drop [where n = n and m = "tokens s1" and p = p] by simp
  have drop2: "tx_adv E s (s1\<lparr>ticks := n, tx_challenges := filter p (tx_challenges s1), tokens := m\<rparr>)" for n m p
    by (rule tx_adv_trans [OF adv1], rule tx_adv_trans [OF tx_adv_drop [where p = p]], rule same_tables_adv) (simp add: same_tables_def)
  have add: "tx_adv E s (s1\<lparr>ticks := n, tokens := m, tx_challenges := filter p (tx_challenges s1) @ [c]\<rparr>)"
    if "txc_hash c \<notin> txc_hash ` set (filter p (tx_challenges s1))" "txc_for c = tx_id r" "txc_digest c = tx_digest r" for n m p c
  proof -
    let ?s2 = "s1\<lparr>ticks := n, tokens := m, tx_challenges := filter p (tx_challenges s1)\<rparr>"
    have "tx_adv E ?s2 (?s2\<lparr>tx_challenges := tx_challenges ?s2 @ [c]\<rparr>)"
      by (rule tx_adv_challenge) (use that r in auto)
    from tx_adv_trans [OF drop this] show ?thesis by simp
  qed
  show ?case
    using r same drop2 drop' by (auto simp: wp_simps insert_tx_challenge_def intro!: add split: option.splits)
qed (rule same_tables_adv)

definition tx_next :: "string \<Rightarrow> string" where
  "tx_next action = (if action = ''approve'' then ''approved'' else if action = ''deny'' then ''denied'' else ''revoked'')"

definition tx_decided :: "drivers \<Rightarrow> json \<Rightarrow> string \<Rightarrow> string \<Rightarrow> string \<Rightarrow> dict \<Rightarrow> 'a site_db_scheme \<Rightarrow> 'a site_db_scheme \<Rightarrow> bool" where
  "tx_decided drivers v g action nonce d s s' \<longleftrightarrow> tx_adv E s s' \<and>
     (\<exists>q c t r. v = JStr (tx_id q) \<and> find_by tx_id (txns s) (tx_id q) = Some q \<and> tx_digest q = g
        \<and> tx_status q = (if action = ''revoke'' then ''approved'' else ''pending'')
        \<and> find_by txc_hash (tx_challenges s) (sha256 E nonce) = Some c \<and> txc_for c = tx_id q \<and> txc_digest c = g \<and> txc_action c = action
        \<and> tx_time E (Suc (ticks s)) = Some t \<and> t < txc_expires c
        \<and> (action = ''approve'' \<longrightarrow> (\<exists>gr. granted (tx_actor q) (grant_id q) (tx_account q) gr s))
        \<and> find_by tx_id (txns s') (tx_id q) = Some r \<and> (tx_status r = tx_next action \<or> action = ''approve'' \<and> tx_status r = ''expired'')
        \<and> tx_public E drivers r = Inr d \<and> (\<forall>c \<in> set (tx_challenges s'). txc_for c \<noteq> tx_id q))"

lemma tx_settle_moves:
  assumes "tx_status q = (if action = ''revoke'' then ''approved'' else ''pending'')" and "action \<in> {''approve'', ''deny'', ''revoke''}"
    and "good_tx E q"
  shows "tx_moves q (tx_settle E drivers action t r q) \<and> good_tx E (tx_settle E drivers action t r q)
    \<and> execution_id (tx_settle E drivers action t r q) = execution_id q \<and> tx_status (tx_settle E drivers action t r q) = tx_next action"
  using assms(2)
proof (cases rule: action_cases)
  case 1
  with assms(1,3) show ?thesis
    by (simp add: tx_settle_def tx_moves_def same_txn_def kept_opt_def tx_next_def good_tx_def started_def) (simp add: r_into_rtranclp tx_edge_def)
next
  case 2
  with assms(1,3) show ?thesis
    by (simp add: tx_settle_def tx_moves_def same_txn_def kept_opt_def tx_next_def good_tx_def started_def) (simp add: r_into_rtranclp tx_edge_def)
next
  case 3
  with assms(1,3) show ?thesis
    by (simp add: tx_settle_def tx_moves_def same_txn_def kept_opt_def tx_next_def good_tx_def started_def) (simp add: r_into_rtranclp tx_edge_def)
qed


text \<open>The approval's grant check, as one step that leaves the transaction tables alone.\<close>

lemma wp_approval:
  assumes "\<And>s1. same_tables s s1 \<Longrightarrow> (action = ''approve'' \<Longrightarrow> \<exists>g s' u. auth actor gid s = (Inr g, s') \<and> tx_time E (ticks s') = Some u \<and> grant_ok g actor gid account u)
      \<Longrightarrow> Q () s1"
    and "\<And>e s1. same_tables s s1 \<Longrightarrow> X e s1"
  shows "wp (if action = ''approve'' then bindS (grant E auth actor gid account) (\<lambda>_. ret ()) else ret ()) Q X s"
proof (cases "action = ''approve''")
  case True
  have "wp (bindS (grant E auth actor gid account) (\<lambda>_. ret ())) Q X s"
    unfolding wp_bindS wp_ret by (rule wp_grant) (use assms in blast)+
  with True show ?thesis by simp
next
  case False
  with assms(1) [OF same_tables_simps(1)] show ?thesis by (simp add: wp_ret)
qed

lemma decide_body_spec:
  assumes inv: "tx_inv E s" and action: "action \<in> {''approve'', ''deny'', ''revoke''}"
  shows "wp (tx_decide_body E auth drivers v g action nonce) (\<lambda>d s'. tx_decided drivers v g action nonce d s s') (\<lambda>_ s'. tx_adv E s s') s"
  unfolding tx_decide_body_def wp_bindS
proof (rule wp_tx_row [OF inv], goal_cases)
  case (1 r s1)
  then obtain q t0 where q: "find_by tx_id (txns s) (tx_id r) = Some q" "r = tx_after t0 q"
    and ch: "\<And>h c. find_by txc_hash (tx_challenges s1) h = Some c \<Longrightarrow> find_by txc_hash (tx_challenges s) h = Some c"
    and r: "v = JStr (tx_id r)" "find_by tx_id (txns s1) (tx_id r) = Some r" "same_access s s1" "ticks s1 = Suc (ticks s)" "tx_adv E s s1"
    by (auto simp: tx_settled_def)
  have good: "good_tx E r" using tx_settled_row [OF inv 1(1)] by simp
  have step: "wp (public_tx E drivers v) (\<lambda>d s'. tx_decided drivers v g action nonce d s s') (\<lambda>_ s'. tx_adv E s s')
      (s2\<lparr>txns := update_by tx_id (tx_id r) (tx_settle E drivers action t r) (txns s2),
         tx_challenges := filter (\<lambda>c. txc_for c \<noteq> tx_id r) (tx_challenges s2), tx_events := ev\<rparr>)" (is "wp _ _ _ ?s3")
    if c: "find_by txc_hash (tx_challenges s1) (sha256 E nonce) = Some c" "txc_for c = tx_id r" "txc_digest c = g" "txc_action c = action" "t < txc_expires c"
      and st: "tx_status r = (if action = ''revoke'' then ''approved'' else ''pending'')" "tx_digest r = g"
      and t: "tx_time E (Suc (ticks s)) = Some t" and s2: "same_tables s1 s2"
      and gr: "action = ''approve'' \<Longrightarrow> \<exists>gr. granted (tx_actor r) (grant_id r) (tx_account r) gr s" for c t s2 ev
  proof -
    note m = tx_settle_moves [OF st(1) action good, of drivers t r]
    have inv2: "tx_inv E s2" using 1(2) s2 same_tables_adv tx_adv_inv by blast
    have f2: "find_by tx_id (txns s2) (tx_id r) = Some r" using r(2) s2 by (simp add: same_tables_def)
    have nu: "\<not> unresolved (tx_settle E drivers action t r r)"
      using m by (simp add: unresolved_def tx_next_def)
    have "tx_adv E s2 (s2\<lparr>txns := update_by tx_id (tx_id r) (tx_settle E drivers action t r) (txns s2)\<rparr>)"
      by (rule tx_adv_update [OF inv2 f2]) (use m nu in simp_all)
    then have "tx_adv E s2 ?s3"
      by (rule tx_adv_trans) (rule tx_adv_trans [OF tx_adv_drop [where p = "\<lambda>c. txc_for c \<noteq> tx_id r"]], rule same_tables_adv, simp add: same_tables_def)
    then have adv: "tx_adv E s ?s3" using r(5) s2 same_tables_adv tx_adv_trans by blast
    have ok2: "table_ok tx_id (good_tx E) (txns s2)" using inv2 by (simp add: tx_inv_def)
    have f3: "find_by tx_id (txns ?s3) (tx_id r) = Some (tx_settle E drivers action t r r)"
      using txm.update_find [where f = "tx_settle E drivers action t r", OF ok2 f2] m by simp
    show ?thesis
    proof (rule wp_public_tx)
      show "tx_inv E ?s3" using adv inv tx_adv_inv by blast
      fix r' d s' assume r': "tx_settled E v r' ?s3 s'" "tx_public E drivers r' = Inr d"
      have id: "tx_id r' = tx_id r" using r'(1) r(1) by (simp add: tx_settled_def)
      then obtain t' where t': "r' = tx_after t' (tx_settle E drivers action t r r)" using r'(1) f3 by (auto simp: tx_settled_def)
      have "tx_status r' = tx_next action \<or> action = ''approve'' \<and> tx_status r' = ''expired''"
        unfolding t' by (rule tx_after_cases) (use m in \<open>auto simp: tx_next_def split: if_splits\<close>)
      moreover have "tx_status q = tx_status r"
        using tx_after_status [of t0 q] st(1) q(2) by (auto simp: tx_open_def split: if_splits)
      moreover have "tx_adv E s s'" using adv tx_adv_trans tx_settled_adv r'(1) by blast
      moreover have "\<forall>c \<in> set (tx_challenges s'). txc_for c \<noteq> tx_id r" using r'(1) by (auto simp: tx_settled_def)
      ultimately show "tx_decided drivers v g action nonce d s s'"
        using q c(2-5) ch [OF c(1)] st t r(1) r' id gr unfolding tx_decided_def
        by (intro conjI exI [of _ q] exI [of _ c] exI [of _ t] exI [of _ r']) (auto simp: tx_settled_def)
    next
      fix e :: exn and s' assume "tx_adv E ?s3 s'"
      with adv show "tx_adv E s s'" using tx_adv_trans by blast
    qed
  qed
  have advt: "tx_adv E s (s1\<lparr>ticks := n\<rparr>)" for n
    by (rule tx_adv_trans [OF r(5) same_tables_adv]) simp
  show ?case
  proof (cases "tx_time E (ticks s1)")
    case None
    with advt show ?thesis by (simp add: wp_tx_now)
  next
    case (Some t)
    show ?thesis
    proof (cases "\<exists>c. find_by txc_hash (tx_challenges s1) (sha256 E nonce) = Some c \<and> txc_for c = tx_id r \<and> txc_action c = action
        \<and> t < txc_expires c \<and> txc_digest c = g \<and> tx_digest r = g \<and> \<not> not_applicable action r")
      case False
      show ?thesis
      proof (cases "find_by txc_hash (tx_challenges s1) (sha256 E nonce)")
        case None
        with advt show ?thesis by (simp add: wp_bindS wp_tx_now Some wp_gets Let_def r(1) wp_raise)
      next
        case c: (Some c)
        show ?thesis
        proof (cases "(txc_for c \<noteq> tx_id r \<or> txc_action c \<noteq> action \<or> t \<ge> txc_expires c \<or> txc_digest c \<noteq> g) \<or> tx_digest r \<noteq> g")
          case True
          have "tx_challenges (s1\<lparr>ticks := n\<rparr>) = tx_challenges s1" for n by simp
          with True advt show ?thesis
            by (simp only: wp_bindS wp_tx_now Some option.case wp_gets Let_def r(1) content_simps c if_True wp_raise simp_thms)
        next
          case not_bad: False
          with False c have "not_applicable action r" by auto
          with not_bad c advt show ?thesis by (simp add: wp_bindS wp_tx_now Some wp_gets Let_def r(1) wp_raise)
        qed
      qed
    next
      case True
      then obtain c where c: "find_by txc_hash (tx_challenges s1) (sha256 E nonce) = Some c" "txc_for c = tx_id r" "txc_action c = action"
          "t < txc_expires c" "txc_digest c = g" "tx_digest r = g" "\<not> not_applicable action r" by blast
      have st: "tx_status r = (if action = ''revoke'' then ''approved'' else ''pending'')"
        using action c(7) by (cases rule: action_cases) (simp_all add: not_applicable_def)
      have "wp (if action = ''approve'' then bindS (grant E auth (tx_actor r) (grant_id r) (tx_account r)) (\<lambda>_. ret ()) else ret ())
          (\<lambda>_. wp (bindS (update_tx (tx_id r) (tx_settle E drivers action t r)) (\<lambda>_. bindS (drop_tx_challenges (tx_id r)) (\<lambda>_.
             bindS (log_tx (tx_id r) action t) (\<lambda>_. public_tx E drivers v))))
             (\<lambda>d s'. tx_decided drivers v g action nonce d s s') (\<lambda>_ s'. tx_adv E s s')) (\<lambda>_ s'. tx_adv E s s') (s1\<lparr>ticks := Suc (ticks s1)\<rparr>)"
      proof (rule wp_approval, goal_cases)
        case (1 s2)
        have "same_tables s1 s2" using 1(1) by (simp add: same_tables_def)
        moreover have "\<exists>gr. granted (tx_actor r) (grant_id r) (tx_account r) gr s" if "action = ''approve''"
          using 1(2) [OF that] r(3,4) grantedI [of "tx_actor r" "grant_id r" "s1\<lparr>ticks := Suc (ticks s1)\<rparr>" _ _ _ "tx_account r" s]
          by (fastforce simp: same_access_def)
        ultimately show ?case
          using step [OF c(1,2,5,3,4) st c(6), of s2] Some r(4) by (simp add: wp_bindS wp_tx_writes)
      next
        case (2 e s2)
        then have "same_tables s1 s2" by (simp add: same_tables_def)
        then show ?case using r(5) tx_adv_trans same_tables_adv by blast
      qed
      then show ?thesis
        using c by (simp add: wp_bindS wp_tx_now Some wp_gets Let_def r(1))
    qed
  qed
qed (rule same_tables_adv)


definition claim_ok :: "drivers \<Rightarrow> string \<Rightarrow> json \<Rightarrow> dict \<Rightarrow> json \<Rightarrow> dict \<Rightarrow> 'a site_db_scheme \<Rightarrow> 'a site_db_scheme \<Rightarrow> bool" where
  "claim_ok drivers actor v current driver d s s' \<longleftrightarrow> tx_adv E s s' \<and>
     (\<exists>q r g dr t u deadline. v = JStr (tx_id q) \<and> find_by tx_id (txns s) (tx_id q) = Some q \<and> tx_status q = ''approved'' \<and> tx_actor q = actor
        \<and> canonical E current = canonical E (snapshot q) \<and> driver = JStr dr \<and> (dr, tx_account q, tx_kind q) \<in> set drivers
        \<and> qualified_at_approval q \<noteq> 0 \<and> qualified_set_digest q = Some (driver_digest E drivers q)
        \<and> (\<forall>p \<in> set (txns s). tx_account p = tx_account q \<and> unresolved p \<longrightarrow> p = q)
        \<and> granted actor (grant_id q) (tx_account q) g s
        \<and> find_by tx_id (txns s') (tx_id q) = Some r \<and> tx_status r = ''executing''
        \<and> tx_time E (Suc (ticks s)) = Some t \<and> deadline = min (tx_expires q) (min (int_of (get (dict_of g) ''expires_at'')) (t + 15))
        \<and> tx_time E (ticks s' - 1) = Some u \<and> u < deadline \<and> get d ''claim_deadline'' = JInt deadline \<and> get d ''execution_id'' = opt_str (execution_id r))"

lemma tx_public_fields:
  assumes "tx_public E drivers r = Inr d"
  shows "get d ''status'' = JStr (tx_status r)" "get d ''execution_id'' = opt_str (execution_id r)"
  using assms by (auto simp: tx_public_def res_iffs)

lemma driver_digest_after [simp]: "driver_digest E drivers (tx_after t q) = driver_digest E drivers q"
  by (simp add: driver_digest_def)

lemma claim_tail_spec:
  assumes inv: "tx_inv E s" and r: "find_by tx_id (txns s) (tx_id r) = Some r" "tx_status r = ''approved''"
    and free: "\<forall>q \<in> set (txns s). tx_id q \<noteq> tx_id r \<and> tx_account q = tx_account r \<longrightarrow> \<not> unresolved q"
  shows "wp (claim_tail E drivers (JStr (tx_id r)) driver r t g)
    (\<lambda>d s'. tx_adv E s s' \<and> (\<exists>r' u deadline. find_by tx_id (txns s') (tx_id r) = Some r' \<and> tx_status r' = ''executing''
        \<and> deadline = min (tx_expires r) (min (int_of (get g ''expires_at'')) (t + 15)) \<and> tx_time E (ticks s' - 1) = Some u \<and> u < deadline
        \<and> get d ''claim_deadline'' = JInt deadline \<and> get d ''execution_id'' = opt_str (execution_id r')))
    (\<lambda>_ s'. tx_adv E s s') s"
proof -
  have ok: "table_ok tx_id (good_tx E) (txns s)" using inv by (simp add: tx_inv_def)
  have good: "good_tx E r" using table_ok_row [OF ok r(1)] by simp
  define f where "f eid q = q\<lparr>tx_status := ''executing'', execution_id := Some eid, claimed := Some t, driver_id := Some (str_of driver)\<rparr>" for eid and q :: txn_row
  have m: "tx_moves r (f eid r)" "good_tx E (f eid r)" for eid
    using good r(2) by (simp_all add: f_def tx_moves_def same_txn_def kept_opt_def good_tx_def started_def r_into_rtranclp tx_edge_def)
  have step: "wp (public_tx E drivers (JStr (tx_id r))) Q (\<lambda>_ s'. tx_adv E s s') s3"
    if new: "\<not> (\<exists>q \<in> set (txns s). tx_id q \<noteq> tx_id r \<and> execution_id q = Some eid)"
      and s3: "txns s3 = update_by tx_id (tx_id r) (f eid) (txns s)" "tx_challenges s3 = filter p (tx_challenges s)"
      and Q: "\<And>d r' s'. tx_adv E s s' \<Longrightarrow> find_by tx_id (txns s') (tx_id r) = Some r' \<Longrightarrow> tx_public E drivers r' = Inr d \<Longrightarrow> Q d s'" for Q eid p s3
  proof -
    have "tx_adv E s (s\<lparr>txns := update_by tx_id (tx_id r) (f eid) (txns s)\<rparr>)"
      by (rule tx_adv_update [where f = "f eid", OF inv r(1) m]) (use free new in \<open>auto simp: f_def\<close>)
    then have adv: "tx_adv E s s3"
      by (rule tx_adv_trans) (rule tx_adv_trans [OF tx_adv_drop [where p = p]], rule same_tables_adv, simp add: same_tables_def s3)
    show ?thesis
    proof (rule wp_public_tx)
      show "tx_inv E s3" using adv inv tx_adv_inv by blast
      fix r' d s' assume r': "tx_settled E (JStr (tx_id r)) r' s3 s'" "tx_public E drivers r' = Inr d"
      show "Q d s'"
        by (rule Q [of s' r']) (use r' adv tx_adv_trans tx_settled_adv in \<open>auto simp: tx_settled_def\<close>)
    next
      fix e :: exn and s' assume "tx_adv E s3 s'"
      with adv show "tx_adv E s s'" using tx_adv_trans by blast
    qed
  qed
  let ?dl = "min (tx_expires r) (min (int_of (get g ''expires_at'')) (t + 15))"
  have answer: "wp (let deadline = ?dl; result = put d ''claim_deadline'' (JInt deadline)
       in if get result ''status'' \<noteq> JStr ''executing''
          then raise (TransactionRefused ''Transaction execution window expired; operator reconciliation required'')
          else bindS (tx_now E) (\<lambda>u.
            if u \<ge> deadline then raise (TransactionRefused ''Transaction execution window expired; operator reconciliation required'')
            else ret (put result ''claim_authorized'' (JBool True))))
      (\<lambda>d s'. tx_adv E s s' \<and> (\<exists>r' u deadline. find_by tx_id (txns s') (tx_id r) = Some r' \<and> tx_status r' = ''executing''
        \<and> deadline = ?dl \<and> tx_time E (ticks s' - 1) = Some u \<and> u < deadline
        \<and> get d ''claim_deadline'' = JInt deadline \<and> get d ''execution_id'' = opt_str (execution_id r'))) (\<lambda>_ s'. tx_adv E s s') s'"
    if d: "tx_adv E s s'" "find_by tx_id (txns s') (tx_id r) = Some r'" "tx_public E drivers r' = Inr d" for d r' s'
  proof -
    have world: "tx_adv E s (s'\<lparr>ticks := n\<rparr>)" for n by (rule tx_adv_trans [OF d(1) same_tables_adv]) simp
    show ?thesis
      using d world tx_public_fields [OF d(3)] by (auto simp: wp_simps Let_def not_le simp del: min_less_iff_conj split: option.splits)
  qed
  have world: "tx_adv E s (s\<lparr>ids := n\<rparr>)" for n by (rule same_tables_adv) simp
  show ?thesis
    unfolding claim_tail_def mark_executing_def wp_bindS wp_gets world_wps wp_if wp_raise wp_tx_writes content_simps if_bool_eq_conj
    by (intro conjI impI) (simp add: world, rule step [unfolded f_def], simp, simp, simp, rule answer)
qed


lemma claim_body_spec:
  assumes inv: "tx_inv E s"
  shows "wp (claim_body E auth drivers actor v current driver) (\<lambda>d s'. claim_ok drivers actor v current driver d s s') (\<lambda>_ s'. tx_adv E s s') s"
  unfolding claim_body_def wp_bindS
proof (rule wp_tx_row [OF inv], goal_cases)
  case (1 r s1)
  then obtain q t0 where q: "find_by tx_id (txns s) (tx_id r) = Some q" "r = tx_after t0 q"
      "txns s1 = update_by tx_id (tx_id r) (tx_after t0) (txns s)"
    and r: "v = JStr (tx_id r)" "find_by tx_id (txns s1) (tx_id r) = Some r" "same_access s s1" "ticks s1 = Suc (ticks s)" "tx_adv E s s1"
    by (auto simp: tx_settled_def)
  have advt: "tx_adv E s (s1\<lparr>ticks := n\<rparr>)" for n
    by (rule tx_adv_trans [OF r(5) same_tables_adv]) simp
  show ?case
  proof (cases "tx_time E (ticks s1)")
    case None
    with advt show ?thesis by (simp add: wp_tx_now)
  next
    case (Some t)
    let ?free = "\<not> (\<exists>q \<in> set (txns s1). tx_account q = tx_account r \<and> tx_id q \<noteq> tx_id r \<and> unresolved q)"
    have main: "wp (grant E auth actor (grant_id r) (tx_account r)) (\<lambda>g. wp (claim_tail E drivers v driver r t g)
        (\<lambda>d s'. claim_ok drivers actor v current driver d s s') (\<lambda>_ s'. tx_adv E s s')) (\<lambda>_ s'. tx_adv E s s') (s1\<lparr>ticks := Suc (ticks s1)\<rparr>)"
      if ctx: "tx_actor r = actor" "canonical E current = canonical E (snapshot r)"
        and dr: "is_str driver" "(str_of driver, tx_account r, tx_kind r) \<in> set drivers" "qualified_at_approval r \<noteq> 0"
          "qualified_set_digest r = Some (driver_digest E drivers r)"
        and st: "tx_status r = ''approved''" and free: ?free
    proof (rule wp_grant, goal_cases)
      case (1 g s2 u)
      let ?s2 = "s2\<lparr>ticks := Suc (ticks s2)\<rparr>"
      have same: "same_tables s1 ?s2" using 1(4) by (simp add: same_tables_def)
      have inv2: "tx_inv E ?s2" using same same_tables_adv advt [of "ticks s1"] inv tx_adv_inv tx_adv_trans r(5) by metis
      have adv2: "tx_adv E s ?s2" using same same_tables_adv r(5) tx_adv_trans by metis
      have gr: "granted actor (grant_id r) (tx_account r) g s"
        by (rule grantedI [OF 1(1,2,3)]) (use r(3,4) in \<open>simp_all add: same_access_def\<close>)
      have q_st: "tx_status q = ''approved''" using tx_after_status [of t0 q] st q(2) by (simp add: tx_open_def)
      have ok: "table_ok tx_id (good_tx E) (txns s)" using inv by (simp add: tx_inv_def)
      have only: "p = q" if "p \<in> set (txns s)" "tx_account p = tx_account q" "unresolved p" for p
      proof (rule ccontr)
        assume "p \<noteq> q"
        then have "p \<in> set (txns s1)" "tx_id p \<noteq> tx_id q"
          using that(1) q(1,3) txm.update_as_set [OF ok q(1)] table_ok_mem [OF ok that(1)] q(2) by auto
        with free that(2,3) q(2) show False by auto
      qed
      show ?case
      proof (rule wp_mono [OF claim_tail_spec [OF inv2, of r, folded r(1)]], goal_cases)
        case 1 show ?case using r(2) same by (simp add: same_tables_def)
      next
        case 2 show ?case by (rule st)
      next
        case 3 show ?case using free same by (auto simp: same_tables_def)
      next
        case (4 d s')
        then have "tx_adv E s s'" using adv2 tx_adv_trans by blast
        obtain r' u where "find_by tx_id (txns s') (tx_id r) = Some r'" "tx_status r' = ''executing''" "tx_time E (ticks s' - 1) = Some u"
            "u < min (tx_expires r) (min (int_of (get (dict_of g) ''expires_at'')) (t + 15))"
            "get d ''claim_deadline'' = JInt (min (tx_expires r) (min (int_of (get (dict_of g) ''expires_at'')) (t + 15)))"
            "get d ''execution_id'' = opt_str (execution_id r')" using 4 by blast
        note r' = this
        show ?case
          unfolding claim_ok_def
        proof (rule conjI)
          show "tx_adv E s s'" by (rule \<open>tx_adv E s s'\<close>)
          show "\<exists>q r g dr t u deadline. v = JStr (tx_id q) \<and> find_by tx_id (txns s) (tx_id q) = Some q \<and> tx_status q = ''approved'' \<and> tx_actor q = actor
            \<and> canonical E current = canonical E (snapshot q) \<and> driver = JStr dr \<and> (dr, tx_account q, tx_kind q) \<in> set drivers
            \<and> qualified_at_approval q \<noteq> 0 \<and> qualified_set_digest q = Some (driver_digest E drivers q)
            \<and> (\<forall>p \<in> set (txns s). tx_account p = tx_account q \<and> unresolved p \<longrightarrow> p = q)
            \<and> granted actor (grant_id q) (tx_account q) g s
            \<and> find_by tx_id (txns s') (tx_id q) = Some r \<and> tx_status r = ''executing''
            \<and> tx_time E (Suc (ticks s)) = Some t \<and> deadline = min (tx_expires q) (min (int_of (get (dict_of g) ''expires_at'')) (t + 15))
            \<and> tx_time E (ticks s' - 1) = Some u \<and> u < deadline \<and> get d ''claim_deadline'' = JInt deadline \<and> get d ''execution_id'' = opt_str (execution_id r)"
            by (rule exI [of _ q], rule exI [of _ r'], rule exI [of _ g], rule exI [of _ "str_of driver"], rule exI [of _ t], rule exI [of _ u])
              (use r' q(1,2) r(1,4) gr ctx dr q_st only Some in \<open>auto simp: is_str_iff\<close>)
        qed
      next
        case (5 e s') then show ?case using adv2 tx_adv_trans by blast
      qed
    next
      case (2 e s2)
      then have "same_tables s1 s2" by (simp add: same_tables_def)
      then show ?case using r(5) tx_adv_trans same_tables_adv by blast
    qed
    show ?thesis
      using main advt by (simp add: wp_simps Some r(1) split: if_splits)
  qed
qed (rule same_tables_adv)


definition outcome_ok :: "drivers \<Rightarrow> json \<Rightarrow> string \<Rightarrow> string \<Rightarrow> string option \<Rightarrow> dict \<Rightarrow> 'a site_db_scheme \<Rightarrow> 'a site_db_scheme \<Rightarrow> bool" where
  "outcome_ok drivers v eid outcome rec d s s' \<longleftrightarrow> tx_adv E s s' \<and>
     (\<exists>q r. v = JStr (tx_id q) \<and> find_by tx_id (txns s) (tx_id q) = Some q \<and> execution_id q = Some eid
        \<and> (outcome_at q \<noteq> None \<longrightarrow> tx_status q = outcome \<and> receipt q = rec)
        \<and> find_by tx_id (txns s') (tx_id q) = Some r \<and> tx_status r = outcome \<and> receipt r = rec \<and> outcome_at r \<noteq> None
        \<and> tx_public E drivers r = Inr d)"

lemma outcome_body_spec:
  assumes inv: "tx_inv E s" and oc: "outcome \<in> {''succeeded'', ''failed'', ''unknown''}"
  shows "wp (outcome_body E drivers v eid outcome rec) (\<lambda>d s'. outcome_ok drivers v eid outcome rec d s s') (\<lambda>_ s'. tx_adv E s s') s"
  unfolding outcome_body_def wp_bindS
proof (rule wp_tx_row [OF inv], goal_cases)
  case (1 r s1)
  then obtain q t0 where q: "find_by tx_id (txns s) (tx_id r) = Some q" "r = tx_after t0 q"
    and r: "v = JStr (tx_id r)" "find_by tx_id (txns s1) (tx_id r) = Some r" "tx_adv E s s1"
    by (auto simp: tx_settled_def)
  have good: "good_tx E r" using tx_settled_row [OF inv 1(1)] by simp
  have ok: "table_ok tx_id (good_tx E) (txns s1)" using 1(2) by (simp add: tx_inv_def)
  have advt: "tx_adv E s (s1\<lparr>ticks := n\<rparr>)" for n by (rule tx_adv_trans [OF r(3) same_tables_adv]) simp
  have closed: "tx_status q = tx_status r" if "outcome_at r \<noteq> None"
  proof -
    have "good_tx E q" using inv table_ok_row [OF _ q(1)] by (auto simp: tx_inv_def)
    then have "\<not> tx_open (tx_status q)" using that q(2) by (auto simp: good_tx_def tx_open_def)
    then show ?thesis using q(2) by (simp add: tx_after_def)
  qed
  have replay: "outcome_ok drivers v eid outcome rec d s (s1\<lparr>ticks := n\<rparr>)"
    if "execution_id r = Some eid" "outcome_at r \<noteq> None" "tx_status r = outcome" "receipt r = rec" "tx_public E drivers r = Inr d" for d n
    using that q r advt closed unfolding outcome_ok_def
    by (intro conjI exI [of _ q] exI [of _ r]) (auto simp del: not_None_eq)
  have fresh: "wp (public_tx E drivers v) (\<lambda>d s'. outcome_ok drivers v eid outcome rec d s s') (\<lambda>_ s'. tx_adv E s s') s3"
    if e: "execution_id r = Some eid" "outcome_at r = None" "unresolved r"
      and s3: "txns s3 = update_by tx_id (tx_id r) (\<lambda>q. q\<lparr>tx_status := outcome, outcome_at := Some t, receipt := rec\<rparr>) (txns s1)" "tx_challenges s3 = tx_challenges s1" for t s3
  proof -
    let ?f = "\<lambda>q :: txn_row. q\<lparr>tx_status := outcome, outcome_at := Some t, receipt := rec\<rparr>"
    have edge: "tx_edge\<^sup>*\<^sup>* (tx_status r) outcome"
    proof (cases "tx_status r = outcome")
      case False
      with e(3) oc have "tx_edge (tx_status r) outcome" by (auto simp: unresolved_def tx_edge_def)
      then show ?thesis by (rule r_into_rtranclp)
    qed simp
    have app: "tx_approved r \<noteq> None" using good e(3) by (auto simp: good_tx_def unresolved_def started_def)
    have m: "tx_moves r (?f r)" "good_tx E (?f r)"
      using edge e(2) good e(1) oc app by (auto simp: tx_moves_def same_txn_def kept_opt_def good_tx_def started_def simp del: not_None_eq)
    have "tx_adv E s1 (s1\<lparr>txns := update_by tx_id (tx_id r) ?f (txns s1)\<rparr>)"
      by (rule tx_adv_update [where f = ?f, OF 1(2) r(2) m]) (simp_all add: e(3))
    then have adv: "tx_adv E s s3"
      by (rule tx_adv_trans [OF r(3) tx_adv_trans]) (rule same_tables_adv, simp add: same_tables_def s3)
    have f3: "find_by tx_id (txns s3) (tx_id r) = Some (?f r)"
      using txm.update_find [where f = ?f, OF ok r(2) m(1)] s3 by simp
    show ?thesis
    proof (rule wp_public_tx)
      show "tx_inv E s3" using adv inv tx_adv_inv by blast
      fix r' d s' assume r': "tx_settled E v r' s3 s'" "tx_public E drivers r' = Inr d"
      have id: "tx_id r' = tx_id r" using r'(1) r(1) by (simp add: tx_settled_def)
      then obtain t' where t': "r' = tx_after t' (?f r)" using r'(1) f3 by (auto simp: tx_settled_def)
      have st: "tx_status r' = outcome" using oc by (auto simp: t' tx_after_def tx_open_def)
      have rest: "receipt r' = rec" "outcome_at r' \<noteq> None" by (simp_all add: t')
      have "tx_adv E s s'" using adv tx_adv_trans tx_settled_adv r'(1) by blast
      moreover have "find_by tx_id (txns s') (tx_id q) = Some r'" using r'(1) id q(2) by (simp add: tx_settled_def)
      ultimately show "outcome_ok drivers v eid outcome rec d s s'"
        using q r(1) e st rest r'(2) unfolding outcome_ok_def
        by (intro conjI exI [of _ q] exI [of _ r']) (auto simp del: not_None_eq)
    next
      fix e :: exn and s' assume "tx_adv E s3 s'"
      with adv show "tx_adv E s s'" using tx_adv_trans by blast
    qed
  qed
  show ?case
  proof (cases "tx_time E (ticks s1)")
    case None
    with advt show ?thesis by (simp add: wp_tx_now)
  next
    case (Some t)
    let ?s3 = "s1\<lparr>ticks := Suc (ticks s1), txns := update_by tx_id (tx_id r) (\<lambda>q. q\<lparr>tx_status := outcome, outcome_at := Some t, receipt := rec\<rparr>) (txns s1),
        tx_events := tx_events s1 @ [(tx_id r, outcome, t)]\<rparr>"
    show ?thesis
    proof (cases "outcome_at r")
      case None
      have "wp (public_tx E drivers v) (\<lambda>d s'. outcome_ok drivers v eid outcome rec d s s') (\<lambda>_ s'. tx_adv E s s') ?s3"
        if "execution_id r = Some eid" "unresolved r"
        by (rule fresh [OF that(1) None that(2), of _ t]) simp_all
      with advt None show ?thesis by (simp add: wp_bindS wp_tx_now Some wp_raise wp_tx_writes r(1))
    next
      case some: (Some n)
      with replay advt show ?thesis
        by (simp add: wp_bindS wp_tx_now Some wp_raise wp_lift r(1) split: sum.split)
    qed
  qed
qed (rule same_tables_adv)


section \<open>The methods\<close>

lemma review_spec:
  assumes "tx_inv E s"
  shows "wp (review E drivers v actor) (\<lambda>d s'. \<exists>r. tx_settled E v r s s' \<and> (actor = JNull \<or> actor = JStr (tx_actor r)) \<and> tx_public E drivers r = Inr d)
    (\<lambda>_ s'. tx_adv E s s') s"
proof (cases "if actor = JNull then Inr [] else actor_id actor")
  case (Inl e)
  then show ?thesis by (simp add: review_def wp_bindS wp_lift same_tables_adv)
next
  case (Inr a)
  have "wp (connect (bindS (tx_row E v) (\<lambda>r. if actor \<noteq> JNull \<and> actor \<noteq> JStr (tx_actor r) then raise (TransactionRefused ''Transaction unavailable'') else lift (tx_public E drivers r))))
      (\<lambda>d s'. \<exists>r. tx_settled E v r s s' \<and> (actor = JNull \<or> actor = JStr (tx_actor r)) \<and> tx_public E drivers r = Inr d) (\<lambda>_ s'. tx_adv E s s') s"
    by (rule wp_connected, unfold wp_bindS, rule wp_tx_row [OF assms]) (auto simp: wp_simps tx_settled_adv same_tables_adv split: sum.splits)
  note body = this
  show ?thesis unfolding review_def wp_bindS wp_lift Inr sum.case by (rule body)
qed

lemma tx_challenge_spec:
  assumes "tx_inv E s"
  shows "wp (tx_challenge E v action) (\<lambda>_ s'. tx_adv E s s') (\<lambda>_ s'. tx_adv E s s') s"
  unfolding tx_challenge_def wp_if wp_raise
  by (simp add: same_tables_adv wp_connected challenge_body_spec [OF assms])

lemma tx_decide_spec:
  assumes "tx_inv E s"
  shows "wp (tx_decide E auth drivers v g action nonce)
    (\<lambda>d s'. \<exists>g' a n. g = JStr g' \<and> action = JStr a \<and> nonce = JStr n \<and> tx_decided drivers v g' a n d s s') (\<lambda>_ s'. tx_adv E s s') s"
proof (cases "action \<notin> JStr ` set [''approve'', ''deny'', ''revoke''] \<or> \<not> is_str nonce
         \<or> \<not> (1 \<le> length (str_of nonce) \<and> length (str_of nonce) \<le> 128) \<or> \<not> is_str g \<or> \<not> hex_text 64 (str_of g)")
  case True
  then show ?thesis by (simp only: tx_decide_def if_True wp_raise same_tables_adv same_tables_simps)
next
  case False
  then obtain a n g' where args: "action = JStr a" "a \<in> {''approve'', ''deny'', ''revoke''}" "nonce = JStr n" "g = JStr g'"
    by (auto simp: is_str_iff)
  have "wp (connect (tx_decide_body E auth drivers v g' a n)) (\<lambda>d s'. tx_decided drivers v g' a n d s s') (\<lambda>_ s'. tx_adv E s s') s"
    by (rule wp_connected) (rule decide_body_spec [OF assms args(2)])
  then have "wp (connect (tx_decide_body E auth drivers v g' a n))
      (\<lambda>d s'. \<exists>g' a n. g = JStr g' \<and> action = JStr a \<and> nonce = JStr n \<and> tx_decided drivers v g' a n d s s') (\<lambda>_ s'. tx_adv E s s') s"
    by (rule wp_mono) (use args in blast)+
  moreover have "tx_decide E auth drivers v g action nonce = connect (tx_decide_body E auth drivers v (str_of g) (str_of action) (str_of nonce))"
    unfolding tx_decide_def by (rule if_not_P [OF False])
  ultimately show ?thesis by (simp add: args)
qed

lemma claim_spec:
  assumes "tx_inv E s"
  shows "wp (claim E auth drivers trusted_actor v current driver)
    (\<lambda>d s'. \<exists>a c. trusted_actor = JStr a \<and> validate_snapshot E current = Inr c \<and> claim_ok drivers a v c driver d s s') (\<lambda>_ s'. tx_adv E s s') s"
proof (cases "actor_id trusted_actor")
  case a: (Inr a)
  then have t: "trusted_actor = JStr a" by (auto simp: actor_id_def split: json.splits if_splits)
  show ?thesis
  proof (cases "validate_snapshot E current")
    case c: (Inr c)
    have "wp (connect (claim_body E auth drivers a v c driver)) (\<lambda>d s'. claim_ok drivers a v c driver d s s') (\<lambda>_ s'. tx_adv E s s') s"
      by (rule wp_connected) (rule claim_body_spec [OF assms])
    then show ?thesis unfolding claim_def wp_bindS wp_lift a c sum.case
      by (rule wp_mono) (use t c in blast)+
  qed (simp add: claim_def wp_bindS wp_lift a same_tables_adv)
qed (simp add: claim_def wp_bindS wp_lift same_tables_adv)

lemma execution_outcome_spec:
  assumes "tx_inv E s"
  shows "wp (execution_outcome E drivers v eid outcome rec)
    (\<lambda>d s'. \<exists>e oc. eid = JStr e \<and> outcome = JStr oc \<and> outcome_ok drivers v e oc (str_opt rec) d s s') (\<lambda>_ s'. tx_adv E s s') s"
proof (cases "reference eid")
  case e: (Inr e)
  then have eid: "eid = JStr e" by (rule reference_Inr)
  show ?thesis
  proof (cases "outcome_args outcome rec")
    case True
    then obtain oc where oc: "outcome = JStr oc" "oc \<in> {''succeeded'', ''failed'', ''unknown''}" by (auto simp: outcome_args_def)
    have "wp (connect (outcome_body E drivers v e oc (str_opt rec))) (\<lambda>d s'. outcome_ok drivers v e oc (str_opt rec) d s s') (\<lambda>_ s'. tx_adv E s s') s"
      by (rule wp_connected) (rule outcome_body_spec [OF assms oc(2)])
    then have "wp (connect (outcome_body E drivers v e oc (str_opt rec)))
        (\<lambda>d s'. \<exists>e oc. eid = JStr e \<and> outcome = JStr oc \<and> outcome_ok drivers v e oc (str_opt rec) d s s') (\<lambda>_ s'. tx_adv E s s') s"
      by (rule wp_mono) (use eid oc in blast)+
    then show ?thesis using True by (simp add: execution_outcome_def wp_bindS wp_lift e oc(1))
  qed (simp add: execution_outcome_def wp_bindS wp_lift e wp_raise same_tables_adv)
qed (simp add: execution_outcome_def wp_bindS wp_lift same_tables_adv)

text \<open>The parts of the outcomes that the properties of the service combine.\<close>

lemma claim_okE:
  assumes "claim_ok drivers a v c driver d s s'"
  obtains q r where "v = JStr (tx_id q)" "find_by tx_id (txns s) (tx_id q) = Some q" "tx_status q = ''approved''"
    "find_by tx_id (txns s') (tx_id q) = Some r" "tx_status r = ''executing''"
  using assms unfolding claim_ok_def by (elim exE conjE) (rule that; assumption)

lemma outcome_okE:
  assumes "outcome_ok drivers v e oc rc d s s'"
  obtains q r where "v = JStr (tx_id q)" "find_by tx_id (txns s) (tx_id q) = Some q"
    "outcome_at q \<noteq> None \<longrightarrow> tx_status q = oc \<and> receipt q = rc"
    "find_by tx_id (txns s') (tx_id q) = Some r" "tx_status r = oc" "receipt r = rc" "outcome_at r \<noteq> None"
  using assms unfolding outcome_ok_def by (elim exE conjE) (rule that; assumption)

end

end
