(* ===== verification/Site_Service.thy ===== *)
theory Site_Service
  imports Site_Transactions
begin

text \<open>
  The access service of \<open>openclaw-access.py\<close>: the access ledger and the transaction ledger, where
  the transaction ledger's \<open>authorize_grant\<close> callback is the status method of the access ledger.
  Calls to both are interleaved in any order (each runs in one database transaction); the
  properties of the purchases are stated on these runs.
\<close>

section \<open>The service: both ledgers\<close>

text \<open>\<open>openclaw-access.py\<close> binds \<open>authorize_grant\<close> to the status method of the access ledger.\<close>

definition ledger_authority :: "env \<Rightarrow> registry \<Rightarrow> availability \<Rightarrow> 'a authorizer" where
  "ledger_authority E reg ready actor ref = bindS (status E reg ready (JStr ref) (JStr actor)) (\<lambda>d. ret (JObj d))"


lemma more_same_tables: "same_more s s' \<Longrightarrow> same_tables s s'"
  by (cases s, cases s') (simp add: same_more_def same_tables_def)

interpretation site: grant_authority E "ledger_authority E reg ready"
proof
  show "same_tables s (snd (ledger_authority E reg ready actor gid s))" for s actor gid
    unfolding ledger_authority_def by (rule more_same_tables, rule more.keeps_bind) (simp_all add: more_methods)
qed

text \<open>What the callback guarantees: a genuine, live row of the access ledger.\<close>

lemma ledger_authority_sound:
  assumes "ledger_inv E s" and "ledger_authority E reg ready actor gid s = (Inr g, s')"
  shows "\<exists>q r t. find_by req_id (requests s) gid = Some q \<and> settled_row q r \<and> find_by req_id (requests s') gid = Some r \<and> req_actor r = actor \<and> public reg ready r = Inr (dict_of g)
    \<and> int_of_flt (clock E (ticks s)) = Inr t \<and> live t r \<and> good_row E r \<and> advances E s s'"
proof -
  from assms(2) obtain d where d: "status E reg ready (JStr gid) (JStr actor) s = (Inr d, s')" "g = JObj d"
    by (auto simp: ledger_authority_def eff_iffs)
  obtain r where r: "settled E (JStr gid) r s s'" "JStr actor = JNull \<or> JStr actor = JStr (req_actor r)" "public reg ready r = Inr d"
    using wp_outcome [OF status_spec [OF assms(1)] d(1)] by blast
  with d(2) settled_good [OF assms(1) r(1)] show ?thesis by (fastforce simp: settled_def)
qed

text \<open>The access ledger under the transaction methods: they reach it only through the callback.\<close>

lemma keeps_authority: "advances E s (snd (ledger_authority E reg ready actor gid s))"
  unfolding ledger_authority_def by (rule adv.keeps_bind [OF keeps_status]) (simp add: ret_def)

lemma adv_steps [simp]:
  "advances E s (snd (raise e s))" "advances E s (snd (ret x s))" "advances E s (snd (lift r s))" "advances E s (snd (gets f s))"
  "advances E s (snd (read_clock E' s))" "advances E s (snd (fresh_uuid E' s))" "advances E s (snd (fresh_token E' s))"
  by (simp_all add: raise_def ret_def lift_def gets_def read_clock_def fresh_uuid_def fresh_token_def)

lemma adv_tx_writes [simp]:
  fixes s :: "'a site_db_scheme"
  shows "advances E s (snd (log_tx ref action t s))" "advances E s (snd (drop_tx_challenges ref s))" "advances E s (snd (update_tx ref f s))"
    "advances E s (s\<lparr>txns := rs\<rparr>)" "advances E s (s\<lparr>tx_challenges := cs\<rparr>)"
  by (simp_all add: log_tx_def drop_tx_challenges_def update_tx_def modify_def advances_tables)

lemma adv_tx_now: "advances E s (snd (tx_now E' s))"
  unfolding tx_now_def by (rule adv.keeps_bind) auto

lemma adv_tx_row: "advances E s (snd (tx_row E' v s))"
  unfolding tx_row_def fetch_tx_def Let_def
  by (intro adv.keeps_bind) (auto intro!: adv.keeps_bind adv_tx_now split: option.split)

lemma adv_public_tx: "advances E s (snd (public_tx E' drivers v s))"
  unfolding public_tx_def by (intro adv.keeps_bind adv_tx_row) simp

lemma adv_connect:
  assumes "advances E s (snd (m s))"
  shows "advances E s (snd (connect m s))"
proof -
  have "advances E s s' \<Longrightarrow> advances E s (tx_restore s s')" for s'
    by (rule advances_trans [of E s s']) (simp_all add: advances_tables tx_restore_def)
  with assms show ?thesis by (auto simp: connect_def split: prod.splits sum.splits)
qed

lemma adv_catch:
  assumes "advances E s (snd (m s))" and "\<And>e s'. advances E s' (snd (h e s'))"
  shows "advances E s (snd (catch m p h s))"
  using assms advances_trans [OF assms(1)] by (auto simp: catch_def split: prod.splits sum.splits)

lemma adv_modify: "advances E s (f s) \<Longrightarrow> advances E s (snd (modify f s))"
  by (simp add: modify_def)

lemma adv_grant: "advances E s (snd (grant E (ledger_authority E reg ready) actor gid account s))"
  unfolding grant_def by (intro adv_catch adv.keeps_bind keeps_authority adv_tx_now) auto

lemmas adv_intros = adv.keeps_bind adv_connect adv_grant adv_tx_now adv_tx_row adv_public_tx adv_modify

section \<open>Runs of the service\<close>

datatype site_call =
    Access access_call
  | Propose json json json
  | Review json json
  | Tx_Challenge json json
  | Tx_Decide json json json json
  | Claim json json json json
  | Outcome json json json json

fun run_site :: "env \<Rightarrow> registry \<Rightarrow> availability \<Rightarrow> drivers \<Rightarrow> site_call \<Rightarrow> ('a site_db_scheme, unit) eff" where
  "run_site E reg ready drivers (Access c) = run_call E reg ready c"
| "run_site E reg ready drivers (Propose actor ref snap) = bindS (propose E (ledger_authority E reg ready) drivers actor ref snap) (\<lambda>_. ret ())"
| "run_site E reg ready drivers (Review v actor) = bindS (review E drivers v actor) (\<lambda>_. ret ())"
| "run_site E reg ready drivers (Tx_Challenge v action) = bindS (tx_challenge E v action) (\<lambda>_. ret ())"
| "run_site E reg ready drivers (Tx_Decide v g action nonce) = bindS (tx_decide E (ledger_authority E reg ready) drivers v g action nonce) (\<lambda>_. ret ())"
| "run_site E reg ready drivers (Claim actor v current driver) = bindS (claim E (ledger_authority E reg ready) drivers actor v current driver) (\<lambda>_. ret ())"
| "run_site E reg ready drivers (Outcome v eid outcome rec) = bindS (execution_outcome E drivers v eid outcome rec) (\<lambda>_. ret ())"

inductive site_step :: "env \<Rightarrow> registry \<Rightarrow> availability \<Rightarrow> drivers \<Rightarrow> 'a site_db_scheme \<Rightarrow> 'a site_db_scheme \<Rightarrow> bool"
  for E reg ready drivers where
  site_call: "run_site E reg ready drivers c s = (outcome, s') \<Longrightarrow> site_step E reg ready drivers s s'"

inductive_simps site_step_iff: "site_step E reg ready drivers s s'"

lemma site_access: "advances E s (snd (run_site E reg ready drivers c s))"
proof (cases c)
  case (Access x)
  then show ?thesis by (simp add: run_call_advances)
next
  case (Propose actor ref snap)
  then show ?thesis by (auto simp: snd_bind_ret propose_def propose_tx_def insert_tx_def Let_def intro!: adv_intros)
next
  case (Review v actor)
  then show ?thesis by (auto simp: snd_bind_ret review_def intro!: adv_intros)
next
  case (Tx_Challenge v action)
  then show ?thesis by (auto simp: snd_bind_ret tx_challenge_def tx_challenge_body_def insert_tx_challenge_def intro!: adv_intros)
next
  case (Tx_Decide v g action nonce)
  then show ?thesis by (auto simp: snd_bind_ret tx_decide_def tx_decide_body_def Let_def intro!: adv_intros)
next
  case (Claim actor v current driver)
  then show ?thesis by (auto simp: snd_bind_ret claim_def claim_body_def claim_tail_def mark_executing_def Let_def intro!: adv_intros)
next
  case (Outcome v eid outcome rec)
  then show ?thesis by (auto simp: snd_bind_ret execution_outcome_def outcome_body_def intro!: adv_intros)
qed

lemma tx_of_spec: "wp m Q (\<lambda>_ s'. tx_adv E s s') s \<Longrightarrow> (\<And>x s'. Q x s' \<Longrightarrow> tx_adv E s s') \<Longrightarrow> tx_adv E s (snd (m s))"
  unfolding wp_snd [symmetric] by (erule wp_mono) auto

lemma site_txns: "tx_adv E s (snd (run_site E reg ready drivers c s))"
proof (cases "tx_inv E s")
  case True
  show ?thesis
  proof (cases c)
    case (Access x)
    then show ?thesis by (simp add: same_tables_adv more_same_tables more_run_call)
  next
    case (Propose actor ref snap)
    then show ?thesis
      by (simp add: snd_bind_ret) (rule tx_of_spec [OF site.propose_spec [OF True]], simp add: site.proposed_def)
  next
    case (Review v actor)
    then show ?thesis
      by (simp add: snd_bind_ret) (rule tx_of_spec [OF site.review_spec [OF True]], auto simp: tx_settled_adv)
  next
    case (Tx_Challenge v action)
    then show ?thesis
      by (simp add: snd_bind_ret) (rule tx_of_spec [OF site.tx_challenge_spec [OF True]], simp)
  next
    case (Tx_Decide v g action nonce)
    then show ?thesis
      by (simp add: snd_bind_ret) (rule tx_of_spec [OF site.tx_decide_spec [OF True]], auto simp: site.tx_decided_def)
  next
    case (Claim actor v current driver)
    then show ?thesis
      by (simp add: snd_bind_ret) (rule tx_of_spec [OF site.claim_spec [OF True]], auto simp: site.claim_ok_def)
  next
    case (Outcome v eid outcome rec)
    then show ?thesis
      by (simp add: snd_bind_ret) (rule tx_of_spec [OF site.execution_outcome_spec [OF True]], auto simp: site.outcome_ok_def)
  qed
qed (simp add: tx_adv_def)

definition site_inv :: "env \<Rightarrow> 'a site_db_scheme \<Rightarrow> bool" where
  "site_inv E s \<longleftrightarrow> ledger_inv E s \<and> tx_inv E s"

lemma site_run:
  assumes "(site_step E reg ready drivers)\<^sup>*\<^sup>* s s'"
  shows "advances E s s' \<and> tx_adv E s s'"
  using assms
proof (induction rule: rtranclp_induct)
  case base
  then show ?case by (simp add: same_tables_adv)
next
  case (step t u)
  then have "advances E t u" "tx_adv E t u"
    unfolding site_step_iff using site_access site_txns by (metis snd_conv)+
  with step.IH show ?case using advances_trans tx_adv_trans by blast
qed


text \<open>The status of each transaction moves along its graph in every run of the service.\<close>

definition tx_view :: "'a site_db_scheme \<Rightarrow> string \<Rightarrow> string option" where
  "tx_view s k = map_option tx_status (find_by tx_id (txns s) k)"

definition sound_site_step :: "env \<Rightarrow> registry \<Rightarrow> availability \<Rightarrow> drivers \<Rightarrow> 'a site_db_scheme \<Rightarrow> 'a site_db_scheme \<Rightarrow> bool" where
  "sound_site_step E reg ready drivers s s' \<longleftrightarrow> tx_inv E s \<and> site_step E reg ready drivers s s'"

lemma site_step_tx: "site_step E reg ready drivers s s' \<Longrightarrow> tx_adv E s s'"
  unfolding site_step_iff using site_txns by (metis snd_conv)

interpretation txs: status_machine tx_view "sound_site_step E reg ready drivers" tx_edge
proof
  fix s s' :: "'a site_db_scheme" and k a
  assume "sound_site_step E reg ready drivers s s'" "tx_view s k = Some a"
  then show "\<exists>b. tx_view s' k = Some b \<and> tx_edge\<^sup>*\<^sup>* a b"
    using site_step_tx [of E reg ready drivers s s'] unfolding sound_site_step_def tx_adv_def table_moves_def tx_moves_def tx_view_def by fastforce
qed

lemma sound_site_run: "(site_step E reg ready drivers)\<^sup>*\<^sup>* s s' \<Longrightarrow> tx_inv E s \<Longrightarrow> (sound_site_step E reg ready drivers)\<^sup>*\<^sup>* s s'"
proof (induction rule: rtranclp_induct)
  case (step t u)
  then have "tx_inv E t" using site_run tx_adv_inv by blast
  with step show ?case by (meson rtranclp.rtrancl_into_rtrancl sound_site_step_def)
qed simp

lemma site_moves:
  assumes "(site_step E reg ready drivers)\<^sup>*\<^sup>* s s'" and "tx_inv E s" and "find_by tx_id (txns s) k = Some r"
  shows "\<exists>r'. find_by tx_id (txns s') k = Some r' \<and> tx_moves r r'"
  using site_run [OF assms(1)] assms(2,3) unfolding tx_adv_def table_moves_def by blast

text \<open>An executing or later transaction never becomes approved again.\<close>

lemma started_closed: "tx_edge\<^sup>*\<^sup>* a b \<Longrightarrow> started a \<Longrightarrow> started b"
  by (induction rule: rtranclp_induct) (auto simp: tx_edge_def started_def)

section \<open>A concrete service\<close>

definition demo_snapshot :: dict where
  "demo_snapshot = [(''account'', JStr ''hotels.com''), (''kind'', JStr ''booking''), (''payee'', JStr ''Inn''), (''amount_minor'', JInt 500),
     (''currency'', JStr ''DKK''), (''items'', JArr [JObj [(''description'', JStr ''Room''), (''quantity'', JInt 2), (''unit_amount_minor'', JInt 250)]]),
     (''terms'', JArr [JStr ''None'']), (''expires_at'', JInt 5000)]"

definition demo_tx :: "string \<Rightarrow> txn_row" where
  "demo_tx st = \<lparr>tx_id = ''00000000-0000-4000-8000-000000000002'', tx_actor = ''openclaw'', grant_id = ''00000000-0000-4000-8000-000000000001'',
     tx_account = ''hotels.com'', tx_kind = ''booking'', snapshot = demo_snapshot, tx_digest = replicate 64 CHR ''a'', tx_created = 950,
     tx_expires = 1500, tx_last_seen = 960, tx_status = st, tx_approved = Some 960, qualified_at_approval = 1,
     qualified_set_digest = Some (replicate 64 CHR ''a''),
     execution_id = (if st = ''approved'' then None else Some ''00000000-0000-4000-8000-000000000001''), claimed = None, driver_id = None,
     outcome_at = None, receipt = None\<rparr>"

definition demo_site :: "string \<Rightarrow> site_db" where
  "demo_site st = \<lparr>ticks = 0, ids = 0, tokens = 0, requests = [demo_row ''active''], challenges = [], events = [],
     txns = [demo_tx st], tx_challenges = [], tx_events = []\<rparr>"

abbreviation demo_drivers :: drivers where
  "demo_drivers \<equiv> [(''inn'', ''hotels.com'', ''booking'')]"

lemma demo_site_inv: "st \<in> {''approved'', ''executing''} \<Longrightarrow> site_inv demo_env (demo_site st)"
  by (auto simp: site_inv_def ledger_inv_def tx_inv_def demo_site_def demo_row_def demo_tx_def pending_of_def good_row_def good_tx_def
      demo_env_def digest_def table_ok_def exclusive_def at_most_one_def started_def demo_snapshot_def get_def get_or_def has_def line_total_def)

lemma site_call_run: "(site_step E reg ready drivers)\<^sup>*\<^sup>* s (snd (run_site E reg ready drivers c s))"
  by (metis site_call r_into_rtranclp surjective_pairing)

section \<open>Properties\<close>

text \<open>
  C12: every run of the service, with calls to both ledgers interleaved in any order, keeps both
  invariants; in particular an account never has two transactions that are executing or
  unresolved, and an execution reference belongs to one transaction.
\<close>

theorem site_invariant:
  assumes "site_inv E s" and "(site_step E reg ready drivers)\<^sup>*\<^sup>* s s'"
  shows "site_inv E s' \<and> (\<forall>q \<in> set (txns s'). \<forall>r \<in> set (txns s').
      (unresolved q \<and> unresolved r \<and> tx_account q = tx_account r \<or> execution_id q \<noteq> None \<and> execution_id q = execution_id r) \<longrightarrow> q = r)"
proof -
  have inv: "site_inv E s'"
    using site_run [OF assms(2)] assms(1) advances_inv tx_adv_inv by (auto simp: site_inv_def)
  have same: "q = r" if "q \<in> set (txns s')" "r \<in> set (txns s')" "tx_id q = tx_id r" for q r
    using inv that table_ok_mem unfolding site_inv_def tx_inv_def by (metis option.inject)
  have ex: "exclusive (txns s')" using inv by (simp add: site_inv_def tx_inv_def)
  have "tx_id q = tx_id r" if "q \<in> set (txns s')" "r \<in> set (txns s')" "both_unresolved q r \<or> same_execution q r" for q r
    using that ex [unfolded exclusive_def at_most_one_def] by fast
  then have "\<forall>q \<in> set (txns s'). \<forall>r \<in> set (txns s'). both_unresolved q r \<or> same_execution q r \<longrightarrow> q = r"
    using same by blast
  with inv show ?thesis unfolding both_unresolved_def same_execution_def by (rule conjI)
qed

theorem site_invariant_witness:
  "let c = Claim (JStr ''openclaw'') (JStr ''00000000-0000-4000-8000-000000000002'') (JObj demo_snapshot) (JStr ''inn'') in
     fst (run_site demo_env demo_registry None demo_drivers c (demo_site ''approved'')) = Inr ()
     \<and> site_inv demo_env (snd (run_site demo_env demo_registry None demo_drivers c (demo_site ''approved'')))"
  unfolding Let_def
proof
  show "fst (run_site demo_env demo_registry None demo_drivers (Claim (JStr ''openclaw'') (JStr ''00000000-0000-4000-8000-000000000002'') (JObj demo_snapshot) (JStr ''inn''))
      (demo_site ''approved'')) = Inr ()"
    by code_simp
qed (rule site_invariant [OF demo_site_inv site_call_run, THEN conjunct1], simp)

text \<open>
  An active grant the callback answers with is the ledger's own row: the settled row differs from
  the stored one in its last reading alone, so actor, account, status and window are the stored ones.
\<close>

lemma active_grant_stored:
  assumes "settled_row p r" and "live w r" and "req_status r = ''active''"
  shows "req_status p = ''active'' \<and> req_id p = req_id r \<and> req_actor p = req_actor r \<and> req_account p = req_account r
    \<and> (\<exists>ap ex. approved p = Some ap \<and> expires p = Some ex \<and> expires r = Some ex \<and> ap \<le> w \<and> w < ex)"
proof -
  have "req_status p = ''active''" using settled_row_status [OF assms(1)] assms(3) by simp
  with settled_row_same [OF assms(1)] assms(2,3) show ?thesis
    by (auto simp: live_def same_request_def split: option.splits)
qed

text \<open>
  C10: when \<open>claim\<close> returns, the transaction was approved, belongs to the calling actor, is for
  exactly the snapshot presented, its driver is qualified and the set of qualified drivers is the
  one at approval, no other transaction of the account is unresolved, and the row the access
  ledger stores under the transaction's grant reference before the call is an active grant of this
  actor for this account whose window contains the clock's third reading, the one at which the
  callback looks; the transaction is executing, and the clock has not reached the deadline, which
  lies within the quote, the grant and 15 seconds.
\<close>

theorem claim_sound:
  assumes inv: "site_inv E s" and ok: "claim E (ledger_authority E reg ready) drivers trusted_actor v current driver s = (Inr d, s')"
  shows "\<exists>q r a c dr p t u w deadline ap ex. trusted_actor = JStr a \<and> v = JStr (tx_id q) \<and> find_by tx_id (txns s) (tx_id q) = Some q
    \<and> tx_status q = ''approved'' \<and> tx_actor q = a \<and> validate_snapshot E current = Inr c \<and> canonical E c = canonical E (snapshot q)
    \<and> driver = JStr dr \<and> (dr, tx_account q, tx_kind q) \<in> set drivers \<and> qualified_set_digest q = Some (driver_digest E drivers q)
    \<and> (\<forall>p \<in> set (txns s). tx_account p = tx_account q \<and> unresolved p \<longrightarrow> p = q)
    \<and> find_by req_id (requests s) (grant_id q) = Some p \<and> req_actor p = a \<and> req_account p = tx_account q
    \<and> req_status p = ''active'' \<and> good_row E p \<and> approved p = Some ap \<and> expires p = Some ex
    \<and> int_of_flt (clock E (Suc (Suc (ticks s)))) = Inr w \<and> ap \<le> w \<and> w < ex
    \<and> find_by tx_id (txns s') (tx_id q) = Some r \<and> tx_status r = ''executing''
    \<and> tx_time E (Suc (ticks s)) = Some t \<and> deadline \<le> t + 15 \<and> deadline \<le> tx_expires q \<and> deadline \<le> ex
    \<and> tx_time E (ticks s' - 1) = Some u \<and> u < deadline \<and> get d ''claim_deadline'' = JInt deadline"
proof -
  have txi: "tx_inv E s" and led: "ledger_inv E s" using inv by (simp_all add: site_inv_def)
  obtain a c where ac: "trusted_actor = JStr a" "validate_snapshot E current = Inr c" "site.claim_ok E reg ready drivers a v c driver d s s'"
    using wp_outcome [OF site.claim_spec [OF txi] ok] by blast
  then obtain q r g dr t u deadline where q: "v = JStr (tx_id q)" "find_by tx_id (txns s) (tx_id q) = Some q" "tx_status q = ''approved''"
      "tx_actor q = a" "canonical E c = canonical E (snapshot q)" "driver = JStr dr" "(dr, tx_account q, tx_kind q) \<in> set drivers"
      "qualified_set_digest q = Some (driver_digest E drivers q)" "\<forall>p \<in> set (txns s). tx_account p = tx_account q \<and> unresolved p \<longrightarrow> p = q"
      "find_by tx_id (txns s') (tx_id q) = Some r" "tx_status r = ''executing''" "tx_time E (Suc (ticks s)) = Some t"
      "deadline = min (tx_expires q) (min (int_of (get (dict_of g) ''expires_at'')) (t + 15))" "tx_time E (ticks s' - 1) = Some u" "u < deadline"
      "get d ''claim_deadline'' = JInt deadline" and "site.granted E reg ready a (grant_id q) (tx_account q) g s"
    unfolding site.claim_ok_def by blast
  then obtain s0 s1 w0 where g: "same_access s s0" "ticks s0 = Suc (Suc (ticks s))" "ledger_authority E reg ready a (grant_id q) s0 = (Inr g, s1)"
      "grant_ok g a (grant_id q) (tx_account q) w0"
    unfolding site.granted_def by blast
  have "ledger_inv E s0" using led g(1) advances_inv advances_tables by (fastforce simp: same_access_def)
  from ledger_authority_sound [OF this g(3)] obtain p gr w where gr: "find_by req_id (requests s0) (grant_id q) = Some p" "settled_row p gr"
      "req_actor gr = a" "public reg ready gr = Inr (dict_of g)" "int_of_flt (clock E (ticks s0)) = Inr w" "live w gr"
    by blast
  have gok: "get (dict_of g) ''account'' = JStr (tx_account q)" "get (dict_of g) ''status'' = JStr ''active''"
    using g(4) by (auto simp: grant_ok_def split: json.splits)
  note f = public_fields [OF gr(4)]
  have st: "req_status gr = ''active''" "req_account gr = tx_account q" using f gok by auto
  obtain ap ex where p: "req_status p = ''active''" "req_actor p = a" "req_account p = tx_account q" "approved p = Some ap" "expires p = Some ex"
      "expires gr = Some ex" "ap \<le> w" "w < ex"
    using active_grant_stored [OF gr(2,6) st(1)] gr(3) st(2) by auto
  have dl: "deadline \<le> t + 15" "deadline \<le> tx_expires q" "deadline \<le> ex" using q(13) f p(6) by (simp_all add: opt_int_def)
  have fp: "find_by req_id (requests s) (grant_id q) = Some p" "int_of_flt (clock E (Suc (Suc (ticks s)))) = Inr w"
    using gr(1,5) g(1,2) by (simp_all add: same_access_def)
  have "good_row E p" using led find_by_Some [OF fp(1)] by (simp add: ledger_inv_def)
  with ac(1,2) q(1-12,14-16) fp p(1-5,7,8) dl show ?thesis
    by - (rule exI [of _ q], rule exI [of _ r], rule exI [of _ a], rule exI [of _ c], rule exI [of _ dr], rule exI [of _ p], rule exI [of _ t],
      rule exI [of _ u], rule exI [of _ w], rule exI [of _ deadline], rule exI [of _ ap], rule exI [of _ ex], intro conjI; assumption)
qed

abbreviation demo_claim :: "(site_db, dict) eff" where
  "demo_claim \<equiv> claim demo_env (ledger_authority demo_env demo_registry None) demo_drivers (JStr ''openclaw'')
     (JStr ''00000000-0000-4000-8000-000000000002'') (JObj demo_snapshot) (JStr ''inn'')"

theorem claim_sound_witness:
  "\<exists>d s' r w. demo_claim (demo_site ''approved'') = (Inr d, s') \<and> find_by tx_id (txns s') ''00000000-0000-4000-8000-000000000002'' = Some r
     \<and> tx_status r = ''executing'' \<and> int_of_flt (clock demo_env 2) = Inr w"
proof -
  have inv: "site_inv demo_env (demo_site ''approved'')" by (rule demo_site_inv) simp
  have "\<not> isl (fst (demo_claim (demo_site ''approved'')))" by code_simp
  then obtain d s' where *: "demo_claim (demo_site ''approved'') = (Inr d, s')"
    by (metis prod.collapse sum.collapse(2))
  from claim_sound [OF inv *] obtain q :: txn_row and r w where "JStr ''00000000-0000-4000-8000-000000000002'' = JStr (tx_id q)" "find_by tx_id (txns s') (tx_id q) = Some r"
      "tx_status r = ''executing''" "int_of_flt (clock demo_env (Suc (Suc (ticks (demo_site ''approved''))))) = Inr w"
    by (elim exE conjE) (rule that; assumption)
  with * show ?thesis by (auto simp: demo_site_def numeral_2_eq_2)
qed

text \<open>
  C11: an approval is spent by one claim. After a claim has returned, no later claim of the same
  transaction returns, whatever calls lie between and whoever makes it.
\<close>

theorem claim_once:
  assumes inv: "site_inv E s" and one: "claim E (ledger_authority E reg ready) drivers trusted_actor v current driver s = (Inr d, s1)"
    and run: "(site_step E reg ready drivers)\<^sup>*\<^sup>* s1 s2"
  shows "isl (fst (claim E (ledger_authority E reg ready) drivers trusted_actor' v current' driver' s2))"
proof (rule ccontr)
  assume "\<not> ?thesis"
  then obtain d' s3 where two: "claim E (ledger_authority E reg ready) drivers trusted_actor' v current' driver' s2 = (Inr d', s3)"
    by (metis prod.collapse sum.collapse(2))
  have inv1: "site_inv E s1"
    using site_run [OF site_call_run [where E = E and reg = reg and ready = ready and drivers = drivers and s = s and c = "Claim trusted_actor v current driver"]]
      inv one advances_inv tx_adv_inv
    by (auto simp: site_inv_def snd_bind_ret)
  have inv2: "tx_inv E s2" using inv1 site_run [OF run] tx_adv_inv by (auto simp: site_inv_def)
  have txi: "tx_inv E s" "tx_inv E s1" using inv inv1 by (simp_all add: site_inv_def)
  obtain q :: txn_row and r where q: "v = JStr (tx_id q)" "find_by tx_id (txns s1) (tx_id q) = Some r" "tx_status r = ''executing''"
    using wp_outcome [OF site.claim_spec [OF txi(1)] one] by (elim exE conjE site.claim_okE) (rule that; assumption)
  obtain r' where r': "find_by tx_id (txns s2) (tx_id q) = Some r'" "tx_moves r r'"
    using site_moves [OF run txi(2) q(2)] by blast
  obtain p where p: "v = JStr (tx_id p)" "find_by tx_id (txns s2) (tx_id p) = Some p" "tx_status p = ''approved''"
    using wp_outcome [OF site.claim_spec [OF inv2] two] by (elim exE conjE site.claim_okE) (rule that; assumption)
  have "p = r'" using p(1,2) q(1) r'(1) by simp
  moreover have "started (tx_status r')"
    by (rule started_closed [of "tx_status r"]) (use r'(2) q(3) in \<open>simp_all add: tx_moves_def started_def\<close>)
  ultimately show False using p(3) by (simp add: started_def)
qed

theorem claim_once_witness:
  "\<exists>d s'. demo_claim (demo_site ''approved'') = (Inr d, s') \<and> isl (fst (demo_claim s'))"
proof -
  have inv: "site_inv demo_env (demo_site ''approved'')" by (rule demo_site_inv) simp
  have "\<not> isl (fst (demo_claim (demo_site ''approved'')))" by code_simp
  then obtain d s' where *: "demo_claim (demo_site ''approved'') = (Inr d, s')"
    by (metis prod.collapse sum.collapse(2))
  from * claim_once [OF inv * rtranclp.rtrancl_refl] show ?thesis by blast
qed

text \<open>
  C13: a recorded outcome is final: a later report for the same transaction that returns carries
  the same outcome and the same receipt.
\<close>

theorem outcome_final:
  assumes inv: "site_inv E s" and one: "execution_outcome E drivers v eid (JStr oc) rec s = (Inr d, s1)"
    and run: "(site_step E reg ready drivers)\<^sup>*\<^sup>* s1 s2" and two: "execution_outcome E drivers v eid' (JStr oc') rec' s2 = (Inr d', s3)"
  shows "oc' = oc \<and> str_opt rec' = str_opt rec"
proof -
  have txi: "tx_inv E s" using inv by (simp add: site_inv_def)
  obtain e where e: "site.outcome_ok E drivers v e oc (str_opt rec) d s s1"
    using wp_outcome [OF site.execution_outcome_spec [OF txi] one] by blast
  from e obtain q :: txn_row and r where q: "v = JStr (tx_id q)" "find_by tx_id (txns s1) (tx_id q) = Some r" "tx_status r = oc" "receipt r = str_opt rec" "outcome_at r \<noteq> None"
    by (rule site.outcome_okE) (rule that; assumption)
  have inv1: "tx_inv E s1" using e txi tx_adv_inv unfolding site.outcome_ok_def by blast
  have inv2: "tx_inv E s2" using inv1 site_run [OF run] tx_adv_inv by blast
  obtain r' where r': "find_by tx_id (txns s2) (tx_id q) = Some r'" "tx_moves r r'"
    using site_moves [OF run inv1 q(2)] by blast
  obtain e' where "site.outcome_ok E drivers v e' oc' (str_opt rec') d' s2 s3"
    using wp_outcome [OF site.execution_outcome_spec [OF inv2] two] by blast
  then obtain p where p: "v = JStr (tx_id p)" "find_by tx_id (txns s2) (tx_id p) = Some p" "outcome_at p \<noteq> None \<longrightarrow> tx_status p = oc' \<and> receipt p = str_opt rec'"
    by (rule site.outcome_okE) (rule that; assumption)
  have "p = r'" using p(1,2) q(1) r'(1) by simp
  with p(3) r'(2) q(3-5) show ?thesis by (auto simp: tx_moves_def)
qed

abbreviation demo_outcome :: "(site_db, dict) eff" where
  "demo_outcome \<equiv> execution_outcome demo_env demo_drivers (JStr ''00000000-0000-4000-8000-000000000002'')
     (JStr ''00000000-0000-4000-8000-000000000001'') (JStr ''succeeded'') (JStr ''R1'')"

theorem outcome_final_witness:
  "\<exists>d s' d' s''. demo_outcome (demo_site ''executing'') = (Inr d, s') \<and> demo_outcome s' = (Inr d', s'') \<and> str_opt (JStr ''R1'') = Some ''R1''"
proof -
  have inv: "site_inv demo_env (demo_site ''executing'')" by (rule demo_site_inv) simp
  have "\<not> isl (fst (demo_outcome (demo_site ''executing'')))" by code_simp
  then obtain d s' where *: "demo_outcome (demo_site ''executing'') = (Inr d, s')"
    by (metis prod.collapse sum.collapse(2))
  have "\<not> isl (fst (demo_outcome (snd (demo_outcome (demo_site ''executing'')))))" by code_simp
  then obtain d' s'' where **: "demo_outcome s' = (Inr d', s'')"
    unfolding * snd_conv by (metis prod.collapse sum.collapse(2))
  from outcome_final [OF inv * rtranclp.rtrancl_refl **] * ** show ?thesis by (auto simp: str_opt_def)
qed

text \<open>
  C14: over any run a transaction keeps its identity (actor, grant, account, kind, snapshot, digest
  and window) and its status only moves along the graph; a denied, revoked, expired, succeeded or
  failed transaction never changes status again.
\<close>

theorem transaction_lifecycle:
  assumes "site_inv E s" and "(site_step E reg ready drivers)\<^sup>*\<^sup>* s s'" and "find_by tx_id (txns s) k = Some r"
  shows "\<exists>r'. find_by tx_id (txns s') k = Some r' \<and> same_txn r r' \<and> tx_edge\<^sup>*\<^sup>* (tx_status r) (tx_status r')
    \<and> (tx_status r \<in> {''denied'', ''revoked'', ''expired'', ''succeeded'', ''failed''} \<longrightarrow> tx_status r' = tx_status r)"
proof -
  have inv: "tx_inv E s" using assms(1) by (simp add: site_inv_def)
  obtain r' where r': "find_by tx_id (txns s') k = Some r'" "tx_moves r r'" using site_moves [OF assms(2) inv assms(3)] by blast
  have "tx_status r' = tx_status r" if "tx_status r \<in> {''denied'', ''revoked'', ''expired'', ''succeeded'', ''failed''}"
  proof -
    have "tx_view s' k = Some (tx_status r)"
      by (rule txs.terminal_stable [OF sound_site_run [OF assms(2) inv]]) (use assms(3) that in \<open>auto simp: tx_view_def tx_edge_def\<close>)
    with r'(1) show ?thesis by (simp add: tx_view_def)
  qed
  with r' show ?thesis by (auto simp: tx_moves_def)
qed

theorem transaction_lifecycle_witness:
  "\<exists>r'. find_by tx_id (txns (snd (run_site demo_env demo_registry None demo_drivers (Review (JStr ''x'') JNull) (demo_site ''approved''))))
     ''00000000-0000-4000-8000-000000000002'' = Some r' \<and> same_txn (demo_tx ''approved'') r'"
proof -
  have inv: "site_inv demo_env (demo_site ''approved'')" by (rule demo_site_inv) simp
  have "find_by tx_id (txns (demo_site ''approved'')) ''00000000-0000-4000-8000-000000000002'' = Some (demo_tx ''approved'')"
    by (simp add: demo_site_def demo_tx_def)
  from transaction_lifecycle [OF inv site_call_run this] show ?thesis by blast
qed

end
