(* ===== verification/Py_Values.thy ===== *)
theory Py_Values
  imports Py_Json Py_Regex
begin

text \<open>
  Operations that the configuration checks apply to decoded JSON of any type: subscripts,
  \<open>get\<close>, membership, ordering, \<open>repr\<close> and formatting. Where Python raises on a value of the wrong
  type the operation returns that exception. \<open>py_sorted\<close> is \<open>sorted(xs, key=...)\<close>, a stable sort
  whose comparisons may raise.
\<close>

section \<open>Subscripts and membership\<close>

text \<open>\<open>v.get(k, default)\<close>, \<open>v[k]\<close> and \<open>k in v\<close> for text \<open>k\<close>.\<close>

definition attr_get :: "json \<Rightarrow> string \<Rightarrow> json \<Rightarrow> json res" where
  "attr_get v k dflt = (case v of JObj d \<Rightarrow> Inr (get_or d k dflt) | _ \<Rightarrow> Inl AttributeError)"

definition subscript :: "json \<Rightarrow> string \<Rightarrow> json res" where
  "subscript v k = (case v of JObj d \<Rightarrow> item d k | _ \<Rightarrow> Inl TypeError)"

definition py_in :: "string \<Rightarrow> json \<Rightarrow> bool res" where
  "py_in s v = (case v of JArr xs \<Rightarrow> Inr (JStr s \<in> set xs) | JStr t \<Rightarrow> Inr (contains s t)
     | JObj d \<Rightarrow> Inr (has d s) | _ \<Rightarrow> Inl TypeError)"

text \<open>\<open>{**d, **e}\<close>.\<close>

fun merge :: "dict \<Rightarrow> dict \<Rightarrow> dict" where
  "merge d [] = d"
| "merge d ((k, v) # e) = merge (put d k v) e"

lemma map_of_merge: "distinct (map fst e) \<Longrightarrow> map_of (merge d e) k = (case map_of e k of None \<Rightarrow> map_of d k | Some v \<Rightarrow> Some v)"
proof (induction d e rule: merge.induct)
  case (2 d k' v e)
  then have "map_of e k' = None" by (simp add: map_of_eq_None_iff)
  with 2 show ?case by (auto split: option.splits)
qed simp

lemma get_merge: "distinct (map fst e) \<Longrightarrow> get (merge d e) k = (if has e k then get e k else get d k)"
  by (cases "map_of e k") (simp_all add: get_def get_or_def has_def map_of_merge)

lemma attr_get_JObj [simp]: "attr_get (JObj d) k w = Inr (get_or d k w)"
  by (simp add: attr_get_def)

lemma subscript_JObj [simp]: "subscript (JObj d) k = item d k"
  by (simp add: subscript_def)

lemma py_in_JArr [simp]: "py_in s (JArr xs) = Inr (JStr s \<in> set xs)"
  by (simp add: py_in_def)

lemma item_Inr_iff: "item d k = Inr v \<longleftrightarrow> map_of d k = Some v"
  by (simp add: item_def split: option.splits)

lemma has_map_of: "has d k \<longleftrightarrow> (\<exists>v. map_of d k = Some v)"
  by (simp add: has_def)

lemma map_of_get: "map_of d k = Some v \<Longrightarrow> get d k = v"
  by (simp add: get_def get_or_def)

section \<open>Ordering\<close>

text \<open>\<open>v < w\<close>: numbers, text and lists are ordered among themselves; anything else raises.\<close>

fun py_less :: "json \<Rightarrow> json \<Rightarrow> bool res"
  and py_less_list :: "json list \<Rightarrow> json list \<Rightarrow> bool res" where
  "py_less (JStr s) w = (case w of JStr t \<Rightarrow> Inr (lex_less s t) | _ \<Rightarrow> Inl TypeError)"
| "py_less (JArr xs) w = (case w of JArr ys \<Rightarrow> py_less_list xs ys | _ \<Rightarrow> Inl TypeError)"
| "py_less (JInt i) w = (case num_of w of Some y \<Rightarrow> Inr (flt_less (Fin (of_int i)) y) | None \<Rightarrow> Inl TypeError)"
| "py_less (JBool b) w = (case num_of w of Some y \<Rightarrow> Inr (flt_less (Fin (if b then 1 else 0)) y) | None \<Rightarrow> Inl TypeError)"
| "py_less (JFlt f) w = (case num_of w of Some y \<Rightarrow> Inr (flt_less f y) | None \<Rightarrow> Inl TypeError)"
| "py_less JNull w = Inl TypeError"
| "py_less (JObj d) w = Inl TypeError"
| "py_less_list xs [] = Inr False"
| "py_less_list [] (y # ys) = Inr True"
| "py_less_list (x # xs) (y # ys) = (if py_eq x y then py_less_list xs ys else py_less x y)"

text \<open>A stable insertion sort on decorated entries; each comparison is one Python comparison.\<close>

fun insert_sorted :: "('k \<Rightarrow> 'k \<Rightarrow> bool res) \<Rightarrow> 'k \<times> 'a \<Rightarrow> ('k \<times> 'a) list \<Rightarrow> ('k \<times> 'a) list res" where
  "insert_sorted lt e [] = Inr [e]"
| "insert_sorted lt e (f # fs) =
     bindr (lt (fst f) (fst e)) (\<lambda>b. if b then bindr (insert_sorted lt e fs) (\<lambda>gs. Inr (f # gs)) else Inr (e # f # fs))"

fun sort_entries :: "('k \<Rightarrow> 'k \<Rightarrow> bool res) \<Rightarrow> ('k \<times> 'a) list \<Rightarrow> ('k \<times> 'a) list res" where
  "sort_entries lt [] = Inr []"
| "sort_entries lt (e # es) = bindr (sort_entries lt es) (insert_sorted lt e)"

definition py_sorted :: "('k \<Rightarrow> 'k \<Rightarrow> bool res) \<Rightarrow> ('a \<Rightarrow> 'k res) \<Rightarrow> 'a list \<Rightarrow> 'a list res" where
  "py_sorted lt key xs =
     bindr (map_res (\<lambda>x. bindr (key x) (\<lambda>k. Inr (k, x))) xs) (\<lambda>es. bindr (sort_entries lt es) (\<lambda>fs. Inr (map snd fs)))"

text \<open>When no comparison raises, the result is the input reordered, ascending and stable.\<close>

lemma insert_sorted_set: "insert_sorted lt e fs = Inr gs \<Longrightarrow> set gs = insert e (set fs) \<and> length gs = Suc (length fs)"
  by (induction fs arbitrary: gs) (auto simp: bindr_Inr_iff split: if_splits)

lemma sort_entries_set: "sort_entries lt es = Inr fs \<Longrightarrow> set fs = set es \<and> length fs = length es"
proof (induction es arbitrary: fs)
  case (Cons e es)
  then obtain gs where "sort_entries lt es = Inr gs" "insert_sorted lt e gs = Inr fs" by (auto simp: bindr_Inr_iff)
  with Cons.IH insert_sorted_set show ?case by (metis length_Cons list.simps(15))
qed simp

lemma py_sorted_set:
  assumes "py_sorted lt key xs = Inr ys"
  shows "set ys = set xs \<and> length ys = length xs"
proof -
  from assms obtain es fs where es: "map_res (\<lambda>x. bindr (key x) (\<lambda>k. Inr (k, x))) xs = Inr es"
    and fs: "sort_entries lt es = Inr fs" "ys = map snd fs"
    by (auto simp: py_sorted_def bindr_Inr_iff)
  have len: "length es = length xs" and nth: "\<And>i. i < length xs \<Longrightarrow> snd (es ! i) = xs ! i"
    using es by (auto simp: map_res_Inr_iff bindr_Inr_iff dest!: spec) (metis snd_conv)
  have "map snd es = xs" by (rule nth_equalityI) (simp_all add: len nth)
  with sort_entries_set [OF fs(1)] fs(2) show ?thesis by (metis length_map set_map)
qed

lemma insert_sorted_total:
  assumes "\<And>a b. a \<in> fst ` insert e (set fs) \<Longrightarrow> b \<in> fst ` insert e (set fs) \<Longrightarrow> \<exists>c. lt a b = Inr c"
  shows "\<exists>gs. insert_sorted lt e fs = Inr gs"
  using assms
proof (induction fs)
  case (Cons f fs)
  have "\<exists>gs. insert_sorted lt e fs = Inr gs" by (rule Cons.IH) (use Cons.prems in auto)
  moreover have "\<exists>c. lt (fst f) (fst e) = Inr c" by (rule Cons.prems) auto
  ultimately show ?case by auto
qed simp

lemma sort_entries_total:
  assumes "\<And>a b. a \<in> fst ` set es \<Longrightarrow> b \<in> fst ` set es \<Longrightarrow> \<exists>c. lt a b = Inr c"
  shows "\<exists>fs. sort_entries lt es = Inr fs"
  using assms
proof (induction es)
  case (Cons e es)
  have "\<exists>fs. sort_entries lt es = Inr fs" by (rule Cons.IH) (use Cons.prems in auto)
  then obtain fs where fs: "sort_entries lt es = Inr fs" by blast
  have "\<exists>gs. insert_sorted lt e fs = Inr gs"
    by (rule insert_sorted_total) (use Cons.prems sort_entries_set [OF fs] in auto)
  with fs show ?case by simp
qed simp

lemma py_sorted_total:
  assumes "\<And>x. x \<in> set xs \<Longrightarrow> key x = Inr (f x)" and "\<And>x y. x \<in> set xs \<Longrightarrow> y \<in> set xs \<Longrightarrow> \<exists>c. lt (f x) (f y) = Inr c"
  shows "\<exists>ys. py_sorted lt key xs = Inr ys"
proof -
  have "map_res (\<lambda>x. bindr (key x) (\<lambda>k. Inr (k, x))) xs = Inr (map (\<lambda>x. (f x, x)) xs)"
    by (rule map_res_total) (simp add: assms(1))
  moreover have "\<exists>fs. sort_entries lt (map (\<lambda>x. (f x, x)) xs) = Inr fs"
    by (rule sort_entries_total) (use assms(2) in auto)
  ultimately show ?thesis by (auto simp: py_sorted_def)
qed

section \<open>Text forms\<close>

text \<open>\<open>repr\<close> of text: single quotes unless the text has one and no double quote.\<close>

definition repr_char :: "char \<Rightarrow> char \<Rightarrow> string" where
  "repr_char q c =
     (if c = q \<or> c = CHR 0x5C then [CHR 0x5C, c]
      else if code c = 10 then [CHR 0x5C, CHR ''n'']
      else if code c = 13 then [CHR 0x5C, CHR ''r'']
      else if code c = 9 then [CHR 0x5C, CHR ''t'']
      else if code c < 32 \<or> 127 \<le> code c \<and> code c \<le> 160 \<or> code c = 173 then [CHR 0x5C, CHR ''x''] @ drop 2 (hex4 (code c))
      else [c])"

definition py_repr :: "string \<Rightarrow> string" where
  "py_repr s = (let q = (if CHR 0x27 \<in> set s \<and> CHR 0x22 \<notin> set s then CHR 0x22 else CHR 0x27)
     in [q] @ concat (map (repr_char q) s) @ [q])"

text \<open>The text an f-string inserts for a value.\<close>

fun py_text :: "(flt \<Rightarrow> string) \<Rightarrow> json \<Rightarrow> string"
  and py_texts :: "(flt \<Rightarrow> string) \<Rightarrow> json list \<Rightarrow> string list"
  and py_items :: "(flt \<Rightarrow> string) \<Rightarrow> dict \<Rightarrow> string list" where
  "py_text fr JNull = ''None''"
| "py_text fr (JBool b) = (if b then ''True'' else ''False'')"
| "py_text fr (JInt i) = int_text i"
| "py_text fr (JFlt f) = (case f of Fin _ \<Rightarrow> fr f | PosInf \<Rightarrow> ''inf'' | NegInf \<Rightarrow> ''-inf'' | NaN \<Rightarrow> ''nan'')"
| "py_text fr (JStr s) = s"
| "py_text fr (JArr xs) = ''['' @ join '', '' (py_texts fr xs) @ '']''"
| "py_text fr (JObj d) = [CHR 0x7B] @ join '', '' (py_items fr d) @ [CHR 0x7D]"
| "py_texts fr [] = []"
| "py_texts fr (x # xs) = (case x of JStr s \<Rightarrow> py_repr s | _ \<Rightarrow> py_text fr x) # py_texts fr xs"
| "py_items fr [] = []"
| "py_items fr ((k, v) # d) = (py_repr k @ '': '' @ (case v of JStr s \<Rightarrow> py_repr s | _ \<Rightarrow> py_text fr v)) # py_items fr d"

text \<open>\<open>json.dumps(value, ensure_ascii=False)\<close> of text.\<close>

abbreviation quoted :: "string \<Rightarrow> string" where
  "quoted \<equiv> str_text False"

lemma hex4_no_newline:
  assumes "n < 65536"
  shows "CHR 0x0A \<notin> set (hex4 n)"
proof -
  let ?h = "\<lambda>d::nat. char_of (if d < 10 then 48 + d else 87 + d) :: char"
  have "?h d \<noteq> CHR 0x0A" if "d < 16" for d
  proof
    assume "?h d = CHR 0x0A"
    then have "(of_char (?h d) :: nat) = 10" by simp
    then show False using that by (simp add: of_char_of split: if_splits)
  qed
  then have "CHR 0x0A \<notin> ?h ` {..<16}" by fastforce
  moreover have "set (hex4 n) \<subseteq> ?h ` {..<16}" using assms unfolding hex4_def by auto
  ultimately show ?thesis by blast
qed

lemma esc_char_no_newline: "CHR 0x0A \<notin> set (esc_char ascii c)"
proof -
  have "code c < 256" unfolding code_def using nat_of_char_less_256 by blast
  then have "CHR 0x0A \<notin> set (hex4 (code c))" by (simp add: hex4_no_newline)
  then show ?thesis by (auto simp: esc_char_def code_def)
qed

end
