(* ===== verification/Model_Registry.thy ===== *)
theory Model_Registry
  imports Py_Values
begin

text \<open>
  \<open>scripts/model_registry.py\<close> and \<open>scripts/model_registry_media.py\<close>: the catalog of model
  artifacts and deployments and the capability routes over them. The two documents are \<open>dict\<close> values as \<open>load_json\<close> returns them; each check
  keeps the order of the source, so that the first violation decides the message.
\<close>

section \<open>Field checks\<close>

abbreviation LIFECYCLES :: "string list" where
  "LIFECYCLES \<equiv> [''resident'', ''hot-standby'', ''cold-standby'', ''operator-on-demand'', ''disabled'']"

abbreviation AVAILABILITY :: "string list" where
  "AVAILABILITY \<equiv> [''active'', ''intentionally-stopped'', ''candidate'', ''unavailable'']"

abbreviation STATES :: "string list" where
  "STATES \<equiv> [''active'', ''candidate'', ''disabled'']"

definition REVISION :: "string \<Rightarrow> bool" where
  "REVISION s = fullmatch (Alt (Rep (Cls is_hex) 40 40) (Seq (Lit ''sha256:'') (Rep (Cls is_hex) 64 64))) s"

definition SEMANTIC_ALIAS :: "string \<Rightarrow> bool" where
  "SEMANTIC_ALIAS s =
     (let low = Cls (\<lambda>c. is_lower c \<or> is_digit c)
      in fullmatch (Seq (Cls is_lower) (Seq (Many low 0) (Many (Seq (Lit ''-'') (Many low 1)) 0))) s)"

definition ENDPOINT_ENV :: "string \<Rightarrow> bool" where
  "ENDPOINT_ENV s =
     fullmatch (Seq (Cls is_upper) (Seq (Many (Cls (\<lambda>c. is_upper c \<or> is_digit c \<or> c = CHR ''_'')) 0) (Lit ''_BASE_URL''))) s"

definition obj :: "json \<Rightarrow> string \<Rightarrow> dict res" where
  "obj v name = (case v of JObj d \<Rightarrow> Inr d | _ \<Rightarrow> Inl (RegistryError (name @ '' must be an object'')))"

definition string_field :: "json \<Rightarrow> string \<Rightarrow> string res" where
  "string_field v name = (case v of JStr s \<Rightarrow> if s = [] then Inl (RegistryError (name @ '' must be a non-empty string'')) else Inr s
     | _ \<Rightarrow> Inl (RegistryError (name @ '' must be a non-empty string'')))"

definition nonempty_strs :: "json \<Rightarrow> bool" where
  "nonempty_strs v = (case v of JArr xs \<Rightarrow> list_all (\<lambda>x. is_str x \<and> x \<noteq> JStr []) xs | _ \<Rightarrow> False)"

definition string_list :: "json \<Rightarrow> string \<Rightarrow> bool \<Rightarrow> string list res" where
  "string_list v name allow_empty =
     bindr (require (nonempty_strs v) (RegistryError (name @ '' must be a list of non-empty strings''))) (\<lambda>_.
     bindr (require (distinct (list_of v)) (RegistryError (name @ '' must not contain duplicates''))) (\<lambda>_.
     bindr (require (list_of v \<noteq> [] \<or> allow_empty) (RegistryError (name @ '' must not be empty''))) (\<lambda>_.
     Inr (map str_of (list_of v)))))"

text \<open>\<open>isinstance(v, int) and not isinstance(v, bool) and v >= 1\<close>.\<close>

definition pos_int :: "json \<Rightarrow> bool" where
  "pos_int v \<longleftrightarrow> type_is_int v \<and> 1 \<le> int_of v"

text \<open>\<open>re.sub('[^a-z0-9]+', '-', name.lower()).strip('-')\<close>.\<close>

function dashes :: "string \<Rightarrow> string" where
  "dashes [] = []"
| "dashes (c # s) = (if is_lower c \<or> is_digit c then c # dashes s
     else CHR ''-'' # dashes (dropWhile (\<lambda>d. \<not> (is_lower d \<or> is_digit d)) s))"
  by pat_completeness auto
termination
  by (relation "measure length") (auto simp: le_imp_less_Suc length_dropWhile_le)

definition slug :: "string \<Rightarrow> string" where
  "slug s = strip_by (\<lambda>c. c = CHR ''-'') (dashes (py_lower s))"

fun is_registry_error :: "exn \<Rightarrow> bool" where
  "is_registry_error (RegistryError _) = True"
| "is_registry_error _ = False"

definition secret_key :: "string \<Rightarrow> bool" where
  "secret_key k = (let normalized = py_replace ''-'' ''_'' (py_lower k)
     in list_ex (\<lambda>part. contains part normalized) [''api_key'', ''password'', ''secret'', ''access_token''])"

fun reject_secrets :: "json \<Rightarrow> string \<Rightarrow> unit res"
  and reject_dict :: "dict \<Rightarrow> string \<Rightarrow> unit res"
  and reject_list :: "json list \<Rightarrow> int \<Rightarrow> string \<Rightarrow> unit res" where
  "reject_secrets (JObj d) name = reject_dict d name"
| "reject_secrets (JArr xs) name = reject_list xs 0 name"
| "reject_secrets _ name = Inr ()"
| "reject_dict [] name = Inr ()"
| "reject_dict ((k, v) # d) name =
     (if secret_key k then Inl (RegistryError (name @ '' contains secret-bearing field '' @ py_repr k))
      else bindr (reject_secrets v (name @ ''.'' @ k)) (\<lambda>_. reject_dict d name))"
| "reject_list [] n name = Inr ()"
| "reject_list (x # xs) n name =
     bindr (reject_secrets x (name @ ''['' @ int_text n @ '']'')) (\<lambda>_. reject_list xs (n + 1) name)"

section \<open>The catalog\<close>

definition check_runtime :: "string \<times> json \<Rightarrow> unit res" where
  "check_runtime e = (case e of (runtime_id, raw) \<Rightarrow>
     let name = ''runtime_profiles.'' @ runtime_id in
     bindr (obj raw name) (\<lambda>runtime.
     bindr (string_field (get runtime ''family'') (name @ ''.family'')) (\<lambda>_.
     bindr (string_list (get runtime ''supported_protocols'') (name @ ''.supported_protocols'') False) (\<lambda>_.
     bindr (string_list (get runtime ''capabilities'') (name @ ''.capabilities'') False) (\<lambda>_. Inr ())))))"

definition check_qualification :: "string \<Rightarrow> string \<times> json \<Rightarrow> unit res" where
  "check_qualification name e = (case e of (capability, status) \<Rightarrow>
     bindr (in_strs status [''qualified'', ''candidate'', ''failed'', ''not-tested'']) (\<lambda>ok.
     bindr (require ok (RegistryError (name @ ''.qualification.'' @ capability @ '' is invalid''))) (\<lambda>_.
     require (capability \<noteq> []) (RegistryError (name @ '' qualification names must be non-empty'')))))"

text \<open>The names of \<open>set(runtimes) - set(runtime_profiles)\<close> in order.\<close>

definition unknown_names :: "string list \<Rightarrow> dict \<Rightarrow> string list" where
  "unknown_names names known = map fst (sort_keys (map (\<lambda>n. (n, ())) (filter (\<lambda>n. \<not> has known n) names)))"

definition check_artifact :: "dict \<Rightarrow> string \<times> json \<Rightarrow> (string \<times> string list) res" where
  "check_artifact runtime_profiles e = (case e of (artifact_id, raw) \<Rightarrow>
     let name = ''artifacts.'' @ artifact_id in
     bindr (obj raw name) (\<lambda>artifact.
     bindr (string_field (get artifact ''upstream_model_id'') (name @ ''.upstream_model_id'')) (\<lambda>_.
     bindr (string_field (get artifact ''revision'') (name @ ''.revision'')) (\<lambda>revision.
     bindr (require (REVISION revision) (RegistryError (name @ ''.revision must be an immutable commit or sha256 digest''))) (\<lambda>_.
     bindr (require (get artifact ''tokenizer_revision'' = JStr revision \<and> get artifact ''code_revision'' = JStr revision)
       (RegistryError (name @ '' tokenizer/code revisions must be pinned explicitly''))) (\<lambda>_.
     bindr (string_field (get artifact ''license_id'') (name @ ''.license_id'')) (\<lambda>_.
     bindr (string_field (get artifact ''quantization'') (name @ ''.quantization'')) (\<lambda>_.
     bindr (require (pos_int (get artifact ''max_context_tokens'')) (RegistryError (name @ ''.max_context_tokens must be positive''))) (\<lambda>_.
     bindr (string_list (get artifact ''runtime_profiles'') (name @ ''.runtime_profiles'') False) (\<lambda>runtimes.
     bindr (string_list (get artifact ''capabilities'') (name @ ''.capabilities'') False) (\<lambda>capabilities.
     bindr (require (''embedding'' \<in> set capabilities \<longrightarrow> pos_int (get artifact ''embedding_dimensions''))
       (RegistryError (name @ ''.embedding_dimensions must be positive''))) (\<lambda>_.
     bindr (require (unknown_names runtimes runtime_profiles = [])
       (RegistryError (name @ '' references unknown runtime profile(s): '' @ join '', '' (unknown_names runtimes runtime_profiles)))) (\<lambda>_.
     bindr (obj (get artifact ''qualification'') (name @ ''.qualification'')) (\<lambda>qualification.
     bindr (for_each (check_qualification name) qualification) (\<lambda>_.
     Inr (artifact_id, capabilities))))))))))))))))"

definition check_deployment :: "dict \<Rightarrow> dict \<Rightarrow> string \<times> json \<Rightarrow> unit res" where
  "check_deployment runtime_profiles artifacts e = (case e of (deployment_id, raw) \<Rightarrow>
     let name = ''deployments.'' @ deployment_id in
     bindr (obj raw name) (\<lambda>deployment.
     bindr (string_field (get deployment ''artifact'') (name @ ''.artifact'')) (\<lambda>artifact_id.
     bindr (string_field (get deployment ''runtime_profile'') (name @ ''.runtime_profile'')) (\<lambda>runtime_id.
     bindr (require (has artifacts artifact_id) (RegistryError (name @ '' references unknown artifact '' @ artifact_id))) (\<lambda>_.
     let artifact = dict_of (get artifacts artifact_id) in
     bindr (if has runtime_profiles runtime_id then bindr (item artifact ''runtime_profiles'') (py_in runtime_id) else Inr False) (\<lambda>ok.
     bindr (require ok (RegistryError (name @ '' selects an unsupported runtime profile''))) (\<lambda>_.
     bindr (string_field (get deployment ''host_role'') (name @ ''.host_role'')) (\<lambda>_.
     bindr (in_strs (get deployment ''network_scope'') [''private_local'', ''cloud'']) (\<lambda>ok.
     bindr (require ok (RegistryError (name @ ''.network_scope is invalid''))) (\<lambda>_.
     bindr (string_field (get deployment ''endpoint_env'') (name @ ''.endpoint_env'')) (\<lambda>endpoint_env.
     bindr (require (ENDPOINT_ENV endpoint_env) (RegistryError (name @ ''.endpoint_env must reference a named environment variable''))) (\<lambda>_.
     bindr (string_field (get deployment ''served_model_name'') (name @ ''.served_model_name'')) (\<lambda>_.
     bindr (require (pos_int (get deployment ''context_tokens'')) (RegistryError (name @ ''.context_tokens must be positive''))) (\<lambda>_.
     bindr (item artifact ''max_context_tokens'') (\<lambda>limit.
     bindr (require (int_of (get deployment ''context_tokens'') \<le> int_of limit) (RegistryError (name @ '' exceeds its artifact context limit''))) (\<lambda>_.
     bindr (require (pos_int (get deployment ''concurrency'')) (RegistryError (name @ ''.concurrency must be positive''))) (\<lambda>_.
     bindr (in_strs (get deployment ''lifecycle'') LIFECYCLES) (\<lambda>ok.
     bindr (require ok (RegistryError (name @ ''.lifecycle is invalid''))) (\<lambda>_.
     bindr (in_strs (get deployment ''availability'') AVAILABILITY) (\<lambda>ok.
     bindr (require ok (RegistryError (name @ ''.availability is invalid''))) (\<lambda>_.
     require (pos_int (get deployment ''priority'')) (RegistryError (name @ ''.priority must be positive'')))))))))))))))))))))))"

section \<open>The routes\<close>

definition check_timeout :: "string \<times> json \<Rightarrow> unit res" where
  "check_timeout e = (case e of (timeout_id, raw) \<Rightarrow>
     bindr (obj raw (''timeout_profiles.'' @ timeout_id)) (\<lambda>timeout.
     require (pos_int (get timeout ''seconds'')) (RegistryError (''timeout_profiles.'' @ timeout_id @ ''.seconds must be a positive integer''))))"

definition identities :: "string list \<Rightarrow> dict \<Rightarrow> string list" where
  "identities names items = map slug (map fst items @ concat (map (\<lambda>f. map (\<lambda>e. str_of (get (dict_of (snd e)) f)) items) names))"

text \<open>One deployment of a text route, after the route's own fields have been checked.\<close>

definition check_route_deployment ::
    "dict \<Rightarrow> dict \<Rightarrow> dict \<Rightarrow> (string \<times> string list) list \<Rightarrow> string \<Rightarrow> dict \<Rightarrow> string list \<Rightarrow> string list \<Rightarrow> string \<Rightarrow> unit res" where
  "check_route_deployment runtime_profiles artifacts deployments capability_sets alias route required protocols deployment_id =
     bindr (require (has deployments deployment_id) (RegistryError (''routes.'' @ alias @ '' references unknown deployment '' @ deployment_id))) (\<lambda>_.
     let deployment = dict_of (get deployments deployment_id);
         active = (get route ''state'' = JStr ''active'') in
     bindr (require (\<not> (get route ''privacy'' = JStr ''local_only'' \<and> get deployment ''network_scope'' \<noteq> JStr ''private_local''))
       (RegistryError (''local-only route '' @ alias @ '' references a non-local deployment''))) (\<lambda>_.
     bindr (require (\<not> (active \<and> get deployment ''availability'' \<noteq> JStr ''active''))
       (RegistryError (''active route '' @ alias @ '' references a deployment that is not active''))) (\<lambda>_.
     bindr (if active then in_strs (get deployment ''lifecycle'') [''resident'', ''hot-standby''] else Inr True) (\<lambda>ok.
     bindr (require ok (RegistryError (''active route '' @ alias @ '' references a non-resident deployment''))) (\<lambda>_.
     let artifact_id = str_of (get deployment ''artifact'');
         artifact = dict_of (get artifacts artifact_id);
         runtime = dict_of (get runtime_profiles (str_of (get deployment ''runtime_profile''))) in
     bindr (require (set required \<subseteq> (case map_of capability_sets artifact_id of None \<Rightarrow> {} | Some cs \<Rightarrow> set cs))
       (RegistryError (''deployment '' @ deployment_id @ '' lacks a capability required by '' @ alias))) (\<lambda>_.
     bindr (require (JStr ` set required \<subseteq> set (list_of (get runtime ''capabilities'')))
       (RegistryError (''runtime for '' @ deployment_id @ '' lacks a capability required by '' @ alias))) (\<lambda>_.
     bindr (require (JStr ` set protocols \<subseteq> set (list_of (get runtime ''supported_protocols'')))
       (RegistryError (''runtime for '' @ deployment_id @ '' lacks a protocol required by '' @ alias))) (\<lambda>_.
     bindr (require (int_of (get route ''minimum_context_tokens'') \<le> int_of (get deployment ''context_tokens''))
       (RegistryError (''deployment '' @ deployment_id @ '' does not meet '' @ alias @ [CHR 0x27] @ ''s context requirement''))) (\<lambda>_.
     require (\<not> (active \<and> get (dict_of (get artifact ''qualification'')) (str_of (get_or route ''qualification_capability'' (JStr alias))) \<noteq> JStr ''qualified''))
       (RegistryError (''active route '' @ alias @ '' includes an artifact not qualified for that capability'')))))))))))"

definition check_route :: "dict \<Rightarrow> dict \<Rightarrow> dict \<Rightarrow> (string \<times> string list) list \<Rightarrow> dict \<Rightarrow> string \<times> json \<Rightarrow> unit res" where
  "check_route runtime_profiles artifacts deployments capability_sets timeouts e = (case e of (alias, raw) \<Rightarrow>
     let name = ''routes.'' @ alias in
     bindr (obj raw name) (\<lambda>route.
     bindr (require (SEMANTIC_ALIAS alias) (RegistryError (''route alias '' @ py_repr alias @ '' must be a lowercase semantic alias''))) (\<lambda>_.
     bindr (require (alias \<notin> set (identities [''upstream_model_id''] artifacts))
       (RegistryError (''route alias '' @ py_repr alias @ '' is a checkpoint identity; consumers must use semantic aliases''))) (\<lambda>_.
     bindr (require (alias \<noteq> ''auto'') (RegistryError ''auto is not a supported capability; clients must choose an explicit alias'')) (\<lambda>_.
     let state = get route ''state'' in
     bindr (in_strs state STATES) (\<lambda>ok.
     bindr (require ok (RegistryError (name @ ''.state is invalid''))) (\<lambda>_.
     bindr (require (get route ''privacy'' = JStr ''local_only'') (RegistryError (name @ ''.privacy must be local_only''))) (\<lambda>_.
     bindr (string_list (get route ''required_capabilities'') (name @ ''.required_capabilities'') False) (\<lambda>required.
     bindr (string_list (get route ''required_protocols'') (name @ ''.required_protocols'') False) (\<lambda>protocols.
     bindr (require (pos_int (get route ''minimum_context_tokens'')) (RegistryError (name @ ''.minimum_context_tokens must be positive''))) (\<lambda>_.
     bindr (string_field (get route ''timeout_profile'') (name @ ''.timeout_profile'')) (\<lambda>timeout_id.
     let capability = get_or route ''qualification_capability'' (JStr alias) in
     bindr (require (is_str capability \<and> capability \<noteq> JStr []) (RegistryError (name @ ''.qualification_capability must be non-empty''))) (\<lambda>_.
     bindr (require (has timeouts timeout_id) (RegistryError (name @ '' references unknown timeout profile '' @ timeout_id))) (\<lambda>_.
     bindr (string_list (get route ''deployments'') (name @ ''.deployments'') (state = JStr ''disabled'')) (\<lambda>deployment_ids.
     bindr (require (\<not> (state = JStr ''disabled'' \<and> deployment_ids \<noteq> [])) (RegistryError (''disabled route '' @ alias @ '' must not contain deployments''))) (\<lambda>_.
     bindr (require (\<not> (state \<noteq> JStr ''disabled'' \<and> deployment_ids = [])) (RegistryError (''enabled route '' @ alias @ '' must contain at least one deployment''))) (\<lambda>_.
     bindr (if state = JStr ''active'' then in_strs (get route ''kind'') [''candidate'', ''canary''] else Inr False) (\<lambda>bad.
     bindr (require (\<not> bad) (RegistryError (''candidate route '' @ alias @ '' cannot be active''))) (\<lambda>_.
     for_each (check_route_deployment runtime_profiles artifacts deployments capability_sets alias route required protocols) deployment_ids)))))))))))))))))))"

section \<open>Audio and video\<close>

text \<open>The checks that transcription, speech and video deployments share, in the source's order.\<close>

definition check_revision :: "(string \<Rightarrow> exn) \<Rightarrow> dict \<Rightarrow> string \<Rightarrow> string \<Rightarrow> string res" where
  "check_revision err d name field =
     bindr (string_field (get d field) (name @ ''.'' @ field)) (\<lambda>revision.
     bindr (require (REVISION revision) (err (name @ ''.'' @ field @ '' must be an immutable commit or sha256 digest''))) (\<lambda>_. Inr revision))"

definition check_endpoint :: "dict \<Rightarrow> string \<Rightarrow> unit res" where
  "check_endpoint d name =
     bindr (string_field (get d ''endpoint_env'') (name @ ''.endpoint_env'')) (\<lambda>endpoint.
     require (ENDPOINT_ENV endpoint) (RegistryError (name @ ''.endpoint_env must reference a named environment variable'')))"

definition check_strings :: "dict \<Rightarrow> string \<Rightarrow> string list \<Rightarrow> unit res" where
  "check_strings d name names = for_each (\<lambda>f. bindr (string_field (get d f) (name @ ''.'' @ f)) (\<lambda>_. Inr ())) names"

definition check_positive :: "dict \<Rightarrow> string \<Rightarrow> string list \<Rightarrow> unit res" where
  "check_positive d name names = for_each (\<lambda>f. require (pos_int (get d f)) (RegistryError (name @ ''.'' @ f @ '' must be positive''))) names"

definition check_standing :: "dict \<Rightarrow> string \<Rightarrow> unit res" where
  "check_standing d name =
     bindr (in_strs (get d ''lifecycle'') LIFECYCLES) (\<lambda>a.
     bindr (if a then in_strs (get d ''availability'') AVAILABILITY else Inr False) (\<lambda>ok.
     require ok (RegistryError (name @ '' lifecycle/availability is invalid''))))"

text \<open>\<open>protocol not in runtime.get('supported_protocols', []) or capability not in ...\<close>.\<close>

definition runtime_offers :: "dict \<Rightarrow> string \<Rightarrow> string \<Rightarrow> string \<Rightarrow> bool res" where
  "runtime_offers runtimes runtime_id protocol capability =
     (let runtime = dict_of (get_or runtimes runtime_id (JObj [])) in
      bindr (py_in protocol (get_or runtime ''supported_protocols'' (JArr []))) (\<lambda>p.
      if p then py_in capability (get_or runtime ''capabilities'' (JArr [])) else Inr False))"

definition check_transcription_deployment :: "dict \<Rightarrow> string \<times> json \<Rightarrow> unit res" where
  "check_transcription_deployment runtimes e = (case e of (deployment_id, raw) \<Rightarrow>
     let name = ''transcription_deployments.'' @ deployment_id in
     bindr (obj raw name) (\<lambda>deployment.
     bindr (require (\<not> has deployment ''context_tokens'' \<and> \<not> has deployment ''max_context_tokens'')
       (RegistryError (name @ '' must not declare a text context requirement''))) (\<lambda>_.
     bindr (check_strings deployment name [''upstream_model_id'']) (\<lambda>_.
     bindr (check_revision RegistryError deployment name ''revision'') (\<lambda>revision.
     bindr (require (get deployment ''tokenizer_revision'' = JStr revision \<and> get deployment ''code_revision'' = JStr revision)
       (RegistryError (name @ '' tokenizer/code revisions must be pinned explicitly''))) (\<lambda>_.
     bindr (check_strings deployment name [''license_id'', ''host_role'', ''served_model_name'']) (\<lambda>_.
     bindr (check_endpoint deployment name) (\<lambda>_.
     bindr (in_strs (get deployment ''network_scope'') [''private_local'', ''cloud'']) (\<lambda>ok.
     bindr (require ok (RegistryError (name @ ''.network_scope is invalid''))) (\<lambda>_.
     bindr (string_field (get deployment ''runtime_profile'') (name @ ''.runtime_profile'')) (\<lambda>runtime_id.
     bindr (runtime_offers runtimes runtime_id ''audio_transcriptions'' ''audio_transcription'') (\<lambda>ok.
     bindr (require ok (RegistryError (''runtime for '' @ deployment_id @ '' lacks the transcription protocol/capability''))) (\<lambda>_.
     bindr (check_positive deployment name [''concurrency'', ''priority'']) (\<lambda>_.
     check_standing deployment name))))))))))))))"

text \<open>What all media routes ask of their alias, and one deployment of an audio route.\<close>

definition check_alias :: "string \<Rightarrow> string \<Rightarrow> string list \<Rightarrow> unit res" where
  "check_alias name alias taken =
     require (SEMANTIC_ALIAS alias \<and> alias \<noteq> ''auto'' \<and> alias \<notin> set taken)
       (RegistryError (name @ '' must use a lowercase semantic alias, not a checkpoint identity''))"

definition check_audio_choice :: "dict \<Rightarrow> bool \<Rightarrow> string \<Rightarrow> string \<Rightarrow> bool \<Rightarrow> string \<Rightarrow> string \<Rightarrow> unit res" where
  "check_audio_choice deployments scoped name alias active kind deployment_id =
     bindr (require (has deployments deployment_id) (RegistryError (name @ '' references unknown '' @ kind @ '' deployment '' @ deployment_id))) (\<lambda>_.
     let deployment = dict_of (get deployments deployment_id) in
     bindr (require (scoped \<longrightarrow> get deployment ''network_scope'' = JStr ''private_local'')
       (RegistryError (''local-only route '' @ alias @ '' references a non-local deployment''))) (\<lambda>_.
     bindr (require (active \<longrightarrow> get deployment ''availability'' = JStr ''active'')
       (RegistryError (''active route '' @ alias @ '' references a deployment that is not active''))) (\<lambda>_.
     bindr (if active then in_strs (get deployment ''lifecycle'') [''resident'', ''hot-standby''] else Inr True) (\<lambda>ok.
     require ok (RegistryError (''active route '' @ alias @ '' references a non-resident deployment''))))))"

definition check_transcription_route :: "dict \<Rightarrow> dict \<Rightarrow> string \<times> json \<Rightarrow> unit res" where
  "check_transcription_route deployments routes_doc e = (case e of (alias, raw) \<Rightarrow>
     let name = ''transcription_routes.'' @ alias in
     bindr (obj raw name) (\<lambda>route.
     bindr (check_alias name alias (identities [''upstream_model_id''] deployments)) (\<lambda>_.
     bindr (item routes_doc ''routes'') (\<lambda>routes.
     bindr (require (\<not> has (dict_of routes) alias) (RegistryError (''route alias '' @ py_repr alias @ '' is already used by a text route''))) (\<lambda>_.
     bindr (require (\<not> has route ''minimum_context_tokens'') (RegistryError (name @ '' must not declare a text context requirement''))) (\<lambda>_.
     let state = get route ''state'' in
     bindr (in_strs state STATES) (\<lambda>ok.
     bindr (require (ok \<and> get route ''privacy'' = JStr ''local_only'') (RegistryError (name @ '' must have a valid state and local_only privacy''))) (\<lambda>_.
     bindr (string_field (get route ''timeout_profile'') (name @ ''.timeout_profile'')) (\<lambda>timeout_id.
     bindr (item routes_doc ''timeout_profiles'') (\<lambda>timeouts.
     bindr (require (has (dict_of timeouts) timeout_id) (RegistryError (name @ '' references unknown timeout profile''))) (\<lambda>_.
     bindr (string_list (get route ''deployments'') (name @ ''.deployments'') (state = JStr ''disabled'')) (\<lambda>selected.
     bindr (require (\<not> (state = JStr ''disabled'' \<and> selected \<noteq> [])) (RegistryError (''disabled route '' @ alias @ '' must not contain deployments''))) (\<lambda>_.
     for_each (check_audio_choice deployments True name alias (state = JStr ''active'') ''transcription'') selected)))))))))))))"

definition validate_transcription :: "dict \<Rightarrow> dict \<Rightarrow> unit res" where
  "validate_transcription catalog routes_doc =
     bindr (obj (get_or catalog ''transcription_deployments'' (JObj [])) ''transcription_deployments'') (\<lambda>deployments.
     bindr (item catalog ''runtime_profiles'') (\<lambda>runtimes.
     bindr (for_each (check_transcription_deployment (dict_of runtimes)) deployments) (\<lambda>_.
     bindr (obj (get_or routes_doc ''transcription_routes'' (JObj [])) ''transcription_routes'') (\<lambda>routes.
     for_each (check_transcription_route deployments routes_doc) routes))))"

text \<open>\<open>MediaRegistry\<close> reports one message for every way a list of names can be wrong.\<close>

definition media_string_list :: "json \<Rightarrow> string \<Rightarrow> bool \<Rightarrow> string list res" where
  "media_string_list v name allow_empty =
     bindr (require (nonempty_strs v \<and> distinct (list_of v) \<and> (list_of v \<noteq> [] \<or> allow_empty))
       (RegistryError (name @ '' must be a nonempty list of unique strings''))) (\<lambda>_. Inr (map str_of (list_of v)))"

definition check_tts_deployment :: "string \<times> json \<Rightarrow> unit res" where
  "check_tts_deployment e = (case e of (deployment_id, raw) \<Rightarrow>
     let name = ''tts_deployments.'' @ deployment_id in
     bindr (obj raw name) (\<lambda>deployment.
     bindr (check_strings deployment name [''upstream_model_id'']) (\<lambda>_.
     bindr (for_each (\<lambda>f. bindr (check_revision RegistryError deployment name f) (\<lambda>_. Inr ())) [''revision'', ''code_revision'']) (\<lambda>_.
     bindr (check_strings deployment name [''license_id'', ''host_role'', ''served_model_name'', ''voice_alias'']) (\<lambda>_.
     bindr (check_endpoint deployment name) (\<lambda>_.
     bindr (require (get deployment ''network_scope'' = JStr ''private_local'') (RegistryError (name @ ''.network_scope must be private_local''))) (\<lambda>_.
     bindr (check_positive deployment name [''concurrency'', ''priority'']) (\<lambda>_.
     check_standing deployment name))))))))"

definition check_tts_route :: "dict \<Rightarrow> string list \<Rightarrow> dict \<Rightarrow> string \<times> json \<Rightarrow> unit res" where
  "check_tts_route deployments used routes_doc e = (case e of (alias, raw) \<Rightarrow>
     let name = ''tts_routes.'' @ alias in
     bindr (obj raw name) (\<lambda>route.
     bindr (check_alias name alias (identities [''upstream_model_id''] deployments)) (\<lambda>_.
     bindr (require (alias \<notin> set used) (RegistryError (''route alias '' @ py_repr alias @ '' is already used by another route''))) (\<lambda>_.
     bindr (require (get route ''privacy'' = JStr ''local_only'') (RegistryError (name @ ''.privacy must be local_only''))) (\<lambda>_.
     let state = get route ''state'' in
     bindr (in_strs state STATES) (\<lambda>ok.
     bindr (require ok (RegistryError (name @ ''.state is invalid''))) (\<lambda>_.
     bindr (string_field (get route ''timeout_profile'') (name @ ''.timeout_profile'')) (\<lambda>timeout_id.
     bindr (item routes_doc ''timeout_profiles'') (\<lambda>timeouts.
     bindr (require (has (dict_of timeouts) timeout_id) (RegistryError (name @ '' references unknown timeout profile''))) (\<lambda>_.
     bindr (media_string_list (get route ''deployments'') (name @ ''.deployments'') (state = JStr ''disabled'')) (\<lambda>selected.
     bindr (require ((state = JStr ''disabled'') = (selected = [])) (RegistryError (name @ '' disabled state and deployments do not agree''))) (\<lambda>_.
     for_each (check_audio_choice deployments False name alias (state = JStr ''active'') ''TTS'') selected))))))))))))"

definition validate_tts :: "dict \<Rightarrow> dict \<Rightarrow> unit res" where
  "validate_tts catalog routes_doc =
     bindr (obj (get_or catalog ''tts_deployments'' (JObj [])) ''tts_deployments'') (\<lambda>deployments.
     bindr (for_each check_tts_deployment deployments) (\<lambda>_.
     bindr (item routes_doc ''routes'') (\<lambda>routes.
     let used = keys (dict_of routes) @ keys (dict_of (get_or routes_doc ''transcription_routes'' (JObj []))) in
     bindr (obj (get_or routes_doc ''tts_routes'' (JObj [])) ''tts_routes'') (\<lambda>tts_routes.
     for_each (check_tts_route deployments used routes_doc) tts_routes))))"

definition check_video_deployment :: "dict \<Rightarrow> string \<times> json \<Rightarrow> unit res" where
  "check_video_deployment catalog e = (case e of (identifier, raw) \<Rightarrow>
     let name = ''video_deployments.'' @ identifier in
     bindr (obj raw name) (\<lambda>entry.
     bindr (require (\<not> list_ex (has entry) [''context_tokens'', ''max_context_tokens'', ''tokenizer_revision''])
       (RegistryError (name @ '' must not declare a text context or tokenizer requirement''))) (\<lambda>_.
     bindr (check_strings entry name [''upstream_model_id'', ''license_id'', ''host_role'', ''served_model_name'', ''quantization'']) (\<lambda>_.
     bindr (for_each (\<lambda>f. bindr (check_revision RegistryError entry name f) (\<lambda>_. Inr ())) [''revision'', ''code_revision'']) (\<lambda>_.
     bindr (check_endpoint entry name) (\<lambda>_.
     bindr (require (get entry ''network_scope'' = JStr ''private_local'') (RegistryError (name @ ''.network_scope must be private_local''))) (\<lambda>_.
     bindr (string_field (get entry ''runtime_profile'') (name @ ''.runtime_profile'')) (\<lambda>runtime_id.
     bindr (item catalog ''runtime_profiles'') (\<lambda>runtimes.
     bindr (runtime_offers (dict_of runtimes) runtime_id ''videos'' ''video_generation'') (\<lambda>ok.
     bindr (require ok (RegistryError (''runtime for '' @ identifier @ '' lacks the video protocol/capability''))) (\<lambda>_.
     bindr (check_positive entry name [''concurrency'', ''priority'']) (\<lambda>_.
     bindr (check_standing entry name) (\<lambda>_.
     bindr (in_strs (get entry ''qualification'') [''qualified'', ''candidate'', ''failed'', ''not-tested'']) (\<lambda>ok.
     require ok (RegistryError (name @ ''.qualification is invalid''))))))))))))))))"

definition check_video_choice :: "dict \<Rightarrow> string \<Rightarrow> string \<Rightarrow> bool \<Rightarrow> string \<Rightarrow> unit res" where
  "check_video_choice deployments name alias active identifier =
     bindr (require (has deployments identifier) (RegistryError (name @ '' references unknown video deployment '' @ identifier))) (\<lambda>_.
     let entry = dict_of (get deployments identifier) in
     bindr (require (active \<longrightarrow> get entry ''availability'' = JStr ''active'')
       (RegistryError (''active route '' @ alias @ '' references a deployment that is not active''))) (\<lambda>_.
     bindr (require (active \<longrightarrow> get entry ''qualification'' = JStr ''qualified'')
       (RegistryError (''active route '' @ alias @ '' references an unqualified video adapter''))) (\<lambda>_.
     bindr (if active then in_strs (get entry ''lifecycle'') [''resident'', ''hot-standby'', ''operator-on-demand''] else Inr True) (\<lambda>ok.
     require ok (RegistryError (''active route '' @ alias @ '' references an unavailable video lifecycle''))))))"

definition check_video_route :: "dict \<Rightarrow> string list \<Rightarrow> dict \<Rightarrow> string \<times> json \<Rightarrow> unit res" where
  "check_video_route deployments used routes_doc e = (case e of (alias, raw) \<Rightarrow>
     let name = ''video_routes.'' @ alias in
     bindr (obj raw name) (\<lambda>route.
     bindr (check_alias name alias (identities [''upstream_model_id'', ''served_model_name''] deployments)) (\<lambda>_.
     bindr (require (alias \<notin> set used) (RegistryError (''route alias '' @ py_repr alias @ '' is already used by another route''))) (\<lambda>_.
     bindr (require (\<not> has route ''minimum_context_tokens'') (RegistryError (name @ '' must not declare a text context requirement''))) (\<lambda>_.
     let state = get route ''state'' in
     bindr (in_strs state STATES) (\<lambda>ok.
     bindr (require (ok \<and> get route ''privacy'' = JStr ''local_only'') (RegistryError (name @ '' must have a valid state and local_only privacy''))) (\<lambda>_.
     bindr (item routes_doc ''timeout_profiles'') (\<lambda>timeouts.
     bindr (in_strs (get route ''timeout_profile'') (keys (dict_of timeouts))) (\<lambda>ok.
     bindr (require ok (RegistryError (name @ '' references unknown timeout profile''))) (\<lambda>_.
     bindr (media_string_list (get route ''deployments'') (name @ ''.deployments'') (state = JStr ''disabled'')) (\<lambda>selected.
     bindr (require ((state = JStr ''disabled'') = (selected = [])) (RegistryError (name @ '' disabled state and deployments do not agree''))) (\<lambda>_.
     for_each (check_video_choice deployments name alias (state = JStr ''active'')) selected))))))))))))"

definition validate_video :: "dict \<Rightarrow> dict \<Rightarrow> unit res" where
  "validate_video catalog routes_doc =
     bindr (obj (get_or catalog ''video_deployments'' (JObj [])) ''video_deployments'') (\<lambda>deployments.
     bindr (for_each (check_video_deployment catalog) deployments) (\<lambda>_.
     bindr (item routes_doc ''routes'') (\<lambda>routes.
     let used = keys (dict_of routes) @ keys (dict_of (get_or routes_doc ''transcription_routes'' (JObj [])))
       @ keys (dict_of (get_or routes_doc ''tts_routes'' (JObj []))) in
     bindr (obj (get_or routes_doc ''video_routes'' (JObj [])) ''video_routes'') (\<lambda>video_routes.
     for_each (check_video_route deployments used routes_doc) video_routes))))"

definition validate :: "dict \<Rightarrow> dict \<Rightarrow> unit res" where
  "validate catalog routes_doc =
     bindr (reject_secrets (JObj catalog) ''catalog'') (\<lambda>_.
     bindr (reject_secrets (JObj routes_doc) ''routes'') (\<lambda>_.
     bindr (require (py_eq (get catalog ''schema_version'') (JInt 1) \<and> py_eq (get routes_doc ''schema_version'') (JInt 1))
       (RegistryError ''catalog and routes schema_version must be 1'')) (\<lambda>_.
     bindr (obj (get catalog ''runtime_profiles'') ''runtime_profiles'') (\<lambda>runtime_profiles.
     bindr (require (runtime_profiles \<noteq> []) (RegistryError ''runtime_profiles must not be empty'')) (\<lambda>_.
     bindr (for_each check_runtime runtime_profiles) (\<lambda>_.
     bindr (obj (get catalog ''artifacts'') ''artifacts'') (\<lambda>artifacts.
     bindr (obj (get catalog ''deployments'') ''deployments'') (\<lambda>deployments.
     bindr (require (artifacts \<noteq> [] \<and> deployments \<noteq> []) (RegistryError ''artifacts and deployments must not be empty'')) (\<lambda>_.
     bindr (map_res (check_artifact runtime_profiles) artifacts) (\<lambda>capability_sets.
     bindr (for_each (check_deployment runtime_profiles artifacts) deployments) (\<lambda>_.
     bindr (obj (get routes_doc ''timeout_profiles'') ''timeout_profiles'') (\<lambda>timeouts.
     bindr (for_each check_timeout timeouts) (\<lambda>_.
     bindr (obj (get routes_doc ''routes'') ''routes'') (\<lambda>routes.
     bindr (for_each (check_route runtime_profiles artifacts deployments capability_sets timeouts) routes) (\<lambda>_.
     bindr (validate_transcription catalog routes_doc) (\<lambda>_.
     bindr (validate_tts catalog routes_doc) (\<lambda>_.
     validate_video catalog routes_doc)))))))))))))))))"

section \<open>What the checks establish\<close>

named_theorems registry_checks \<open>unfolding rules of the registry's field checks\<close>

lemma obj_Inr [registry_checks]: "obj v name = Inr d \<longleftrightarrow> v = JObj d"
  by (cases v) (auto simp: obj_def)

lemma string_field_Inr [registry_checks]: "string_field v name = Inr s \<longleftrightarrow> v = JStr s \<and> s \<noteq> []"
  by (cases v) (auto simp: string_field_def)

lemma strs_of: "list_all (\<lambda>x. is_str x \<and> x \<noteq> JStr []) xs \<Longrightarrow> map JStr (map str_of xs) = xs"
  by (induction xs) (auto simp: is_str_iff)

lemma nonempty_strs_iff: "nonempty_strs v \<and> ss = map str_of (list_of v) \<longleftrightarrow> v = JArr (map JStr ss) \<and> [] \<notin> set ss"
proof (cases v)
  case (JArr xs)
  have "list_all (\<lambda>x. is_str x \<and> x \<noteq> JStr []) xs \<and> ss = map str_of xs \<longleftrightarrow> xs = map JStr ss \<and> [] \<notin> set ss"
    using strs_of [of xs] by (auto simp: list_all_iff is_str_iff comp_def) (metis content_simps(1))
  with JArr show ?thesis by (simp add: nonempty_strs_def)
qed (simp_all add: nonempty_strs_def)

lemma distinct_JStr [simp]: "distinct (map JStr ss) = distinct ss"
  by (simp add: distinct_map inj_on_def)

lemma string_list_Inr [registry_checks]:
  "string_list v name allow_empty = Inr ss \<longleftrightarrow> v = JArr (map JStr ss) \<and> [] \<notin> set ss \<and> distinct ss \<and> (ss \<noteq> [] \<or> allow_empty)"
proof -
  have "string_list v name allow_empty = Inr ss \<longleftrightarrow>
      (nonempty_strs v \<and> ss = map str_of (list_of v)) \<and> distinct (list_of v) \<and> (list_of v \<noteq> [] \<or> allow_empty)"
    by (auto simp: string_list_def bindr_Inr_iff)
  then show ?thesis unfolding nonempty_strs_iff by auto
qed

lemma media_string_list_Inr [registry_checks]:
  "media_string_list v name allow_empty = Inr ss \<longleftrightarrow> v = JArr (map JStr ss) \<and> [] \<notin> set ss \<and> distinct ss \<and> (ss \<noteq> [] \<or> allow_empty)"
  unfolding string_list_Inr [where name = name, symmetric] by (auto simp: media_string_list_def string_list_def bindr_Inr_iff)

lemma in_strs_Inr_True [registry_checks]: "in_strs v ss = Inr True \<longleftrightarrow> is_str v \<and> str_of v \<in> set ss"
  by (cases v) (auto simp: in_strs_def)

lemma in_strsD: "in_strs v ss = Inr b \<Longrightarrow> b \<Longrightarrow> is_str v" "in_strs v ss = Inr b \<Longrightarrow> b \<Longrightarrow> str_of v \<in> set ss"
  by (cases v; auto simp: in_strs_def)+

lemma ex_Inr_True [registry_checks]: "(\<exists>x. m = Inr x \<and> x \<and> Q) \<longleftrightarrow> m = Inr True \<and> Q" "(\<exists>x. m = Inr x \<and> x) \<longleftrightarrow> m = Inr True"
  by auto

lemma pos_int_iff: "pos_int v \<longleftrightarrow> (\<exists>i. v = JInt i \<and> 1 \<le> i)"
  by (auto simp: pos_int_def type_is_int_iff)

lemma check_runtime_ok:
  assumes "check_runtime (k, raw) = Inr ()"
  obtains rt caps protos where "raw = JObj rt" "get rt ''capabilities'' = JArr (map JStr caps)" "get rt ''supported_protocols'' = JArr (map JStr protos)"
  using assms by (auto simp: check_runtime_def bindr_Inr_iff registry_checks Let_def)

lemma check_artifact_ok:
  assumes "check_artifact rps (k, raw) = Inr e"
  obtains art caps rts lim q where "raw = JObj art" "e = (k, caps)" "get art ''capabilities'' = JArr (map JStr caps)"
    "get art ''runtime_profiles'' = JArr (map JStr rts)" "get art ''max_context_tokens'' = JInt lim" "get art ''qualification'' = JObj q"
    "''embedding'' \<in> set caps \<longrightarrow> pos_int (get art ''embedding_dimensions'')"
    "REVISION (str_of (get art ''revision''))" "get art ''tokenizer_revision'' = get art ''revision''" "get art ''code_revision'' = get art ''revision''"
  using assms by (auto simp: check_artifact_def bindr_Inr_iff registry_checks pos_int_iff Let_def)

lemma check_deployment_ok:
  assumes "check_deployment rps arts (k, raw) = Inr ()"
  obtains dep a r n b m e where "raw = JObj dep" "get dep ''artifact'' = JStr a" "has arts a" "get dep ''runtime_profile'' = JStr r" "has rps r"
    "get dep ''context_tokens'' = JInt n" "1 \<le> n" "n \<le> int_of (get (dict_of (get arts a)) ''max_context_tokens'')"
    "get dep ''priority'' = JInt b" "get dep ''served_model_name'' = JStr m" "get dep ''endpoint_env'' = JStr e" "ENDPOINT_ENV e"
  using assms unfolding check_deployment_def prod.case Let_def bindr_Inr_iff require_Inr_iff registry_checks pos_int_iff item_Inr_iff
  by (elim exE conjE) (rule that, assumption, assumption, assumption, assumption, metis Inr_inject, assumption, assumption,
    simp add: map_of_get, assumption, assumption, assumption, assumption)

lemma check_choice_ok:
  assumes "check_route_deployment rps arts deps caps alias route required protocols d = Inr ()"
  shows "has deps d \<and> (let dep = dict_of (get deps d); art = dict_of (get arts (str_of (get dep ''artifact'')));
      rt = dict_of (get rps (str_of (get dep ''runtime_profile''))) in
    (get route ''privacy'' = JStr ''local_only'' \<longrightarrow> get dep ''network_scope'' = JStr ''private_local'')
    \<and> (get route ''state'' = JStr ''active'' \<longrightarrow> get dep ''availability'' = JStr ''active'' \<and> str_of (get dep ''lifecycle'') \<in> {''resident'', ''hot-standby''}
        \<and> get (dict_of (get art ''qualification'')) (str_of (get_or route ''qualification_capability'' (JStr alias))) = JStr ''qualified'')
    \<and> JStr ` set required \<subseteq> set (list_of (get rt ''capabilities'')) \<and> JStr ` set protocols \<subseteq> set (list_of (get rt ''supported_protocols''))
    \<and> set required \<subseteq> (case map_of caps (str_of (get dep ''artifact'')) of None \<Rightarrow> {} | Some cs \<Rightarrow> set cs)
    \<and> int_of (get route ''minimum_context_tokens'') \<le> int_of (get dep ''context_tokens''))"
  using assms by (cases "get route ''state'' = JStr ''active''") (simp_all add: check_route_deployment_def bindr_Inr_iff registry_checks Let_def)

lemma check_route_ok:
  assumes "check_route rps arts deps caps timeouts (alias, raw) = Inr ()"
  obtains route required protocols n chosen t where "raw = JObj route" "SEMANTIC_ALIAS alias" "alias \<noteq> ''auto''"
    "is_str (get route ''state'')" "str_of (get route ''state'') \<in> set STATES" "get route ''privacy'' = JStr ''local_only''"
    "get route ''required_capabilities'' = JArr (map JStr required)" "get route ''required_protocols'' = JArr (map JStr protocols)"
    "get route ''minimum_context_tokens'' = JInt n" "get route ''deployments'' = JArr (map JStr chosen)"
    "get route ''timeout_profile'' = JStr t" "has timeouts t"
    "get route ''state'' = JStr ''disabled'' \<longleftrightarrow> chosen = []"
    "\<And>d. d \<in> set chosen \<Longrightarrow> check_route_deployment rps arts deps caps alias route required protocols d = Inr ()"
  using assms unfolding check_route_def prod.case Let_def bindr_Inr_iff require_Inr_iff registry_checks pos_int_iff for_each_Inr_iff
  by (elim exE conjE) (rule that, assumption, assumption, assumption, erule (1) in_strsD, erule (1) in_strsD, assumption, assumption,
    assumption, assumption, assumption, assumption, assumption, fast, erule (1) bspec)

lemma Inr_unit: "m = Inr x \<Longrightarrow> m = Inr ()"
  by simp

lemma validate_ok:
  assumes "validate catalog routes_doc = Inr ()"
  obtains rps arts deps caps timeouts routes where
    "reject_secrets (JObj catalog) ''catalog'' = Inr ()" "reject_secrets (JObj routes_doc) ''routes'' = Inr ()"
    "get catalog ''runtime_profiles'' = JObj rps" "get catalog ''artifacts'' = JObj arts" "get catalog ''deployments'' = JObj deps"
    "get routes_doc ''timeout_profiles'' = JObj timeouts" "get routes_doc ''routes'' = JObj routes"
    "\<And>e. e \<in> set rps \<Longrightarrow> check_runtime e = Inr ()" "map_res (check_artifact rps) arts = Inr caps"
    "\<And>e. e \<in> set deps \<Longrightarrow> check_deployment rps arts e = Inr ()" "\<forall>e \<in> set timeouts. check_timeout e = Inr ()"
    "\<And>e. e \<in> set routes \<Longrightarrow> check_route rps arts deps caps timeouts e = Inr ()"
    "validate_transcription catalog routes_doc = Inr ()" "validate_tts catalog routes_doc = Inr ()" "validate_video catalog routes_doc = Inr ()"
  using assms unfolding validate_def bindr_Inr_iff require_Inr_iff registry_checks for_each_Inr_iff
  by (elim exE conjE) (rule that, erule Inr_unit, erule Inr_unit, assumption, assumption, assumption, assumption, assumption,
    erule (1) bspec, assumption, erule (1) bspec, assumption, erule (1) bspec, erule Inr_unit, erule Inr_unit, assumption)

lemma check_audio_choice_ok:
  assumes "check_audio_choice deps scoped name alias active kind d = Inr ()"
  shows "has deps d \<and> (scoped \<longrightarrow> get (dict_of (get deps d)) ''network_scope'' = JStr ''private_local'')
    \<and> (active \<longrightarrow> get (dict_of (get deps d)) ''availability'' = JStr ''active'' \<and> str_of (get (dict_of (get deps d)) ''lifecycle'') \<in> {''resident'', ''hot-standby''})"
  using assms by (cases active) (simp_all add: check_audio_choice_def bindr_Inr_iff registry_checks Let_def)

lemma check_video_choice_ok:
  assumes "check_video_choice deps name alias active d = Inr ()"
  shows "has deps d \<and> (active \<longrightarrow> get (dict_of (get deps d)) ''availability'' = JStr ''active''
    \<and> get (dict_of (get deps d)) ''qualification'' = JStr ''qualified''
    \<and> str_of (get (dict_of (get deps d)) ''lifecycle'') \<in> {''resident'', ''hot-standby'', ''operator-on-demand''})"
  using assms by (cases active) (simp_all add: check_video_choice_def bindr_Inr_iff registry_checks Let_def)

text \<open>
  The three media families promise the same: \<open>media_route\<close> says what holds of a checked route, and
  \<open>media_deployment\<close> what the gateway reads of a checked deployment.
\<close>

definition media_route :: "dict \<Rightarrow> string list \<Rightarrow> dict \<Rightarrow> string \<Rightarrow> json \<Rightarrow> (string \<Rightarrow> bool \<Rightarrow> bool) \<Rightarrow> bool" where
  "media_route deps used timeouts alias raw good \<longleftrightarrow> (\<exists>route t chosen. raw = JObj route \<and> SEMANTIC_ALIAS alias \<and> alias \<noteq> ''auto'' \<and> alias \<notin> set used
     \<and> is_str (get route ''state'') \<and> str_of (get route ''state'') \<in> set STATES \<and> get route ''privacy'' = JStr ''local_only''
     \<and> get route ''timeout_profile'' = JStr t \<and> has timeouts t \<and> get route ''deployments'' = JArr (map JStr chosen)
     \<and> (\<forall>d \<in> set chosen. has deps d \<and> good d (get route ''state'' = JStr ''active'')))"

definition media_deployment :: "json \<Rightarrow> bool" where
  "media_deployment raw \<longleftrightarrow> (\<exists>dep b m e. raw = JObj dep \<and> get dep ''priority'' = JInt b \<and> get dep ''served_model_name'' = JStr m
     \<and> get dep ''endpoint_env'' = JStr e \<and> ENDPOINT_ENV e)"

definition standing :: "dict \<Rightarrow> string list \<Rightarrow> string \<Rightarrow> bool \<Rightarrow> bool" where
  "standing deps lifecycles d active \<longleftrightarrow> (active \<longrightarrow> get (dict_of (get deps d)) ''availability'' = JStr ''active''
     \<and> str_of (get (dict_of (get deps d)) ''lifecycle'') \<in> set lifecycles)"

lemma check_fields_ok [registry_checks]:
  "check_endpoint d name = Inr u \<longleftrightarrow> (\<exists>e. get d ''endpoint_env'' = JStr e \<and> e \<noteq> [] \<and> ENDPOINT_ENV e)"
  "check_strings d name names = Inr u \<longleftrightarrow> (\<forall>f \<in> set names. \<exists>s. get d f = JStr s \<and> s \<noteq> [])"
  "check_positive d name names = Inr u \<longleftrightarrow> (\<forall>f \<in> set names. pos_int (get d f))"
  by (auto simp: check_endpoint_def check_strings_def check_positive_def bindr_Inr_iff string_field_Inr for_each_Inr_iff)

lemma check_transcription_deployment_ok:
  assumes "check_transcription_deployment rts (k, raw) = Inr ()"
  shows "media_deployment raw \<and> str_of (get (dict_of raw) ''network_scope'') \<in> {''private_local'', ''cloud''}"
proof -
  from assms obtain dep ok where d: "raw = JObj dep" "in_strs (get dep ''network_scope'') [''private_local'', ''cloud''] = Inr ok" "ok"
      "check_endpoint dep (''transcription_deployments.'' @ k) = Inr ()"
      "check_strings dep (''transcription_deployments.'' @ k) [''license_id'', ''host_role'', ''served_model_name''] = Inr ()"
      "check_positive dep (''transcription_deployments.'' @ k) [''concurrency'', ''priority''] = Inr ()"
    unfolding check_transcription_deployment_def prod.case Let_def bindr_Inr_iff require_Inr_iff obj_Inr
    by (elim exE conjE) (rule that, assumption, assumption, assumption, erule Inr_unit, erule Inr_unit, erule Inr_unit)
  then show ?thesis using in_strsD(2) [OF d(2,3)] by (auto simp: registry_checks media_deployment_def pos_int_iff)
qed

lemma check_tts_deployment_ok:
  assumes "check_tts_deployment (k, raw) = Inr ()"
  shows "media_deployment raw \<and> get (dict_of raw) ''network_scope'' = JStr ''private_local''"
proof -
  from assms obtain dep where d: "raw = JObj dep" "get dep ''network_scope'' = JStr ''private_local''"
      "check_endpoint dep (''tts_deployments.'' @ k) = Inr ()"
      "check_strings dep (''tts_deployments.'' @ k) [''license_id'', ''host_role'', ''served_model_name'', ''voice_alias''] = Inr ()"
      "check_positive dep (''tts_deployments.'' @ k) [''concurrency'', ''priority''] = Inr ()"
    unfolding check_tts_deployment_def prod.case Let_def bindr_Inr_iff require_Inr_iff obj_Inr
    by (elim exE conjE) (rule that, assumption, assumption, erule Inr_unit, erule Inr_unit, erule Inr_unit)
  then show ?thesis by (auto simp: registry_checks media_deployment_def pos_int_iff)
qed

lemma check_video_deployment_ok:
  assumes "check_video_deployment catalog (k, raw) = Inr ()"
  shows "media_deployment raw \<and> get (dict_of raw) ''network_scope'' = JStr ''private_local''"
proof -
  from assms obtain dep where d: "raw = JObj dep" "get dep ''network_scope'' = JStr ''private_local''"
      "check_endpoint dep (''video_deployments.'' @ k) = Inr ()"
      "check_strings dep (''video_deployments.'' @ k) [''upstream_model_id'', ''license_id'', ''host_role'', ''served_model_name'', ''quantization''] = Inr ()"
      "check_positive dep (''video_deployments.'' @ k) [''concurrency'', ''priority''] = Inr ()"
    unfolding check_video_deployment_def prod.case Let_def bindr_Inr_iff require_Inr_iff obj_Inr
    by (elim exE conjE) (rule that, assumption, assumption, erule Inr_unit, erule Inr_unit, erule Inr_unit)
  then show ?thesis by (auto simp: registry_checks media_deployment_def pos_int_iff)
qed

lemma check_transcription_route_ok:
  assumes "check_transcription_route deps routes_doc (alias, raw) = Inr ()"
  shows "media_route deps (keys (dict_of (get routes_doc ''routes''))) (dict_of (get routes_doc ''timeout_profiles'')) alias raw
    (\<lambda>d active. standing deps [''resident'', ''hot-standby''] d active \<and> get (dict_of (get deps d)) ''network_scope'' = JStr ''private_local'')"
proof -
  from assms obtain route rs ok t ts sel where r: "raw = JObj route" "check_alias (''transcription_routes.'' @ alias) alias (identities [''upstream_model_id''] deps) = Inr ()"
      "map_of routes_doc ''routes'' = Some rs" "\<not> has (dict_of rs) alias" "in_strs (get route ''state'') STATES = Inr ok" "ok" "get route ''privacy'' = JStr ''local_only''"
      "get route ''timeout_profile'' = JStr t" "map_of routes_doc ''timeout_profiles'' = Some ts" "has (dict_of ts) t" "get route ''deployments'' = JArr (map JStr sel)"
      "\<forall>d \<in> set sel. check_audio_choice deps True (''transcription_routes.'' @ alias) alias (get route ''state'' = JStr ''active'') ''transcription'' d = Inr ()"
    unfolding check_transcription_route_def prod.case Let_def bindr_Inr_iff require_Inr_iff for_each_Inr_iff item_Inr_iff obj_Inr string_field_Inr string_list_Inr
    by (elim exE conjE) (rule that, assumption, erule Inr_unit, assumption, assumption, assumption, assumption, assumption, assumption, assumption,
      assumption, assumption, assumption)
  have "\<forall>d \<in> set sel. has deps d \<and> standing deps [''resident'', ''hot-standby''] d (get route ''state'' = JStr ''active'')
      \<and> get (dict_of (get deps d)) ''network_scope'' = JStr ''private_local''"
    using r(12) [rule_format, THEN check_audio_choice_ok] unfolding standing_def by simp
  then show ?thesis
    unfolding media_route_def using r(1,2,4,7,8,10,11) in_strsD [OF r(5,6)] map_of_get [OF r(3)] map_of_get [OF r(9)]
    by (intro exI [of _ route] exI [of _ t] exI [of _ sel]) (simp add: check_alias_def has_iff)
qed

lemma check_tts_route_ok:
  assumes "check_tts_route deps used routes_doc (alias, raw) = Inr ()"
  shows "media_route deps used (dict_of (get routes_doc ''timeout_profiles'')) alias raw (\<lambda>d active. standing deps [''resident'', ''hot-standby''] d active)"
proof -
  from assms obtain route ok t ts sel where r: "raw = JObj route" "check_alias (''tts_routes.'' @ alias) alias (identities [''upstream_model_id''] deps) = Inr ()"
      "alias \<notin> set used" "in_strs (get route ''state'') STATES = Inr ok" "ok" "get route ''privacy'' = JStr ''local_only''"
      "get route ''timeout_profile'' = JStr t" "map_of routes_doc ''timeout_profiles'' = Some ts" "has (dict_of ts) t" "get route ''deployments'' = JArr (map JStr sel)"
      "\<forall>d \<in> set sel. check_audio_choice deps False (''tts_routes.'' @ alias) alias (get route ''state'' = JStr ''active'') ''TTS'' d = Inr ()"
    unfolding check_tts_route_def prod.case Let_def bindr_Inr_iff require_Inr_iff for_each_Inr_iff item_Inr_iff obj_Inr string_field_Inr media_string_list_Inr
    by (elim exE conjE) (rule that, assumption, erule Inr_unit, assumption, assumption, assumption, assumption, assumption, assumption,
      assumption, assumption, assumption)
  have "\<forall>d \<in> set sel. has deps d \<and> standing deps [''resident'', ''hot-standby''] d (get route ''state'' = JStr ''active'')"
    using r(11) [rule_format, THEN check_audio_choice_ok] unfolding standing_def by simp
  then show ?thesis
    unfolding media_route_def using r(1-3,6,7,9,10) in_strsD [OF r(4,5)] map_of_get [OF r(8)]
    by (intro exI [of _ route] exI [of _ t] exI [of _ sel]) (simp add: check_alias_def)
qed

lemma check_video_route_ok:
  assumes "check_video_route deps used routes_doc (alias, raw) = Inr ()"
  shows "media_route deps used (dict_of (get routes_doc ''timeout_profiles'')) alias raw
    (\<lambda>d active. standing deps [''resident'', ''hot-standby'', ''operator-on-demand''] d active
      \<and> (active \<longrightarrow> get (dict_of (get deps d)) ''qualification'' = JStr ''qualified''))"
proof -
  from assms obtain route ok ok' ts sel where r: "raw = JObj route"
      "check_alias (''video_routes.'' @ alias) alias (identities [''upstream_model_id'', ''served_model_name''] deps) = Inr ()"
      "alias \<notin> set used" "in_strs (get route ''state'') STATES = Inr ok" "ok" "get route ''privacy'' = JStr ''local_only''"
      "map_of routes_doc ''timeout_profiles'' = Some ts" "in_strs (get route ''timeout_profile'') (keys (dict_of ts)) = Inr ok'" "ok'"
      "get route ''deployments'' = JArr (map JStr sel)"
      "\<forall>d \<in> set sel. check_video_choice deps (''video_routes.'' @ alias) alias (get route ''state'' = JStr ''active'') d = Inr ()"
    unfolding check_video_route_def prod.case Let_def bindr_Inr_iff require_Inr_iff for_each_Inr_iff item_Inr_iff obj_Inr media_string_list_Inr
    by (elim exE conjE) (rule that, assumption, erule Inr_unit, assumption, assumption, assumption, assumption, assumption, assumption,
      assumption, assumption, assumption)
  obtain t where t: "get route ''timeout_profile'' = JStr t" using in_strsD(1) [OF r(8,9)] by (auto simp: is_str_iff)
  have "\<forall>d \<in> set sel. has deps d \<and> standing deps [''resident'', ''hot-standby'', ''operator-on-demand''] d (get route ''state'' = JStr ''active'')
      \<and> (get route ''state'' = JStr ''active'' \<longrightarrow> get (dict_of (get deps d)) ''qualification'' = JStr ''qualified'')"
    using r(11) [rule_format, THEN check_video_choice_ok] unfolding standing_def by simp
  with t show ?thesis
    unfolding media_route_def using r(1-3,6,10) in_strsD [OF r(4,5)] in_strsD(2) [OF r(8,9)] map_of_get [OF r(7)]
    by (intro exI [of _ route] exI [of _ t] exI [of _ sel]) (simp add: check_alias_def has_iff)
qed

lemma map_of_map_res:
  assumes "map_res f xs = Inr ys" and "\<And>k v y. f (k, v) = Inr y \<Longrightarrow> fst y = k"
  shows "map_of xs k = Some v \<Longrightarrow> \<exists>c. map_of ys k = Some c \<and> f (k, v) = Inr (k, c)"
  using assms(1)
proof (induction xs arbitrary: ys)
  case (Cons x xs)
  obtain k' v' where x: "x = (k', v')" by (cases x)
  with Cons.prems obtain y zs where y: "f (k', v') = Inr y" "map_res f xs = Inr zs" "ys = y # zs" by (auto simp: bindr_Inr_iff)
  have "fst y = k'" using assms(2) y(1) by blast
  with Cons.IH [OF _ y(2)] Cons.prems(1) x y show ?case by (cases y) (auto split: if_splits)
qed simp

lemma has_entry: "has d k \<Longrightarrow> map_of d k = Some (get d k) \<and> (k, get d k) \<in> set d"
  using has_get map_of_SomeD by metis

text \<open>Every key of a document, at any depth.\<close>

fun all_keys :: "json \<Rightarrow> string set"
  and all_keys_dict :: "dict \<Rightarrow> string set"
  and all_keys_list :: "json list \<Rightarrow> string set" where
  "all_keys (JObj d) = all_keys_dict d"
| "all_keys (JArr xs) = all_keys_list xs"
| "all_keys _ = {}"
| "all_keys_dict [] = {}"
| "all_keys_dict ((k, v) # d) = insert k (all_keys v \<union> all_keys_dict d)"
| "all_keys_list [] = {}"
| "all_keys_list (x # xs) = all_keys x \<union> all_keys_list xs"

lemma reject_secrets_iff:
  "reject_secrets v name = Inr () \<longleftrightarrow> (\<forall>k \<in> all_keys v. \<not> secret_key k)"
  "reject_dict d name = Inr () \<longleftrightarrow> (\<forall>k \<in> all_keys_dict d. \<not> secret_key k)"
  "reject_list xs n name = Inr () \<longleftrightarrow> (\<forall>k \<in> all_keys_list xs. \<not> secret_key k)"
proof (induction v name and d name and xs n name rule: reject_secrets_reject_dict_reject_list.induct)
  case (5 k v d name)
  then show ?case by (simp add: bindr_Inr_iff) blast
next
  case (7 x xs n name)
  then show ?case by (simp add: bindr_Inr_iff) blast
qed simp_all

section \<open>A concrete registry\<close>

abbreviation demo_sha :: string where
  "demo_sha \<equiv> ''0123456789abcdef0123456789abcdef01234567''"

definition demo_catalog :: dict where
  "demo_catalog = [(''schema_version'', JInt 1),
     (''runtime_profiles'', JObj [(''vllm'', JObj [(''family'', JStr ''vllm''), (''supported_protocols'', JArr [JStr ''chat_completions'']), (''capabilities'', JArr [JStr ''chat''])])]),
     (''artifacts'', JObj [(''qwen'', JObj [(''upstream_model_id'', JStr ''Qwen/Q''), (''revision'', JStr demo_sha), (''tokenizer_revision'', JStr demo_sha),
        (''code_revision'', JStr demo_sha), (''license_id'', JStr ''mit''), (''quantization'', JStr ''fp4''), (''max_context_tokens'', JInt 4096),
        (''runtime_profiles'', JArr [JStr ''vllm'']), (''capabilities'', JArr [JStr ''chat'']), (''qualification'', JObj [(''home'', JStr ''qualified'')])])]),
     (''deployments'', JObj [
        (''d1'', JObj [(''artifact'', JStr ''qwen''), (''runtime_profile'', JStr ''vllm''), (''host_role'', JStr ''spark''), (''network_scope'', JStr ''private_local''),
          (''endpoint_env'', JStr ''SPARK_BASE_URL''), (''served_model_name'', JStr ''q''), (''context_tokens'', JInt 2048), (''concurrency'', JInt 1),
          (''lifecycle'', JStr ''resident''), (''availability'', JStr ''active''), (''priority'', JInt 1)]),
        (''d2'', JObj [(''artifact'', JStr ''qwen''), (''runtime_profile'', JStr ''vllm''), (''host_role'', JStr ''spark''), (''network_scope'', JStr ''private_local''),
          (''endpoint_env'', JStr ''SPARK_BASE_URL''), (''served_model_name'', JStr ''r''), (''context_tokens'', JInt 2048), (''concurrency'', JInt 1),
          (''lifecycle'', JStr ''operator-on-demand''), (''availability'', JStr ''candidate''), (''priority'', JInt 2)])]),
     (''tts_deployments'', JObj [(''v1'', JObj [(''upstream_model_id'', JStr ''plapre''), (''revision'', JStr demo_sha), (''code_revision'', JStr demo_sha),
          (''license_id'', JStr ''mit''), (''host_role'', JStr ''spark''), (''served_model_name'', JStr ''p''), (''voice_alias'', JStr ''da''),
          (''endpoint_env'', JStr ''TTS_BASE_URL''), (''network_scope'', JStr ''private_local''), (''concurrency'', JInt 1), (''priority'', JInt 1),
          (''lifecycle'', JStr ''resident''), (''availability'', JStr ''active'')])])]"

definition demo_text_route :: "string \<Rightarrow> string \<Rightarrow> dict" where
  "demo_text_route st dep = [(''state'', JStr st), (''kind'', JStr (if st = ''active'' then ''stable'' else ''candidate'')), (''privacy'', JStr ''local_only''),
     (''required_capabilities'', JArr [JStr ''chat'']), (''required_protocols'', JArr [JStr ''chat_completions'']), (''minimum_context_tokens'', JInt 1024),
     (''timeout_profile'', JStr ''home''), (''deployments'', JArr [JStr dep])]"

definition demo_routes :: dict where
  "demo_routes = [(''schema_version'', JInt 1), (''timeout_profiles'', JObj [(''home'', JObj [(''seconds'', JInt 30)])]),
     (''routes'', JObj [(''home'', JObj (demo_text_route ''active'' ''d1'')), (''canary'', JObj (demo_text_route ''candidate'' ''d1''))]),
     (''tts_routes'', JObj [(''voice'', JObj [(''state'', JStr ''active''), (''privacy'', JStr ''local_only''), (''timeout_profile'', JStr ''home''),
        (''deployments'', JArr [JStr ''v1''])])])]"

lemma demo_valid: "validate demo_catalog demo_routes = Inr ()"
  by code_simp

section \<open>Properties of the registry\<close>

lemma route_facts:
  assumes valid: "validate catalog routes_doc = Inr ()" and route: "(alias, JObj route) \<in> set (dict_of (get routes_doc ''routes''))"
    and d: "JStr d \<in> set (list_of (get route ''deployments''))"
  shows "\<exists>dep art rt. map_of (dict_of (get catalog ''deployments'')) d = Some (JObj dep)
    \<and> map_of (dict_of (get catalog ''artifacts'')) (str_of (get dep ''artifact'')) = Some (JObj art)
    \<and> map_of (dict_of (get catalog ''runtime_profiles'')) (str_of (get dep ''runtime_profile'')) = Some (JObj rt)
    \<and> get dep ''network_scope'' = JStr ''private_local''
    \<and> int_of (get route ''minimum_context_tokens'') \<le> int_of (get dep ''context_tokens'')
    \<and> int_of (get dep ''context_tokens'') \<le> int_of (get art ''max_context_tokens'')
    \<and> set (list_of (get route ''required_capabilities'')) \<subseteq> set (list_of (get art ''capabilities'')) \<inter> set (list_of (get rt ''capabilities''))
    \<and> set (list_of (get route ''required_protocols'')) \<subseteq> set (list_of (get rt ''supported_protocols''))
    \<and> (get route ''state'' = JStr ''active'' \<longrightarrow> get dep ''availability'' = JStr ''active''
         \<and> str_of (get dep ''lifecycle'') \<in> {''resident'', ''hot-standby''}
         \<and> get (dict_of (get art ''qualification'')) (str_of (get_or route ''qualification_capability'' (JStr alias))) = JStr ''qualified'')"
proof -
  from valid obtain rps arts deps caps timeouts routes where v: "get catalog ''runtime_profiles'' = JObj rps" "get catalog ''artifacts'' = JObj arts"
      "get catalog ''deployments'' = JObj deps" "get routes_doc ''routes'' = JObj routes" "\<And>e. e \<in> set rps \<Longrightarrow> check_runtime e = Inr ()"
      "map_res (check_artifact rps) arts = Inr caps" "\<And>e. e \<in> set deps \<Longrightarrow> check_deployment rps arts e = Inr ()"
      "\<And>e. e \<in> set routes \<Longrightarrow> check_route rps arts deps caps timeouts e = Inr ()"
    by (rule validate_ok) (rule that)
  have "check_route rps arts deps caps timeouts (alias, JObj route) = Inr ()" using v(8) route v(4) by simp
  then obtain required protocols chosen where r: "get route ''privacy'' = JStr ''local_only''" "get route ''required_capabilities'' = JArr (map JStr required)"
      "get route ''required_protocols'' = JArr (map JStr protocols)" "get route ''deployments'' = JArr (map JStr chosen)"
      "\<And>d. d \<in> set chosen \<Longrightarrow> check_route_deployment rps arts deps caps alias route required protocols d = Inr ()"
    by (rule check_route_ok) (rule that; simp)
  have "check_route_deployment rps arts deps caps alias route required protocols d = Inr ()" using r(4,5) d by auto
  note c = check_choice_ok [OF this, unfolded Let_def]
  have dep: "map_of deps d = Some (get deps d)" "check_deployment rps arts (d, get deps d) = Inr ()" using c has_entry v(7) by blast+
  from dep(2) obtain dep' a k n where dp: "get deps d = JObj dep'" "get dep' ''artifact'' = JStr a" "has arts a" "get dep' ''runtime_profile'' = JStr k" "has rps k"
      "get dep' ''context_tokens'' = JInt n" "n \<le> int_of (get (dict_of (get arts a)) ''max_context_tokens'')"
    by (rule check_deployment_ok) (rule that)
  have "check_runtime (k, get rps k) = Inr ()" using has_entry [OF dp(5)] v(5) by blast
  then obtain rt where rt: "get rps k = JObj rt" by (rule check_runtime_ok) (rule that)
  have "fst y = k" if "check_artifact rps (k, v) = Inr y" for k v y using that by (rule check_artifact_ok) simp
  then obtain cs where cs: "map_of caps a = Some cs" "check_artifact rps (a, get arts a) = Inr (a, cs)"
    using map_of_map_res [OF v(6)] has_entry [OF dp(3)] by metis
  from cs(2) obtain art where art: "get arts a = JObj art" "get art ''capabilities'' = JArr (map JStr cs)" by (rule check_artifact_ok) (rule that; simp)
  have "map_of arts a = Some (JObj art)" "map_of rps k = Some (JObj rt)" using has_entry [OF dp(3)] has_entry [OF dp(5)] art rt by simp_all
  moreover have "JStr ` set required \<subseteq> JStr ` set cs" using c dp cs by (intro image_mono) simp
  ultimately show ?thesis using c dep(1) dp v(1-3) r(1-3) rt art
    by - (rule exI [of _ dep'], rule exI [of _ art], rule exI [of _ rt], simp)
qed

text \<open>
  C15: every deployment that a text route names exists, is private and local, fits the context
  window between the route's minimum and the artifact's maximum, and its artifact and runtime offer
  every capability and protocol the route requires; behind an active route it is moreover active,
  resident and qualified for that capability.
\<close>

theorem route_sound:
  assumes valid: "validate catalog routes_doc = Inr ()" and route: "(alias, JObj route) \<in> set (dict_of (get routes_doc ''routes''))"
    and d: "JStr d \<in> set (list_of (get route ''deployments''))"
  shows "\<exists>dep art rt. map_of (dict_of (get catalog ''deployments'')) d = Some (JObj dep)
    \<and> map_of (dict_of (get catalog ''artifacts'')) (str_of (get dep ''artifact'')) = Some (JObj art)
    \<and> map_of (dict_of (get catalog ''runtime_profiles'')) (str_of (get dep ''runtime_profile'')) = Some (JObj rt)
    \<and> get dep ''network_scope'' = JStr ''private_local''
    \<and> int_of (get route ''minimum_context_tokens'') \<le> int_of (get dep ''context_tokens'')
    \<and> int_of (get dep ''context_tokens'') \<le> int_of (get art ''max_context_tokens'')
    \<and> set (list_of (get route ''required_capabilities'')) \<subseteq> set (list_of (get art ''capabilities'')) \<inter> set (list_of (get rt ''capabilities''))
    \<and> set (list_of (get route ''required_protocols'')) \<subseteq> set (list_of (get rt ''supported_protocols''))
    \<and> (get route ''state'' = JStr ''active'' \<longrightarrow> get dep ''availability'' = JStr ''active''
         \<and> str_of (get dep ''lifecycle'') \<in> {''resident'', ''hot-standby''}
         \<and> get (dict_of (get art ''qualification'')) (str_of (get_or route ''qualification_capability'' (JStr alias))) = JStr ''qualified'')"
  by (rule route_facts [OF assms])

theorem route_sound_witness:
  "\<exists>dep. map_of (dict_of (get demo_catalog ''deployments'')) ''d1'' = Some (JObj dep) \<and> get dep ''network_scope'' = JStr ''private_local''"
proof -
  have "(''home'', JObj (demo_text_route ''active'' ''d1'')) \<in> set (dict_of (get demo_routes ''routes''))"
    by (simp add: demo_routes_def get_def get_or_def)
  from route_sound [OF demo_valid this, of "''d1''"] show ?thesis by (auto simp: demo_text_route_def get_def get_or_def)
qed

text \<open>
  C19: the scan for credentials accepts a document exactly when no key at any depth looks like a
  credential, and otherwise reports a registry error.
\<close>

theorem secrets_rejected:
  "case reject_secrets v name of Inr _ \<Rightarrow> all_keys v \<inter> Collect secret_key = {}
     | Inl e \<Rightarrow> is_registry_error e \<and> all_keys v \<inter> Collect secret_key \<noteq> {}"
proof -
  have "reject_secrets v name = Inl e \<Longrightarrow> is_registry_error e"
    "reject_dict d name = Inl e \<Longrightarrow> is_registry_error e" "reject_list xs n name = Inl e \<Longrightarrow> is_registry_error e" for d xs n e
  proof (induction v name and d name and xs n name arbitrary: e and e and e rule: reject_secrets_reject_dict_reject_list.induct)
    case (5 k v d name)
    then show ?case by (auto simp: bindr_Inl_iff split: if_splits)
  next
    case (7 x xs n name)
    then show ?case by (auto simp: bindr_Inl_iff)
  qed simp_all
  moreover have "reject_secrets v name = Inr () \<longleftrightarrow> all_keys v \<inter> Collect secret_key = {}"
    unfolding reject_secrets_iff by blast
  ultimately show ?thesis by (cases "reject_secrets v name") auto
qed

abbreviation family :: "dict \<Rightarrow> string \<Rightarrow> dict" where
  "family doc name \<equiv> dict_of (get_or doc name (JObj []))"

lemma transcription_ok:
  assumes "validate_transcription catalog routes_doc = Inr ()"
  shows "\<forall>(k, raw) \<in> set (family catalog ''transcription_deployments''). media_deployment raw"
    "\<forall>(alias, raw) \<in> set (family routes_doc ''transcription_routes'').
      media_route (family catalog ''transcription_deployments'') (keys (dict_of (get routes_doc ''routes''))) (dict_of (get routes_doc ''timeout_profiles'')) alias raw
        (\<lambda>d active. standing (family catalog ''transcription_deployments'') [''resident'', ''hot-standby''] d active
          \<and> get (dict_of (get (family catalog ''transcription_deployments'') d)) ''network_scope'' = JStr ''private_local'')"
  using assms check_transcription_deployment_ok check_transcription_route_ok
  unfolding validate_transcription_def bindr_Inr_iff obj_Inr for_each_Inr_iff by fastforce+

lemma tts_ok:
  assumes "validate_tts catalog routes_doc = Inr ()"
  shows "\<forall>(k, raw) \<in> set (family catalog ''tts_deployments''). media_deployment raw \<and> get (dict_of raw) ''network_scope'' = JStr ''private_local''"
    "\<forall>(alias, raw) \<in> set (family routes_doc ''tts_routes'').
      media_route (family catalog ''tts_deployments'') (keys (dict_of (get routes_doc ''routes'')) @ keys (family routes_doc ''transcription_routes''))
        (dict_of (get routes_doc ''timeout_profiles'')) alias raw (standing (family catalog ''tts_deployments'') [''resident'', ''hot-standby''])"
  using assms check_tts_deployment_ok check_tts_route_ok map_of_get
  unfolding validate_tts_def bindr_Inr_iff obj_Inr for_each_Inr_iff item_Inr_iff Let_def by fastforce+

lemma video_ok:
  assumes "validate_video catalog routes_doc = Inr ()"
  shows "\<forall>(k, raw) \<in> set (family catalog ''video_deployments''). media_deployment raw \<and> get (dict_of raw) ''network_scope'' = JStr ''private_local''"
    "\<forall>(alias, raw) \<in> set (family routes_doc ''video_routes'').
      media_route (family catalog ''video_deployments'')
        (keys (dict_of (get routes_doc ''routes'')) @ keys (family routes_doc ''transcription_routes'') @ keys (family routes_doc ''tts_routes''))
        (dict_of (get routes_doc ''timeout_profiles'')) alias raw
        (\<lambda>d active. standing (family catalog ''video_deployments'') [''resident'', ''hot-standby'', ''operator-on-demand''] d active
          \<and> (active \<longrightarrow> get (dict_of (get (family catalog ''video_deployments'') d)) ''qualification'' = JStr ''qualified''))"
  using assms check_video_deployment_ok check_video_route_ok map_of_get
  unfolding validate_video_def bindr_Inr_iff obj_Inr for_each_Inr_iff item_Inr_iff Let_def by fastforce+

lemma media_route_alias: "media_route deps used timeouts alias raw good \<Longrightarrow> alias \<notin> set used \<and> alias \<noteq> ''auto''"
  unfolding media_route_def by blast

lemma family_alias:
  assumes "\<forall>(k, raw) \<in> set d. media_route deps used timeouts k raw good" and "a \<in> set (keys d)"
  shows "a \<notin> set used \<and> a \<noteq> ''auto''"
proof -
  obtain raw where "(a, raw) \<in> set d" using assms(2) by (auto simp: keys_def)
  with bspec [OF assms(1)] have "media_route deps used timeouts a raw good" by blast
  then show ?thesis by (rule media_route_alias)
qed

text \<open>
  In an accepted registry an alias names one route only, over all four families of routes, and
  no route is called \<open>auto\<close>.
\<close>

theorem aliases_unique:
  assumes valid: "validate catalog routes_doc = Inr ()"
  defines "text_aliases \<equiv> set (keys (dict_of (get routes_doc ''routes'')))" and "stt \<equiv> set (keys (family routes_doc ''transcription_routes''))"
    and "tts \<equiv> set (keys (family routes_doc ''tts_routes''))" and "video \<equiv> set (keys (family routes_doc ''video_routes''))"
  shows "text_aliases \<inter> stt = {} \<and> (text_aliases \<union> stt) \<inter> tts = {} \<and> (text_aliases \<union> stt \<union> tts) \<inter> video = {}
    \<and> ''auto'' \<notin> text_aliases \<union> stt \<union> tts \<union> video"
proof -
  from valid obtain rps arts deps caps timeouts routes where v: "get routes_doc ''routes'' = JObj routes"
      "\<And>e. e \<in> set routes \<Longrightarrow> check_route rps arts deps caps timeouts e = Inr ()"
      "validate_transcription catalog routes_doc = Inr ()" "validate_tts catalog routes_doc = Inr ()" "validate_video catalog routes_doc = Inr ()"
    by (rule validate_ok) (rule that)
  have "a \<noteq> ''auto''" if "(a, raw) \<in> set routes" for a raw
    using v(2) [OF that] by (rule check_route_ok)
  then have "''auto'' \<notin> text_aliases" unfolding text_aliases_def v(1) keys_def by force
  moreover have "a \<notin> text_aliases \<and> a \<noteq> ''auto''" if "a \<in> stt" for a
    using family_alias [OF transcription_ok(2) [OF v(3)] that [unfolded stt_def]] by (simp add: text_aliases_def)
  moreover have "a \<notin> text_aliases \<union> stt \<and> a \<noteq> ''auto''" if "a \<in> tts" for a
    using family_alias [OF tts_ok(2) [OF v(4)] that [unfolded tts_def]] by (simp add: text_aliases_def stt_def)
  moreover have "a \<notin> text_aliases \<union> stt \<union> tts \<and> a \<noteq> ''auto''" if "a \<in> video" for a
    using family_alias [OF video_ok(2) [OF v(5)] that [unfolded video_def]] by (simp add: text_aliases_def stt_def tts_def)
  ultimately show ?thesis by blast
qed

theorem aliases_unique_witness:
  "set (keys (dict_of (get demo_routes ''routes''))) \<inter> set (keys (family demo_routes ''transcription_routes'')) = {}"
  using aliases_unique [OF demo_valid] by blast

end
