(* ===== verification/Model_Gateway.thy ===== *)
theory Model_Gateway
  imports Model_Registry
begin

text \<open>
  The second half of \<open>scripts/model_registry.py\<close>: the gateway's \<open>model_list\<close> rendered from an
  accepted registry, its place in the LiteLLM configuration, and the selection of a candidate
  deployment. The text of a float is the parameter \<open>fr\<close>.
\<close>

section \<open>The gateway configuration\<close>

definition ordered :: "dict \<Rightarrow> json \<Rightarrow> string list res" where
  "ordered deployments names = py_sorted py_less (\<lambda>i. bindr (item deployments i) (\<lambda>d. subscript d ''priority'')) (map str_of (list_of names))"

definition prefixed :: "string \<Rightarrow> json \<Rightarrow> string res" where
  "prefixed p v = (case v of JStr s \<Rightarrow> Inr (p @ s) | _ \<Rightarrow> Inl TypeError)"

definition timeout_of :: "dict \<Rightarrow> dict \<Rightarrow> json res" where
  "timeout_of routes_doc route =
     bindr (item routes_doc ''timeout_profiles'') (\<lambda>profiles.
     bindr (item route ''timeout_profile'') (\<lambda>profile.
     bindr (subscript profiles (str_of profile)) (\<lambda>timeout. subscript timeout ''seconds'')))"

text \<open>The seven lines every entry starts with.\<close>

definition entry_lines :: "(flt \<Rightarrow> string) \<Rightarrow> string \<Rightarrow> json \<Rightarrow> nat \<Rightarrow> string \<Rightarrow> json \<Rightarrow> string list res" where
  "entry_lines fr alias deployment position key timeout =
     bindr (bindr (subscript deployment ''served_model_name'') (prefixed ''openai/'')) (\<lambda>model.
     bindr (bindr (subscript deployment ''endpoint_env'') (prefixed ''os.environ/'')) (\<lambda>base.
     Inr [''  - model_name: '' @ quoted alias, ''    litellm_params:'', ''      model: '' @ quoted model,
       ''      order: '' @ int_text (int position), ''      api_base: '' @ quoted base, ''      api_key: '' @ key,
       ''      timeout: '' @ py_text fr timeout]))"

definition text_entry :: "(flt \<Rightarrow> string) \<Rightarrow> dict \<Rightarrow> dict \<Rightarrow> dict \<Rightarrow> string \<Rightarrow> dict \<Rightarrow> nat \<times> string \<Rightarrow> string list res" where
  "text_entry fr catalog deployments routes_doc alias route e = (case e of (position, deployment_id) \<Rightarrow>
     bindr (item deployments deployment_id) (\<lambda>deployment.
     bindr (timeout_of routes_doc route) (\<lambda>timeout.
     bindr (bindr (item route ''required_protocols'') (py_in ''embeddings'')) (\<lambda>embedding.
     bindr (entry_lines fr alias deployment position (if embedding then quoted ''local'' else ''os.environ/COMPUTE_API_KEY'') timeout) (\<lambda>lines.
     if embedding then
       bindr (item catalog ''artifacts'') (\<lambda>artifacts.
       bindr (bindr (subscript deployment ''artifact'') (\<lambda>a. subscript artifacts (str_of a))) (\<lambda>artifact.
       bindr (subscript deployment ''context_tokens'') (\<lambda>context.
       bindr (subscript artifact ''embedding_dimensions'') (\<lambda>dimensions.
       Inr (lines @ [''    model_info:'', ''      mode: embedding'', ''      max_input_tokens: '' @ py_text fr context,
         ''      output_vector_size: '' @ py_text fr dimensions, ''      input_cost_per_token: 0'', ''      output_cost_per_token: 0''])))))
     else Inr (lines @ [''      stream_timeout: '' @ py_text fr timeout]))))))"

definition transcription_entry :: "(flt \<Rightarrow> string) \<Rightarrow> dict \<Rightarrow> dict \<Rightarrow> string \<Rightarrow> dict \<Rightarrow> nat \<times> string \<Rightarrow> string list res" where
  "transcription_entry fr deployments routes_doc alias route e = (case e of (position, deployment_id) \<Rightarrow>
     bindr (item deployments deployment_id) (\<lambda>deployment.
     bindr (timeout_of routes_doc route) (\<lambda>timeout.
     bindr (entry_lines fr alias deployment position ''os.environ/COMPUTE_API_KEY'' timeout) (\<lambda>lines.
     Inr (lines @ [''      response_format: json'', ''    model_info:'', ''      mode: audio_transcription''])))))"

definition tts_entry :: "(flt \<Rightarrow> string) \<Rightarrow> dict \<Rightarrow> dict \<Rightarrow> string \<Rightarrow> dict \<Rightarrow> nat \<times> string \<Rightarrow> string list res" where
  "tts_entry fr deployments routes_doc alias route e = (case e of (position, deployment_id) \<Rightarrow>
     bindr (item deployments deployment_id) (\<lambda>deployment.
     bindr (timeout_of routes_doc route) (\<lambda>timeout.
     bindr (entry_lines fr alias deployment position ''os.environ/COMPUTE_API_KEY'' timeout) (\<lambda>lines.
     Inr (lines @ [''      stream_timeout: '' @ py_text fr timeout, ''    model_info:'', ''      mode: audio_speech''])))))"

definition video_entry :: "(flt \<Rightarrow> string) \<Rightarrow> dict \<Rightarrow> dict \<Rightarrow> string \<Rightarrow> dict \<Rightarrow> nat \<times> string \<Rightarrow> string list res" where
  "video_entry fr deployments routes_doc alias route e = (case e of (position, identifier) \<Rightarrow>
     bindr (item deployments identifier) (\<lambda>entry.
     bindr (timeout_of routes_doc route) (\<lambda>timeout.
     bindr (entry_lines fr alias entry position (quoted ''local'') timeout) (\<lambda>lines.
     Inr (lines @ [''    model_info:'', ''      mode: video_generation'', ''      input_cost_per_token: 0'',
       ''      output_cost_per_token: 0'', ''      input_cost_per_second: 0'', ''      output_cost_per_second: 0''])))))"

text \<open>\<open>for alias, route in routes.items()\<close> with the entries of each route in priority order.\<close>

definition route_lines :: "(string \<Rightarrow> dict \<Rightarrow> nat \<times> string \<Rightarrow> string list res) \<Rightarrow> dict \<Rightarrow> string \<times> json \<Rightarrow> string list res" where
  "route_lines entry deployments e = (case e of (alias, raw) \<Rightarrow>
     bindr (subscript raw ''state'') (\<lambda>state.
     if state = JStr ''disabled'' then Inr []
     else bindr (subscript raw ''deployments'') (\<lambda>chosen.
       bindr (ordered deployments chosen) (\<lambda>names.
       bindr (map_res (entry alias (dict_of raw)) (enumerate 1 names)) (\<lambda>blocks. Inr (concat blocks))))))"

definition routes_lines :: "(string \<Rightarrow> dict \<Rightarrow> nat \<times> string \<Rightarrow> string list res) \<Rightarrow> dict \<Rightarrow> json \<Rightarrow> string list res" where
  "routes_lines entry deployments routes = bindr (map_res (route_lines entry deployments) (dict_of routes)) (\<lambda>blocks. Inr (concat blocks))"

definition render_video :: "(flt \<Rightarrow> string) \<Rightarrow> dict \<Rightarrow> dict \<Rightarrow> string list res" where
  "render_video fr catalog routes_doc =
     (let deployments = dict_of (get_or catalog ''video_deployments'' (JObj [])) in
      routes_lines (video_entry fr deployments routes_doc) deployments (get_or routes_doc ''video_routes'' (JObj [])))"

abbreviation nl :: string where
  "nl \<equiv> [CHR 0x0A]"

definition render_lines :: "(flt \<Rightarrow> string) \<Rightarrow> dict \<Rightarrow> dict \<Rightarrow> string list res" where
  "render_lines fr catalog routes_doc =
     bindr (item catalog ''deployments'') (\<lambda>deployments.
     bindr (item routes_doc ''routes'') (\<lambda>routes.
     bindr (routes_lines (text_entry fr catalog (dict_of deployments) routes_doc) (dict_of deployments) routes) (\<lambda>text_lines.
     let transcription = dict_of (get_or catalog ''transcription_deployments'' (JObj [])) in
     bindr (routes_lines (transcription_entry fr transcription routes_doc) transcription (get_or routes_doc ''transcription_routes'' (JObj []))) (\<lambda>stt_lines.
     let tts = dict_of (get_or catalog ''tts_deployments'' (JObj [])) in
     bindr (routes_lines (tts_entry fr tts routes_doc) tts (get_or routes_doc ''tts_routes'' (JObj []))) (\<lambda>tts_lines.
     bindr (render_video fr catalog routes_doc) (\<lambda>video_lines.
     Inr (text_lines @ stt_lines @ tts_lines @ video_lines)))))))"

definition render_model_list :: "(flt \<Rightarrow> string) \<Rightarrow> dict \<Rightarrow> dict \<Rightarrow> string res" where
  "render_model_list fr catalog routes_doc =
     bindr (render_lines fr catalog routes_doc) (\<lambda>lines. Inr (join nl (''model_list:'' # lines) @ nl))"

text \<open>
  \<open>YAML_BLOCK.finditer\<close>: from a line \<open>model_list:\<close> to the first line \<open>litellm_settings:\<close> after
  it. The first argument tells whether the text starts a line.
\<close>

definition HEAD :: string where
  "HEAD = ''model_list:'' @ nl"

definition STOP :: string where
  "STOP = ''litellm_settings:'' @ nl"

fun until_stop :: "bool \<Rightarrow> string \<Rightarrow> (string \<times> string) option" where
  "until_stop bol [] = None"
| "until_stop bol (c # s) = (if bol \<and> starts STOP (c # s) then Some ([], c # s)
     else map_option (\<lambda>(p, r). (c # p, r)) (until_stop (c = CHR 0x0A) s))"

lemma until_stop_append: "until_stop bol s = Some (p, r) \<Longrightarrow> s = p @ r"
  by (induction bol s arbitrary: p rule: until_stop.induct) (auto split: if_splits)

function find_blocks :: "bool \<Rightarrow> string \<Rightarrow> string \<Rightarrow> (string \<times> string \<times> string) list" where
  "find_blocks bol pre [] = []"
| "find_blocks bol pre (c # s) =
     (case (if bol \<and> starts HEAD (c # s) then until_stop True (drop (length HEAD) (c # s)) else None) of
        None \<Rightarrow> find_blocks (c = CHR 0x0A) (pre @ [c]) s
      | Some (p, r) \<Rightarrow> (pre, HEAD @ p, r) # find_blocks True (pre @ HEAD @ p) r)"
  by pat_completeness auto
termination
proof (relation "measure (\<lambda>(bol, pre, s). length s)")
  fix bol pre c s x p r
  assume "(if bol \<and> starts HEAD (c # s) then until_stop True (drop (length HEAD) (c # s)) else None) = Some x" "(p, r) = x"
  then have "drop (length HEAD) (c # s) = p @ r" using until_stop_append by (metis option.distinct(1))
  then have "length r \<le> length (drop (length HEAD) (c # s))" by simp
  moreover have "length HEAD = 12" by (simp add: HEAD_def)
  ultimately show "((True, pre @ HEAD @ p, r), (bol, pre, c # s)) \<in> measure (\<lambda>(bol, pre, s). length s)" by simp
qed simp_all

definition render_config :: "(flt \<Rightarrow> string) \<Rightarrow> string \<Rightarrow> dict \<Rightarrow> dict \<Rightarrow> string res" where
  "render_config fr current catalog routes_doc = (case find_blocks True [] current of
       [(pre, _, rest)] \<Rightarrow> bindr (render_model_list fr catalog routes_doc) (\<lambda>m. Inr (pre @ m @ rest))
     | _ \<Rightarrow> Inl (RegistryError ''LiteLLM config must contain exactly one model_list block before litellm_settings''))"

section \<open>Selecting a candidate\<close>

definition set_deployments :: "string \<Rightarrow> json \<Rightarrow> dict \<Rightarrow> dict" where
  "set_deployments alias v routes_doc =
     (let routes = dict_of (get routes_doc ''routes'')
      in put routes_doc ''routes'' (JObj (put routes alias (JObj (put (dict_of (get routes alias)) ''deployments'' v)))))"

text \<open>The state is \<open>routes_doc\<close>, which the function changes in place.\<close>

definition select_candidate_deployment :: "dict \<Rightarrow> string \<Rightarrow> string \<Rightarrow> (dict, dict) eff" where
  "select_candidate_deployment catalog alias deployment_id =
     bindS (bindS (gets (validate catalog)) lift) (\<lambda>_.
     bindS (gets (\<lambda>doc. get (dict_of (get_or doc ''routes'' (JObj []))) alias)) (\<lambda>route.
     bindS (check (is_dict route \<and> get (dict_of route) ''state'' = JStr ''candidate'' \<and> get (dict_of route) ''kind'' = JStr ''candidate'')
       (RegistryError (py_repr alias @ '' is not an isolated candidate route''))) (\<lambda>_.
     let deployment = get (dict_of (get_or catalog ''deployments'' (JObj []))) deployment_id in
     bindS (check (is_dict deployment) (RegistryError (''unknown candidate deployment: '' @ deployment_id))) (\<lambda>_.
     bindS (check (get (dict_of deployment) ''availability'' = JStr ''candidate'' \<and> get (dict_of deployment) ''lifecycle'' = JStr ''operator-on-demand'')
       (RegistryError ''candidate route selection only accepts operator-on-demand candidate deployments'')) (\<lambda>_.
     let old = get_or (dict_of route) ''deployments'' (JArr []) in
     bindS (modify (set_deployments alias (JArr [JStr deployment_id]))) (\<lambda>_.
     bindS (catch (bindS (gets (validate catalog)) lift) is_registry_error
       (\<lambda>e. bindS (modify (set_deployments alias old)) (\<lambda>_. raise e))) (\<lambda>_.
     gets (\<lambda>doc. doc))))))))"

section \<open>Rendered lines\<close>

definition line_ok :: "string \<Rightarrow> bool" where
  "line_ok l \<longleftrightarrow> starts ''  '' l \<and> CHR 0x0A \<notin> set l"

definition block_ok :: "string \<Rightarrow> string list \<Rightarrow> bool" where
  "block_ok alias ls \<longleftrightarrow> (\<forall>l \<in> set ls. line_ok l) \<and> ''  - model_name: '' @ quoted alias \<in> set ls"

lemma quoted_no_newline [simp]: "CHR 0x0A \<notin> set (quoted s)"
  using esc_char_no_newline by (auto simp: str_text_def)

lemma dec_text_no_newline [simp]: "CHR 0x0A \<notin> set (dec_text n)"
proof (induction n rule: dec_text.induct)
  case (1 n)
  have dig: "char_of (48 + nat k) \<noteq> CHR 0x0A" if "k < 10" for k :: int
  proof
    assume "char_of (48 + nat k) = CHR 0x0A"
    then have "of_char (char_of (48 + nat k) :: char) = (10 :: nat)" by simp
    then show False using that by (simp add: of_char_of)
  qed
  have "n mod 10 < 10" by simp
  with 1 dig [of n] dig [of "n mod 10"] show ?case by (subst dec_text.simps) (auto dest: sym)
qed

lemma int_text_no_newline [simp]: "CHR 0x0A \<notin> set (int_text n)"
  by (simp add: int_text_def)

lemma entry_lines_ok:
  assumes "media_deployment dep" and "type_is_int timeout"
  shows "\<exists>ls. entry_lines fr alias dep n key timeout = Inr ls \<and> (CHR 0x0A \<notin> set key \<longrightarrow> block_ok alias ls)"
proof -
  from assms obtain d m e i where d: "dep = JObj d" "get d ''served_model_name'' = JStr m" "get d ''endpoint_env'' = JStr e" "timeout = JInt i"
    by (auto simp: media_deployment_def type_is_int_iff)
  then have "item d ''served_model_name'' = Inr (JStr m)" "item d ''endpoint_env'' = Inr (JStr e)"
    using get_eq_has item_has by (metis json.distinct(7))+
  with d show ?thesis
    by (auto simp: entry_lines_def prefixed_def block_ok_def line_ok_def starts_def)
qed

lemma timeout_ok:
  assumes "\<forall>e \<in> set timeouts. check_timeout e = Inr ()" and "get routes_doc ''timeout_profiles'' = JObj timeouts"
    and "get route ''timeout_profile'' = JStr t" and "has timeouts t"
  shows "\<exists>i. timeout_of routes_doc route = Inr (JInt i)"
proof -
  have "check_timeout (t, get timeouts t) = Inr ()" using assms(1) has_entry [OF assms(4)] by blast
  then obtain d i where d: "get timeouts t = JObj d" "get d ''seconds'' = JInt i"
    by (auto simp: check_timeout_def bindr_Inr_iff obj_Inr pos_int_iff)
  have "item routes_doc ''timeout_profiles'' = Inr (JObj timeouts)" "item route ''timeout_profile'' = Inr (JStr t)" "item d ''seconds'' = Inr (JInt i)"
    using assms(2,3) d(2) by (simp_all add: item_has get_eq_has)
  moreover have "item timeouts t = Inr (JObj d)" using assms(4) d(1) by (simp add: item_has)
  ultimately show ?thesis by (simp add: timeout_of_def)
qed

lemma media_entry_ok:
  assumes "item deps d = Inr dep" and "media_deployment dep" and "timeout_of routes_doc route = Inr (JInt i)"
  shows "\<exists>ls. transcription_entry fr deps routes_doc alias route (n, d) = Inr ls \<and> block_ok alias ls"
    "\<exists>ls. tts_entry fr deps routes_doc alias route (n, d) = Inr ls \<and> block_ok alias ls"
    "\<exists>ls. video_entry fr deps routes_doc alias route (n, d) = Inr ls \<and> block_ok alias ls"
proof -
  have "\<exists>ls. entry_lines fr alias dep n key (JInt i) = Inr ls \<and> (CHR 0x0A \<notin> set key \<longrightarrow> block_ok alias ls)" for key
    by (rule entry_lines_ok) (use assms(2) in simp_all)
  note e = this [of "''os.environ/COMPUTE_API_KEY''"] this [of "quoted ''local''"]
  show "\<exists>ls. transcription_entry fr deps routes_doc alias route (n, d) = Inr ls \<and> block_ok alias ls"
    "\<exists>ls. tts_entry fr deps routes_doc alias route (n, d) = Inr ls \<and> block_ok alias ls"
    "\<exists>ls. video_entry fr deps routes_doc alias route (n, d) = Inr ls \<and> block_ok alias ls"
    using assms(1,3) e
    by (auto simp: transcription_entry_def tts_entry_def video_entry_def block_ok_def line_ok_def starts_def)
qed

lemma priorities_ok:
  assumes "\<And>d. d \<in> set chosen \<Longrightarrow> \<exists>dep b. item deps d = Inr (JObj dep) \<and> get dep ''priority'' = JInt b"
  shows "\<exists>names. ordered deps (JArr (map JStr chosen)) = Inr names \<and> set names = set chosen"
proof -
  let ?f = "\<lambda>d. get (dict_of (get deps d)) ''priority''"
  have key: "bindr (item deps d) (\<lambda>d. subscript d ''priority'') = Inr (?f d)" "\<exists>b. ?f d = JInt b" if "d \<in> set chosen" for d
  proof -
    from assms [OF that] obtain dep b where d: "item deps d = Inr (JObj dep)" "get dep ''priority'' = JInt b" by blast
    then have "get deps d = JObj dep" "item dep ''priority'' = Inr (JInt b)" by (simp_all add: item_Inr_iff map_of_get item_has get_eq_has)
    with d show "bindr (item deps d) (\<lambda>d. subscript d ''priority'') = Inr (?f d)" "\<exists>b. ?f d = JInt b" by simp_all
  qed
  have "map str_of (map JStr chosen) = chosen" by (simp add: comp_def)
  moreover have "\<exists>ys. py_sorted py_less (\<lambda>i. bindr (item deps i) (\<lambda>d. subscript d ''priority'')) chosen = Inr ys"
  proof (rule py_sorted_total [where f = ?f])
    show "\<exists>c. py_less (?f x) (?f y) = Inr c" if "x \<in> set chosen" "y \<in> set chosen" for x y
      using key(2) [OF that(1)] key(2) [OF that(2)] by (auto simp: num_of_def)
  qed (rule key(1))
  ultimately show ?thesis using py_sorted_set unfolding ordered_def by fastforce
qed

text \<open>A route whose entries all render gives lines that are indented and unbroken.\<close>

lemma route_lines_ok:
  assumes "is_str (get route ''state'')" and "get route ''deployments'' = JArr (map JStr chosen)"
    and "\<And>d. d \<in> set chosen \<Longrightarrow> \<exists>dep b. item deps d = Inr (JObj dep) \<and> get dep ''priority'' = JInt b"
    and "\<And>n d. d \<in> set chosen \<Longrightarrow> \<exists>ls. entry alias route (n, d) = Inr ls \<and> block_ok alias ls"
  shows "\<exists>ls. route_lines entry deps (alias, JObj route) = Inr ls \<and> (\<forall>l \<in> set ls. line_ok l)
    \<and> (get route ''state'' \<noteq> JStr ''disabled'' \<and> chosen \<noteq> [] \<longrightarrow> ''  - model_name: '' @ quoted alias \<in> set ls)"
proof -
  have it: "item route ''state'' = Inr (get route ''state'')" "item route ''deployments'' = Inr (JArr (map JStr chosen))"
    using assms(1,2) by (auto simp: item_has get_eq_has is_str_iff)
  obtain names where names: "ordered deps (JArr (map JStr chosen)) = Inr names" "set names = set chosen" using priorities_ok [OF assms(3)] by blast
  have "\<exists>g. \<forall>e \<in> set (enumerate 1 names). entry alias route e = Inr (g e) \<and> block_ok alias (g e)"
    by (rule bchoice) (use assms(4) names(2) in \<open>auto simp: enumerate_eq_zip dest: set_zip_rightD\<close>)
  then obtain g where g: "\<And>e. e \<in> set (enumerate 1 names) \<Longrightarrow> entry alias route e = Inr (g e) \<and> block_ok alias (g e)" by blast
  then have m: "map_res (entry alias route) (enumerate 1 names) = Inr (map g (enumerate 1 names))" by (intro map_res_total) blast
  have "\<forall>l \<in> set (concat (map g (enumerate 1 names))). line_ok l" using g by (fastforce simp: block_ok_def)
  moreover have "''  - model_name: '' @ quoted alias \<in> set (concat (map g (enumerate 1 names)))" if "chosen \<noteq> []"
  proof -
    have "enumerate 1 names \<noteq> []" using that names(2) by (metis length_enumerate length_0_conv set_empty)
    then have "hd (enumerate 1 names) \<in> set (enumerate 1 names)" by simp
    with g show ?thesis unfolding block_ok_def by fastforce
  qed
  ultimately show ?thesis using it names(1) m by (simp add: route_lines_def)
qed

lemma routes_lines_ok:
  assumes "\<And>e. e \<in> set routes \<Longrightarrow> \<exists>ls. route_lines entry deps e = Inr ls \<and> (\<forall>l \<in> set ls. line_ok l) \<and> P e ls"
  shows "\<exists>ls. routes_lines entry deps (JObj routes) = Inr ls \<and> (\<forall>l \<in> set ls. line_ok l) \<and> (\<forall>e \<in> set routes. \<exists>xs. set xs \<subseteq> set ls \<and> P e xs)"
proof -
  have "\<exists>g. \<forall>e \<in> set routes. route_lines entry deps e = Inr (g e) \<and> (\<forall>l \<in> set (g e). line_ok l) \<and> P e (g e)"
    by (rule bchoice) (use assms in blast)
  then obtain g where g: "\<And>e. e \<in> set routes \<Longrightarrow> route_lines entry deps e = Inr (g e) \<and> (\<forall>l \<in> set (g e). line_ok l) \<and> P e (g e)" by blast
  then have "map_res (route_lines entry deps) routes = Inr (map g routes)" by (intro map_res_total) blast
  moreover have "\<forall>e \<in> set routes. set (g e) \<subseteq> set (concat (map g routes))" by auto
  ultimately show ?thesis using g unfolding routes_lines_def by (intro exI [of _ "concat (map g routes)"]) fastforce
qed

text \<open>
  Routes that speak the embeddings protocol also require the embedding capability. The checks do
  not ask for this; rendering relies on it.
\<close>

definition embeddings_consistent :: "dict \<Rightarrow> bool" where
  "embeddings_consistent routes_doc \<longleftrightarrow> (\<forall>(alias, raw) \<in> set (dict_of (get routes_doc ''routes'')).
     JStr ''embeddings'' \<in> set (list_of (get (dict_of raw) ''required_protocols'')) \<longrightarrow>
     JStr ''embedding'' \<in> set (list_of (get (dict_of raw) ''required_capabilities'')))"

lemma artifact_dimensions:
  assumes "validate catalog routes_doc = Inr ()" and "map_of (dict_of (get catalog ''artifacts'')) a = Some (JObj art)"
    and "JStr ''embedding'' \<in> set (list_of (get art ''capabilities''))"
  shows "pos_int (get art ''embedding_dimensions'')"
proof -
  from assms(1) obtain rps arts caps where v: "get catalog ''artifacts'' = JObj arts" "map_res (check_artifact rps) arts = Inr caps"
    by (rule validate_ok) (rule that)
  have "fst y = k" if "check_artifact rps (k, v) = Inr y" for k v y using that by (rule check_artifact_ok) simp
  then obtain cs where "check_artifact rps (a, JObj art) = Inr (a, cs)"
    using map_of_map_res [OF v(2)] assms(2) v(1) by (metis content_simps(3))
  with assms(3) show ?thesis by (elim check_artifact_ok) auto
qed

lemma text_entry_ok:
  assumes valid: "validate catalog routes_doc = Inr ()" and cons: "embeddings_consistent routes_doc"
    and route: "(alias, JObj route) \<in> set (dict_of (get routes_doc ''routes''))" and d: "JStr d \<in> set (list_of (get route ''deployments''))"
    and proto: "get route ''required_protocols'' = JArr (map JStr protocols)" and t: "timeout_of routes_doc route = Inr (JInt i)"
    and dep: "map_of (dict_of (get catalog ''deployments'')) d = Some (JObj dep)" "media_deployment (JObj dep)" "get dep ''context_tokens'' = JInt n"
      "get dep ''artifact'' = JStr a"
  shows "\<exists>ls. text_entry fr catalog (dict_of (get catalog ''deployments'')) routes_doc alias route (k, d) = Inr ls \<and> block_ok alias ls"
proof -
  have e: "\<exists>ls. entry_lines fr alias (JObj dep) k key (JInt i) = Inr ls \<and> (CHR 0x0A \<notin> set key \<longrightarrow> block_ok alias ls)" for key
    by (rule entry_lines_ok) (use dep(2) in simp_all)
  have it: "item (dict_of (get catalog ''deployments'')) d = Inr (JObj dep)" "item route ''required_protocols'' = Inr (JArr (map JStr protocols))"
    "item dep ''context_tokens'' = Inr (JInt n)" "item dep ''artifact'' = Inr (JStr a)"
    using dep proto by (simp_all add: item_Inr_iff has_get get_eq_has)
  show ?thesis
  proof (cases "''embeddings'' \<in> set protocols")
    case False
    obtain ls where ls: "entry_lines fr alias (JObj dep) k ''os.environ/COMPUTE_API_KEY'' (JInt i) = Inr ls" "block_ok alias ls"
      using e [of "''os.environ/COMPUTE_API_KEY''"] by auto
    have "JStr ''embeddings'' \<notin> set (map JStr protocols)" using False by auto
    then have "text_entry fr catalog (dict_of (get catalog ''deployments'')) routes_doc alias route (k, d) = Inr (ls @ [''      stream_timeout: '' @ int_text i])"
      using it(1,2) t ls(1) by (simp add: text_entry_def del: set_map)
    then show ?thesis using ls(2) by (auto simp: block_ok_def line_ok_def starts_def)
  next
    case True
    from route_facts [OF valid route d] obtain dep' art rt where f: "map_of (dict_of (get catalog ''deployments'')) d = Some (JObj dep')"
        "map_of (dict_of (get catalog ''artifacts'')) (str_of (get dep' ''artifact'')) = Some (JObj art)"
        "set (list_of (get route ''required_capabilities'')) \<subseteq> set (list_of (get art ''capabilities'')) \<inter> set (list_of (get rt ''capabilities''))"
      by (elim exE conjE) (rule that)
    have art: "map_of (dict_of (get catalog ''artifacts'')) a = Some (JObj art)"
        "set (list_of (get route ''required_capabilities'')) \<subseteq> set (list_of (get art ''capabilities''))"
      using f dep(1,4) by auto
    have "JStr ''embedding'' \<in> set (list_of (get route ''required_capabilities''))"
      using cons route proto True unfolding embeddings_consistent_def by fastforce
    then have "pos_int (get art ''embedding_dimensions'')" using artifact_dimensions [OF valid art(1)] art(2) by blast
    then obtain m where m: "item art ''embedding_dimensions'' = Inr (JInt m)" by (auto simp: pos_int_iff item_Inr_iff has_get get_eq_has)
    have arts: "item catalog ''artifacts'' = Inr (JObj (dict_of (get catalog ''artifacts'')))"
      using valid by (rule validate_ok) (simp add: item_Inr_iff has_get get_eq_has)
    obtain ls where ls: "entry_lines fr alias (JObj dep) k (quoted ''local'') (JInt i) = Inr ls" "block_ok alias ls"
      using e [of "quoted ''local''"] by auto
    have "JStr ''embeddings'' \<in> set (map JStr protocols)" using True by auto
    then have "text_entry fr catalog (dict_of (get catalog ''deployments'')) routes_doc alias route (k, d) = Inr (ls @ [''    model_info:'', ''      mode: embedding'',
        ''      max_input_tokens: '' @ int_text n, ''      output_vector_size: '' @ int_text m, ''      input_cost_per_token: 0'', ''      output_cost_per_token: 0''])"
      using it t ls(1) arts art(1) m by (simp add: text_entry_def item_Inr_iff [symmetric] del: set_map)
    then show ?thesis using ls(2) by (auto simp: block_ok_def line_ok_def starts_def)
  qed
qed

definition enabled_shown :: "string \<times> json \<Rightarrow> string list \<Rightarrow> bool" where
  "enabled_shown e ls \<longleftrightarrow> (get (dict_of (snd e)) ''state'' \<noteq> JStr ''disabled'' \<and> list_of (get (dict_of (snd e)) ''deployments'') \<noteq> []
     \<longrightarrow> ''  - model_name: '' @ quoted (fst e) \<in> set ls)"

lemma text_routes_ok:
  assumes valid: "validate catalog routes_doc = Inr ()" and cons: "embeddings_consistent routes_doc"
    and e: "e \<in> set (dict_of (get routes_doc ''routes''))"
  shows "\<exists>ls. route_lines (text_entry fr catalog (dict_of (get catalog ''deployments'')) routes_doc) (dict_of (get catalog ''deployments'')) e = Inr ls
    \<and> (\<forall>l \<in> set ls. line_ok l) \<and> enabled_shown e ls"
proof -
  from valid obtain rps arts deps caps timeouts routes where v: "get catalog ''deployments'' = JObj deps" "get routes_doc ''timeout_profiles'' = JObj timeouts"
      "get routes_doc ''routes'' = JObj routes" "\<And>e. e \<in> set deps \<Longrightarrow> check_deployment rps arts e = Inr ()" "\<forall>e \<in> set timeouts. check_timeout e = Inr ()"
      "\<And>e. e \<in> set routes \<Longrightarrow> check_route rps arts deps caps timeouts e = Inr ()"
    by (rule validate_ok) (rule that)
  obtain a raw where ar: "e = (a, raw)" by (cases e)
  have "check_route rps arts deps caps timeouts (a, raw) = Inr ()" using v(6) e ar v(3) by simp
  then obtain route required protocols chosen t where r: "raw = JObj route" "is_str (get route ''state'')" "get route ''required_protocols'' = JArr (map JStr protocols)"
      "get route ''deployments'' = JArr (map JStr chosen)" "get route ''timeout_profile'' = JStr t" "has timeouts t"
      "\<And>d. d \<in> set chosen \<Longrightarrow> check_route_deployment rps arts deps caps a route required protocols d = Inr ()"
    by (rule check_route_ok) (rule that)
  obtain i where i: "timeout_of routes_doc route = Inr (JInt i)" using timeout_ok [OF v(5) v(2) r(5,6)] by blast
  have dep: "\<exists>dep b n a. map_of deps d = Some (JObj dep) \<and> media_deployment (JObj dep) \<and> get dep ''priority'' = JInt b \<and> get dep ''context_tokens'' = JInt n
      \<and> get dep ''artifact'' = JStr a" if "d \<in> set chosen" for d
  proof -
    have "has deps d" using check_choice_ok [OF r(7) [OF that]] by blast
    note en = has_entry [OF this]
    have "check_deployment rps arts (d, get deps d) = Inr ()" using en v(4) by blast
    with en show ?thesis unfolding media_deployment_def by (elim check_deployment_ok) auto
  qed
  have "\<exists>ls. route_lines (text_entry fr catalog deps routes_doc) deps (a, JObj route) = Inr ls \<and> (\<forall>l \<in> set ls. line_ok l)
      \<and> (get route ''state'' \<noteq> JStr ''disabled'' \<and> chosen \<noteq> [] \<longrightarrow> ''  - model_name: '' @ quoted a \<in> set ls)"
  proof (rule route_lines_ok [OF r(2,4)])
    fix d assume "d \<in> set chosen"
    with dep show "\<exists>dep b. item deps d = Inr (JObj dep) \<and> get dep ''priority'' = JInt b" by (fastforce simp: item_Inr_iff)
  next
    fix n d assume d: "d \<in> set chosen"
    from dep [OF this] obtain dep m b where dp: "map_of deps d = Some (JObj dep)" "media_deployment (JObj dep)" "get dep ''context_tokens'' = JInt m" "get dep ''artifact'' = JStr b"
      by blast
    have "\<exists>ls. text_entry fr catalog (dict_of (get catalog ''deployments'')) routes_doc a route (n, d) = Inr ls \<and> block_ok a ls"
      by (rule text_entry_ok [OF valid cons _ _ r(3) i _ dp(2-4)]) (use e ar r(1,4) d dp(1) v(1) in simp_all)
    then show "\<exists>ls. text_entry fr catalog deps routes_doc a route (n, d) = Inr ls \<and> block_ok a ls" using v(1) by simp
  qed
  then show ?thesis using ar r(1,4) v(1) by (simp add: enabled_shown_def)
qed

lemma media_routes_ok:
  assumes deps: "\<forall>(k, raw) \<in> set deps. media_deployment raw" and timeouts: "\<forall>e \<in> set timeouts. check_timeout e = Inr ()"
    and doc: "get routes_doc ''timeout_profiles'' = JObj timeouts" and route: "media_route deps used timeouts a raw good"
    and entry: "\<And>n d dep i route. item deps d = Inr dep \<Longrightarrow> media_deployment dep \<Longrightarrow> timeout_of routes_doc route = Inr (JInt i) \<Longrightarrow>
      \<exists>ls. entry a route (n, d) = Inr ls \<and> block_ok a ls"
  shows "\<exists>ls. route_lines entry deps (a, raw) = Inr ls \<and> (\<forall>l \<in> set ls. line_ok l) \<and> enabled_shown (a, raw) ls"
proof -
  from route obtain r t chosen where r: "raw = JObj r" "is_str (get r ''state'')" "get r ''timeout_profile'' = JStr t" "has timeouts t"
      "get r ''deployments'' = JArr (map JStr chosen)" "\<And>d. d \<in> set chosen \<Longrightarrow> has deps d"
    unfolding media_route_def by blast
  obtain i where i: "timeout_of routes_doc r = Inr (JInt i)" using timeout_ok [OF timeouts doc r(3,4)] by blast
  have dep: "item deps d = Inr (get deps d) \<and> media_deployment (get deps d)" if "d \<in> set chosen" for d
    using has_entry [OF r(6) [OF that]] deps by (auto simp: item_Inr_iff)
  have "\<exists>ls. route_lines entry deps (a, JObj r) = Inr ls \<and> (\<forall>l \<in> set ls. line_ok l)
      \<and> (get r ''state'' \<noteq> JStr ''disabled'' \<and> chosen \<noteq> [] \<longrightarrow> ''  - model_name: '' @ quoted a \<in> set ls)"
  proof (rule route_lines_ok [OF r(2,5)])
    fix d assume "d \<in> set chosen"
    then show "\<exists>dep b. item deps d = Inr (JObj dep) \<and> get dep ''priority'' = JInt b" using dep unfolding media_deployment_def by metis
  next
    fix n d assume "d \<in> set chosen"
    then show "\<exists>ls. entry a r (n, d) = Inr ls \<and> block_ok a ls" using dep entry i by blast
  qed
  then show ?thesis using r(1,5) by (simp add: enabled_shown_def)
qed

lemma enabled_shown_mono: "\<exists>xs. set xs \<subseteq> set ls \<and> enabled_shown e xs \<Longrightarrow> enabled_shown e ls"
  by (auto simp: enabled_shown_def)

lemma media_family_ok:
  assumes deps: "\<forall>(k, raw) \<in> set deps. media_deployment raw" and timeouts: "\<forall>e \<in> set timeouts. check_timeout e = Inr ()"
    and doc: "get routes_doc ''timeout_profiles'' = JObj timeouts" and routes: "\<forall>(a, raw) \<in> set routes. media_route deps used timeouts a raw good"
    and entry: "\<And>a n d dep i route. item deps d = Inr dep \<Longrightarrow> media_deployment dep \<Longrightarrow> timeout_of routes_doc route = Inr (JInt i) \<Longrightarrow>
      \<exists>ls. entry a route (n, d) = Inr ls \<and> block_ok a ls"
  shows "\<exists>ls. routes_lines entry deps (JObj routes) = Inr ls \<and> (\<forall>l \<in> set ls. line_ok l) \<and> (\<forall>e \<in> set routes. enabled_shown e ls)"
proof -
  have "\<exists>ls. route_lines entry deps e = Inr ls \<and> (\<forall>l \<in> set ls. line_ok l) \<and> enabled_shown e ls" if "e \<in> set routes" for e
  proof -
    obtain a raw where ar: "e = (a, raw)" by (cases e)
    with routes that have mr: "media_route deps used timeouts a raw good" by blast
    show ?thesis unfolding ar by (rule media_routes_ok [OF deps timeouts doc mr]) (rule entry; assumption)
  qed
  then have "\<exists>ls. routes_lines entry deps (JObj routes) = Inr ls \<and> (\<forall>l \<in> set ls. line_ok l) \<and> (\<forall>e \<in> set routes. \<exists>xs. set xs \<subseteq> set ls \<and> enabled_shown e xs)"
    by (rule routes_lines_ok)
  then obtain ls where ls: "routes_lines entry deps (JObj routes) = Inr ls" "\<forall>l \<in> set ls. line_ok l" "\<forall>e \<in> set routes. \<exists>xs. set xs \<subseteq> set ls \<and> enabled_shown e xs"
    by (elim exE conjE) (rule that)
  have "\<forall>e \<in> set routes. enabled_shown e ls" by (intro ballI enabled_shown_mono) (use ls(3) in blast)
  with ls(1,2) show ?thesis by (intro exI [of _ ls] conjI)
qed

lemma render_lines_total:
  assumes valid: "validate catalog routes_doc = Inr ()" and cons: "embeddings_consistent routes_doc"
  shows "\<exists>ls. render_lines fr catalog routes_doc = Inr ls \<and> (\<forall>l \<in> set ls. line_ok l)
    \<and> (\<forall>e \<in> set (dict_of (get routes_doc ''routes'') @ family routes_doc ''transcription_routes'' @ family routes_doc ''tts_routes''
          @ family routes_doc ''video_routes''). enabled_shown e ls)"
proof -
  from valid obtain rps arts deps caps timeouts routes where v: "get catalog ''deployments'' = JObj deps" "get routes_doc ''timeout_profiles'' = JObj timeouts"
      "get routes_doc ''routes'' = JObj routes" "\<forall>e \<in> set timeouts. check_timeout e = Inr ()"
      "validate_transcription catalog routes_doc = Inr ()" "validate_tts catalog routes_doc = Inr ()" "validate_video catalog routes_doc = Inr ()"
    by (rule validate_ok) (rule that)
  have d: "dict_of (get routes_doc ''timeout_profiles'') = timeouts" using v(2) by simp
  have it: "item catalog ''deployments'' = Inr (JObj deps)" "item routes_doc ''routes'' = Inr (JObj routes)"
    using v(1,3) by (simp_all add: item_Inr_iff has_get get_eq_has)
  obtain r1 where f1: "get_or routes_doc ''transcription_routes'' (JObj []) = JObj r1"
    using v(5) unfolding validate_transcription_def bindr_Inr_iff obj_Inr by blast
  obtain r2 where f2: "get_or routes_doc ''tts_routes'' (JObj []) = JObj r2"
    using v(6) unfolding validate_tts_def bindr_Inr_iff Let_def obj_Inr by blast
  obtain r3 where f3: "get_or routes_doc ''video_routes'' (JObj []) = JObj r3"
    using v(7) unfolding validate_video_def bindr_Inr_iff Let_def obj_Inr by blast
  have "\<exists>ls. routes_lines (text_entry fr catalog deps routes_doc) deps (JObj routes) = Inr ls \<and> (\<forall>l \<in> set ls. line_ok l)
      \<and> (\<forall>e \<in> set routes. \<exists>xs. set xs \<subseteq> set ls \<and> enabled_shown e xs)"
    by (rule routes_lines_ok) (use text_routes_ok [OF valid cons] v(1,3) in simp)
  then obtain l1 where l1: "routes_lines (text_entry fr catalog deps routes_doc) deps (JObj routes) = Inr l1" "\<forall>l \<in> set l1. line_ok l"
      "\<forall>e \<in> set routes. enabled_shown e l1"
    using enabled_shown_mono by meson
  obtain l2 where l2: "routes_lines (transcription_entry fr (family catalog ''transcription_deployments'') routes_doc) (family catalog ''transcription_deployments'')
        (JObj (family routes_doc ''transcription_routes'')) = Inr l2" "\<forall>l \<in> set l2. line_ok l" "\<forall>e \<in> set (family routes_doc ''transcription_routes''). enabled_shown e l2"
    by atomize_elim (rule media_family_ok [OF transcription_ok(1) [OF v(5)] v(4) v(2) transcription_ok(2) [OF v(5), unfolded d]], rule media_entry_ok(1); assumption)
  have dep: "\<forall>(k, raw) \<in> set (family catalog ''tts_deployments''). media_deployment raw" "\<forall>(k, raw) \<in> set (family catalog ''video_deployments''). media_deployment raw"
    using tts_ok(1) [OF v(6)] video_ok(1) [OF v(7)] by blast+
  obtain l3 where l3: "routes_lines (tts_entry fr (family catalog ''tts_deployments'') routes_doc) (family catalog ''tts_deployments'')
        (JObj (family routes_doc ''tts_routes'')) = Inr l3" "\<forall>l \<in> set l3. line_ok l" "\<forall>e \<in> set (family routes_doc ''tts_routes''). enabled_shown e l3"
    by atomize_elim (rule media_family_ok [OF dep(1) v(4) v(2) tts_ok(2) [OF v(6), unfolded d]], rule media_entry_ok(2); assumption)
  obtain l4 where l4: "routes_lines (video_entry fr (family catalog ''video_deployments'') routes_doc) (family catalog ''video_deployments'')
        (JObj (family routes_doc ''video_routes'')) = Inr l4" "\<forall>l \<in> set l4. line_ok l" "\<forall>e \<in> set (family routes_doc ''video_routes''). enabled_shown e l4"
    by atomize_elim (rule media_family_ok [OF dep(2) v(4) v(2) video_ok(2) [OF v(7), unfolded d]], rule media_entry_ok(3); assumption)
  have "render_lines fr catalog routes_doc = Inr (l1 @ l2 @ l3 @ l4)"
    using it l1(1) l2(1) l3(1) l4(1) by (simp add: render_lines_def render_video_def f1 f2 f3)
  moreover have "enabled_shown e (l1 @ l2 @ l3 @ l4)" if "enabled_shown e l1 \<or> enabled_shown e l2 \<or> enabled_shown e l3 \<or> enabled_shown e l4" for e
    using that by (auto simp: enabled_shown_def)
  then have "\<forall>e \<in> set (routes @ family routes_doc ''transcription_routes'' @ family routes_doc ''tts_routes'' @ family routes_doc ''video_routes'').
      enabled_shown e (l1 @ l2 @ l3 @ l4)"
    using l1(3) l2(3) l3(3) l4(3) unfolding set_append by blast
  moreover have "\<forall>l \<in> set (l1 @ l2 @ l3 @ l4). line_ok l" using l1(2) l2(2) l3(2) l4(2) unfolding set_append by blast
  ultimately show ?thesis unfolding v(3) content_simps by (intro exI [of _ "l1 @ l2 @ l3 @ l4"] conjI)
qed

section \<open>The block in the configuration\<close>

abbreviation LF :: char where
  "LF \<equiv> CHR 0x0A"

text \<open>Where a line begins after a piece of text.\<close>

definition line_start :: "bool \<Rightarrow> string \<Rightarrow> bool" where
  "line_start bol s \<longleftrightarrow> (if s = [] then bol else last s = LF)"

lemma line_start_Cons [simp]: "line_start bol (c # s) = line_start (c = LF) s"
  by (simp add: line_start_def)

lemma line_start_append: "line_start bol (s @ t) = line_start (line_start bol s) t"
  by (simp add: line_start_def)

lemma until_stop_parts:
  "until_stop bol s = Some (p, r) \<Longrightarrow> s = p @ r \<and> starts STOP r \<and> line_start bol p"
  by (induction bol s arbitrary: p rule: until_stop.induct) (auto simp: line_start_def split: if_splits)

lemma until_stop_reaches: "starts STOP r \<Longrightarrow> line_start bol p \<Longrightarrow> until_stop bol (p @ r) \<noteq> None"
proof (induction p arbitrary: bol)
  case Nil
  then show ?case by (cases r) (auto simp: line_start_def starts_def STOP_def)
next
  case (Cons c p)
  then have "until_stop (c = LF) (p @ r) \<noteq> None" by simp
  then show ?case by auto
qed

text \<open>A line \<open>h\<close> begins within \<open>s\<close>, which starts a line and is followed by \<open>t\<close>.\<close>

definition has_line :: "string \<Rightarrow> string \<Rightarrow> string \<Rightarrow> bool" where
  "has_line h s t \<longleftrightarrow> (\<exists>u v. s = u @ v \<and> v \<noteq> [] \<and> line_start True u \<and> starts h (v @ t))"

lemma until_stop_first:
  "until_stop bol s = Some (u @ v, r) \<Longrightarrow> v \<noteq> [] \<Longrightarrow> line_start bol u \<Longrightarrow> \<not> starts STOP (v @ r)"
proof (induction bol s arbitrary: u rule: until_stop.induct)
  case (2 bol c s)
  then have no: "\<not> (bol \<and> starts STOP (c # s))" by (auto split: if_splits)
  then obtain p where p: "until_stop (c = LF) s = Some (p, r)" "u @ v = c # p" using 2(2) by (auto split: if_splits)
  show ?case
  proof (cases u)
    case Nil
    then have "v @ r = c # s" "bol" using p until_stop_append [OF p(1)] 2(4) by (simp_all add: line_start_def)
    with no show ?thesis by simp
  next
    case (Cons d u')
    with p 2(4) have "until_stop (c = LF) s = Some (u' @ v, r)" "line_start (c = LF) u'" by auto
    then show ?thesis using 2(1) [OF no _ 2(3)] by blast
  qed
qed simp

lemma until_stop_none: "until_stop True v = None \<Longrightarrow> \<not> has_line STOP v []"
  using until_stop_reaches unfolding has_line_def by fastforce

lemma until_stop_line:
  "LF \<notin> set l \<Longrightarrow> until_stop False (l @ nl @ r) = map_option (\<lambda>(p, q). (l @ nl @ p, q)) (until_stop True r)"
proof (induction l)
  case (Cons c l)
  then show ?case by (auto simp: option.map_comp comp_def case_prod_beta)
qed simp

lemma until_stop_lines:
  assumes "\<forall>l \<in> set ls. line_ok l"
  shows "until_stop True (concat (map (\<lambda>l. l @ nl) ls) @ r) = map_option (\<lambda>(p, q). (concat (map (\<lambda>l. l @ nl) ls) @ p, q)) (until_stop True r)"
  using assms
proof (induction ls)
  case Nil
  then show ?case by (simp add: option.map_id0 case_prod_beta option.map_ident)
next
  case (Cons l ls)
  then obtain m where l: "l = CHR '' '' # m" "LF \<notin> set m" by (cases l) (auto simp: line_ok_def starts_def)
  let ?b = "concat (map (\<lambda>l. l @ nl) ls)"
  have "until_stop True (l @ nl @ ?b @ r) = map_option (\<lambda>(p, q). (CHR '' '' # p, q)) (until_stop False (m @ nl @ (?b @ r)))"
    by (simp add: l(1) starts_def STOP_def)
  also have "\<dots> = map_option (\<lambda>(p, q). (l @ nl @ p, q)) (until_stop True (?b @ r))"
    unfolding until_stop_line [OF l(2)] by (cases "until_stop True (?b @ r)") (simp_all add: l(1) case_prod_beta)
  also have "\<dots> = map_option (\<lambda>(p, q). (l @ nl @ ?b @ p, q)) (until_stop True r)"
    using Cons by (cases "until_stop True r") (simp_all add: case_prod_beta)
  finally show ?case by simp
qed

text \<open>No line of \<open>q\<close> is the header of the block.\<close>

fun headless :: "bool \<Rightarrow> string \<Rightarrow> bool" where
  "headless bol [] = True"
| "headless bol (c # s) = (\<not> (bol \<and> starts HEAD (c # s)) \<and> headless (c = LF) s)"

lemma starts_line:
  assumes "LF \<notin> set w" and "starts (w @ nl) (q @ t)" and "q \<noteq> []" and "last q = LF"
  shows "starts (w @ nl) q"
  using assms
proof (induction w arbitrary: q)
  case Nil
  then show ?case by (cases q) (auto simp: starts_def)
next
  case (Cons x w)
  then obtain q' where q: "q = x # q'" by (cases q) (auto simp: starts_def)
  with Cons have "q' \<noteq> []" "starts (w @ nl) (q' @ t)" by (auto simp: starts_def)
  with Cons q show ?case by (auto simp: starts_def)
qed

lemma starts_HEAD: "starts HEAD (q @ t) \<Longrightarrow> q \<noteq> [] \<Longrightarrow> last q = LF \<Longrightarrow> starts HEAD q"
  unfolding HEAD_def by (rule starts_line) auto

lemma find_blocks_skip:
  "headless bol q \<Longrightarrow> line_start bol q \<Longrightarrow> find_blocks bol acc (q @ t) = (if q = [] then find_blocks bol acc t else find_blocks True (acc @ q) t)"
proof (induction q arbitrary: bol acc)
  case (Cons c q)
  have "\<not> (bol \<and> starts HEAD ((c # q) @ t))"
    using starts_HEAD [of "c # q" t] Cons.prems by (auto simp: line_start_def)
  then have "find_blocks bol acc ((c # q) @ t) = find_blocks (c = LF) (acc @ [c]) (q @ t)" by auto
  also have "\<dots> = find_blocks True (acc @ c # q) t"
    using Cons.IH [of "c = LF" "acc @ [c]"] Cons.prems by (cases "q = []") (auto simp: line_start_def)
  finally show ?case by simp
qed simp

lemma find_blocks_parts:
  "find_blocks bol acc s = (p, b, r) # bs \<Longrightarrow>
     \<exists>q. s = q @ b @ r \<and> p = acc @ q \<and> headless bol q \<and> line_start bol q \<and> starts STOP r \<and> line_start True b \<and> starts HEAD b \<and> bs = find_blocks True (p @ b) r"
proof (induction bol acc s rule: find_blocks.induct)
  case (2 bol pre c s)
  show ?case
  proof (cases "if bol \<and> starts HEAD (c # s) then until_stop True (drop (length HEAD) (c # s)) else None")
    case None
    with 2 obtain q where q: "s = q @ b @ r" "p = (pre @ [c]) @ q" "headless (c = LF) q" "line_start (c = LF) q" "starts STOP r" "line_start True b" "starts HEAD b"
        "bs = find_blocks True (p @ b) r"
      by auto
    have "\<not> (bol \<and> starts HEAD (c # q))"
    proof
      assume h: "bol \<and> starts HEAD (c # q)"
      then obtain x where x: "c # q = HEAD @ x" by (auto simp: starts_iff)
      have "starts HEAD (c # s)" using x q(1) by (simp add: starts_iff) (metis append.assoc append_Cons)
      then have "until_stop True (drop (length HEAD) (c # s)) = None" using None h by simp
      moreover have "drop (length HEAD) (c # s) = (x @ b) @ r" using x q(1) by (metis append.assoc append_Cons append_eq_conv_conj)
      moreover have "b \<noteq> []" using q(7) by (auto simp: starts_def HEAD_def)
      then have "line_start True (x @ b)" using q(6) by (simp add: line_start_def)
      ultimately show False using until_stop_reaches [OF q(5)] by metis
    qed
    with q show ?thesis by (intro exI [of _ "c # q"]) simp
  next
    case (Some pr)
    obtain u v where uv: "pr = (u, v)" by (cases pr)
    then have cond: "bol" "starts HEAD (c # s)" "until_stop True (drop (length HEAD) (c # s)) = Some (u, v)" using Some by (auto split: if_splits)
    then obtain x where x: "c # s = HEAD @ x" by (auto simp: starts_iff)
    then have "until_stop True x = Some (u, v)" using cond(3) by simp
    note parts = until_stop_parts [OF this]
    have pb: "p = pre" "b = HEAD @ u" "r = v" "bs = find_blocks True (pre @ HEAD @ u) v" using 2(3) Some uv by auto
    have "line_start True (HEAD @ u)" using parts by (auto simp: line_start_def HEAD_def)
    with pb parts x cond(1) show ?thesis
      by (intro exI [of _ "[]"]) (simp add: line_start_def)
  qed
qed simp

lemma find_blocks_body: "find_blocks bol acc s = (p, b, r) # bs \<Longrightarrow> \<exists>x u. b = HEAD @ u \<and> until_stop True x = Some (u, r)"
proof (induction bol acc s rule: find_blocks.induct)
  case (2 bol pre c s)
  then show ?case
    by (cases "if bol \<and> starts HEAD (c # s) then until_stop True (drop (length HEAD) (c # s)) else None")
      (auto split: if_splits)
qed simp

lemma headless_line: "headless bol q \<Longrightarrow> q = u @ v \<Longrightarrow> v \<noteq> [] \<Longrightarrow> line_start bol u \<Longrightarrow> \<not> starts HEAD v"
proof (induction bol q arbitrary: u rule: headless.induct)
  case (2 bol c s)
  show ?case
  proof (cases u)
    case Nil
    then have v: "v = c # s" and b: "bol" using 2(3,5) by (simp_all add: line_start_def)
    from 2(2) b show ?thesis unfolding v by simp
  next
    case (Cons d u')
    with 2(2,3,5) have "headless (c = LF) s" "s = u' @ v" "line_start (c = LF) u'" by simp_all
    then show ?thesis using 2(1,4) by blast
  qed
qed simp

lemma headless_no_head:
  assumes "headless True q" and "line_start True q"
  shows "\<not> has_line HEAD q t"
proof
  assume "has_line HEAD q t"
  then obtain u v where uv: "q = u @ v" "v \<noteq> []" "line_start True u" "starts HEAD (v @ t)" by (auto simp: has_line_def)
  then have "last v = LF" using assms(2) by (simp add: line_start_def split: if_splits)
  then show False using starts_HEAD [OF uv(4,2)] headless_line [OF assms(1) uv(1-3)] by blast
qed

lemma find_blocks_none:
  "find_blocks bol acc s = [] \<Longrightarrow> s = u @ HEAD @ v \<Longrightarrow> line_start bol u \<Longrightarrow> until_stop True v = None"
proof (induction bol acc s arbitrary: u rule: find_blocks.induct)
  case (1 bol pre)
  then show ?case by (simp add: HEAD_def)
next
  case (2 bol pre c s)
  let ?o = "if bol \<and> starts HEAD (c # s) then until_stop True (drop (length HEAD) (c # s)) else None"
  have none: "?o = None" using 2(3) by (cases ?o) (auto split: if_splits)
  show ?case
  proof (cases u)
    case Nil
    with 2(4,5) have "bol" "c # s = HEAD @ v" by (simp_all add: line_start_def)
    with none show ?thesis by (simp add: starts_iff)
  next
    case (Cons d u')
    with 2(4,5) have "s = u' @ HEAD @ v" "line_start (c = LF) u'" by simp_all
    moreover have "find_blocks (c = LF) (pre @ [c]) s = []" using 2(3) none by simp
    ultimately show ?thesis using 2(1) [OF none] by blast
  qed
qed

lemma find_blocks_empty: "find_blocks bol acc s = [] \<Longrightarrow> find_blocks bol acc' s = []"
proof (induction bol acc s arbitrary: acc' rule: find_blocks.induct)
  case (2 bol pre c s)
  then show ?case by (auto split: option.splits prod.splits)
qed simp

lemma find_blocks_head: "until_stop True t = Some (u, r) \<Longrightarrow> find_blocks True pre (HEAD @ t) = (pre, HEAD @ u, r) # find_blocks True (pre @ HEAD @ u) r"
proof -
  assume u: "until_stop True t = Some (u, r)"
  have h: "HEAD @ t = CHR ''m'' # tl HEAD @ t" by (simp add: HEAD_def)
  have "starts HEAD (CHR ''m'' # tl HEAD @ t)" "drop (length HEAD) (CHR ''m'' # tl HEAD @ t) = t"
    unfolding h [symmetric] by simp_all
  with u show ?thesis unfolding h by (simp only: find_blocks.simps if_True simp_thms option.case prod.case)
qed

text \<open>A block of indented lines put where the scan found one is found again.\<close>

lemma find_blocks_replace:
  assumes "find_blocks True [] s = [(pre, b, r)]" and "\<forall>l \<in> set ls. line_ok l"
  shows "find_blocks True [] (pre @ (HEAD @ concat (map (\<lambda>l. l @ nl) ls)) @ r) = [(pre, HEAD @ concat (map (\<lambda>l. l @ nl) ls), r)]"
proof -
  let ?b = "concat (map (\<lambda>l. l @ nl) ls)"
  from find_blocks_parts [OF assms(1)] have q: "headless True pre" "line_start True pre" "starts STOP r" "find_blocks True (pre @ b) r = []" by auto
  have "find_blocks True [] (pre @ HEAD @ ?b @ r) = find_blocks True pre (HEAD @ ?b @ r)"
    using find_blocks_skip [OF q(1,2), of "[]" "HEAD @ ?b @ r"] by (auto split: if_splits)
  moreover have "until_stop True r = Some ([], r)" using q(3) by (cases r) (auto simp: starts_def STOP_def)
  then have "until_stop True (?b @ r) = Some (?b, r)" using until_stop_lines [OF assms(2), of r] by simp
  then have "find_blocks True pre (HEAD @ ?b @ r) = (pre, HEAD @ ?b, r) # find_blocks True (pre @ HEAD @ ?b) r"
    using find_blocks_head [of "?b @ r"] by simp
  ultimately show ?thesis using find_blocks_empty [OF q(4)] by simp
qed

lemma join_lines: "join nl (x # xs) @ nl = concat (map (\<lambda>l. l @ nl) (x # xs))"
proof (induction xs arbitrary: x)
  case (Cons y xs)
  have "join nl (x # y # xs) @ nl = x @ nl @ (join nl (y # xs) @ nl)" by simp
  also have "\<dots> = concat (map (\<lambda>l. l @ nl) (x # y # xs))" unfolding Cons.IH by simp
  finally show ?case .
qed simp

lemma render_model_list_lines:
  "render_lines fr catalog routes_doc = Inr ls \<Longrightarrow> render_model_list fr catalog routes_doc = Inr (HEAD @ concat (map (\<lambda>l. l @ nl) ls))"
  by (simp add: render_model_list_def join_lines HEAD_def)

section \<open>Selecting a candidate keeps the rest\<close>

lemma put_same: "has d k \<Longrightarrow> put d k (get d k) = d"
  by (induction d) (auto simp: has_def get_def get_or_def)

lemma put_put: "put (put d k v) k w = put d k w"
  by (induction d k v rule: put.induct) auto

lemma set_deployments_twice:
  "set_deployments a w (set_deployments a v doc) = set_deployments a w doc"
  by (simp add: set_deployments_def Let_def put_put)

lemma set_deployments_same:
  assumes "get doc ''routes'' = JObj routes" and "get routes a = JObj route" and "has route ''deployments''"
  shows "set_deployments a (get route ''deployments'') doc = doc"
proof -
  have "has doc ''routes''" "has routes a" using assms(1,2) by (auto intro: get_eq_has)
  then show ?thesis using assms put_same by (simp add: set_deployments_def) (metis put_same)
qed

lemma set_deployments_routes:
  assumes "get doc ''routes'' = JObj routes"
  shows "get (dict_of (get (set_deployments a v doc) ''routes'')) b =
    (if b = a then JObj (put (dict_of (get routes a)) ''deployments'' v) else get routes b)"
  using assms by (simp add: set_deployments_def Let_def)

lemma set_deployments_other: "k \<noteq> ''routes'' \<Longrightarrow> get (set_deployments a v doc) k = get doc k"
  by (simp add: set_deployments_def Let_def)

lemma valid_route:
  assumes "validate catalog doc = Inr ()" and "get (dict_of (get doc ''routes'')) a = JObj route"
  shows "\<exists>routes. get doc ''routes'' = JObj routes \<and> get routes a = JObj route \<and> has route ''deployments''"
proof -
  from assms(1) obtain rps arts deps caps timeouts routes where v: "get doc ''routes'' = JObj routes"
      "\<And>e. e \<in> set routes \<Longrightarrow> check_route rps arts deps caps timeouts e = Inr ()"
    by (rule validate_ok) (rule that)
  have r: "get routes a = JObj route" using assms(2) v(1) by simp
  then have "(a, JObj route) \<in> set routes" using has_entry [of routes a] by (simp add: get_eq_has)
  from v(2) [OF this] obtain chosen where "get route ''deployments'' = JArr (map JStr chosen)" by (rule check_route_ok) (rule that; simp)
  then have "has route ''deployments''" by (intro get_eq_has) simp
  with v(1) r show ?thesis by blast
qed

lemma catch_validate:
  "catch (bindS (gets (validate catalog)) lift) is_registry_error (\<lambda>e. bindS (modify f) (\<lambda>_. raise e)) doc =
     (case validate catalog doc of Inr _ \<Rightarrow> (Inr (), doc) | Inl e \<Rightarrow> (Inl e, if is_registry_error e then f doc else doc))"
  by (cases "validate catalog doc") (simp_all add: catch_def eff_defs)

section \<open>Properties of the gateway\<close>

text \<open>
  C18: for every accepted registry whose embedding routes require the embedding capability the
  rendering succeeds, and every enabled route with a deployment appears in it under its alias.
\<close>

theorem render_total:
  assumes "validate catalog routes_doc = Inr ()" and "embeddings_consistent routes_doc"
  shows "\<exists>ls. render_model_list fr catalog routes_doc = Inr (join nl (''model_list:'' # ls) @ nl)
    \<and> (\<forall>(alias, raw) \<in> set (dict_of (get routes_doc ''routes'') @ family routes_doc ''transcription_routes'' @ family routes_doc ''tts_routes''
          @ family routes_doc ''video_routes'').
        get (dict_of raw) ''state'' \<noteq> JStr ''disabled'' \<and> list_of (get (dict_of raw) ''deployments'') \<noteq> []
        \<longrightarrow> ''  - model_name: '' @ quoted alias \<in> set ls)"
proof -
  obtain ls where ls: "render_lines fr catalog routes_doc = Inr ls"
      "\<forall>e \<in> set (dict_of (get routes_doc ''routes'') @ family routes_doc ''transcription_routes'' @ family routes_doc ''tts_routes''
          @ family routes_doc ''video_routes''). enabled_shown e ls"
    using render_lines_total [OF assms, of fr] by (elim exE conjE) (rule that)
  then show ?thesis
    by (intro exI [of _ ls] conjI) (simp add: render_model_list_def, unfold enabled_shown_def case_prod_beta, assumption)
qed

lemma demo_consistent: "embeddings_consistent demo_routes"
  by (simp add: embeddings_consistent_def demo_routes_def demo_text_route_def get_def get_or_def)

theorem render_total_witness:
  "\<exists>t. render_model_list (\<lambda>_. []) demo_catalog demo_routes = Inr t"
  using render_total [OF demo_valid demo_consistent, of "\<lambda>_. []"] by blast

text \<open>
  C16: over an accepted registry whose embeddings routes are consistent, rendering is stable:
  rendering again over a rendered configuration changes nothing, so \<open>check\<close> accepts what \<open>render\<close>
  wrote. What is replaced is exactly the block: it begins with the configuration's first header
  line and ends before the first \<open>litellm_settings\<close> line after it, no other header line of the
  configuration has such a line after it, and the text before and after the block is kept.
\<close>

theorem render_stable:
  assumes "validate catalog routes_doc = Inr ()" and "embeddings_consistent routes_doc"
    and "render_config fr current catalog routes_doc = Inr t"
  shows "render_config fr t catalog routes_doc = Inr t
    \<and> (\<exists>pre body m rest. current = pre @ (HEAD @ body) @ rest \<and> t = pre @ m @ rest \<and> render_model_list fr catalog routes_doc = Inr m
        \<and> line_start True pre \<and> \<not> has_line HEAD pre (HEAD @ body @ rest)
        \<and> line_start True body \<and> \<not> has_line STOP body rest \<and> starts STOP rest
        \<and> (\<forall>u v. rest = u @ HEAD @ v \<and> line_start True u \<longrightarrow> \<not> has_line STOP v []))"
proof -
  obtain ls where ls: "render_lines fr catalog routes_doc = Inr ls" "\<forall>l \<in> set ls. line_ok l"
    using render_lines_total [OF assms(1,2), of fr] by (elim exE conjE) (rule that)
  let ?m = "HEAD @ concat (map (\<lambda>l. l @ nl) ls)"
  note m = render_model_list_lines [OF ls(1)]
  from assms(3) m obtain pre b r where f: "find_blocks True [] current = [(pre, b, r)]" and t: "t = pre @ ?m @ r"
    unfolding render_config_def by (auto split: list.splits)
  from find_blocks_parts [OF f] have parts: "current = pre @ b @ r" "starts STOP r" "headless True pre" "line_start True pre"
      "find_blocks True (pre @ b) r = []" by auto
  from find_blocks_body [OF f] obtain x body where body: "b = HEAD @ body" "until_stop True x = Some (body, r)" by blast
  have "\<not> has_line STOP body r" using until_stop_first body(2) unfolding has_line_def by blast
  moreover have "line_start True body" using until_stop_parts [OF body(2)] by simp
  moreover have "\<not> has_line STOP v []" if "r = u @ HEAD @ v" "line_start True u" for u v
    using find_blocks_none [OF parts(5) that] by (rule until_stop_none)
  moreover have "render_config fr t catalog routes_doc = Inr t"
    using find_blocks_replace [OF f ls(2)] m unfolding t by (simp add: render_config_def)
  ultimately show ?thesis
    using parts(1,2,4) headless_no_head [OF parts(3,4)] t m unfolding body(1)
    by (intro conjI exI [of _ pre] exI [of _ body] exI [of _ ?m] exI [of _ r]) auto
qed

definition demo_config :: string where
  "demo_config = ''general_settings:'' @ nl @ ''model_list:'' @ nl @ ''  - old'' @ nl @ ''litellm_settings:'' @ nl @ ''  x: 1'' @ nl"

theorem render_stable_witness:
  "\<exists>t. render_config (\<lambda>_. []) demo_config demo_catalog demo_routes = Inr t \<and> render_config (\<lambda>_. []) t demo_catalog demo_routes = Inr t"
proof -
  obtain m where m: "render_model_list (\<lambda>_. []) demo_catalog demo_routes = Inr m"
    using render_lines_total [OF demo_valid demo_consistent, of "\<lambda>_. []"] render_model_list_lines by blast
  have "length (find_blocks True [] demo_config) = 1" by code_simp
  then obtain pre b r where "find_blocks True [] demo_config = [(pre, b, r)]" by (auto simp: length_Suc_conv)
  with m have "render_config (\<lambda>_. []) demo_config demo_catalog demo_routes = Inr (pre @ m @ r)" by (simp add: render_config_def)
  from this render_stable [OF demo_valid demo_consistent this] show ?thesis by blast
qed

definition gap_catalog :: dict where
  "gap_catalog = put demo_catalog ''runtime_profiles'' (JObj [(''vllm'', JObj [(''family'', JStr ''vllm''),
     (''supported_protocols'', JArr [JStr ''embeddings'']), (''capabilities'', JArr [JStr ''chat''])])])"

definition gap_routes :: dict where
  "gap_routes = [(''schema_version'', JInt 1), (''timeout_profiles'', JObj [(''home'', JObj [(''seconds'', JInt 30)])]),
     (''routes'', JObj [(''home'', JObj (put (demo_text_route ''active'' ''d1'') ''required_protocols'' (JArr [JStr ''embeddings''])))])]"

text \<open>
  The condition on embedding routes is needed. This registry passes all checks, but its
  rendering raises \<open>KeyError\<close>: the route speaks the embeddings protocol over an artifact that
  declares no embedding dimensions.
\<close>

lemma embedding_gap:
  "validate gap_catalog gap_routes = Inr () \<and> render_model_list fr gap_catalog gap_routes = Inl (KeyError ''embedding_dimensions'')"
proof
  show "validate gap_catalog gap_routes = Inr ()" by code_simp
  show "render_model_list fr gap_catalog gap_routes = Inl (KeyError ''embedding_dimensions'')" by code_simp
qed

text \<open>
  C17: selecting a candidate deployment accepts only an isolated candidate route and an
  operator-on-demand candidate; the result is again an accepted registry in which every other route
  and every other section is what it was, so no active route changes. A registry error leaves the
  routes as they were.
\<close>

theorem select_isolated:
  assumes "select_candidate_deployment catalog alias deployment_id doc = (r, doc')"
  shows "case r of
      Inr d \<Rightarrow> d = doc' \<and> validate catalog doc' = Inr ()
        \<and> get (dict_of (get (dict_of (get doc ''routes'')) alias)) ''state'' = JStr ''candidate''
        \<and> get (dict_of (get (dict_of (get doc' ''routes'')) alias)) ''deployments'' = JArr [JStr deployment_id]
        \<and> get (dict_of (get (dict_of (get catalog ''deployments'')) deployment_id)) ''availability'' = JStr ''candidate''
        \<and> (\<forall>b. b \<noteq> alias \<longrightarrow> get (dict_of (get doc' ''routes'')) b = get (dict_of (get doc ''routes'')) b)
        \<and> (\<forall>k. k \<noteq> ''routes'' \<longrightarrow> get doc' k = get doc k)
    | Inl e \<Rightarrow> is_registry_error e \<longrightarrow> doc' = doc"
proof (cases "validate catalog doc")
  case (Inl e)
  then show ?thesis using assms by (auto simp: select_candidate_deployment_def eff_defs)
next
  case valid: (Inr u)
  let ?route = "get (dict_of (get doc ''routes'')) alias"
  let ?dep = "get (dict_of (get catalog ''deployments'')) deployment_id"
  have or: "dict_of (get_or d k (JObj [])) = dict_of (get d k)" for d k
    by (simp add: get_def get_or_def dict_of_def split: option.splits)
  note run = assms [unfolded select_candidate_deployment_def Let_def or catch_validate]
  let ?guard = "(is_dict ?route \<and> get (dict_of ?route) ''state'' = JStr ''candidate'' \<and> get (dict_of ?route) ''kind'' = JStr ''candidate'') \<and> is_dict ?dep
      \<and> get (dict_of ?dep) ''availability'' = JStr ''candidate'' \<and> get (dict_of ?dep) ''lifecycle'' = JStr ''operator-on-demand''"
  show ?thesis
  proof (cases ?guard)
    case False
    then show ?thesis using run valid by (auto simp: eff_defs split: if_splits)
  next
    case True
    then obtain route where 2: "?route = JObj route" "get route ''state'' = JStr ''candidate''" "get route ''kind'' = JStr ''candidate''" "is_dict ?dep"
        "get (dict_of ?dep) ''availability'' = JStr ''candidate''" "get (dict_of ?dep) ''lifecycle'' = JStr ''operator-on-demand''"
      by (metis content_simps(3) is_dict_iff)
    obtain routes where r: "get doc ''routes'' = JObj routes" "get routes alias = JObj route" "has route ''deployments''"
      using valid_route [of catalog doc "alias" route] valid 2(1) by auto
    let ?new = "set_deployments alias (JArr [JStr deployment_id]) doc"
    have old: "set_deployments alias (get_or route ''deployments'' (JArr [])) ?new = doc"
      using set_deployments_twice set_deployments_same [OF r] r(3) by (simp add: get_def get_or_def has_def split: option.splits)
    have res: "(r, doc') = (case validate catalog ?new of Inr _ \<Rightarrow> (Inr ?new, ?new) | Inl e \<Rightarrow> (Inl e, if is_registry_error e then doc else ?new))"
      using run valid 2 old by (cases "validate catalog ?new") (auto simp: eff_defs catch_validate)
    then show ?thesis
      using 2 r(1,2) set_deployments_routes [OF r(1)] set_deployments_other by (cases "validate catalog ?new") auto
  qed
qed

theorem select_isolated_witness:
  "\<exists>d. select_candidate_deployment demo_catalog ''canary'' ''d2'' demo_routes = (Inr d, d)
     \<and> get (dict_of (get d ''routes'')) ''home'' = get (dict_of (get demo_routes ''routes'')) ''home''"
proof -
  have "\<not> isl (fst (select_candidate_deployment demo_catalog ''canary'' ''d2'' demo_routes))" by code_simp
  then obtain d d' where *: "select_candidate_deployment demo_catalog ''canary'' ''d2'' demo_routes = (Inr d, d')"
    by (metis prod.collapse sum.collapse(2))
  from select_isolated [OF this] have "d = d'" "get (dict_of (get d' ''routes'')) ''home'' = get (dict_of (get demo_routes ''routes'')) ''home''" by auto
  with * show ?thesis by blast
qed

end
