(* ===== verification/Version_Policy.thy ===== *)
theory Version_Policy
  imports Py_Values
begin

text \<open>
  \<open>scripts/infrastructure_update_policy.py\<close>: which maintenance plans need the owner's approval. A
  version text is parsed by the scheme's regular expression, compared with the installed one, and
  classified; a plan takes the gravest classification of its rows.

  A pattern with groups is the list of its top-level pieces; \<open>match_groups\<close> splits the text along
  them, the longest piece first, which is Python's greedy choice. A group that took no part in the
  match is the empty text, as the source reads it (\<open>match[3] or ""\<close>).
\<close>

section \<open>Patterns with groups\<close>

fun first_some :: "('a \<Rightarrow> 'b option) \<Rightarrow> 'a list \<Rightarrow> 'b option" where
  "first_some f [] = None"
| "first_some f (x # xs) = (case f x of None \<Rightarrow> first_some f xs | Some y \<Rightarrow> Some y)"

definition splits :: "string \<Rightarrow> (string \<times> string) list" where
  "splits s = map (\<lambda>n. (take n s, drop n s)) (rev [0..<Suc (length s)])"

primrec match_groups :: "rexp list \<Rightarrow> string \<Rightarrow> string list option" where
  "match_groups [] = (\<lambda>s. if s = [] then Some [] else None)"
| "match_groups (r # rs) = (\<lambda>s. first_some (\<lambda>(u, v). if fullmatch r u then map_option (Cons u) (match_groups rs v) else None) (splits s))"

abbreviation DIGIT :: rexp where
  "DIGIT \<equiv> Cls is_digit"

definition NUMBER :: rexp where
  "NUMBER = Alt (Lit ''0'') (Seq (Cls (between CHR ''1'' CHR ''9'')) (Many DIGIT 0))"

definition SEMVER :: "rexp list" where
  "SEMVER = (let ident = Many (Cls (\<lambda>c. is_alnum c \<or> c = CHR ''-'')) 1 in
     [Opt (Lit ''v''), NUMBER, Lit ''.'', NUMBER, Lit ''.'', NUMBER, Opt (Seq (Lit ''+'') (Seq ident (Many (Seq (Lit ''.'') ident) 0)))])"

definition CALENDAR :: "rexp list" where
  "CALENDAR = [Rep DIGIT 4 4, Lit ''.'', Alt (Cls (between CHR ''1'' CHR ''9'')) (Seq (Lit ''1'') (Cls (between CHR ''0'' CHR ''2''))), Lit ''.'', NUMBER]"

definition NIXOS :: "rexp list" where
  "NIXOS = [Opt (Lit ''nixos-''), Rep DIGIT 2 2, Lit ''.'', Alt (Lit ''05'') (Lit ''11''), Opt (Seq (Lit ''.'') NUMBER)]"

definition DEBIAN :: "rexp list" where
  "DEBIAN = [Opt (Seq NUMBER (Lit '':'')), Seq (Many DIGIT 1) (Many (Seq (Lit ''.'') (Many DIGIT 1)) 0),
     Opt (Seq (Lit ''-'') (Seq DIGIT (Many (Cls (\<lambda>c. is_alnum c \<or> c = CHR ''.'' \<or> c = CHR ''+'')) 0)))]"

text \<open>The groups 1 to 4 of each pattern; the literal around an optional group is not part of it.\<close>

definition parse :: "string \<Rightarrow> string \<Rightarrow> (string \<times> string \<times> string \<times> string) option" where
  "parse scheme s =
     (if scheme = ''semver'' then (case match_groups SEMVER s of Some [v, a, p, b, q, c, build] \<Rightarrow> Some (a, b, c, build) | _ \<Rightarrow> None)
      else if scheme = ''calendar'' then (case match_groups CALENDAR s of Some [a, p, b, q, c] \<Rightarrow> Some (a, b, c, []) | _ \<Rightarrow> None)
      else if scheme = ''nixos'' then (case match_groups NIXOS s of Some [x, a, p, b, c] \<Rightarrow> Some (a, b, drop 1 c, []) | _ \<Rightarrow> None)
      else (case match_groups DEBIAN s of Some [e, u, r] \<Rightarrow> Some (butlast e, u, drop 1 r, []) | _ \<Rightarrow> None))"

section \<open>Versions\<close>

abbreviation SCHEMES :: "string list" where
  "SCHEMES \<equiv> [''semver'', ''calendar'', ''nixos'', ''debian'']"

abbreviation TARGETS :: "string list" where
  "TARGETS \<equiv> [''home-core'', ''home-spark'', ''home-assistant'']"

definition COMPONENT :: "string \<Rightarrow> bool" where
  "COMPONENT s = fullmatch (Seq (Cls is_alnum) (Rep (Cls (\<lambda>c. is_alnum c \<or> c \<in> {CHR ''_'', CHR ''.'', CHR '':'', CHR ''+'', CHR ''-''})) 0 127)) s"

definition decision :: "string \<Rightarrow> string \<Rightarrow> dict" where
  "decision classification reason = [(''classification'', JStr classification),
     (''approval_required'', JBool (classification \<in> {''major'', ''review''})), (''reason'', JStr reason)]"

definition version_text :: "json \<Rightarrow> string res" where
  "version_text v = (case v of JStr s \<Rightarrow> if 1 \<le> length s \<and> int (length s) \<le> 256 \<and> s = py_strip s then Inr s else Inl (ValueError ''bounded exact version text required'')
     | _ \<Rightarrow> Inl (ValueError ''bounded exact version text required''))"

text \<open>\<open>str.isdigit\<close> and \<open>str.isalpha\<close> of one character, on the code points 0 to 255.\<close>

definition isdigit :: "char \<Rightarrow> bool" where
  "isdigit c \<longleftrightarrow> is_digit c \<or> code c = 178 \<or> code c = 179 \<or> code c = 185"

definition isalpha :: "char \<Rightarrow> bool" where
  "isalpha c \<longleftrightarrow> is_lower c \<or> is_upper c \<or> code c = 170 \<or> code c = 181 \<or> code c = 186
     \<or> 192 \<le> code c \<and> code c \<noteq> 215 \<and> code c \<noteq> 247"

text \<open>\<open>order(text[i])\<close>, or of the empty text at the end.\<close>

definition order :: "string \<Rightarrow> nat" where
  "order s = (case s of [] \<Rightarrow> 0 | c # _ \<Rightarrow> if isdigit c then 0 else if isalpha c then code c else code c + 256)"

text \<open>The inner loop over non-digits: a decision, or the two rests at which it stops.\<close>

definition at_text :: "string \<Rightarrow> bool" where
  "at_text s \<longleftrightarrow> s \<noteq> [] \<and> \<not> isdigit (hd s)"

function text_loop :: "string \<Rightarrow> string \<Rightarrow> int + string \<times> string" where
  "text_loop left right =
     (if at_text left \<or> at_text right
      then if order left \<noteq> order right then Inl (if order left > order right then 1 else -1)
        else text_loop (tl left) (tl right)
      else Inr (left, right))"
  by pat_completeness auto
termination
  by (relation "measure (\<lambda>(l, r). length l + length r)") (auto simp: at_text_def neq_Nil_conv)

declare text_loop.simps [simp del]

lemma text_loop_length: "text_loop l r = Inr (l', r') \<Longrightarrow> length l' + length r' \<le> length l + length r \<and> \<not> at_text l' \<and> \<not> at_text r'"
proof (induction l r rule: text_loop.induct)
  case (1 l r)
  show ?case
  proof (cases "at_text l \<or> at_text r")
    case True
    with 1 have "length l' + length r' \<le> length (tl l) + length (tl r) \<and> \<not> at_text l' \<and> \<not> at_text r'"
      by (simp add: text_loop.simps [of l r] split: if_splits)
    then show ?thesis by auto
  qed (use 1(2) in \<open>simp add: text_loop.simps [of l r]\<close>)
qed

lemma digits_shrink: "\<not> at_text s \<Longrightarrow> s \<noteq> [] \<Longrightarrow> length (dropWhile isdigit (dropWhile ((=) CHR ''0'') s)) < length s"
proof -
  assume "\<not> at_text s" "s \<noteq> []"
  then obtain c t where s: "s = c # t" "isdigit c" by (cases s) (auto simp: at_text_def)
  have "length (dropWhile isdigit (dropWhile ((=) CHR ''0'') t)) \<le> length t"
    using length_dropWhile_le [of isdigit "dropWhile ((=) CHR ''0'') t"] length_dropWhile_le [of "(=) CHR ''0''" t] by linarith
  moreover have "length (dropWhile isdigit t) \<le> length t" by (rule length_dropWhile_le)
  ultimately show ?thesis using s by auto
qed

function debian_part_compare :: "string \<Rightarrow> string \<Rightarrow> int" where
  "debian_part_compare left right =
     (if left = [] \<and> right = [] then 0
      else (case text_loop left right of
          Inl c \<Rightarrow> c
        | Inr (l, r) \<Rightarrow>
            (let l0 = dropWhile ((=) CHR ''0'') l; r0 = dropWhile ((=) CHR ''0'') r;
                 a = takeWhile isdigit l0; b = takeWhile isdigit r0
             in if length a \<noteq> length b then (if length a > length b then 1 else -1)
                else if a \<noteq> b then (if lex_less b a then 1 else -1)
                else debian_part_compare (dropWhile isdigit l0) (dropWhile isdigit r0))))"
  by pat_completeness auto
termination
proof (relation "measure (\<lambda>(l, r). length l + length r)")
  fix left right :: string and p l r l0 r0 a b
  assume ne: "\<not> (left = [] \<and> right = [])" and loop: "text_loop left right = Inr p" "(l, r) = p"
    and l0: "l0 = dropWhile ((=) CHR ''0'') l" and r0: "r0 = dropWhile ((=) CHR ''0'') r"
  let ?d = "\<lambda>s. length (dropWhile isdigit (dropWhile ((=) CHR ''0'') s))"
  have le: "?d s \<le> length s" for s
    using length_dropWhile_le [of isdigit "dropWhile ((=) CHR ''0'') s"] length_dropWhile_le [of "(=) CHR ''0''" s] by linarith
  have tl: "length l + length r \<le> length left + length right" "\<not> at_text l" "\<not> at_text r"
    using text_loop_length loop by blast+
  have "?d l + ?d r < length left + length right"
  proof (cases "l = [] \<and> r = []")
    case True
    then show ?thesis using ne by auto
  next
    case False
    then have "?d l < length l \<or> ?d r < length r" using digits_shrink tl(2,3) by blast
    then show ?thesis using le [of l] le [of r] tl(1) by linarith
  qed
  then show "((dropWhile isdigit l0, dropWhile isdigit r0), (left, right)) \<in> measure (\<lambda>(l, r). length l + length r)"
    by (simp add: l0 r0)
qed simp

declare debian_part_compare.simps [simp del]

definition or_zero :: "string \<Rightarrow> string" where
  "or_zero s = (if s = [] then ''0'' else s)"

definition prerelease :: "string \<Rightarrow> bool" where
  "prerelease s = search (Alt (Lit ''alpha'') (Alt (Lit ''beta'') (Alt (Lit ''rc'') (Alt (Lit ''pre'') (Lit ''dev''))))) (py_lower s)"

definition major_of :: "string \<Rightarrow> int" where
  "major_of s = dec_val (hd (split_on CHR ''.'' s))"

definition classify_debian :: "string \<times> string \<times> string \<times> string \<Rightarrow> string \<times> string \<times> string \<times> string \<Rightarrow> dict" where
  "classify_debian old new = (case (old, new) of ((oe, ou, orev, _), (ne, nu, nrev, _)) \<Rightarrow>
     if prerelease orev \<or> prerelease nrev then decision ''review'' ''unknown_or_prerelease''
     else let old_epoch = dec_val (or_zero oe); new_epoch = dec_val (or_zero ne);
         upstream = debian_part_compare nu ou;
         revision = debian_part_compare (or_zero nrev) (or_zero orev);
         comparison = (if old_epoch \<noteq> new_epoch then (if new_epoch > old_epoch then 1 else -1) else if upstream \<noteq> 0 then upstream else revision)
       in if comparison < 0 then decision ''review'' ''downgrade''
          else if comparison = 0 then decision ''unchanged'' ''no_version_change''
          else if new_epoch \<noteq> old_epoch then decision ''major'' ''epoch_changed''
          else if major_of nu \<noteq> major_of ou then decision ''major'' ''major_version_changed''
          else decision ''routine'' ''same_major'')"

definition numbers :: "string \<times> string \<times> string \<times> string \<Rightarrow> int \<times> int \<times> int" where
  "numbers g = (case g of (a, b, c, _) \<Rightarrow> (dec_val (or_zero a), dec_val (or_zero b), dec_val (or_zero c)))"

fun tuple_less :: "int \<times> int \<times> int \<Rightarrow> int \<times> int \<times> int \<Rightarrow> bool" where
  "tuple_less (a, b, c) (x, y, z) = (a < x \<or> a = x \<and> (b < y \<or> b = y \<and> c < z))"

definition build_of :: "string \<times> string \<times> string \<times> string \<Rightarrow> string" where
  "build_of g = snd (snd (snd g))"

definition classify_numbers :: "string \<Rightarrow> string \<times> string \<times> string \<times> string \<Rightarrow> string \<times> string \<times> string \<times> string \<Rightarrow> dict" where
  "classify_numbers scheme old new = (case (numbers old, numbers new) of ((o1, o2, o3), (n1, n2, n3)) \<Rightarrow>
     if tuple_less (n1, n2, n3) (o1, o2, o3) then decision ''review'' ''downgrade''
     else if (n1, n2, n3) = (o1, o2, o3) then
       (if scheme = ''semver'' \<and> build_of old \<noteq> build_of new then decision ''review'' ''unordered_build_metadata''
        else decision ''unchanged'' ''no_version_change'')
     else if scheme = ''calendar'' \<and> (n1, n2) \<noteq> (o1, o2) then decision ''major'' ''calendar_release_changed''
     else if scheme = ''nixos'' \<and> (n1, n2) \<noteq> (o1, o2) then decision ''major'' ''release_channel_changed''
     else if scheme = ''semver'' \<and> n1 \<noteq> o1 then decision ''major'' ''major_version_changed''
     else if scheme = ''semver'' \<and> o1 = 0 \<and> n2 \<noteq> o2 then decision ''major'' ''unstable_minor_changed''
     else decision ''routine'' (if scheme = ''semver'' then ''same_major'' else ''same_release''))"

definition classify_version :: "json \<Rightarrow> json \<Rightarrow> json \<Rightarrow> dict res" where
  "classify_version installed candidate scheme =
     bindr (version_text installed) (\<lambda>i.
     bindr (version_text candidate) (\<lambda>c.
     bindr (require (is_str scheme \<and> str_of scheme \<in> set SCHEMES) (ValueError ''version scheme outside reviewed policy'')) (\<lambda>_.
     Inr (case (parse (str_of scheme) i, parse (str_of scheme) c) of
         (Some old, Some new) \<Rightarrow> if str_of scheme = ''debian'' then classify_debian old new else classify_numbers (str_of scheme) old new
       | _ \<Rightarrow> decision ''review'' ''unknown_or_prerelease''))))"

section \<open>Plans\<close>

fun classify_rows :: "string list \<Rightarrow> json list \<Rightarrow> dict list res" where
  "classify_rows seen [] = Inr []"
| "classify_rows seen (raw # rest) =
     bindr (require (is_dict raw \<and> same_keys (dict_of raw) [''component'', ''scheme'', ''installed'', ''candidate''])
       (ValueError ''exact component version metadata required'')) (\<lambda>_.
     let row = dict_of raw; component = get row ''component'' in
     bindr (require (is_str component \<and> COMPONENT (str_of component) \<and> str_of component \<notin> set seen)
       (ValueError ''unique finite component identifier required'')) (\<lambda>_.
     bindr (classify_version (get row ''installed'') (get row ''candidate'') (get row ''scheme'')) (\<lambda>d.
     bindr (classify_rows (str_of component # seen) rest) (\<lambda>rows. Inr (merge row d # rows)))))"

definition has_class :: "string \<Rightarrow> dict \<Rightarrow> bool" where
  "has_class c row \<longleftrightarrow> get row ''classification'' = JStr c"

definition plan_result :: "string \<Rightarrow> dict list \<Rightarrow> dict" where
  "plan_result operation rows =
     (if operation = ''fix'' then decision ''review'' ''fix_requires_approval''
      else if list_ex (has_class ''review'') rows then decision ''review'' ''review_required''
      else if list_ex (has_class ''major'') rows then decision ''major'' ''review_required''
      else if list_all (has_class ''unchanged'') rows then decision ''unchanged'' ''no_version_change''
      else decision ''routine'' ''all_same_release'')"

definition classify_plan :: "json \<Rightarrow> dict res" where
  "classify_plan plan =
     bindr (require (is_dict plan \<and> same_keys (dict_of plan) [''operation'', ''target'', ''updates''])
       (ValueError ''exact operation, target and update metadata required'')) (\<lambda>_.
     let operation = get (dict_of plan) ''operation''; target = get (dict_of plan) ''target''; updates = get (dict_of plan) ''updates'' in
     bindr (require (is_str operation \<and> str_of operation \<in> {''update'', ''fix''}) (ValueError ''operation outside update/fix policy'')) (\<lambda>_.
     bindr (require (is_str target \<and> str_of target \<in> set TARGETS) (ValueError ''target outside reviewed infrastructure'')) (\<lambda>_.
     bindr (require (is_list updates \<and> int (length (list_of updates)) \<le> 4096 \<and> \<not> (operation = JStr ''update'' \<and> list_of updates = []))
       (ValueError ''bounded explicit component updates required'')) (\<lambda>_.
     bindr (classify_rows [] (list_of updates)) (\<lambda>rows.
     Inr ([(''operation'', operation), (''target'', target)] @ plan_result (str_of operation) rows @ [(''updates'', JArr (map JObj rows))]))))))"

section \<open>The sort key of a Debian version\<close>

text \<open>
  A version as a list of numbers: the letters of a text part, 0, the number of digits that follow
  without leading zeros, the digits, and so on. \<open>key_cmp\<close> compares two lists from the left, a list
  that has ended counting as zeros. \<open>debian_part_compare\<close> compares the keys.
\<close>

definition tail :: "string \<Rightarrow> string" where
  "tail s = dropWhile isdigit (dropWhile ((=) CHR ''0'') (dropWhile (\<lambda>c. \<not> isdigit c) s))"

definition digits_of :: "string \<Rightarrow> string" where
  "digits_of s = takeWhile isdigit (dropWhile ((=) CHR ''0'') (dropWhile (\<lambda>c. \<not> isdigit c) s))"

definition letter :: "char \<Rightarrow> nat" where
  "letter c = order [c]"

lemma tail_shorter: "s \<noteq> [] \<Longrightarrow> length (tail s) < length s"
proof -
  assume ne: "s \<noteq> []"
  let ?t = "dropWhile (\<lambda>c. \<not> isdigit c) s"
  have "\<not> at_text ?t" using hd_dropWhile [of "\<lambda>c. \<not> isdigit c" s] by (auto simp: at_text_def)
  note shrink = digits_shrink [OF this] length_dropWhile_le [of "\<lambda>c. \<not> isdigit c" s]
  show ?thesis
  proof (cases "?t = []")
    case True
    show ?thesis unfolding tail_def True using ne by simp
  next
    case False
    show ?thesis unfolding tail_def using shrink(1) [OF False] shrink(2) by linarith
  qed
qed

function version_key :: "string \<Rightarrow> nat list" where
  "version_key s = (if s = [] then [] else
     map letter (takeWhile (\<lambda>c. \<not> isdigit c) s) @ [0, length (digits_of s)] @ map code (digits_of s) @ version_key (tail s))"
  by pat_completeness auto
termination
  by (relation "measure length") (auto simp: tail_shorter)

declare version_key.simps [simp del]

fun key_cmp :: "nat list \<Rightarrow> nat list \<Rightarrow> int" where
  "key_cmp [] [] = 0"
| "key_cmp (a # as) [] = (if 0 < a then 1 else key_cmp as [])"
| "key_cmp [] (b # bs) = (if 0 < b then -1 else key_cmp [] bs)"
| "key_cmp (a # as) (b # bs) = (if a > b then 1 else if a < b then -1 else key_cmp as bs)"

lemma key_cmp_refl [simp]: "key_cmp as as = 0"
  by (induction as) auto

lemma key_cmp_antisym: "key_cmp bs as = - key_cmp as bs"
  by (induction as bs rule: key_cmp.induct) auto

lemma key_cmp_range: "key_cmp as bs \<in> {-1, 0, 1}"
  by (induction as bs rule: key_cmp.induct) auto

lemma key_cmp_zeros: "key_cmp [0, 0] ys = key_cmp [] ys" "key_cmp ys [0, 0] = key_cmp ys []"
proof -
  show left: "key_cmp [0, 0] ys = key_cmp [] ys"
  proof (cases ys)
    case (Cons y zs)
    then show ?thesis by (cases zs) auto
  qed simp
  show "key_cmp ys [0, 0] = key_cmp ys []"
    unfolding key_cmp_antisym [of ys "[0, 0]"] key_cmp_antisym [of ys "[]"] left by (rule refl)
qed

lemma key_cmp_append [simp]: "key_cmp (xs @ as) (xs @ bs) = key_cmp as bs"
  by (induction xs) auto

lemma key_cmp_trans: "key_cmp as bs \<le> 0 \<Longrightarrow> key_cmp bs cs \<le> 0 \<Longrightarrow> key_cmp as cs \<le> 0"
proof (induction as bs arbitrary: cs rule: key_cmp.induct)
  case (2 a as)
  then show ?case by (cases cs) (auto split: if_splits)
next
  case (3 b bs)
  then show ?case by (cases cs) (auto split: if_splits)
next
  case (4 a as b bs)
  then have ab: "a \<le> b" by (auto split: if_splits)
  show ?case
  proof (cases "a = b")
    case True
    with 4 have ih: "key_cmp bs ds \<le> 0 \<Longrightarrow> key_cmp as ds \<le> 0" for ds by simp
    show ?thesis using 4(3) True ih by (cases cs) (simp_all split: if_splits)
  next
    case False
    then show ?thesis using 4(3) ab by (cases cs) (simp_all split: if_splits)
  qed
qed simp

text \<open>The inner loop decides on the letters, and stops at the digits of both.\<close>

lemma order_Cons: "order (c # s) = (if isdigit c then 0 else letter c)"
  by (simp add: order_def letter_def)

lemma letter_pos: "\<not> isdigit c \<Longrightarrow> 0 < letter c"
proof -
  assume nd: "\<not> isdigit c"
  have "code c \<noteq> 0" if "isalpha c"
    using that by (auto simp: isalpha_def between_def code_def less_eq_char_def)
  then show ?thesis using nd by (auto simp: letter_def order_def)
qed

abbreviation letters :: "string \<Rightarrow> nat list" where
  "letters s \<equiv> map letter (takeWhile (\<lambda>c. \<not> isdigit c) s)"

lemma letters_tl: "at_text s \<Longrightarrow> letters s = order s # letters (tl s) \<and> dropWhile (\<lambda>c. \<not> isdigit c) s = dropWhile (\<lambda>c. \<not> isdigit c) (tl s)"
  by (cases s) (auto simp: at_text_def order_Cons)

lemma letters_stop: "\<not> at_text s \<Longrightarrow> letters s = [] \<and> dropWhile (\<lambda>c. \<not> isdigit c) s = s \<and> order s = 0"
  by (cases s) (auto simp: at_text_def order_def)

lemma order_at_text: "at_text s \<Longrightarrow> 0 < order s"
  by (cases s) (auto simp: at_text_def order_Cons letter_pos)

lemma text_loop_key:
  "case text_loop l r of Inl c \<Rightarrow> \<forall>x y. key_cmp (letters l @ 0 # x) (letters r @ 0 # y) = c
     | Inr (l', r') \<Rightarrow> letters l = letters r \<and> l' = dropWhile (\<lambda>c. \<not> isdigit c) l \<and> r' = dropWhile (\<lambda>c. \<not> isdigit c) r"
proof (induction l r rule: text_loop.induct)
  case (1 l r)
  show ?case
  proof (cases "at_text l \<or> at_text r")
    case False
    then show ?thesis using letters_stop [of l] letters_stop [of r] by (simp add: text_loop.simps [of l r])
  next
    case T: True
    show ?thesis
    proof (cases "order l = order r")
      case True
      then have both: "at_text l" "at_text r" using T letters_stop order_at_text by (metis less_irrefl)+
      have "text_loop l r = text_loop (tl l) (tl r)" using T True by (simp add: text_loop.simps [of l r])
      then show ?thesis using 1 [OF T] True letters_tl [OF both(1)] letters_tl [OF both(2)] by (auto split: sum.splits)
    next
      case False
      then have loop: "text_loop l r = Inl (if order l > order r then 1 else -1)" using T by (simp add: text_loop.simps [of l r])
      have "\<exists>t. letters l @ 0 # x = order l # t" for x using letters_tl [of l] letters_stop [of l] by (cases "at_text l") auto
      moreover have "\<exists>t. letters r @ 0 # y = order r # t" for y using letters_tl [of r] letters_stop [of r] by (cases "at_text r") auto
      ultimately have "key_cmp (letters l @ 0 # x) (letters r @ 0 # y) = (if order l > order r then 1 else -1)" for x y
        using False by (metis key_cmp.simps(4) linorder_neqE_nat)
      then show ?thesis using loop by simp
    qed
  qed
qed

lemma key_cmp_digits: "length a = length b \<Longrightarrow> a \<noteq> b \<Longrightarrow> key_cmp (map code a @ x) (map code b @ y) = (if lex_less b a then 1 else -1)"
proof (induction a b rule: list_induct2)
  case (Cons c a d b)
  then show ?case by (auto simp: code_def less_char_def)
qed simp

definition key_of :: "string \<Rightarrow> nat list" where
  "key_of s = letters s @ [0, length (digits_of s)] @ map code (digits_of s) @ version_key (tail s)"

lemma key_cmp_key_of: "key_cmp (version_key s) ys = key_cmp (key_of s) ys" "key_cmp ys (version_key s) = key_cmp ys (key_of s)"
proof -
  have nil: "version_key [] = []" by (subst version_key.simps) simp
  then have "key_of [] = [0, 0]" by (simp add: key_of_def digits_of_def tail_def)
  moreover have "version_key s = key_of s" if "s \<noteq> []"
    unfolding key_of_def using that by (subst version_key.simps) simp
  ultimately show "key_cmp (version_key s) ys = key_cmp (key_of s) ys" "key_cmp ys (version_key s) = key_cmp ys (key_of s)"
    by (cases "s = []"; simp only: nil key_cmp_zeros)+
qed

lemma debian_key: "debian_part_compare l r = key_cmp (version_key l) (version_key r)"
proof (induction l r rule: debian_part_compare.induct)
  case (1 l r)
  show ?case
  proof (cases "l = [] \<and> r = []")
    case True
    then show ?thesis by (simp add: debian_part_compare.simps)
  next
    case ne: False
    show ?thesis
    proof (cases "text_loop l r")
      case (Inl c)
      then have "key_cmp (key_of l) (key_of r) = c" using text_loop_key [of l r] unfolding key_of_def by simp
      moreover have "debian_part_compare l r = c" using Inl ne by (subst debian_part_compare.simps) auto
      ultimately show ?thesis by (simp add: key_cmp_key_of)
    next
      case (Inr p)
      obtain l' r' where p: "p = (l', r')" by (cases p)
      then have k: "letters l = letters r" "l' = dropWhile (\<lambda>c. \<not> isdigit c) l" "r' = dropWhile (\<lambda>c. \<not> isdigit c) r"
        using text_loop_key [of l r] Inr by simp_all
      have step: "debian_part_compare l r = (if length (digits_of l) \<noteq> length (digits_of r) then (if length (digits_of l) > length (digits_of r) then 1 else -1)
          else if digits_of l \<noteq> digits_of r then (if lex_less (digits_of r) (digits_of l) then 1 else -1)
          else debian_part_compare (tail l) (tail r))"
        using ne Inr p k(2,3) by (subst debian_part_compare.simps) (auto simp: Let_def digits_of_def tail_def)
      have ih: "debian_part_compare (tail l) (tail r) = key_cmp (version_key (tail l)) (version_key (tail r))" if "digits_of l = digits_of r"
        using 1 [OF ne Inr p [symmetric] refl refl refl refl] that k(2,3) by (simp add: digits_of_def tail_def)
      have "key_cmp (key_of l) (key_of r) = debian_part_compare l r"
        unfolding step key_of_def k(1) using ih key_cmp_digits [of "digits_of l" "digits_of r"] by auto
      then show ?thesis by (simp add: key_cmp_key_of)
    qed
  qed
qed

section \<open>Classifications\<close>

lemma decision_get [simp]:
  "get (decision c r) ''classification'' = JStr c" "get (decision c r) ''reason'' = JStr r"
  "get (decision c r) ''approval_required'' = JBool (c \<in> {''major'', ''review''})"
  by (simp_all add: decision_def get_def get_or_def)

lemma version_text_Inr: "version_text v = Inr s \<longleftrightarrow> v = JStr s \<and> 1 \<le> length s \<and> int (length s) \<le> 256 \<and> s = py_strip s"
  by (cases v) (auto simp: version_text_def)

definition upgrade :: "dict \<Rightarrow> bool" where
  "upgrade d \<longleftrightarrow> get d ''classification'' \<in> {JStr ''routine'', JStr ''major''}"

lemma compare_swap: "debian_part_compare r l = - debian_part_compare l r"
  unfolding debian_key by (rule key_cmp_antisym)

definition deb_cmp :: "string \<times> string \<times> string \<times> string \<Rightarrow> string \<times> string \<times> string \<times> string \<Rightarrow> int" where
  "deb_cmp old new = (case (old, new) of ((oe, ou, orev, _), (ne, nu, nrev, _)) \<Rightarrow>
     if dec_val (or_zero oe) \<noteq> dec_val (or_zero ne) then (if dec_val (or_zero ne) > dec_val (or_zero oe) then 1 else -1)
     else if debian_part_compare nu ou \<noteq> 0 then debian_part_compare nu ou else debian_part_compare (or_zero nrev) (or_zero orev))"

lemma deb_cmp_swap: "deb_cmp new old = - deb_cmp old new"
proof -
  obtain oe ou orev ob ne nu nrev nb where e: "old = (oe, ou, orev, ob)" "new = (ne, nu, nrev, nb)" by (cases old; cases new)
  show ?thesis unfolding e deb_cmp_def prod.case using compare_swap [of ou nu] compare_swap [of "or_zero orev" "or_zero nrev"] by auto
qed

lemma classify_debian_alt:
  "classify_debian old new =
     (if prerelease (fst (snd (snd old))) \<or> prerelease (fst (snd (snd new))) then decision ''review'' ''unknown_or_prerelease''
      else if deb_cmp old new < 0 then decision ''review'' ''downgrade''
      else if deb_cmp old new = 0 then decision ''unchanged'' ''no_version_change''
      else if dec_val (or_zero (fst new)) \<noteq> dec_val (or_zero (fst old)) then decision ''major'' ''epoch_changed''
      else if major_of (fst (snd new)) \<noteq> major_of (fst (snd old)) then decision ''major'' ''major_version_changed''
      else decision ''routine'' ''same_major'')"
  by (cases old; cases new) (simp add: classify_debian_def deb_cmp_def Let_def)

lemma numbers_swap: "x \<noteq> y \<Longrightarrow> \<not> tuple_less x y \<Longrightarrow> tuple_less y x"
  by (cases x; cases y) auto

lemma classify_numbers_upgrade: "upgrade (classify_numbers scheme old new) \<Longrightarrow> tuple_less (numbers old) (numbers new)"
  using numbers_swap [of "numbers old" "numbers new"]
  by (cases "numbers old"; cases "numbers new") (auto simp: classify_numbers_def upgrade_def split: if_splits)

lemma classify_numbers_downgrade: "tuple_less (numbers new) (numbers old) \<Longrightarrow> classify_numbers scheme old new = decision ''review'' ''downgrade''"
  by (cases "numbers old"; cases "numbers new") (simp add: classify_numbers_def)

lemma classify_versionE:
  assumes "classify_version installed candidate scheme = Inr d"
  obtains i c s where "installed = JStr i" "candidate = JStr c" "scheme = JStr s" "s \<in> set SCHEMES" "version_text installed = Inr i" "version_text candidate = Inr c"
    "d = (case (parse s i, parse s c) of (Some old, Some new) \<Rightarrow> if s = ''debian'' then classify_debian old new else classify_numbers s old new
       | _ \<Rightarrow> decision ''review'' ''unknown_or_prerelease'')"
proof -
  from assms obtain i c where v: "version_text installed = Inr i" "version_text candidate = Inr c"
      and s: "is_str scheme \<and> str_of scheme \<in> set SCHEMES"
      and d: "(case (parse (str_of scheme) i, parse (str_of scheme) c) of (Some old, Some new) \<Rightarrow> if str_of scheme = ''debian'' then classify_debian old new else classify_numbers (str_of scheme) old new
         | _ \<Rightarrow> decision ''review'' ''unknown_or_prerelease'') = d"
    unfolding classify_version_def bindr_Inr_iff require_Inr_iff Let_def by (elim exE conjE) (rule that, assumption, assumption, (rule conjI; assumption), rule sum.inject(2) [THEN iffD1])
  from s obtain t where t: "scheme = JStr t" by (auto simp: is_str_iff)
  have st: "str_of scheme = t" by (simp add: t)
  show thesis
  proof (rule that [of i c t])
    show "installed = JStr i" "candidate = JStr c" using v by (simp_all add: version_text_Inr)
    show "t \<in> set SCHEMES" using s unfolding st ..
    show "scheme = JStr t" "version_text installed = Inr i" "version_text candidate = Inr c" by fact+
  qed (rule d [symmetric, unfolded st])
qed

abbreviation classes :: "string list" where
  "classes \<equiv> [''routine'', ''unchanged'', ''major'', ''review'']"

definition decided :: "dict \<Rightarrow> bool" where
  "decided d \<longleftrightarrow> (\<exists>k \<in> set classes. \<exists>x. d = decision k x)"

lemma decidedI [intro]: "k \<in> set classes \<Longrightarrow> decided (decision k x)" "decided d \<Longrightarrow> decided e \<Longrightarrow> decided (if b then d else e)"
  unfolding decided_def by (blast, simp)

lemma debian_decided: "decided (classify_debian old new)"
  unfolding classify_debian_alt by (intro decidedI) simp_all

lemma numbers_decided: "decided (classify_numbers s old new)"
proof -
  obtain a b c d e f where n: "numbers old = (a, b, c)" "numbers new = (d, e, f)" by (cases "numbers old"; cases "numbers new")
  show ?thesis unfolding classify_numbers_def n prod.case by (intro decidedI) simp_all
qed

lemma classify_version_decided:
  assumes "classify_version a b scheme = Inr d" shows "decided d"
  using assms
proof (rule classify_versionE)
  fix i c s
  assume d: "d = (case (parse s i, parse s c) of (Some old, Some new) \<Rightarrow> if s = ''debian'' then classify_debian old new else classify_numbers s old new
       | _ \<Rightarrow> decision ''review'' ''unknown_or_prerelease'')"
  have "decided (decision ''review'' ''unknown_or_prerelease'')" by (rule decidedI) simp
  then show ?thesis unfolding d using debian_decided numbers_decided by (simp split: option.split)
qed

lemma classify_version_classes:
  assumes "classify_version a b scheme = Inr d"
  shows "get d ''classification'' \<in> {JStr ''routine'', JStr ''unchanged'', JStr ''major'', JStr ''review''}
    \<and> get d ''approval_required'' = JBool (get d ''classification'' \<in> {JStr ''major'', JStr ''review''})"
  using classify_version_decided [OF assms] by (auto simp: decided_def)

section \<open>Properties of the policy\<close>

text \<open>
  C22: the comparison of Debian version parts is the comparison of their sort keys, and so a total
  preorder: it changes sign when its arguments are exchanged, and it is transitive.
\<close>

theorem debian_order:
  "debian_part_compare l r = key_cmp (version_key l) (version_key r) \<and> debian_part_compare r l = - debian_part_compare l r
   \<and> (debian_part_compare l r \<le> 0 \<and> debian_part_compare r m \<le> 0 \<longrightarrow> debian_part_compare l m \<le> 0)"
proof (intro conjI impI)
  show "debian_part_compare l r = key_cmp (version_key l) (version_key r)" by (rule debian_key)
  show "debian_part_compare r l = - debian_part_compare l r" by (rule compare_swap)
  show "debian_part_compare l m \<le> 0" if "debian_part_compare l r \<le> 0 \<and> debian_part_compare r m \<le> 0"
    using that key_cmp_trans unfolding debian_key by blast
qed

theorem debian_order_witness:
  "debian_part_compare ''1.9'' ''1.10'' \<le> 0 \<and> debian_part_compare ''1.10'' ''1.010a'' \<le> 0 \<and> debian_part_compare ''1.9'' ''1.010a'' \<le> 0"
proof -
  have "debian_part_compare ''1.9'' ''1.10'' \<le> 0" "debian_part_compare ''1.10'' ''1.010a'' \<le> 0" by code_simp+
  then show ?thesis using debian_order [of "''1.9''" "''1.10''" "''1.010a''"] by blast
qed

text \<open>
  No pair of versions is an upgrade both ways. If replacing \<open>a\<close> by \<open>b\<close> is classified as
  routine or major, then replacing \<open>b\<close> by \<open>a\<close> is a downgrade that needs review, under every scheme.
\<close>

theorem upgrade_one_way:
  assumes "classify_version a b scheme = Inr d" and "get d ''classification'' \<in> {JStr ''routine'', JStr ''major''}"
  shows "classify_version b a scheme = Inr (decision ''review'' ''downgrade'')"
proof -
  from assms(1) obtain i c s where e: "a = JStr i" "b = JStr c" "scheme = JStr s" "s \<in> set SCHEMES" "version_text a = Inr i" "version_text b = Inr c"
      "d = (case (parse s i, parse s c) of (Some old, Some new) \<Rightarrow> if s = ''debian'' then classify_debian old new else classify_numbers s old new
         | _ \<Rightarrow> decision ''review'' ''unknown_or_prerelease'')"
    by (rule classify_versionE)
  have up: "upgrade d" using assms(2) by (simp add: upgrade_def)
  obtain old new where p: "parse s i = Some old" "parse s c = Some new" using e(7) up by (auto simp: upgrade_def split: option.splits)
  have "(if s = ''debian'' then classify_debian new old else classify_numbers s new old) = decision ''review'' ''downgrade''"
  proof (cases "s = ''debian''")
    case True
    then have "upgrade (classify_debian old new)" using e(7) p up by simp
    then have "0 < deb_cmp old new" "\<not> prerelease (fst (snd (snd old)))" "\<not> prerelease (fst (snd (snd new)))"
      by (auto simp: classify_debian_alt upgrade_def split: if_splits)
    then show ?thesis using True deb_cmp_swap [of new old] by (simp add: classify_debian_alt)
  next
    case False
    then show ?thesis using e(7) p up classify_numbers_upgrade classify_numbers_downgrade by simp
  qed
  moreover have "is_str scheme \<and> str_of scheme \<in> set SCHEMES" "str_of scheme = s" using e(3,4) by simp_all
  ultimately show ?thesis unfolding classify_version_def using e(5,6) p by (cases "s = ''debian''") (simp_all del: set_simps)
qed

theorem upgrade_one_way_witness:
  "classify_version (JStr ''1.5.0'') (JStr ''v1.4.2'') (JStr ''semver'') = Inr (decision ''review'' ''downgrade'')"
proof -
  have "classify_version (JStr ''v1.4.2'') (JStr ''1.5.0'') (JStr ''semver'') = Inr (decision ''routine'' ''same_major'')" by code_simp
  from upgrade_one_way [OF this] show ?thesis by simp
qed

text \<open>
  C21: a routine classification needs no approval and means what it says: both texts parse under the
  scheme, the candidate is strictly newer, and it stays within the release - the same major version
  (and minor, below 1.0) for semantic versions, the same year and month or channel for calendar and
  NixOS versions, the same epoch and major version, without a prerelease mark, for Debian.
\<close>

theorem routine_sound:
  assumes "classify_version installed candidate scheme = Inr d" and "get d ''classification'' = JStr ''routine''"
  shows "\<exists>i c s old new. installed = JStr i \<and> candidate = JStr c \<and> scheme = JStr s \<and> parse s i = Some old \<and> parse s c = Some new
    \<and> get d ''approval_required'' = JBool False
    \<and> (if s = ''debian'' then 0 < deb_cmp old new \<and> dec_val (or_zero (fst old)) = dec_val (or_zero (fst new)) \<and> major_of (fst (snd old)) = major_of (fst (snd new))
         \<and> \<not> prerelease (fst (snd (snd old))) \<and> \<not> prerelease (fst (snd (snd new)))
       else tuple_less (numbers old) (numbers new) \<and> fst (numbers old) = fst (numbers new)
         \<and> (s \<noteq> ''semver'' \<or> fst (numbers old) = 0 \<longrightarrow> fst (snd (numbers old)) = fst (snd (numbers new))))"
proof -
  from assms(1) obtain i c s where e: "installed = JStr i" "candidate = JStr c" "scheme = JStr s" "s \<in> set SCHEMES"
      "d = (case (parse s i, parse s c) of (Some old, Some new) \<Rightarrow> if s = ''debian'' then classify_debian old new else classify_numbers s old new
         | _ \<Rightarrow> decision ''review'' ''unknown_or_prerelease'')"
    by (rule classify_versionE)
  obtain old new where p: "parse s i = Some old" "parse s c = Some new" using e(5) assms(2) by (auto split: option.splits)
  show ?thesis
  proof (cases "s = ''debian''")
    case True
    then have "d = classify_debian old new" using e(5) p by simp
    then have "0 < deb_cmp old new \<and> dec_val (or_zero (fst old)) = dec_val (or_zero (fst new)) \<and> major_of (fst (snd old)) = major_of (fst (snd new))
        \<and> \<not> prerelease (fst (snd (snd old))) \<and> \<not> prerelease (fst (snd (snd new)))" and "get d ''approval_required'' = JBool False"
      using assms(2) by (auto simp: classify_debian_alt split: if_splits)
    then show ?thesis using True e(1-3) p
      by - (rule exI [of _ i], rule exI [of _ c], rule exI [of _ s], rule exI [of _ old], rule exI [of _ new], simp)
  next
    case False
    then have d: "d = classify_numbers s old new" using e(5) p by simp
    obtain o1 o2 o3 n1 n2 n3 where n: "numbers old = (o1, o2, o3)" "numbers new = (n1, n2, n3)" by (cases "numbers old"; cases "numbers new")
    have s: "s = ''semver'' \<or> s = ''calendar'' \<or> s = ''nixos''" using e(4) False by auto
    have less: "tuple_less (numbers old) (numbers new)" using assms(2) d by (intro classify_numbers_upgrade [of s]) (simp add: upgrade_def)
    have "n1 = o1 \<and> (s \<noteq> ''semver'' \<or> o1 = 0 \<longrightarrow> n2 = o2)"
      using assms(2) d s n by (auto simp: classify_numbers_def split: if_splits)
    moreover have "get d ''approval_required'' = JBool False" using assms(2) d n by (auto simp: classify_numbers_def split: if_splits)
    ultimately show ?thesis using False e(1-3) p n less
      by - (rule exI [of _ i], rule exI [of _ c], rule exI [of _ s], rule exI [of _ old], rule exI [of _ new], simp)
  qed
qed

theorem routine_sound_witness:
  "\<exists>old new. parse ''semver'' ''1.4.2'' = Some old \<and> parse ''semver'' ''1.5.0'' = Some new \<and> tuple_less (numbers old) (numbers new)"
proof -
  have r: "classify_version (JStr ''1.4.2'') (JStr ''1.5.0'') (JStr ''semver'') = Inr (decision ''routine'' ''same_major'')" by code_simp
  from routine_sound [OF r] show ?thesis by auto
qed

lemma classify_rows_ok:
  assumes "classify_rows seen us = Inr rows"
  shows "length rows = length us \<and> distinct (map (\<lambda>r. get r ''component'') rows)
    \<and> (\<forall>r \<in> set rows. \<forall>k \<in> set seen. get r ''component'' \<noteq> JStr k)
    \<and> (\<forall>i < length us. \<exists>d. classify_version (get (dict_of (us ! i)) ''installed'') (get (dict_of (us ! i)) ''candidate'') (get (dict_of (us ! i)) ''scheme'') = Inr d
         \<and> get (rows ! i) ''classification'' = get d ''classification'' \<and> get (rows ! i) ''component'' = get (dict_of (us ! i)) ''component'')"
  using assms
proof (induction seen us arbitrary: rows rule: classify_rows.induct)
  case (2 seen raw rest)
  from 2(2) obtain d rs where r: "is_str (get (dict_of raw) ''component'')" "str_of (get (dict_of raw) ''component'') \<notin> set seen"
      "classify_version (get (dict_of raw) ''installed'') (get (dict_of raw) ''candidate'') (get (dict_of raw) ''scheme'') = Inr d"
      "classify_rows (str_of (get (dict_of raw) ''component'') # seen) rest = Inr rs" "rows = merge (dict_of raw) d # rs"
    by (auto simp: bindr_Inr_iff Let_def)
  from classify_version_decided [OF r(3)] have g: "get (merge (dict_of raw) d) ''classification'' = get d ''classification''"
      "get (merge (dict_of raw) d) ''component'' = get (dict_of raw) ''component''"
    by (auto simp: decided_def get_merge decision_def has_def get_def get_or_def)
  have ih: "length rs = length rest \<and> distinct (map (\<lambda>r. get r ''component'') rs)
    \<and> (\<forall>r \<in> set rs. \<forall>k \<in> set (str_of (get (dict_of raw) ''component'') # seen). get r ''component'' \<noteq> JStr k)
    \<and> (\<forall>i < length rest. \<exists>d. classify_version (get (dict_of (rest ! i)) ''installed'') (get (dict_of (rest ! i)) ''candidate'') (get (dict_of (rest ! i)) ''scheme'') = Inr d
         \<and> get (rs ! i) ''classification'' = get d ''classification'' \<and> get (rs ! i) ''component'' = get (dict_of (rest ! i)) ''component'')"
    by (rule 2(1)) (use r in \<open>auto simp: bindr_Inr_iff\<close>)
  have c: "get (dict_of raw) ''component'' = JStr (str_of (get (dict_of raw) ''component''))" using r(1) by (auto simp: is_str_iff)
  show ?case
  proof (intro conjI allI impI)
    show "length rows = length (raw # rest)" using ih r(5) by simp
    show "distinct (map (\<lambda>r. get r ''component'') rows)" using ih r(5) g(2) c by auto
    show "\<forall>r \<in> set rows. \<forall>k \<in> set seen. get r ''component'' \<noteq> JStr k" using ih r(2,5) g(2) c by (auto simp: is_str_iff)
    fix i assume "i < length (raw # rest)"
    then show "\<exists>d. classify_version (get (dict_of ((raw # rest) ! i)) ''installed'') (get (dict_of ((raw # rest) ! i)) ''candidate'') (get (dict_of ((raw # rest) ! i)) ''scheme'') = Inr d
         \<and> get (rows ! i) ''classification'' = get d ''classification'' \<and> get (rows ! i) ''component'' = get (dict_of ((raw # rest) ! i)) ''component''"
      using ih r(3,5) g by (cases i) auto
  qed
qed simp

lemma classify_planE:
  assumes "classify_plan plan = Inr out"
  obtains operation target updates rows where
    "plan = JObj (dict_of plan)" "get (dict_of plan) ''operation'' = JStr operation" "operation = ''update'' \<or> operation = ''fix''"
    "get (dict_of plan) ''target'' = JStr target" "target \<in> set TARGETS" "get (dict_of plan) ''updates'' = JArr updates"
    "operation = ''update'' \<longrightarrow> updates \<noteq> []" "classify_rows [] updates = Inr rows"
    "out = [(''operation'', JStr operation), (''target'', JStr target)] @ plan_result operation rows @ [(''updates'', JArr (map JObj rows))]"
proof -
  let ?p = "dict_of plan"
  from assms obtain rows where p: "is_dict plan" "is_str (get ?p ''operation'')" "str_of (get ?p ''operation'') \<in> {''update'', ''fix''}"
      "is_str (get ?p ''target'')" "str_of (get ?p ''target'') \<in> set TARGETS"
      "is_list (get ?p ''updates'')" "\<not> (get ?p ''operation'' = JStr ''update'' \<and> list_of (get ?p ''updates'') = [])"
      "classify_rows [] (list_of (get ?p ''updates'')) = Inr rows"
      "[(''operation'', get ?p ''operation''), (''target'', get ?p ''target'')] @ plan_result (str_of (get ?p ''operation'')) rows @ [(''updates'', JArr (map JObj rows))] = out"
    unfolding classify_plan_def bindr_Inr_iff require_Inr_iff Let_def
    by (elim exE conjE) (rule that, assumption, assumption, assumption, assumption, assumption, assumption, assumption, assumption, erule sum.inject(2) [THEN iffD1])
  obtain operation target updates where v: "get ?p ''operation'' = JStr operation" "get ?p ''target'' = JStr target" "get ?p ''updates'' = JArr updates"
    using p by (auto simp: is_str_iff is_list_iff)
  show thesis
    by (rule that [of operation target updates rows]) (use p v in \<open>auto simp: is_dict_iff\<close>)
qed

text \<open>
  C20: the verdict on a plan that needs no approval is sound. The operation is an update with at least
  one row, the components are distinct and in the order of the request, and every row was itself
  classified as routine or unchanged; a fix always needs approval.
\<close>

theorem classify_plan_sound:
  assumes "classify_plan plan = Inr out" and "get out ''approval_required'' = JBool False"
  shows "get (dict_of plan) ''operation'' = JStr ''update'' \<and> get out ''operation'' = JStr ''update''
    \<and> (let us = list_of (get (dict_of plan) ''updates'') in us \<noteq> [] \<and> distinct (map (\<lambda>u. get (dict_of u) ''component'') us)
        \<and> (\<forall>u \<in> set us. \<exists>d. classify_version (get (dict_of u) ''installed'') (get (dict_of u) ''candidate'') (get (dict_of u) ''scheme'') = Inr d
              \<and> get d ''classification'' \<in> {JStr ''routine'', JStr ''unchanged''} \<and> get d ''approval_required'' = JBool False))"
proof -
  from assms(1) obtain operation target updates rows where p:
    "plan = JObj (dict_of plan)" "get (dict_of plan) ''operation'' = JStr operation" "operation = ''update'' \<or> operation = ''fix''"
    "get (dict_of plan) ''target'' = JStr target" "target \<in> set TARGETS" "get (dict_of plan) ''updates'' = JArr updates"
    "operation = ''update'' \<longrightarrow> updates \<noteq> []" "classify_rows [] updates = Inr rows"
    "out = [(''operation'', JStr operation), (''target'', JStr target)] @ plan_result operation rows @ [(''updates'', JArr (map JObj rows))]"
    by (rule classify_planE)
  have app: "get out ''approval_required'' = get (plan_result operation rows) ''approval_required''"
    unfolding p(9) plan_result_def by (simp add: decision_def get_def get_or_def)
  have clean: "operation = ''update''" "\<not> list_ex (has_class ''review'') rows" "\<not> list_ex (has_class ''major'') rows"
    using assms(2) app p(3) by (auto simp: plan_result_def split: if_splits)
  have rows: "length rows = length updates" "distinct (map (\<lambda>r. get r ''component'') rows)"
      "\<forall>i < length updates. \<exists>d. classify_version (get (dict_of (updates ! i)) ''installed'') (get (dict_of (updates ! i)) ''candidate'') (get (dict_of (updates ! i)) ''scheme'') = Inr d
         \<and> get (rows ! i) ''classification'' = get d ''classification'' \<and> get (rows ! i) ''component'' = get (dict_of (updates ! i)) ''component''"
    using classify_rows_ok [OF p(8)] by auto
  have same: "map (\<lambda>r. get r ''component'') rows = map (\<lambda>u. get (dict_of u) ''component'') updates"
    by (rule nth_equalityI) (use rows(1,3) in auto)
  have each: "\<exists>d. classify_version (get (dict_of u) ''installed'') (get (dict_of u) ''candidate'') (get (dict_of u) ''scheme'') = Inr d
              \<and> get d ''classification'' \<in> {JStr ''routine'', JStr ''unchanged''} \<and> get d ''approval_required'' = JBool False" if "u \<in> set updates" for u
  proof -
    from that obtain i where i: "i < length updates" "u = updates ! i" by (auto simp: in_set_conv_nth)
    with rows(3) obtain d where d: "classify_version (get (dict_of u) ''installed'') (get (dict_of u) ''candidate'') (get (dict_of u) ''scheme'') = Inr d"
      "get (rows ! i) ''classification'' = get d ''classification''" by auto
    have "get d ''classification'' \<noteq> JStr ''review'' \<and> get d ''classification'' \<noteq> JStr ''major''"
      using clean(2,3) d(2) i(1) rows(1) by (auto simp: list_ex_iff has_class_def)
    then show ?thesis using d(1) classify_version_classes [OF d(1)] by auto
  qed
  show ?thesis unfolding p(6) using p(2,7,9) clean(1) rows(2) same each by (simp add: get_def get_or_def)
qed

theorem classify_plan_sound_witness:
  "get (dict_of (JObj [(''operation'', JStr ''update''), (''target'', JStr ''home-core''), (''updates'', JArr [JObj [(''component'', JStr ''n8n''), (''scheme'', JStr ''semver''),
     (''installed'', JStr ''1.4.2''), (''candidate'', JStr ''1.4.3'')]])])) ''operation'' = JStr ''update''"
proof -
  let ?plan = "JObj [(''operation'', JStr ''update''), (''target'', JStr ''home-core''), (''updates'', JArr [JObj [(''component'', JStr ''n8n''), (''scheme'', JStr ''semver''),
     (''installed'', JStr ''1.4.2''), (''candidate'', JStr ''1.4.3'')]])]"
  have "map_sum id (\<lambda>out. get out ''approval_required'') (classify_plan ?plan) = Inr (JBool False)" by code_simp
  then obtain out where "classify_plan ?plan = Inr out" "get out ''approval_required'' = JBool False" by (cases "classify_plan ?plan") auto
  from classify_plan_sound [OF this] show ?thesis by blast
qed

end
