(* ===== verification/Py_Float.thy ===== *)
theory Py_Float
  imports Py_Prelude "HOL-Library.Log_Nat"
begin

text \<open>
  Arithmetic on Python floats: the exact result, rounded to a binary64 number, to the nearest with
  ties to even, and to an infinity beyond the largest one. The two zeros are one value, which no
  comparison of the repository tells apart. Rounding is monotone and exact on the integers
  up to \<open>2^53\<close>; bounds that the code checks on a rounded difference therefore hold of the exact one.
\<close>

section \<open>Rounding\<close>

definition half_even :: "rat \<Rightarrow> int" where
  "half_even r = (let f = \<lfloor>r\<rfloor>; d = r - of_int f in
     if d < 1 / 2 then f else if 1 / 2 < d then f + 1 else if even f then f else f + 1)"

text \<open>The exponent of the largest power of two that is at most \<open>r\<close>.\<close>

definition binade :: "rat \<Rightarrow> int" where
  "binade r = (case quotient_of r of (p, q) \<Rightarrow>
     let k = bitlen p - bitlen q in if 2 powi k \<le> r then k else k - 1)"

definition ulp_exp :: "rat \<Rightarrow> int" where
  "ulp_exp r = max (binade r - 52) (- 1074)"

definition round_pos :: "rat \<Rightarrow> rat" where
  "round_pos r = of_int (half_even (r / 2 powi ulp_exp r)) * 2 powi ulp_exp r"

definition fl :: "rat \<Rightarrow> flt" where
  "fl r = (if r = 0 then Fin 0
     else let m = round_pos \<bar>r\<bar> in
       if 2 ^ 1024 \<le> m then (if 0 < r then PosInf else NegInf) else Fin (if 0 < r then m else - m))"

fun fneg :: "flt \<Rightarrow> flt" where
  "fneg (Fin a) = Fin (- a)"
| "fneg PosInf = NegInf"
| "fneg NegInf = PosInf"
| "fneg NaN = NaN"

fun fadd :: "flt \<Rightarrow> flt \<Rightarrow> flt" where
  "fadd (Fin a) (Fin b) = fl (a + b)"
| "fadd NaN _ = NaN"
| "fadd _ NaN = NaN"
| "fadd PosInf y = (if y = NegInf then NaN else PosInf)"
| "fadd NegInf y = (if y = PosInf then NaN else NegInf)"
| "fadd (Fin a) y = y"

definition fsub :: "flt \<Rightarrow> flt \<Rightarrow> flt" where
  "fsub x y = fadd x (fneg y)"

text \<open>An \<open>int\<close> used as a float, for the integers that are binary64 numbers.\<close>

abbreviation flt_int :: "int \<Rightarrow> flt" where
  "flt_int i \<equiv> Fin (of_int i)"

section \<open>Properties of rounding\<close>

lemma half_even_of_int [simp]: "half_even (of_int i) = i"
  by (simp add: half_even_def)

lemma half_even_bounds: "\<lfloor>x\<rfloor> \<le> half_even x" "half_even x \<le> \<lfloor>x\<rfloor> + 1"
  by (simp_all add: half_even_def Let_def)

lemma half_even_mono: "x \<le> y \<Longrightarrow> half_even x \<le> half_even y"
proof (cases "\<lfloor>x\<rfloor> = \<lfloor>y\<rfloor>")
  case True
  assume "x \<le> y"
  then show ?thesis using True by (simp add: half_even_def Let_def)
next
  case False
  assume "x \<le> y"
  with False have "\<lfloor>x\<rfloor> + 1 \<le> \<lfloor>y\<rfloor>" using floor_mono [of x y] by linarith
  then show ?thesis using half_even_bounds [of x] half_even_bounds [of y] by linarith
qed

lemma powi_less_iff [simp]: "(2::rat) powi a < 2 powi b \<longleftrightarrow> a < b" "(2::rat) powi a \<le> 2 powi b \<longleftrightarrow> a \<le> b"
proof -
  have lt: "(2::rat) powi a < 2 powi b" if "a < b" for a b :: int
    using that by (rule power_int_strict_increasing) simp
  show "(2::rat) powi a < 2 powi b \<longleftrightarrow> a < b"
    using lt [of a b] lt [of b a] by (cases a b rule: linorder_cases) auto
  then show "(2::rat) powi a \<le> 2 powi b \<longleftrightarrow> a \<le> b"
    using lt [of b a] by (cases a b rule: linorder_cases) auto
qed

lemma powi_pos [simp]: "0 < (2::rat) powi k"
  by (rule zero_less_power_int) simp

lemma powi_nat: "0 \<le> k \<Longrightarrow> (2::rat) powi k = of_int (2 ^ nat k)"
  by (simp add: power_int_def)

lemma bitlen_powi: "0 < x \<Longrightarrow> (2::rat) powi (bitlen x - 1) \<le> of_int x \<and> of_int x < (2::rat) powi bitlen x"
proof -
  assume x: "0 < x"
  have "2 ^ nat (bitlen x - 1) \<le> x" "x < 2 ^ nat (bitlen x)" using bitlen_bounds [OF x] by auto
  moreover have "0 \<le> bitlen x - 1" "0 \<le> bitlen x" using bitlen_ge_iff_power [of 1 x] x by (auto simp: bitlen_def)
  ultimately show ?thesis unfolding powi_nat [OF \<open>0 \<le> bitlen x - 1\<close>] powi_nat [OF \<open>0 \<le> bitlen x\<close>]
    by (simp only: of_int_le_iff of_int_less_iff)
qed

lemma binade_bounds: "0 < r \<Longrightarrow> 2 powi binade r \<le> r \<and> r < 2 powi (binade r + 1)"
proof -
  assume r: "0 < r"
  obtain p q where pq: "quotient_of r = (p, q)" by (cases "quotient_of r")
  then have q: "0 < q" and rat: "r = of_int p / of_int q" by (simp_all add: quotient_of_denom_pos quotient_of_div)
  then have p: "0 < p" using r by (simp add: zero_less_divide_iff)
  define k where "k = bitlen p - bitlen q"
  have "r < 2 powi bitlen p / of_int q" using bitlen_powi [OF p] q by (simp add: rat divide_strict_right_mono)
  also have "\<dots> \<le> 2 powi bitlen p / 2 powi (bitlen q - 1)" using bitlen_powi [OF q] by (intro divide_left_mono) (simp_all add: q)
  also have "\<dots> = 2 powi (k + 1)" by (simp add: k_def power_int_diff power_int_add)
  finally have up: "r < 2 powi (k + 1)" .
  have "2 powi (k - 1) = 2 powi (bitlen p - 1) / (2::rat) powi bitlen q" by (simp add: k_def power_int_diff)
  also have "\<dots> \<le> of_int p / 2 powi bitlen q" using bitlen_powi [OF p] by (intro divide_right_mono) simp_all
  also have "\<dots> \<le> r" unfolding rat using bitlen_powi [OF q] p q by (intro divide_left_mono) simp_all
  finally have "2 powi (k - 1) \<le> r" .
  then show ?thesis using up by (auto simp: binade_def pq k_def [symmetric] Let_def)
qed

lemma binade_mono: "0 < a \<Longrightarrow> a \<le> b \<Longrightarrow> binade a \<le> binade b"
proof -
  assume "0 < a" "a \<le> b"
  then have "2 powi binade a < (2::rat) powi (binade b + 1)" using binade_bounds [of a] binade_bounds [of b] by linarith
  then have "binade a < binade b + 1" by (simp only: powi_less_iff)
  then show ?thesis by simp
qed

lemma round_below:
  assumes "0 < r" "r \<le> of_int n * 2 powi ulp_exp r" shows "round_pos r \<le> of_int n * 2 powi ulp_exp r"
proof -
  have "r / 2 powi ulp_exp r \<le> of_int n" using assms(2) by (simp add: pos_divide_le_eq)
  then have "half_even (r / 2 powi ulp_exp r) \<le> n" using half_even_mono half_even_of_int by metis
  then show ?thesis unfolding round_pos_def by (intro mult_right_mono) (simp_all add: less_imp_le)
qed

lemma round_above:
  assumes "0 < r" "of_int n * 2 powi ulp_exp r \<le> r" shows "of_int n * 2 powi ulp_exp r \<le> round_pos r"
proof -
  have "of_int n \<le> r / 2 powi ulp_exp r" using assms(2) by (simp add: pos_le_divide_eq)
  then have "n \<le> half_even (r / 2 powi ulp_exp r)" using half_even_mono half_even_of_int by metis
  then show ?thesis unfolding round_pos_def by (intro mult_right_mono) (simp_all add: less_imp_le)
qed

lemma powi_split: "e \<le> k \<Longrightarrow> (2::rat) powi k = of_int (2 ^ nat (k - e)) * 2 powi e"
proof -
  assume "e \<le> k"
  then have "(2::rat) powi (k - e) = of_int (2 ^ nat (k - e))" by (intro powi_nat) simp
  moreover have "(2::rat) powi k = 2 powi (k - e) * 2 powi e" by (simp add: power_int_add [symmetric])
  ultimately show ?thesis by simp
qed

lemma round_pos_mono:
  assumes "0 < a" "a \<le> b" shows "round_pos a \<le> round_pos b"
proof (cases "ulp_exp a = ulp_exp b")
  case True
  have "a / 2 powi ulp_exp b \<le> b / 2 powi ulp_exp b" using assms(2) by (intro divide_right_mono) (simp_all add: less_imp_le)
  then show ?thesis unfolding round_pos_def True by (intro mult_right_mono) (simp_all add: half_even_mono less_imp_le)
next
  case False
  have le: "binade a \<le> binade b" using assms by (rule binade_mono)
  with False have lt: "ulp_exp a < ulp_exp b" "binade a < binade b" "ulp_exp b \<le> binade b" by (auto simp: ulp_exp_def)
  let ?M = "2 powi binade b :: rat"
  have a: "a \<le> ?M" using binade_bounds [OF assms(1)] lt(2) powi_less_iff(2) [of "binade a + 1" "binade b"] by linarith
  have b: "?M \<le> b" using binade_bounds [of b] assms by simp
  have "round_pos a \<le> ?M"
    using round_below [of a "2 ^ nat (binade b - ulp_exp a)"] powi_split [of "ulp_exp a" "binade b"] a assms(1) lt by simp
  also have "?M \<le> round_pos b"
    using round_above [of b "2 ^ nat (binade b - ulp_exp b)"] powi_split [of "ulp_exp b" "binade b"] b assms lt by simp
  finally show ?thesis .
qed

lemma round_pos_exact: "0 < r \<Longrightarrow> r = of_int n * 2 powi ulp_exp r \<Longrightarrow> round_pos r = r"
  using round_below [of r n] round_above [of r n] by linarith

lemma round_pos_int: "0 < i \<Longrightarrow> i \<le> 2 ^ 53 \<Longrightarrow> round_pos (of_int i) = of_int i"
proof -
  assume i: "0 < i" "i \<le> 2 ^ 53"
  then have "(2::rat) powi binade (of_int i) \<le> of_int (2 ^ 53)" using binade_bounds [of "of_int i"] by (metis of_int_0_less_iff of_int_le_iff order_trans)
  also have "of_int (2 ^ 53) = (2::rat) powi 53" by (simp add: power_int_def)
  finally have b: "binade (of_int i) \<le> 53" by (simp only: powi_less_iff)
  show ?thesis
  proof (cases "i = 2 ^ 53")
    case True
    have "\<not> binade (of_int i) < 53"
    proof
      assume "binade (of_int i) < 53"
      then have "of_int i < (2::rat) powi 53" using binade_bounds [of "of_int i"] i(1) powi_less_iff(2) [of "binade (of_int i) + 1" 53]
        by (metis of_int_0_less_iff order_less_le_trans zless_add1_eq add1_zle_eq)
      then show False using True by (simp add: power_int_def)
    qed
    with b have e: "ulp_exp (of_int i) = 1" by (simp add: ulp_exp_def)
    show ?thesis by (rule round_pos_exact [of _ "2 ^ 52"]) (use i e in \<open>simp_all only: True of_int_0_less_iff\<close>, simp)
  next
    case False
    have "binade (of_int i) < 53"
    proof -
      have "i < 2 ^ 53" using False i(2) by simp
      then have "(of_int i :: rat) < of_int (2 ^ 53)" by (simp only: of_int_less_iff)
      then have "(2::rat) powi binade (of_int i) < 2 powi 53" using binade_bounds [of "of_int i"] i(1) by (simp add: power_int_def)
      then show ?thesis by (simp only: powi_less_iff)
    qed
    then have e: "ulp_exp (of_int i) \<le> 0" by (simp add: ulp_exp_def)
    show ?thesis by (rule round_pos_exact [of _ "i * 2 ^ nat (- ulp_exp (of_int i))"])
      (use i powi_split [OF e] in \<open>simp_all add: mult.assoc\<close>)
  qed
qed

section \<open>Properties of the operations\<close>

lemma round_pos_nonneg: "0 < r \<Longrightarrow> 0 \<le> round_pos r"
  using half_even_mono [of 0 "r / 2 powi ulp_exp r"] half_even_of_int [of 0]
  by (simp add: round_pos_def less_imp_le zero_le_mult_iff)

lemma fl_int [simp]: "\<bar>i\<bar> \<le> 2 ^ 53 \<Longrightarrow> fl (of_int i) = flt_int i"
proof -
  assume i: "\<bar>i\<bar> \<le> 2 ^ 53"
  show ?thesis
  proof (cases "i = 0")
    case False
    have "(of_int \<bar>i\<bar> :: rat) \<le> of_int (2 ^ 53)" using i by (simp only: of_int_le_iff)
    then have "\<not> 2 ^ 1024 \<le> (of_int \<bar>i\<bar> :: rat)" using power_strict_increasing [of 53 1024 "2::rat"] by simp
    moreover have "round_pos \<bar>of_int i\<bar> = of_int \<bar>i\<bar>" using round_pos_int [of "\<bar>i\<bar>"] i False by simp
    ultimately show ?thesis using False by (auto simp: fl_def Let_def)
  qed (simp add: fl_def)
qed

lemma fl_mono: "a \<le> b \<Longrightarrow> flt_le (fl a) (fl b)"
proof -
  assume ab: "a \<le> b"
  consider "b \<le> 0" "a < 0" "b \<noteq> 0" | "a < 0" "0 \<le> b" | "a = 0" | "a < 0" "b = 0" | "0 < a" using ab by linarith
  then show ?thesis
  proof cases
    case 1
    then have "round_pos \<bar>b\<bar> \<le> round_pos \<bar>a\<bar>" using ab by (intro round_pos_mono) auto
    then show ?thesis using 1 by (auto simp: fl_def flt_le_def Let_def)
  next
    case 5
    then have "round_pos \<bar>a\<bar> \<le> round_pos \<bar>b\<bar>" using ab by (intro round_pos_mono) auto
    then show ?thesis using 5 ab by (auto simp: fl_def flt_le_def Let_def)
  qed (use ab round_pos_nonneg [of "\<bar>a\<bar>"] round_pos_nonneg [of "\<bar>b\<bar>"] in \<open>auto simp: fl_def flt_le_def Let_def\<close>)
qed

text \<open>The finite values of the type \<open>float\<close> are multiples of its smallest positive one.\<close>

text \<open>For evaluation: the integers up to \<open>2 ^ 53\<close> need no rounding.\<close>

definition fl_any :: "rat \<Rightarrow> flt" where
  "fl_any = fl"

lemma fl_any_code [code]: "fl_any r = (if r = 0 then Fin 0
     else let m = round_pos \<bar>r\<bar> in
       if 2 ^ 1024 \<le> m then (if 0 < r then PosInf else NegInf) else Fin (if 0 < r then m else - m))"
  by (simp add: fl_any_def fl_def)

lemma fl_code [code]: "fl r = (if snd (quotient_of r) = 1 \<and> \<bar>fst (quotient_of r)\<bar> \<le> 9007199254740992 then Fin r else fl_any r)"
proof (cases "snd (quotient_of r) = 1 \<and> \<bar>fst (quotient_of r)\<bar> \<le> 9007199254740992")
  case True
  then have "r = of_int (fst (quotient_of r))" using quotient_of_div [of r "fst (quotient_of r)" "snd (quotient_of r)"] by (cases "quotient_of r") simp
  then have "fl r = Fin r" using True fl_int [of "fst (quotient_of r)"] by simp
  with True show ?thesis by simp
qed (auto simp: fl_any_def)

definition double :: "rat \<Rightarrow> bool" where
  "double r \<longleftrightarrow> fl r = Fin r"

lemma double_grid: "double r \<Longrightarrow> \<exists>n. r = of_int n * 2 powi - 1074"
proof -
  have pos: "\<exists>n. q = of_int n * 2 powi - 1074" if "round_pos q = q" for q
  proof -
    have "2 powi ulp_exp q = of_int (2 ^ nat (ulp_exp q + 1074)) * (2::rat) powi - 1074"
      using powi_split [of "- 1074" "ulp_exp q"] by (simp add: ulp_exp_def)
    then have "q = of_int (half_even (q / 2 powi ulp_exp q) * 2 ^ nat (ulp_exp q + 1074)) * 2 powi - 1074"
      using that unfolding round_pos_def of_int_mult mult.assoc by metis
    then show ?thesis by blast
  qed
  assume d: "double r"
  consider "r = 0" | "0 < r" | "r < 0" by linarith
  then show ?thesis
  proof cases
    case 1
    then show ?thesis by (intro exI [of _ 0]) simp
  next
    case 2
    then show ?thesis using d by (intro pos) (auto simp: double_def fl_def Let_def split: if_splits)
  next
    case 3
    then have "round_pos (- r) = - r" using d by (auto simp: double_def fl_def Let_def split: if_splits)
    then obtain n where "- r = of_int n * 2 powi - 1074" using pos by blast
    then have "r = of_int (- n) * 2 powi - 1074" by (metis minus_mult_left minus_minus of_int_minus)
    then show ?thesis by blast
  qed
qed

text \<open>A rounded difference of at least an integer, or below an integer, says so of the exact one.\<close>

lemma fsub_ge:
  assumes "flt_le (Fin 0) (fsub (Fin a) (Fin b))" "double a" "double b" shows "b \<le> a"
proof (rule ccontr)
  assume "\<not> b \<le> a"
  then have lt: "a - b < 0" by simp
  from assms(2,3) obtain m n where "a = of_int m * 2 powi - 1074" "b = of_int n * 2 powi - 1074" by (meson double_grid)
  then have d: "b - a = of_int (n - m) * 2 powi - 1074" by (simp add: algebra_simps)
  have "0 < of_int (n - m) * (2::rat) powi - 1074" using lt d by linarith
  then have pos: "0 < n - m" by (simp only: zero_less_mult_iff of_int_0_less_iff) (auto dest: less_asym simp: powi_pos)
  have "2 powi - 1074 * (1::rat) \<le> round_pos (b - a)"
  proof -
    have le: "2 powi - 1074 \<le> b - a" unfolding d using pos by (intro mult_le_cancel_right1 [THEN iffD2]) (auto simp: not_less)
    have "binade (2 powi - 1074) \<le> - 1074"
      using binade_bounds [of "2 powi - 1074"] by (metis powi_less_iff(2) powi_pos)
    then have "ulp_exp (2 powi - 1074) = - 1074" by (simp add: ulp_exp_def)
    then have "round_pos (2 powi - 1074) = 2 powi - 1074" by (intro round_pos_exact [of _ 1]) simp_all
    then show ?thesis using round_pos_mono [OF _ le] by simp
  qed
  then have "0 < round_pos (b - a)" using powi_pos [of "- 1074"] by linarith
  then show False using lt assms(1) by (auto simp: fsub_def fl_def flt_le_def Let_def split: if_splits)
qed

lemma fsub_less: "flt_less (fsub (Fin a) (Fin b)) (flt_int i) \<Longrightarrow> \<bar>i\<bar> \<le> 2 ^ 53 \<Longrightarrow> a - b < of_int i"
proof (rule ccontr)
  assume lt: "flt_less (fsub (Fin a) (Fin b)) (flt_int i)" and i: "\<bar>i\<bar> \<le> 2 ^ 53" and "\<not> a - b < of_int i"
  then have "flt_le (flt_int i) (fl (a - b))" using fl_mono [of "of_int i" "a - b"] i by simp
  with lt show False by (cases "fl (a - b)") (auto simp: fsub_def flt_le_def)
qed

end
