(* ===== verification/Py_Containers.thy ===== *)
theory Py_Containers
  imports Py_Values Py_Float
begin

text \<open>
  Iteration and sets over decoded JSON of any type, as the operator files are read: \<open>py_iter\<close> is
  what a \<open>for\<close> loop sees, \<open>py_set\<close> is \<open>set(v)\<close>, which raises on a member that cannot be hashed.
  Also the length of \<open>base64.b64decode(v, validate=True)\<close> and a SQLite \<open>REAL\<close> column.
\<close>

section \<open>Iteration and sets\<close>

definition py_iter :: "json \<Rightarrow> json list res" where
  "py_iter v = (case v of JArr xs \<Rightarrow> Inr xs | JObj d \<Rightarrow> Inr (map JStr (keys d)) | JStr s \<Rightarrow> Inr (map (\<lambda>c. JStr [c]) s) | _ \<Rightarrow> Inl TypeError)"

definition hashable :: "json \<Rightarrow> bool" where
  "hashable v = (case v of JArr _ \<Rightarrow> False | JObj _ \<Rightarrow> False | _ \<Rightarrow> True)"

definition py_set :: "json \<Rightarrow> json list res" where
  "py_set v = bindr (py_iter v) (\<lambda>xs. if list_all hashable xs then Inr xs else Inl TypeError)"

text \<open>Comparisons of such a set with a set of text.\<close>

definition set_within :: "json list \<Rightarrow> string list \<Rightarrow> bool" where
  "set_within xs ks = list_all (\<lambda>v. case v of JStr s \<Rightarrow> s \<in> set ks | _ \<Rightarrow> False) xs"

definition set_covers :: "json list \<Rightarrow> string list \<Rightarrow> bool" where
  "set_covers xs ks = list_all (\<lambda>k. JStr k \<in> set xs) ks"

definition set_is :: "json list \<Rightarrow> string list \<Rightarrow> bool" where
  "set_is xs ks \<longleftrightarrow> set_within xs ks \<and> set_covers xs ks"

lemma py_set_JObj [simp]: "py_set (JObj d) = Inr (map JStr (keys d))"
  by (simp add: py_set_def py_iter_def list_all_iff hashable_def)

lemma set_within_keys [simp]: "set_within (map JStr ss) ks \<longleftrightarrow> set ss \<subseteq> set ks"
  by (auto simp: set_within_def list_all_iff)

lemma set_covers_keys [simp]: "set_covers (map JStr ss) ks \<longleftrightarrow> set ks \<subseteq> set ss"
  by (auto simp: set_covers_def list_all_iff)

text \<open>\<open>pattern.fullmatch(v)\<close> and \<open>text.startswith(v)\<close> for a value of any type.\<close>

definition match_text :: "rexp \<Rightarrow> json \<Rightarrow> bool res" where
  "match_text r v = (case v of JStr s \<Rightarrow> Inr (fullmatch r s) | _ \<Rightarrow> Inl TypeError)"

definition starts_with :: "string \<Rightarrow> json \<Rightarrow> bool res" where
  "starts_with s v = (case v of JStr p \<Rightarrow> Inr (starts p s) | _ \<Rightarrow> Inl TypeError)"

lemma match_text_True: "match_text r v = Inr b \<longleftrightarrow> (\<exists>s. v = JStr s \<and> b = fullmatch r s)"
  by (cases v) (auto simp: match_text_def)

lemma starts_with_Inr: "starts_with s v = Inr b \<longleftrightarrow> (\<exists>p. v = JStr p \<and> b = starts p s)"
  by (cases v) (auto simp: starts_with_def)

lemma any_res_True: "any_res f xs = Inr True \<Longrightarrow> \<exists>x \<in> set xs. f x = Inr True"
  by (induction xs) (auto simp: bindr_Inr_iff split: if_splits)

section \<open>Base64\<close>

text \<open>
  \<open>binascii.a2b_base64\<close> in strict mode, counting the bytes: \<open>quad\<close> is the position in a group of
  four, \<open>pads\<close> the padding seen in it, \<open>started\<close> whether any padding was seen.
\<close>

definition b64_char :: "char \<Rightarrow> bool" where
  "b64_char c \<longleftrightarrow> is_alnum c \<or> c = CHR ''+'' \<or> c = CHR ''/''"

fun b64_scan :: "string \<Rightarrow> nat \<Rightarrow> nat \<Rightarrow> bool \<Rightarrow> nat \<Rightarrow> nat option" where
  "b64_scan [] quad pads started n = (if quad = 0 then Some n else None)"
| "b64_scan (c # s) quad pads started n =
     (if c = CHR ''='' then
        if 2 \<le> quad \<and> 4 \<le> quad + (pads + 1) then (if s = [] then Some n else None)
        else b64_scan s quad (if 2 \<le> quad then pads + 1 else pads) True n
      else if \<not> b64_char c \<or> started then None
      else b64_scan s ((quad + 1) mod 4) 0 started (if quad = 0 then n else n + 1))"

definition b64decode_len :: "json \<Rightarrow> nat res" where
  "b64decode_len v = (case v of
       JStr s \<Rightarrow>
         if list_ex (\<lambda>c. 128 \<le> code c) s then Inl (ValueError ''string argument should contain only ASCII characters'')
         else if s \<noteq> [] \<and> hd s = CHR ''='' then Inl (ValueError ''Leading padding not allowed'')
         else (case b64_scan s 0 0 False 0 of Some n \<Rightarrow> Inr n | None \<Rightarrow> Inl (ValueError ''malformed base64''))
     | _ \<Rightarrow> Inl TypeError)"

lemma b64_scan_bound: "b64_scan s quad pads started n = Some m \<Longrightarrow> m \<le> n + length s"
proof (induction s quad pads started n rule: b64_scan.induct)
  case (2 c s quad pads started n)
  then show ?case by (fastforce split: if_splits)
qed (simp split: if_splits)

section \<open>SQLite\<close>

text \<open>A float bound to a column: NaN is stored as NULL. A comparison with NULL is not true.\<close>

definition sql_real :: "flt \<Rightarrow> json" where
  "sql_real x = (case x of NaN \<Rightarrow> JNull | _ \<Rightarrow> JFlt x)"

definition sql_less :: "json \<Rightarrow> json \<Rightarrow> bool" where
  "sql_less v w = (case (num_of v, num_of w) of (Some x, Some y) \<Rightarrow> flt_less x y | _ \<Rightarrow> False)"

text \<open>\<open>ORDER BY column\<close>: NULL sorts first.\<close>

definition sql_before :: "json \<Rightarrow> json \<Rightarrow> bool" where
  "sql_before v w \<longleftrightarrow> sql_less v w \<or> v = JNull \<and> w \<noteq> JNull"

section \<open>Digests\<close>

text \<open>\<open>hmac.compare_digest\<close> of two values: text beyond ASCII and other types raise.\<close>

definition compare_digest :: "json \<Rightarrow> json \<Rightarrow> bool res" where
  "compare_digest v w = (case (v, w) of
       (JStr s, JStr t) \<Rightarrow> if list_ex (\<lambda>c. 128 \<le> code c) (s @ t) then Inl TypeError else Inr (s = t)
     | _ \<Rightarrow> Inl TypeError)"

lemma compare_digest_True: "compare_digest v w = Inr True \<Longrightarrow> v = w"
  by (auto simp: compare_digest_def split: json.splits if_splits)

end
