(* ===== verification/Codex_Publisher.thy ===== *)
theory Codex_Publisher
  imports Codex_Policy
begin

text \<open>
  \<open>deploy/codex-worker/publisher.py\<close>: how an approved patch becomes a draft pull request. The state
  is the list of requests handed to GitHub so far. What GitHub answers (\<open>answers\<close>), the
  token file (\<open>token_text\<close>) and \<open>json.loads\<close> are parameters; an answer may depend on every request
  before it, and a request may raise. The body of a request is kept as the value that
  \<open>json.dumps\<close> writes.
\<close>

section \<open>Requests\<close>

record api_request =
  verb :: string
  api_url :: string
  sent_headers :: "(string \<times> string) list"
  sent_body :: "json option"

record github =
  token_text :: "api_request list \<Rightarrow> string res"
  answers :: "api_request list \<Rightarrow> string res"
  json_loads :: "string \<Rightarrow> json res"

definition MAX_API_RESPONSE_BYTES :: int where
  "MAX_API_RESPONSE_BYTES = 16777216"

definition MAX_BASE_TREE_ENTRIES :: int where
  "MAX_BASE_TREE_ENTRIES = 100000"

definition SHA :: rexp where
  "SHA = Rep (Cls is_hex) 40 40"

text \<open>Reading one byte more than the budget tells exactly the answers that exceed it.\<close>

definition signed_request :: "string \<Rightarrow> string \<Rightarrow> string \<Rightarrow> json option \<Rightarrow> api_request" where
  "signed_request secret m p body = \<lparr>verb = m, api_url = ''https://api.github.com'' @ p,
     sent_headers = [(''Authorization'', ''Bearer '' @ py_strip secret), (''Accept'', ''application/vnd.github+json''), (''Content-Type'', ''application/json''),
       (''X-GitHub-Api-Version'', ''2022-11-28''), (''User-Agent'', ''HomeCompute-task-broker'')], sent_body = body\<rparr>"

definition api_call :: "github \<Rightarrow> string \<Rightarrow> string \<Rightarrow> json option \<Rightarrow> (api_request list, json) eff" where
  "api_call G m p body =
     bindS (gets (token_text G)) (\<lambda>stored. bindS (lift stored) (\<lambda>secret.
     bindS (modify (\<lambda>h. h @ [signed_request secret m p body])) (\<lambda>_.
     bindS (gets (answers G)) (\<lambda>answered. bindS (lift answered) (\<lambda>encoded.
     bindS (check (int (length encoded) \<le> MAX_API_RESPONSE_BYTES) (ValueError ''GitHub response budget exceeded'')) (\<lambda>_.
     lift (json_loads G encoded)))))))"

section \<open>The base tree\<close>

definition base_path :: "string \<Rightarrow> bool" where
  "base_path p \<longleftrightarrow> p \<noteq> [] \<and> \<not> starts ''/'' p \<and> CHR 0x5C \<notin> set p
     \<and> list_all (\<lambda>part. part \<notin> {[], ''.'', ''..''}) (split_on CHR ''/'' p) \<and> \<not> list_ex (\<lambda>c. code c < 32) p"

fun base_entries :: "(string \<times> dict) list \<Rightarrow> json list \<Rightarrow> (string \<times> dict) list res" where
  "base_entries es [] = Inr es"
| "base_entries es (entry # rest) =
     bindr (require (is_dict entry \<and> is_str (get (dict_of entry) ''path'')) (ValueError ''invalid base tree entry'')) (\<lambda>_.
     let p = str_of (get (dict_of entry) ''path'') in
     bindr (require (base_path p \<and> p \<notin> set (map fst es)) (ValueError ''unsafe base tree path'')) (\<lambda>_.
     base_entries (es @ [(p, dict_of entry)]) rest))"

definition ancestors :: "string \<Rightarrow> string list" where
  "ancestors p = (let parts = split_on CHR ''/'' p in map (\<lambda>n. join ''/'' (take n parts)) [1..<length parts])"

definition check_ancestor :: "(string \<times> dict) list \<Rightarrow> string list \<Rightarrow> string \<Rightarrow> unit res" where
  "check_ancestor es proposed a =
     bindr (require (a \<notin> set proposed) (ValueError ''patch files cannot replace each other's ancestors'')) (\<lambda>_.
     case map_of es a of None \<Rightarrow> Inr ()
     | Some e \<Rightarrow> require (get e ''type'' = JStr ''tree'' \<and> get e ''mode'' = JStr ''040000'') (ValueError ''patch ancestor is not a directory''))"

definition file_mode :: "(string \<times> dict) list \<Rightarrow> string \<Rightarrow> json res" where
  "file_mode es p = (case map_of es p of None \<Rightarrow> Inr (JStr ''100644'')
     | Some e \<Rightarrow> bindr (if get e ''type'' = JStr ''blob'' then in_strs (get e ''mode'') [''100644'', ''100755''] else Inr False) (\<lambda>regular.
         if regular then Inr (get e ''mode'') else Inl (ValueError ''only existing regular blobs can be changed'')))"

fun path_modes :: "(string \<times> dict) list \<Rightarrow> string list \<Rightarrow> dict \<Rightarrow> string list \<Rightarrow> dict res" where
  "path_modes es proposed modes [] = Inr modes"
| "path_modes es proposed modes (p # ps) =
     bindr (for_each (check_ancestor es proposed) (ancestors p)) (\<lambda>_.
     bindr (file_mode es p) (\<lambda>mode. path_modes es proposed (put modes p mode) ps))"

definition base_modes :: "json \<Rightarrow> string \<Rightarrow> string list \<Rightarrow> dict res" where
  "base_modes tree expected_sha paths =
     bindr (require (is_dict tree \<and> get (dict_of tree) ''sha'' = JStr expected_sha \<and> get (dict_of tree) ''truncated'' = JBool False
       \<and> is_list (get (dict_of tree) ''tree'') \<and> int (length (list_of (get (dict_of tree) ''tree''))) \<le> MAX_BASE_TREE_ENTRIES)
       (ValueError ''complete bounded base tree required'')) (\<lambda>_.
     bindr (base_entries [] (list_of (get (dict_of tree) ''tree''))) (\<lambda>es. path_modes es paths [] paths))"

section \<open>Publication\<close>

text \<open>\<open>prefix + v\<close> for text \<open>prefix\<close> and a value of any type.\<close>

definition add_text :: "string \<Rightarrow> json \<Rightarrow> string res" where
  "add_text prefix v = (case v of JStr s \<Rightarrow> Inr (prefix @ s) | _ \<Rightarrow> Inl TypeError)"

text \<open>Everything before the first write: the validated files, the base tree, its modes.\<close>

definition observe_base :: "github \<Rightarrow> dict \<Rightarrow> json \<Rightarrow> (api_request list, json list \<times> string \<times> string \<times> string \<times> dict) eff" where
  "observe_base G task project =
     bindS (lift (item task ''result'')) (\<lambda>result. bindS (lift (subscript result ''files'')) (\<lambda>submitted.
     bindS (lift (validate_files submitted project)) (\<lambda>files.
     bindS (lift (subscript project ''repository'')) (\<lambda>repository. bindS (lift (add_text ''/repos/'' repository)) (\<lambda>repo.
     bindS (lift (item task ''id'')) (\<lambda>task_id. bindS (lift (add_text ''codex/repair-'' task_id)) (\<lambda>branch.
     bindS (lift (subscript project ''base_sha'')) (\<lambda>base_sha. bindS (lift (add_text (repo @ ''/git/commits/'') base_sha)) (\<lambda>commit_path.
     bindS (api_call G ''GET'' commit_path None) (\<lambda>base.
     bindS (check (is_dict base \<and> get (dict_of base) ''sha'' = base_sha) (ValueError ''base commit identity changed'')) (\<lambda>_.
     let identity = get (dict_of base) ''tree''; base_tree = (if is_dict identity then get (dict_of identity) ''sha'' else JNull) in
     bindS (check (is_str base_tree \<and> fullmatch SHA (str_of base_tree)) (ValueError ''invalid base tree identity'')) (\<lambda>_.
     bindS (api_call G ''GET'' (repo @ ''/git/trees/'' @ str_of base_tree @ ''?recursive=1'') None) (\<lambda>baseline.
     bindS (lift (base_modes baseline (str_of base_tree) (map file_path (list_of files)))) (\<lambda>modes.
     ret (list_of files, repo, branch, str_of base_tree, modes)))))))))))))))"

definition publish_blob :: "github \<Rightarrow> string \<Rightarrow> dict \<Rightarrow> json \<Rightarrow> (api_request list, json) eff" where
  "publish_blob G repo modes f =
     bindS (api_call G ''POST'' (repo @ ''/git/blobs'') (Some (JObj [(''content'', get (dict_of f) ''content''), (''encoding'', JStr ''base64'')]))) (\<lambda>blob.
     bindS (lift (item modes (file_path f))) (\<lambda>mode. bindS (lift (subscript blob ''sha'')) (\<lambda>sha.
     ret (JObj [(''path'', get (dict_of f) ''path''), (''mode'', mode), (''type'', JStr ''blob''), (''sha'', sha)]))))"

definition PR_EVIDENCE :: string where
  "PR_EVIDENCE = [CHR 0x0A, CHR 0x0A] @ ''Worker reports the fixed test command passed. This is untrusted test evidence; '' @
     ''independent CI and human review are required before merge or deployment.'' @ [CHR 0x0A, CHR 0x0A] @ ''Base commit: ''"

definition open_draft :: "github \<Rightarrow> dict \<Rightarrow> json \<Rightarrow> string \<Rightarrow> string \<Rightarrow> json \<Rightarrow> (api_request list, json) eff" where
  "open_draft G task project repo branch commit_sha =
     bindS (api_call G ''POST'' (repo @ ''/git/refs'') (Some (JObj [(''ref'', JStr (''refs/heads/'' @ branch)), (''sha'', commit_sha)]))) (\<lambda>_.
     bindS (lift (item task ''issue_key'')) (\<lambda>issue. bindS (lift (add_text ''[Draft] Investigate '' issue)) (\<lambda>title.
     bindS (lift (subscript project ''base_branch'')) (\<lambda>base_branch.
     bindS (lift (item task ''id'')) (\<lambda>task_id. bindS (lift (add_text ''Isolated Codex proposal. Task: '' task_id)) (\<lambda>opening.
     bindS (lift (subscript project ''base_sha'')) (\<lambda>base_sha. bindS (lift (add_text (opening @ PR_EVIDENCE) base_sha)) (\<lambda>body.
     api_call G ''POST'' (repo @ ''/pulls'') (Some (JObj [(''title'', JStr title), (''head'', JStr branch), (''base'', base_branch),
       (''draft'', JBool True), (''body'', JStr body)]))))))))))"

definition write_proposal :: "github \<Rightarrow> dict \<Rightarrow> json \<Rightarrow> json list \<times> string \<times> string \<times> string \<times> dict \<Rightarrow> (api_request list, dict) eff" where
  "write_proposal G task project = (\<lambda>(files, repo, branch, base_tree, modes).
     bindS (mapS (publish_blob G repo modes) files) (\<lambda>entries.
     bindS (api_call G ''POST'' (repo @ ''/git/trees'') (Some (JObj [(''base_tree'', JStr base_tree), (''tree'', JArr entries)]))) (\<lambda>tree.
     bindS (lift (item task ''issue_key'')) (\<lambda>issue. bindS (lift (add_text ''Propose repair for '' issue)) (\<lambda>message.
     bindS (lift (subscript tree ''sha'')) (\<lambda>tree_sha. bindS (lift (subscript project ''base_sha'')) (\<lambda>base_sha.
     bindS (api_call G ''POST'' (repo @ ''/git/commits'') (Some (JObj [(''message'', JStr message), (''tree'', tree_sha), (''parents'', JArr [base_sha])]))) (\<lambda>commit.
     bindS (lift (subscript commit ''sha'')) (\<lambda>commit_sha.
     bindS (open_draft G task project repo branch commit_sha) (\<lambda>pr.
     bindS (lift (subscript pr ''html_url'')) (\<lambda>link.
     ret [(''commit'', commit_sha), (''pr_url'', link)])))))))))))"

definition publish_draft :: "github \<Rightarrow> dict \<Rightarrow> json \<Rightarrow> (api_request list, dict) eff" where
  "publish_draft G task project = bindS (observe_base G task project) (write_proposal G task project)"

section \<open>What the base tree allows\<close>

lemma split_on_append: "split_on c (s @ c # t) = split_on c s @ split_on c t"
  by (induction s) (auto split: list.splits)

lemma starts_ancestor:
  assumes "starts (a @ ''/'') p" shows "a \<in> set (ancestors p)"
proof -
  obtain t where p: "p = a @ CHR ''/'' # t" using assms by (auto simp: starts_iff)
  let ?n = "length (split_on CHR ''/'' a)"
  have "?n \<in> set [1..<length (split_on CHR ''/'' p)]" by (simp add: p split_on_append Suc_le_eq)
  moreover have "a = join ''/'' (take ?n (split_on CHR ''/'' p))" by (simp add: p split_on_append join_split_on)
  ultimately show ?thesis unfolding ancestors_def Let_def set_map by (rule image_eqI [rotated])
qed

lemma base_entries_Inr:
  assumes "base_entries es vs = Inr out" and "distinct (map fst es)"
  shows "distinct (map fst out) \<and> out = es @ map (\<lambda>v. (file_path v, dict_of v)) vs"
  using assms
proof (induction es vs arbitrary: out rule: base_entries.induct)
  case (2 es entry rest)
  from 2(2) have "file_path entry \<notin> set (map fst es)" "base_entries (es @ [(file_path entry, dict_of entry)]) rest = Inr out"
    by (auto simp: bindr_Inr_iff Let_def file_path_def)
  then show ?case using 2(1,3) by (auto simp: file_path_def)
qed simp

definition regular_mode :: "dict option \<Rightarrow> json \<Rightarrow> bool" where
  "regular_mode e mode \<longleftrightarrow> mode \<in> {JStr ''100644'', JStr ''100755''}
     \<and> (case e of None \<Rightarrow> mode = JStr ''100644'' | Some e \<Rightarrow> get e ''type'' = JStr ''blob'' \<and> mode = get e ''mode'')"

definition fits_tree :: "(string \<times> dict) list \<Rightarrow> string list \<Rightarrow> string \<Rightarrow> bool" where
  "fits_tree es paths p \<longleftrightarrow> (\<forall>a. starts (a @ ''/'') p \<longrightarrow> a \<notin> set paths
     \<and> (\<forall>e. map_of es a = Some e \<longrightarrow> get e ''type'' = JStr ''tree'' \<and> get e ''mode'' = JStr ''040000''))"

lemma path_modes_Inr:
  assumes "path_modes es proposed modes ps = Inr out" and "\<forall>(p, m) \<in> set modes. regular_mode (map_of es p) m"
  shows "(\<forall>p \<in> set ps. has out p \<and> fits_tree es proposed p) \<and> (\<forall>p. has modes p \<longrightarrow> has out p) \<and> (\<forall>(p, m) \<in> set out. regular_mode (map_of es p) m)"
  using assms
proof (induction es proposed modes ps arbitrary: out rule: path_modes.induct)
  case (2 es proposed modes p ps)
  from 2(2) obtain mode where m: "file_mode es p = Inr mode" and rest: "path_modes es proposed (put modes p mode) ps = Inr out"
    and anc: "\<forall>a \<in> set (ancestors p). check_ancestor es proposed a = Inr ()"
    by (auto simp: bindr_Inr_iff for_each_Inr_iff)
  have "fits_tree es proposed p"
    using anc starts_ancestor by (force simp: fits_tree_def check_ancestor_def bindr_Inr_iff)
  moreover have "regular_mode (map_of es p) mode"
    using m by (auto simp: file_mode_def regular_mode_def bindr_Inr_iff in_strs_True split: option.splits if_splits)
  moreover have "set (put d k w) \<subseteq> insert (k, w) (set d)" for d k w by (induction d k w rule: put.induct) auto
  ultimately have "\<forall>(q, w) \<in> set (put modes p mode). regular_mode (map_of es q) w" using 2(3) by fastforce
  from 2(1) [OF rest this] \<open>fits_tree es proposed p\<close> show ?case by auto
qed simp

definition tree_entries :: "json \<Rightarrow> (string \<times> dict) list" where
  "tree_entries tree = map (\<lambda>v. (file_path v, dict_of v)) (list_of (get (dict_of tree) ''tree''))"

definition modes_ok :: "json \<Rightarrow> string list \<Rightarrow> dict \<Rightarrow> bool" where
  "modes_ok tree paths modes \<longleftrightarrow> distinct (map fst (tree_entries tree))
     \<and> (\<forall>p \<in> set paths. has modes p \<and> regular_mode (map_of (tree_entries tree) p) (get modes p) \<and> fits_tree (tree_entries tree) paths p)"

lemma base_modes_sound:
  assumes "base_modes tree sha paths = Inr modes"
  shows "modes_ok tree paths modes"
proof -
  from assms obtain es where es: "base_entries [] (list_of (get (dict_of tree) ''tree'')) = Inr es" "path_modes es paths [] paths = Inr modes"
    by (auto simp: base_modes_def bindr_Inr_iff)
  have "distinct (map fst es) \<and> es = [] @ map (\<lambda>v. (file_path v, dict_of v)) (list_of (get (dict_of tree) ''tree''))"
    by (rule base_entries_Inr [OF es(1)]) simp
  then have "distinct (map fst es)" "es = tree_entries tree" unfolding tree_entries_def append_Nil by blast+
  moreover note path_modes_Inr [OF es(2)]
  moreover have "(p, get modes p) \<in> set modes" if "has modes p" for p using map_of_SomeD [OF has_get [OF that]] .
  ultimately show ?thesis unfolding modes_ok_def by fastforce
qed

section \<open>The order of the requests\<close>

text \<open>
  \<open>follows Ps w\<close>: the requests \<open>w\<close> are a beginning of the plan \<open>Ps\<close>. \<open>steps Ps m s\<close>: the operation
  sends such requests, and all of the plan when it returns.
\<close>

fun follows :: "(api_request \<Rightarrow> bool) list \<Rightarrow> api_request list \<Rightarrow> bool" where
  "follows Ps [] = True"
| "follows [] (q # w) = False"
| "follows (P # Ps) (q # w) = (P q \<and> follows Ps w)"

definition steps :: "(api_request \<Rightarrow> bool) list \<Rightarrow> (api_request list, 'a) eff \<Rightarrow> api_request list \<Rightarrow> bool" where
  "steps Ps m s \<longleftrightarrow> (\<exists>w. snd (m s) = s @ w \<and> follows Ps w \<and> (\<forall>x. fst (m s) = Inr x \<longrightarrow> length w = length Ps))"

lemma follows_append: "follows Ps v \<Longrightarrow> length v = length Ps \<Longrightarrow> follows Qs w \<Longrightarrow> follows (Ps @ Qs) (v @ w)"
  by (induction Ps v rule: follows.induct) auto

lemma follows_more: "follows Ps v \<Longrightarrow> follows (Ps @ Qs) v"
  by (induction Ps v rule: follows.induct) auto

lemma follows_mono: "follows Ps w \<Longrightarrow> list_all2 (\<lambda>P Q. \<forall>q. P q \<longrightarrow> Q q) Ps Qs \<Longrightarrow> follows Qs w"
proof (induction Ps w arbitrary: Qs rule: follows.induct)
  case (3 P Ps q w)
  then show ?case by (cases Qs) auto
qed auto

lemma steps_bind:
  assumes "steps Ps m s" and "\<And>x s1. m s = (Inr x, s1) \<Longrightarrow> steps Qs (k x) s1"
  shows "steps (Ps @ Qs) (bindS m k) s"
proof -
  obtain v where v: "snd (m s) = s @ v" "follows Ps v" "\<forall>x. fst (m s) = Inr x \<longrightarrow> length v = length Ps"
    using assms(1) unfolding steps_def by blast
  show ?thesis
  proof (cases "fst (m s)")
    case (Inl e)
    then have "bindS m k s = (Inl e, s @ v)" using v(1) by (cases "m s") (simp add: bindS_def)
    then show ?thesis using follows_more [OF v(2)] by (simp add: steps_def)
  next
    case (Inr x)
    then have m: "m s = (Inr x, s @ v)" using v(1) by (cases "m s") simp
    obtain w where "snd (k x (s @ v)) = (s @ v) @ w" "follows Qs w" "\<forall>y. fst (k x (s @ v)) = Inr y \<longrightarrow> length w = length Qs"
      using assms(2) [OF m] unfolding steps_def by blast
    then show ?thesis using v(2,3) Inr follows_append [of Ps v Qs w] by (auto simp: steps_def bindS_eqI [of m s, OF m])
  qed
qed

lemma steps_mono:
  assumes "steps [P] m s" and "\<And>q. P q \<Longrightarrow> Q q" shows "steps [Q] m s"
  using assms follows_mono [of "[P]" _ "[Q]"] unfolding steps_def by fastforce

lemma steps_pure: "steps [] (lift r) s" "steps [] (ret x) s" "steps [] (check c e) s"
  by (simp_all add: steps_def eff_defs)

lemma steps_then:
  assumes "\<And>x. r = Inr x \<Longrightarrow> steps Qs (k x) s" shows "steps Qs (bindS (lift r) k) s"
  using steps_bind [OF steps_pure(1), of r s Qs k] assms by (simp add: lift_iff)

lemma steps_mapS:
  assumes "\<And>x t. x \<in> set xs \<Longrightarrow> steps [P x] (f x) t" shows "steps (map P xs) (mapS f xs) s"
  using assms
proof (induction xs arbitrary: s)
  case (Cons y ys s)
  have "steps ([P y] @ map P ys @ []) (mapS f (y # ys)) s"
    unfolding mapS.simps by (intro steps_bind Cons.IH steps_pure) (use Cons.prems in auto)
  then show ?case by simp
qed (simp add: steps_pure)

text \<open>A call sends one request, with the method, address and body it was given.\<close>

definition made :: "string \<Rightarrow> string \<Rightarrow> json option \<Rightarrow> api_request \<Rightarrow> bool" where
  "made m p body q \<longleftrightarrow> verb q = m \<and> api_url q = ''https://api.github.com'' @ p \<and> sent_body q = body"

lemma signed_made: "made m p body (signed_request secret m p body)"
  by (simp add: made_def signed_request_def)

lemma api_call_steps: "steps [made m p body] (api_call G m p body) s"
  by (auto simp: steps_def api_call_def eff_defs signed_made split: sum.splits)

lemma api_call_Inr:
  assumes "api_call G m p body s = (Inr v, s')"
  shows "\<exists>q encoded. s' = s @ [q] \<and> made m p body q \<and> answers G s' = Inr encoded \<and> json_loads G encoded = Inr v"
proof -
  from assms obtain secret encoded where "s' = s @ [signed_request secret m p body]" "answers G s' = Inr encoded" "json_loads G encoded = Inr v"
    by (auto simp: api_call_def eff_iffs) metis
  then show ?thesis using signed_made by blast
qed

section \<open>What a publication sends\<close>

definition repository_path :: "json \<Rightarrow> string" where
  "repository_path project = ''/repos/'' @ str_of (get (dict_of project) ''repository'')"

definition read_plan :: "json \<Rightarrow> (api_request \<Rightarrow> bool) list" where
  "read_plan project =
     [made ''GET'' (repository_path project @ ''/git/commits/'' @ str_of (get (dict_of project) ''base_sha'')) None,
      \<lambda>q. \<exists>sha. hex_text 40 sha \<and> made ''GET'' (repository_path project @ ''/git/trees/'' @ sha @ ''?recursive=1'') None q]"

definition entry_of :: "dict \<Rightarrow> json \<Rightarrow> json \<Rightarrow> bool" where
  "entry_of modes f e \<longleftrightarrow> file_path e = file_path f \<and> get (dict_of e) ''type'' = JStr ''blob'' \<and> get (dict_of e) ''mode'' = get modes (file_path f)"

definition write_plan :: "dict \<Rightarrow> json \<Rightarrow> json list \<Rightarrow> dict \<Rightarrow> (api_request \<Rightarrow> bool) list" where
  "write_plan task project files modes =
     (let repo = repository_path project; branch = ''codex/repair-'' @ str_of (get task ''id'') in
      map (\<lambda>f. made ''POST'' (repo @ ''/git/blobs'') (Some (JObj [(''content'', get (dict_of f) ''content''), (''encoding'', JStr ''base64'')]))) files
      @ [\<lambda>q. \<exists>base es. list_all2 (entry_of modes) files es \<and> made ''POST'' (repo @ ''/git/trees'') (Some (JObj [(''base_tree'', base), (''tree'', JArr es)])) q,
         \<lambda>q. \<exists>message tree. made ''POST'' (repo @ ''/git/commits'')
           (Some (JObj [(''message'', message), (''tree'', tree), (''parents'', JArr [get (dict_of project) ''base_sha''])])) q,
         \<lambda>q. \<exists>sha. made ''POST'' (repo @ ''/git/refs'') (Some (JObj [(''ref'', JStr (''refs/heads/'' @ branch)), (''sha'', sha)])) q,
         \<lambda>q. \<exists>title body. made ''POST'' (repo @ ''/pulls'') (Some (JObj [(''title'', title), (''head'', JStr branch),
           (''base'', get (dict_of project) ''base_branch''), (''draft'', JBool True), (''body'', body)])) q])"

lemma item_get: "item d k = Inr v \<Longrightarrow> get d k = v"
  by (simp add: item_Inr_iff map_of_get)

lemma subscript_get: "subscript v k = Inr w \<Longrightarrow> get (dict_of v) k = w"
  by (cases v) (simp_all add: subscript_def item_get)

lemma add_text_Inr: "add_text p v = Inr t \<longleftrightarrow> is_str v \<and> t = p @ str_of v"
  by (cases v) (auto simp: add_text_def)

lemma publish_blob_entry:
  assumes "publish_blob G repo modes f s = (Inr e, s')" and "is_str (get (dict_of f) ''path'')"
  shows "entry_of modes f e"
  using assms by (auto simp: publish_blob_def eff_iffs entry_of_def file_path_def get_def get_or_def item_def split: option.splits)

lemma mapS_list_all2:
  assumes "mapS f xs s = (Inr ys, s')" and "\<And>x y t t'. x \<in> set xs \<Longrightarrow> f x t = (Inr y, t') \<Longrightarrow> R x y"
  shows "list_all2 R xs ys"
  using assms
proof (induction xs arbitrary: s ys)
  case (Cons x xs s ys)
  then show ?case by (fastforce simp: eff_iffs)
qed (simp add: eff_iffs)

lemma publish_blob_steps:
  "steps [made ''POST'' (repo @ ''/git/blobs'') (Some (JObj [(''content'', get (dict_of f) ''content''), (''encoding'', JStr ''base64'')]))] (publish_blob G repo modes f) s"
proof -
  have "steps ([made ''POST'' (repo @ ''/git/blobs'') (Some (JObj [(''content'', get (dict_of f) ''content''), (''encoding'', JStr ''base64'')]))] @ []) (publish_blob G repo modes f) s"
    unfolding publish_blob_def by (intro steps_bind [OF api_call_steps] steps_then steps_pure)
  then show ?thesis by simp
qed

lemma open_draft_steps:
  assumes "branch = ''codex/repair-'' @ str_of (get task ''id'')"
  shows "steps [\<lambda>q. \<exists>sha. made ''POST'' (repo @ ''/git/refs'') (Some (JObj [(''ref'', JStr (''refs/heads/'' @ branch)), (''sha'', sha)])) q,
         \<lambda>q. \<exists>title body. made ''POST'' (repo @ ''/pulls'') (Some (JObj [(''title'', title), (''head'', JStr branch),
           (''base'', get (dict_of project) ''base_branch''), (''draft'', JBool True), (''body'', body)])) q]
     (open_draft G task project repo branch commit_sha) s" (is "steps [?ref, ?pull] _ s")
proof -
  have pull: "steps [?pull] (api_call G ''POST'' (repo @ ''/pulls'') (Some (JObj [(''title'', JStr title), (''head'', JStr branch), (''base'', base_branch),
       (''draft'', JBool True), (''body'', JStr body)]))) t" if "subscript project ''base_branch'' = Inr base_branch" for title base_branch body t
    using subscript_get [OF that] by (auto intro: steps_mono [OF api_call_steps])
  have "steps ([?ref] @ [?pull]) (open_draft G task project repo branch commit_sha) s"
    unfolding open_draft_def by (intro steps_bind steps_then pull) (auto intro: steps_mono [OF api_call_steps])
  then show ?thesis by simp
qed

lemma write_proposal_steps:
  assumes "repo = repository_path project" "branch = ''codex/repair-'' @ str_of (get task ''id'')"
    and files: "\<forall>f \<in> set files. is_str (get (dict_of f) ''path'')"
  shows "steps (write_plan task project files modes) (write_proposal G task project (files, repo, branch, base_tree, modes)) s"
proof -
  let ?blob = "\<lambda>f. made ''POST'' (repo @ ''/git/blobs'') (Some (JObj [(''content'', get (dict_of f) ''content''), (''encoding'', JStr ''base64'')]))"
  let ?tree = "\<lambda>q. \<exists>base es. list_all2 (entry_of modes) files es \<and> made ''POST'' (repo @ ''/git/trees'') (Some (JObj [(''base_tree'', base), (''tree'', JArr es)])) q"
  let ?commit = "\<lambda>q. \<exists>message tree. made ''POST'' (repo @ ''/git/commits'')
           (Some (JObj [(''message'', message), (''tree'', tree), (''parents'', JArr [get (dict_of project) ''base_sha''])])) q"
  let ?ref = "\<lambda>q. \<exists>sha. made ''POST'' (repo @ ''/git/refs'') (Some (JObj [(''ref'', JStr (''refs/heads/'' @ branch)), (''sha'', sha)])) q"
  let ?pull = "\<lambda>q. \<exists>title body. made ''POST'' (repo @ ''/pulls'') (Some (JObj [(''title'', title), (''head'', JStr branch),
           (''base'', get (dict_of project) ''base_branch''), (''draft'', JBool True), (''body'', body)])) q"
  have tree: "steps [?tree] (api_call G ''POST'' (repo @ ''/git/trees'') (Some (JObj [(''base_tree'', JStr base_tree), (''tree'', JArr es)]))) t"
    if "mapS (publish_blob G repo modes) files s = (Inr es, t)" for es t
  proof -
    have "list_all2 (entry_of modes) files es"
      by (rule mapS_list_all2 [OF that]) (use publish_blob_entry files in blast)
    then show ?thesis by (auto intro: steps_mono [OF api_call_steps])
  qed
  have commit: "steps [?commit] (api_call G ''POST'' (repo @ ''/git/commits'') (Some (JObj [(''message'', JStr message), (''tree'', tree_sha), (''parents'', JArr [base_sha])]))) t"
    if "subscript project ''base_sha'' = Inr base_sha" for message tree_sha base_sha t
    using subscript_get [OF that] by (auto intro: steps_mono [OF api_call_steps])
  have "steps (map ?blob files @ [?tree] @ [?commit] @ [?ref, ?pull] @ []) (write_proposal G task project (files, repo, branch, base_tree, modes)) s"
    unfolding write_proposal_def split
    by (intro steps_bind [OF steps_mapS [OF publish_blob_steps]] steps_bind [OF tree] steps_bind [OF commit] steps_bind [OF open_draft_steps] steps_then steps_pure assms(2)) assumption+
  then show ?thesis by (simp add: write_plan_def Let_def assms(1,2))
qed

lemma check_files_paths: "check_files project seen used files = Inr () \<Longrightarrow> \<forall>f \<in> set files. is_str (get (dict_of f) ''path'')"
  by (induction project seen used files rule: check_files.induct) (auto simp: bindr_Inr_iff Let_def)

lemma validate_files_paths: "validate_files v project = Inr out \<Longrightarrow> out = v \<and> is_list v \<and> (\<forall>f \<in> set (list_of v). is_str (get (dict_of f) ''path''))"
  using check_files_paths by (auto simp: validate_files_def bindr_Inr_iff)

text \<open>What the two reads establish when nothing raised.\<close>

definition observed :: "github \<Rightarrow> dict \<Rightarrow> json \<Rightarrow> api_request list \<Rightarrow> json list \<times> string \<times> string \<times> string \<times> dict \<Rightarrow> api_request list \<Rightarrow> bool" where
  "observed G task project s = (\<lambda>(files, repo, branch, base_tree, modes) s'.
     validate_files (get (dict_of (get task ''result'')) ''files'') project = Inr (JArr files)
     \<and> repo = repository_path project \<and> branch = ''codex/repair-'' @ str_of (get task ''id'')
     \<and> (\<exists>reads encoded tree. s' = s @ reads \<and> answers G s' = Inr encoded \<and> json_loads G encoded = Inr tree \<and> modes_ok tree (map file_path files) modes))"

lemma observe_base_steps: "steps (read_plan project) (observe_base G task project) s"
proof -
  let ?commit = "made ''GET'' (repository_path project @ ''/git/commits'' @ [CHR ''/''] @ str_of (get (dict_of project) ''base_sha'')) None"
  let ?tree = "\<lambda>q. \<exists>sha. hex_text 40 sha \<and> made ''GET'' (repository_path project @ ''/git/trees/'' @ sha @ ''?recursive=1'') None q"
  have repo: "repo = repository_path project" if "subscript project ''repository'' = Inr r" "add_text ''/repos/'' r = Inr repo" for r repo
    using that subscript_get [OF that(1)] by (simp add: add_text_Inr repository_path_def)
  have commit: "steps [?commit] (api_call G ''GET'' p None) t"
    if "subscript project ''repository'' = Inr r" "add_text ''/repos/'' r = Inr repo"
      "subscript project ''base_sha'' = Inr b" "add_text (repo @ ''/git/commits/'') b = Inr p" for r repo b p t
    using that(4) subscript_get [OF that(3)] repo [OF that(1,2)] by (auto simp: add_text_Inr intro: steps_mono [OF api_call_steps])
  have tree: "steps [?tree] (api_call G ''GET'' (repo @ ''/git/trees/'' @ str_of sha @ ''?recursive=1'') None) t"
    if "subscript project ''repository'' = Inr r" "add_text ''/repos/'' r = Inr repo" "check (is_str sha \<and> fullmatch SHA (str_of sha)) e t0 = (Inr u, t)" for r repo sha e u t0 t
    using that(3) repo [OF that(1,2)] by (auto simp: eff_iffs SHA_def hex_text_def intro!: steps_mono [OF api_call_steps])
  have "steps ([?commit] @ [] @ [] @ [?tree] @ []) (observe_base G task project) s"
    unfolding observe_base_def Let_def
    by (intro steps_then steps_bind [OF commit] steps_bind [OF tree] steps_bind [OF steps_pure(3)] steps_pure) assumption+
  then show ?thesis by (simp add: read_plan_def)
qed

lemma observe_base_Inr:
  assumes "observe_base G task project s = (Inr x, s')"
  shows "observed G task project s x s'"
proof -
  obtain files repo branch base_tree modes where x: "x = (files, repo, branch, base_tree, modes)" by (metis prod.exhaust_sel)
  have lifted: "lift m t = (Inr y, t') \<longleftrightarrow> m = Inr y \<and> t' = t" for m :: "'b res" and y and t t' :: "api_request list" by (auto simp: lift_def)
  from assms obtain result v out r i p base baseline s1 where
      f: "item task ''result'' = Inr result" "subscript result ''files'' = Inr v" "validate_files v project = Inr out" "files = list_of out"
    and n: "subscript project ''repository'' = Inr r" "add_text ''/repos/'' r = Inr repo" "item task ''id'' = Inr i" "add_text ''codex/repair-'' i = Inr branch"
    and t: "api_call G ''GET'' p None s = (Inr base, s1)" "api_call G ''GET'' (repo @ ''/git/trees/'' @ base_tree @ ''?recursive=1'') None s1 = (Inr baseline, s')"
      "base_modes baseline base_tree (map file_path files) = Inr modes"
    unfolding observe_base_def x Let_def bindS_Inr_iff lifted check_Inr_iff ret_iff sum.inject prod.inject by (elim exE conjE) simp
  have v: "validate_files v project = Inr (JArr files)" using validate_files_paths [OF f(3)] f(3,4) by (auto simp: is_list_iff)
  show ?thesis unfolding observed_def x split
    using item_get [OF f(1)] subscript_get [OF f(2)] v subscript_get [OF n(1)] n(2) item_get [OF n(3)] n(4)
      api_call_Inr [OF t(1)] api_call_Inr [OF t(2)] base_modes_sound [OF t(3)]
    by (auto simp: add_text_Inr repository_path_def)
qed

section \<open>Properties of publication\<close>

lemma steps_split:
  assumes "steps Ps m s"
  obtains w where "snd (m s) = s @ w" "follows Ps w" "\<And>x. fst (m s) = Inr x \<Longrightarrow> length w = length Ps"
  using assms unfolding steps_def by blast

text \<open>
  C37: whatever GitHub answers, a publication sends first at most two reads, of the commit and of the tree it was
  prepared on, and writes only after the second answer listed the complete tree without duplicates. The
  writes are a beginning of one fixed sequence: a blob for every file of the accepted patch, one tree with exactly those
  paths, one commit on the policy's base commit, the branch of this task, and one draft request against
  the policy's branch; a publication that returns has sent all of them. Every file of the tree keeps the mode of the regular blob
  it replaces, or is a new plain file, and no path runs through another file of the patch or through an
  entry of the tree that is not a directory.
\<close>

theorem publish_writes:
  "\<exists>reads writes. snd (publish_draft G task project h) = h @ reads @ writes \<and> follows (read_plan project) reads
     \<and> (writes = [] \<and> (\<exists>e. fst (publish_draft G task project h) = Inl e)
      \<or> (\<exists>files encoded tree modes. validate_files (get (dict_of (get task ''result'')) ''files'') project = Inr (JArr files)
          \<and> length reads = 2 \<and> answers G (h @ reads) = Inr encoded \<and> json_loads G encoded = Inr tree \<and> modes_ok tree (map file_path files) modes
          \<and> follows (write_plan task project files modes) writes
          \<and> (\<forall>d. fst (publish_draft G task project h) = Inr d \<longrightarrow> length writes = length files + 4)))"
proof -
  obtain reads where r: "snd (observe_base G task project h) = h @ reads" "follows (read_plan project) reads"
      "\<And>x. fst (observe_base G task project h) = Inr x \<Longrightarrow> length reads = length (read_plan project)"
    using steps_split [OF observe_base_steps [of project G task h]] by blast
  show ?thesis
  proof (cases "fst (observe_base G task project h)")
    case (Inl e)
    then have "publish_draft G task project h = (Inl e, h @ reads)"
      using r(1) by (cases "observe_base G task project h") (simp add: publish_draft_def bindS_def)
    then show ?thesis using r(2) by (intro exI [of _ reads] exI [of _ "[]"]) simp
  next
    case (Inr x)
    then have o: "observe_base G task project h = (Inr x, h @ reads)" using r(1) by (cases "observe_base G task project h") simp
    obtain files repo branch base_tree modes where x: "x = (files, repo, branch, base_tree, modes)" by (metis prod.exhaust_sel)
    note seen = observe_base_Inr [OF o, unfolded observed_def x split]
    have run: "publish_draft G task project h = write_proposal G task project x (h @ reads)"
      unfolding publish_draft_def by (rule bindS_eqI [of "observe_base G task project", OF o])
    have paths: "\<forall>f \<in> set files. is_str (get (dict_of f) ''path'')"
      using seen validate_files_paths by (metis content_simps(2))
    have plan: "steps (write_plan task project files modes) (write_proposal G task project x) (h @ reads)"
      unfolding x by (rule write_proposal_steps) (use seen paths in simp_all)
    obtain writes where "snd (publish_draft G task project h) = (h @ reads) @ writes" "follows (write_plan task project files modes) writes"
        "\<And>d. fst (publish_draft G task project h) = Inr d \<Longrightarrow> length writes = length (write_plan task project files modes)"
      unfolding run using steps_split [OF plan] by blast
    then show ?thesis using seen r(2,3) Inr
      by (intro exI [of _ reads] exI [of _ writes]) (auto simp: write_plan_def read_plan_def Let_def)
  qed
qed

definition demo_sha :: string where
  "demo_sha = replicate 40 CHR ''b''"

definition demo_github :: github where
  "demo_github = \<lparr>token_text = (\<lambda>_. Inr ''t''), answers = (\<lambda>h. Inr (map (\<lambda>_. CHR ''x'') h)),
     json_loads = (\<lambda>s. Inr (case length s of
         Suc 0 \<Rightarrow> JObj [(''sha'', get demo_project ''base_sha''), (''tree'', JObj [(''sha'', JStr demo_sha)])]
       | Suc (Suc 0) \<Rightarrow> JObj [(''sha'', JStr demo_sha), (''truncated'', JBool False),
           (''tree'', JArr [JObj [(''path'', JStr ''src''), (''type'', JStr ''tree''), (''mode'', JStr ''040000'')],
              JObj [(''path'', JStr ''src/a.py''), (''type'', JStr ''blob''), (''mode'', JStr ''100755'')]])]
       | n \<Rightarrow> JObj [(''sha'', JStr ''c''), (''html_url'', JStr ''u'')]))\<rparr>"

definition demo_publication :: dict where
  "demo_publication = [(''id'', JStr ''1''), (''issue_key'', JStr ''A-1''),
     (''result'', JObj [(''files'', JArr [JObj [(''path'', JStr ''src/a.py''), (''content'', JStr ''YQ=='')]])])]"

lemma demo_publication_runs:
  "fst (publish_draft demo_github demo_publication (JObj demo_project) []) = Inr [(''commit'', JStr ''c''), (''pr_url'', JStr ''u'')]"
  by code_simp

theorem publish_writes_witness:
  "\<exists>files tree modes. validate_files (get (dict_of (get demo_publication ''result'')) ''files'') (JObj demo_project) = Inr (JArr files)
     \<and> modes_ok tree (map file_path files) modes
     \<and> length (snd (publish_draft demo_github demo_publication (JObj demo_project) [])) = length files + 6"
proof -
  from publish_writes [of demo_github demo_publication "JObj demo_project" "[]"] show ?thesis
    unfolding demo_publication_runs by fastforce
qed

end
