(* ===== verification/Ledger_Audit.thy ===== *)
theory Ledger_Audit
  imports Ledger_Core
begin

text \<open>
  Ledgers that write an event for every change of a row's state. \<open>trail\<close> is the abstract ledger that the
  events alone describe: the state of a key is the state of its last event. A ledger is audited
  when this map and the map of its rows agree; the lemmas say so of the two writes that a
  transition and an insertion consist of. \<open>census\<close> counts rows of a kind for the budgets.
\<close>

section \<open>Audit trails\<close>

definition trail :: "('e \<Rightarrow> string) \<Rightarrow> ('e \<Rightarrow> string) \<Rightarrow> 'e list \<Rightarrow> string \<Rightarrow> string option" where
  "trail key st evs k = (case filter (\<lambda>e. key e = k) evs of [] \<Rightarrow> None | es \<Rightarrow> Some (st (last es)))"

definition states :: "('r \<Rightarrow> string) \<Rightarrow> ('r \<Rightarrow> string) \<Rightarrow> 'r list \<Rightarrow> string \<Rightarrow> string option" where
  "states key st rows k = map_option st (find_by key rows k)"

lemma trail_Nil [simp]: "trail key st [] k = None"
  by (simp add: trail_def)

lemma trail_snoc [simp]: "trail key st (evs @ [e]) k = (if key e = k then Some (st e) else trail key st evs k)"
proof -
  have "(case xs @ [e] of [] \<Rightarrow> None | es \<Rightarrow> Some (st (last es))) = Some (st e)" for xs
    by (cases "xs @ [e]") (simp_all, metis last_ConsR last_snoc last.simps)
  then show ?thesis by (simp add: trail_def)
qed

definition audited :: "('r \<Rightarrow> string) \<Rightarrow> ('r \<Rightarrow> string) \<Rightarrow> ('e \<Rightarrow> string) \<Rightarrow> ('e \<Rightarrow> string) \<Rightarrow> 'r list \<Rightarrow> 'e list \<Rightarrow> bool" where
  "audited key st ekey est rows evs \<longleftrightarrow> trail ekey est evs = states key st rows"

lemma audited_update:
  assumes "audited key st ekey est rows evs" and "\<And>r. key (f r) = key r" and "find_by key rows k = Some r"
    and "ekey e = k" and "est e = st (f r)"
  shows "audited key st ekey est (update_by key k f rows) (evs @ [e])"
  using assms by (auto simp: audited_def states_def fun_eq_iff find_by_update)

lemma audited_insert:
  assumes "audited key st ekey est rows evs" and "key r \<notin> key ` set rows" and "ekey e = key r" and "est e = st r"
  shows "audited key st ekey est (rows @ [r]) (evs @ [e])"
proof -
  have "find_by key rows (key r) = None" using assms(2) by (simp add: find_by_None)
  then show ?thesis using assms(1,3,4) by (auto simp: audited_def states_def fun_eq_iff find_by_append split: option.splits)
qed

lemma audited_same: "audited key st ekey est rows evs \<Longrightarrow> (\<And>k. states key st rows' k = states key st rows k) \<Longrightarrow> audited key st ekey est rows' evs"
  by (auto simp: audited_def fun_eq_iff)

section \<open>Counting rows\<close>

definition census :: "('r \<Rightarrow> bool) \<Rightarrow> 'r list \<Rightarrow> nat" where
  "census p rows = length (filter p rows)"

lemma census_snoc [simp]: "census p (rows @ [r]) = census p rows + (if p r then 1 else 0)"
  by (simp add: census_def)

lemma census_map: "(\<And>r. p (f r) = p r) \<Longrightarrow> census p (map f rs) = census p rs"
  by (induction rs) (simp_all add: census_def)

lemma update_absent: "k \<notin> key ` set rows \<Longrightarrow> update_by key k f rows = rows"
  by (induction rows) (auto simp: update_by_def)

lemma census_update:
  assumes "distinct (map key rows)" and "find_by key rows k = Some r"
  shows "census p (update_by key k f rows) + (if p r then 1 else 0) = census p rows + (if p (f r) then 1 else 0)"
  using assms
proof (induction rows)
  case (Cons q rows)
  show ?case
  proof (cases "key q = k")
    case True
    then have "k \<notin> key ` set rows" using Cons.prems(1) by (metis distinct.simps(2) list.simps(9) set_map)
    then have "update_by key k f rows = rows" by (rule update_absent)
    then have "update_by key k f (q # rows) = f q # rows" using True by (simp add: update_by_def)
    moreover have "q = r" using Cons.prems(2) True by simp
    ultimately show ?thesis by (simp add: census_def)
  next
    case False
    then have "update_by key k f (q # rows) = q # update_by key k f rows" by (simp add: update_by_def)
    moreover have "find_by key rows k = Some r" using Cons.prems(2) False by simp
    ultimately show ?thesis using Cons by (simp add: census_def)
  qed
qed simp

lemma census_le: "census p (update_by key k f rows) \<le> n"
  if "distinct (map key rows)" "find_by key rows k = Some r" "census p rows \<le> n" "p (f r) \<Longrightarrow> p r"
  using census_update [OF that(1,2), of p f] that(3,4) by (auto split: if_splits)

lemma census_zero: "census p rows = 0 \<longleftrightarrow> (\<forall>r \<in> set rows. \<not> p r)"
  by (auto simp: census_def filter_empty_conv)

lemma census_pos: "r \<in> set rows \<Longrightarrow> p r \<Longrightarrow> 1 \<le> census p rows"
  using census_zero [of p rows] by fastforce

lemma census_one:
  assumes "census p rows \<le> 1" "q \<in> set rows" "r \<in> set rows" "p q" "p r" shows "q = r"
proof -
  obtain x where "filter p rows = [x] \<or> filter p rows = []" using assms(1) by (cases "filter p rows") (auto simp: census_def)
  moreover have "q \<in> set (filter p rows)" "r \<in> set (filter p rows)" using assms by auto
  ultimately show ?thesis by (metis empty_iff empty_set list.set(2) singletonD)
qed

end
