(* ===== verification/Codex_Ledger.thy ===== *)
theory Codex_Ledger
  imports Codex_Policy Ledger_Audit
begin

text \<open>
  \<open>deploy/codex-worker/broker.py\<close>, class \<open>Ledger\<close>: the durable ledger of coding tasks. A task is a row
  of \<open>tasks\<close>, every change of its state a row of \<open>events\<close> with the public projection of the task at
  that moment (\<open>metadata\<close> of \<open>mcp_adapter.py\<close>). A JSON column holds the decoded document: the code
  reads it back only through \<open>json.loads\<close>. The clock and fresh identifiers come from \<open>env\<close>; the
  sequence number of an event is its position, as no event is ever deleted.

  A method that the source runs as several transactions (\<open>publish\<close>) is here the composition of
  its phases, so that other calls may come between them.
\<close>

section \<open>Rows\<close>

record task_row =
  t_id :: string
  t_project :: string
  t_issue :: string
  t_state :: string
  t_created :: json
  t_updated :: json
  t_body :: dict
  t_result :: dict
  t_session :: json
  t_commit :: json
  t_pr_url :: json
  t_error :: json
  t_policy :: json
  t_phase :: json
  t_public_updated :: json

record task_event =
  ev_task :: string
  ev_state :: string
  ev_at :: json
  ev_snapshot :: json

record broker = world +
  tasks :: "task_row list"
  events :: "task_event list"

abbreviation PHASES :: "string list" where
  "PHASES \<equiv> [''checkout'', ''baseline'', ''codex'', ''postcheck'', ''collect'']"

abbreviation ERROR_CODES :: "string list" where
  "ERROR_CODES \<equiv> [''sandbox_unavailable'', ''checkout_failed'', ''codex_failed'', ''tests_failed'', ''output_rejected'',
     ''budget_exhausted'', ''worker_failed'']"

definition STATUS :: "(string \<times> string) list" where
  "STATUS = [(''pending'', ''queued''), (''queued'', ''queued''), (''running'', ''running''), (''review'', ''completed''),
     (''publishing'', ''running''), (''completed'', ''completed''), (''failed'', ''failed''), (''cancelled'', ''cancelled'')]"

section \<open>Public metadata\<close>

abbreviation PUBLIC :: "string list" where
  "PUBLIC \<equiv> [''id'', ''project'', ''issue_key'', ''state'', ''status'', ''phase'', ''progress'', ''approval_required'', ''approval_kind'',
     ''created'', ''updated'', ''session_id'', ''commit'', ''pr_url'', ''error'', ''error_code'']"

definition PR_URL :: rexp where
  "PR_URL = (let part = Many (Cls (\<lambda>c. is_alnum c \<or> c = CHR ''_'' \<or> c = CHR ''.'' \<or> c = CHR ''-'')) 1 in
     Seq (Lit ''https://github.com/'') (Seq part (Seq (Lit ''/'') (Seq part (Seq (Lit ''/pull/'')
       (Seq (Cls (between CHR ''1'' CHR ''9'')) (Many (Cls is_digit) 0)))))))"

definition SESSION :: rexp where
  "SESSION = Rep (Cls (\<lambda>c. is_alnum c \<or> c = CHR ''-'')) 1 80"

definition scalar :: "json \<Rightarrow> bool" where
  "scalar v = (case v of JArr _ \<Rightarrow> False | JObj _ \<Rightarrow> False | _ \<Rightarrow> True)"

definition clip :: "json \<Rightarrow> json" where
  "clip v = (case v of JStr s \<Rightarrow> JStr (take 2048 s) | _ \<Rightarrow> v)"

definition safe_result :: "dict \<Rightarrow> dict res" where
  "safe_result result =
     bindr (if has result ''proposal'' then bindr (validate_proposal (get result ''proposal'')) (\<lambda>p. Inr [(''proposal'', p)]) else Inr []) (\<lambda>proposal.
     Inr (filter (\<lambda>(k, v). type_is_bool v) [(''ok'', get result ''ok''), (''tests_passed'', get result ''tests_passed'')]
       @ (case get result ''changed_files'' of JInt n \<Rightarrow> if 0 \<le> n \<and> n \<le> 1000 then [(''changed_files'', JInt n)] else [] | _ \<Rightarrow> [])
       @ (case get result ''session_id'' of
            JNull \<Rightarrow> if has result ''session_id'' then [(''session_id'', JNull)] else []
          | JStr s \<Rightarrow> if fullmatch SESSION s then [(''session_id'', JStr s)] else []
          | _ \<Rightarrow> [])
       @ proposal))"

definition pull_request :: "json \<Rightarrow> bool" where
  "pull_request v = (case v of
       JObj d \<Rightarrow> get d ''kind'' = JStr ''pull_request'' \<and> (case get d ''url'' of JStr s \<Rightarrow> fullmatch PR_URL s | _ \<Rightarrow> False)
     | _ \<Rightarrow> False)"

definition metadata :: "dict \<Rightarrow> dict res" where
  "metadata task =
     (let public = map (\<lambda>(k, v). (k, clip v)) (filter (\<lambda>(k, v). k \<in> set PUBLIC \<and> scalar v) task) in
      bindr (case get task ''result'' of JObj r \<Rightarrow> bindr (safe_result r) (\<lambda>safe. Inr [(''result'', JObj safe)]) | _ \<Rightarrow> Inr []) (\<lambda>result.
      let artifacts = (case get task ''artifacts'' of
            JArr xs \<Rightarrow> [(''artifacts'', JArr (map (\<lambda>x. JObj [(''kind'', JStr ''pull_request''), (''url'', get (dict_of x) ''url'')])
              (filter pull_request (take 10 xs))))]
          | _ \<Rightarrow> [])
      in Inr (public @ result @ artifacts)))"

section \<open>Reading a task\<close>

definition PROGRESS :: "(string \<times> string) list" where
  "PROGRESS = [(''checkout'', ''checkout''), (''baseline'', ''testing''), (''codex'', ''coding''), (''postcheck'', ''testing''),
     (''collect'', ''collecting''), (''running'', ''sandbox'')]"

definition lookup_text :: "(string \<times> string) list \<Rightarrow> json \<Rightarrow> json" where
  "lookup_text table v = (case v of JStr s \<Rightarrow> (case map_of table s of Some t \<Rightarrow> JStr t | None \<Rightarrow> JNull) | _ \<Rightarrow> JNull)"

definition result_view :: "dict \<Rightarrow> dict" where
  "result_view result = filter (\<lambda>(k, v). has result k) (map (\<lambda>k. (k, get result k)) [''ok'', ''tests_passed'', ''session_id'', ''proposal''])
     @ (if has result ''files'' then [(''changed_files'', JInt (int (length (list_of (get result ''files'')))))] else [])"

definition public_task :: "task_row \<Rightarrow> dict res" where
  "public_task r =
     (case map_of STATUS (t_state r) of
        None \<Rightarrow> Inl (KeyError (t_state r))
      | Some st \<Rightarrow>
        let phase = (if t_state r = ''running'' \<and> truthy (t_phase r) then t_phase r else JStr (t_state r)) in
        metadata
          [(''id'', JStr (t_id r)), (''project'', JStr (t_project r)), (''issue_key'', JStr (t_issue r)), (''state'', JStr (t_state r)),
           (''created'', t_created r), (''updated'', t_public_updated r), (''body'', JObj (t_body r)), (''result'', JObj (result_view (t_result r))),
           (''session_id'', t_session r), (''pr_url'', t_pr_url r), (''error'', t_error r), (''policy_sha256'', t_policy r), (''phase'', phase),
           (''public_updated'', t_public_updated r), (''commit'', t_commit r), (''status'', JStr st),
           (''progress'', lookup_text PROGRESS phase), (''approval_required'', JBool (t_state r \<in> {''pending'', ''review''})),
           (''approval_kind'', lookup_text [(''pending'', ''execution''), (''review'', ''publication'')] (JStr (t_state r))),
           (''error_code'', get (t_result r) ''error_code''),
           (''artifacts'', if truthy (t_pr_url r) then JArr [JObj [(''kind'', JStr ''pull_request''), (''url'', t_pr_url r)]] else JArr [])])"

definition private_task :: "dict \<Rightarrow> task_row \<Rightarrow> dict res" where
  "private_task projects r = bindr (item projects (t_project r)) (\<lambda>policy. Inr
     [(''id'', JStr (t_id r)), (''project'', JStr (t_project r)), (''issue_key'', JStr (t_issue r)), (''state'', JStr (t_state r)),
      (''created'', t_created r), (''updated'', t_updated r), (''body'', JObj (t_body r)), (''result'', JObj (t_result r)),
      (''session_id'', t_session r), (''pr_url'', t_pr_url r), (''error'', t_error r), (''policy_sha256'', t_policy r), (''phase'', t_phase r),
      (''public_updated'', t_public_updated r), (''commit'', t_commit r), (''policy'', policy)])"

definition fetch_task :: "string \<Rightarrow> (broker, task_row) eff" where
  "fetch_task k = bindS (gets tasks) (\<lambda>rs. case find_by t_id rs k of None \<Rightarrow> raise (KeyError ''task not found'') | Some r \<Rightarrow> ret r)"

definition get_public :: "string \<Rightarrow> (broker, dict) eff" where
  "get_public k = bindS (fetch_task k) (\<lambda>r. lift (public_task r))"

definition get_private :: "dict \<Rightarrow> string \<Rightarrow> (broker, task_row \<times> dict) eff" where
  "get_private projects k = bindS (fetch_task k) (\<lambda>r. bindS (lift (private_task projects r)) (\<lambda>d. ret (r, d)))"

section \<open>Writing a task\<close>

definition update_task :: "string \<Rightarrow> (task_row \<Rightarrow> task_row) \<Rightarrow> (broker, unit) eff" where
  "update_task k f = modify (\<lambda>s. s\<lparr>tasks := update_by t_id k f (tasks s)\<rparr>)"

definition log_task :: "string \<Rightarrow> string \<Rightarrow> json \<Rightarrow> (broker, unit) eff" where
  "log_task k st stamp = bindS (get_public k) (\<lambda>d.
     modify (\<lambda>s. s\<lparr>events := events s @ [\<lparr>ev_task = k, ev_state = st, ev_at = stamp, ev_snapshot = JObj d\<rparr>]\<rparr>))"

definition set_state :: "string \<Rightarrow> flt \<Rightarrow> task_row \<Rightarrow> task_row" where
  "set_state st now r = r\<lparr>t_state := st, t_updated := sql_real now, t_public_updated := sql_real now\<rparr>"

definition transition :: "env \<Rightarrow> string \<Rightarrow> string \<Rightarrow> (task_row \<Rightarrow> task_row) \<Rightarrow> (broker, unit) eff" where
  "transition E k st extra =
     bindS (read_clock E) (\<lambda>now.
     bindS (update_task k (\<lambda>r. extra (set_state st now r))) (\<lambda>_. log_task k st (sql_real now)))"

definition set_error :: "string \<Rightarrow> task_row \<Rightarrow> task_row" where
  "set_error message r = r\<lparr>t_error := JStr message\<rparr>"

definition policy_digest :: "env \<Rightarrow> json \<Rightarrow> string" where
  "policy_digest E policy = sha256 E (dumps (float_text E) sorted_style policy)"

definition check_task_policy :: "env \<Rightarrow> dict \<Rightarrow> unit res" where
  "check_task_policy E task = require (get task ''policy_sha256'' = JStr (policy_digest E (get task ''policy'')))
     (ValueError ''task policy changed; operator reconciliation required'')"

text \<open>Opening the ledger: what a restart cannot have finished is failed.\<close>

definition recover :: "env \<Rightarrow> (broker, unit) eff" where
  "recover E = transaction
     (bindS (modify (\<lambda>s. s\<lparr>tasks := map (\<lambda>r. if t_public_updated r = JNull then r\<lparr>t_public_updated := t_updated r\<rparr> else r) (tasks s)\<rparr>)) (\<lambda>_.
     bindS (gets tasks) (\<lambda>rs.
       for_eachS (\<lambda>r. transition E (t_id r) ''failed'' (set_error ''broker restarted; operator reconciliation required''))
         (filter (\<lambda>r. t_state r \<in> {''running'', ''publishing''}) rs))))"

section \<open>Requests\<close>

definition ISSUE_KEY :: rexp where
  "ISSUE_KEY = Rep (Cls (\<lambda>c. is_alnum c \<or> c \<in> {CHR ''_'', CHR ''.'', CHR '':'', CHR ''-''})) 1 128"

definition text_within :: "json \<Rightarrow> int \<Rightarrow> bool" where
  "text_within v n \<longleftrightarrow> is_str v \<and> int (length (str_of v)) \<le> n"

definition submit_args :: "dict \<Rightarrow> dict \<Rightarrow> unit res" where
  "submit_args projects body =
     bindr (require (same_keys body [''project'', ''issue_key'', ''summary'', ''context'']) (ValueError ''expected project, issue_key, summary, context'')) (\<lambda>_.
     bindr (require (is_str (get body ''project'') \<and> has projects (str_of (get body ''project''))) (ValueError ''project not approved'')) (\<lambda>_.
     bindr (require (is_str (get body ''issue_key'') \<and> fullmatch ISSUE_KEY (str_of (get body ''issue_key''))) (ValueError ''invalid stable issue key'')) (\<lambda>_.
     bindr (require (text_within (get body ''summary'') 1000 \<and> text_within (get body ''context'') 16000) (ValueError ''context/summary exceeds budget'')) (\<lambda>_.
     require (truthy (get body ''summary'')) (ValueError ''task summary required'')))))"

definition occupies :: "task_row \<Rightarrow> bool" where
  "occupies r \<longleftrightarrow> t_state r \<in> {''pending'', ''queued'', ''running'', ''publishing''}"

definition insert_task :: "task_row \<Rightarrow> (broker, unit) eff" where
  "insert_task r = bindS (gets tasks) (\<lambda>rs.
     if list_ex (\<lambda>q. t_id q = t_id r \<or> t_project q = t_project r \<and> t_issue q = t_issue r) rs then raise IntegrityError
     else modify (\<lambda>s. s\<lparr>tasks := tasks s @ [r]\<rparr>))"

definition new_task :: "env \<Rightarrow> dict \<Rightarrow> dict \<Rightarrow> string \<Rightarrow> flt \<Rightarrow> task_row" where
  "new_task E projects body k now =
     (let policy = get projects (str_of (get body ''project''));
          st = (if get (dict_of policy) ''auto_prepare'' = JBool True then ''queued'' else ''pending'')
      in \<lparr>t_id = k, t_project = str_of (get body ''project''), t_issue = str_of (get body ''issue_key''), t_state = st,
          t_created = sql_real now, t_updated = sql_real now, t_body = body, t_result = [], t_session = JNull, t_commit = JNull,
          t_pr_url = JNull, t_error = JNull, t_policy = JStr (policy_digest E policy), t_phase = JNull, t_public_updated = sql_real now\<rparr>)"

definition submit :: "env \<Rightarrow> dict \<Rightarrow> dict \<Rightarrow> (broker, dict) eff" where
  "submit E projects body =
     bindS (lift (submit_args projects body)) (\<lambda>_.
     transaction (bindS (gets tasks) (\<lambda>rs.
       case List.find (\<lambda>r. t_project r = str_of (get body ''project'') \<and> t_issue r = str_of (get body ''issue_key'')) rs of
         Some r \<Rightarrow>
           if \<not> py_eq (JObj (t_body r)) (JObj body) then raise (ValueError ''stable issue key reused with different task content'')
           else get_public (t_id r)
       | None \<Rightarrow>
           if 32 \<le> length (filter occupies rs) then raise (ValueError ''pending task budget exhausted'')
           else
             bindS (fresh_uuid E) (\<lambda>k.
             bindS (read_clock E) (\<lambda>now.
             let r = new_task E projects body k now in
             bindS (insert_task r) (\<lambda>_.
             bindS (log_task k (t_state r) (sql_real now)) (\<lambda>_.
             get_public k)))))))"

section \<open>Worker and operator actions\<close>

definition result_args :: "dict \<Rightarrow> unit res" where
  "result_args body =
     bindr (require (set (keys body) \<subseteq> {''ok'', ''session_id'', ''files'', ''tests_passed'', ''error_code'', ''proposal''}
         \<and> {''ok'', ''session_id'', ''files''} \<subseteq> set (keys body) \<and> type_is_bool (get body ''ok'')
         \<and> (has body ''tests_passed'' \<longrightarrow> type_is_bool (get body ''tests_passed''))) (ValueError ''invalid worker result'')) (\<lambda>_.
     bindr (if has body ''error_code'' then in_strs (get body ''error_code'') ERROR_CODES else Inr True) (\<lambda>known.
     bindr (require known (ValueError ''invalid worker result'')) (\<lambda>_.
     require (get body ''session_id'' = JNull \<or> is_str (get body ''session_id'') \<and> fullmatch SESSION (str_of (get body ''session_id'')))
       (ValueError ''invalid session id''))))"

definition result_files :: "dict \<Rightarrow> json \<Rightarrow> unit res" where
  "result_files body policy =
     (if get body ''ok'' = JBool True then
        bindr (validate_files (get body ''files'') policy) (\<lambda>_.
        if has body ''proposal'' then bindr (validate_proposal (get body ''proposal'')) (\<lambda>_. Inr ()) else Inr ())
      else if get body ''files'' \<noteq> JArr [] then Inl (ValueError ''failed worker cannot return files'')
      else if has body ''proposal'' then Inl (ValueError ''failed worker cannot return a proposal'')
      else Inr ())"

definition set_result :: "dict \<Rightarrow> task_row \<Rightarrow> task_row" where
  "set_result body r = r\<lparr>t_result := body, t_session := get body ''session_id'',
     t_error := (if get body ''ok'' = JBool True then JNull else JStr ''worker failed; inspect private evidence'')\<rparr>"

definition heartbeat :: "env \<Rightarrow> task_row \<Rightarrow> dict \<Rightarrow> (broker, unit) eff" where
  "heartbeat E r body =
     bindS (check (set (keys body) \<subseteq> {''phase''}) (ValueError ''invalid worker progress'')) (\<lambda>_.
     bindS (lift (if has body ''phase'' then in_strs (get body ''phase'') PHASES else Inr True)) (\<lambda>known.
     bindS (check known (ValueError ''invalid worker progress'')) (\<lambda>_.
     if truthy (get body ''phase'') \<and> get body ''phase'' \<noteq> t_phase r
     then transition E (t_id r) ''running'' (\<lambda>q. q\<lparr>t_phase := get body ''phase''\<rparr>)
     else bindS (read_clock E) (\<lambda>now. update_task (t_id r) (\<lambda>q. q\<lparr>t_updated := sql_real now\<rparr>)))))"

definition worker_result :: "env \<Rightarrow> task_row \<Rightarrow> dict \<Rightarrow> dict \<Rightarrow> (broker, unit) eff" where
  "worker_result E r task body =
     bindS (lift (result_args body)) (\<lambda>_.
     bindS (lift (result_files body (get task ''policy''))) (\<lambda>_.
     transition E (t_id r) (if get body ''ok'' = JBool True then ''review'' else ''failed'') (set_result body)))"

definition act_branch :: "env \<Rightarrow> task_row \<Rightarrow> dict \<Rightarrow> string \<Rightarrow> dict \<Rightarrow> (broker, unit) eff" where
  "act_branch E r task action body =
     (if action = ''cancel'' \<and> t_state r \<in> {''pending'', ''queued'', ''running'', ''review''} then transition E (t_id r) ''cancelled'' id
      else if action = ''cancel'' \<and> t_state r = ''cancelled'' then ret ()
      else if action = ''approve'' \<and> t_state r = ''pending''
        then bindS (lift (check_task_policy E task)) (\<lambda>_. transition E (t_id r) ''queued'' id)
      else if action = ''heartbeat'' \<and> t_state r = ''running'' then heartbeat E r body
      else if action = ''result'' \<and> t_state r = ''running'' then worker_result E r task body
      else raise (ValueError ''invalid state transition''))"

definition act :: "env \<Rightarrow> dict \<Rightarrow> string \<Rightarrow> string \<Rightarrow> dict \<Rightarrow> (broker, dict) eff" where
  "act E projects k action body = transaction
     (bindS (get_private projects k) (\<lambda>(r, task).
      bindS (check (\<not> (action \<in> {''cancel'', ''approve''} \<and> body \<noteq> [])) (ValueError ''empty action body required'')) (\<lambda>_.
      bindS (act_branch E r task action body) (\<lambda>_.
      get_public k))))"

definition claim_next :: "env \<Rightarrow> dict \<Rightarrow> task_row \<Rightarrow> (broker, dict option) eff" where
  "claim_next E projects q =
     bindS (get_private projects (t_id q)) (\<lambda>(r, task).
     case check_task_policy E task of
       Inl _ \<Rightarrow> bindS (transition E (t_id q) ''failed'' (set_error ''task policy changed; operator reconciliation required'')) (\<lambda>_. ret None)
     | Inr _ \<Rightarrow>
         bindS (transition E (t_id q) ''running'' id) (\<lambda>_.
         bindS (get_private projects (t_id q)) (\<lambda>(r', task'). ret (Some task'))))"

definition claim :: "env \<Rightarrow> dict \<Rightarrow> (broker, dict option) eff" where
  "claim E projects = transaction
     (bindS (read_clock E) (\<lambda>now.
      bindS (gets tasks) (\<lambda>rs.
      bindS (for_eachS (\<lambda>r. transition E (t_id r) ''failed'' (set_error ''worker lease expired; no automatic retry''))
               (filter (\<lambda>r. t_state r = ''running'' \<and> sql_less (t_updated r) (sql_real (fsub now (flt_int 60)))) rs)) (\<lambda>_.
      bindS (gets tasks) (\<lambda>rs'.
      if list_ex (\<lambda>r. t_state r = ''running'') rs' then ret None
      else (case order_by (\<lambda>q r. sql_before (t_created q) (t_created r)) (filter (\<lambda>r. t_state r = ''queued'') rs') of
          [] \<Rightarrow> ret None
        | q # _ \<Rightarrow> claim_next E projects q))))))"

section \<open>Listings\<close>

definition wide_style :: style where
  "wide_style = plain_style\<lparr>ensure_ascii := False\<rparr>"

definition response_size :: "env \<Rightarrow> dict \<Rightarrow> nat" where
  "response_size E d = utf8_len (dumps (float_text E) wide_style (JObj d)) + 2"

fun within_budget :: "env \<Rightarrow> nat \<Rightarrow> dict list \<Rightarrow> dict list" where
  "within_budget E used [] = []"
| "within_budget E used (d # ds) =
     (if 250000 < int (used + response_size E d) then [] else d # within_budget E (used + response_size E d) ds)"

fun list_loop :: "env \<Rightarrow> nat \<Rightarrow> task_row list \<Rightarrow> (broker, dict list) eff" where
  "list_loop E used [] = ret []"
| "list_loop E used (r # rs) =
     bindS (get_public (t_id r)) (\<lambda>d.
     if 250000 < int (used + response_size E d) then ret []
     else bindS (list_loop E (used + response_size E d) rs) (\<lambda>ds. ret (d # ds)))"

definition list_tasks :: "env \<Rightarrow> (broker, dict list) eff" where
  "list_tasks E = bindS (gets tasks) (\<lambda>rs.
     list_loop E 2 (take 100 (order_by (\<lambda>q r. sql_before (t_created r) (t_created q)) rs)))"

definition event_view :: "nat \<times> task_event \<Rightarrow> dict" where
  "event_view e = (case e of (i, ev) \<Rightarrow>
     [(''seq'', JInt (int i + 1)), (''task_id'', JStr (ev_task ev)), (''state'', JStr (ev_state ev)), (''at'', ev_at ev),
      (''task'', ev_snapshot ev), (''snapshot_available'', JBool (ev_snapshot ev \<noteq> JNull))])"

definition task_events :: "env \<Rightarrow> int \<Rightarrow> int \<Rightarrow> (broker, dict) eff" where
  "task_events E after limit = bindS (gets events) (\<lambda>evs.
     let rows = take (nat (limit + 1)) (filter (\<lambda>(i, ev). after < int i + 1) (enumerate 0 evs));
         candidates = map event_view (take (nat limit) rows);
         selected = within_budget E 1024 candidates
     in if candidates \<noteq> [] \<and> selected = [] then raise (ValueError ''individual task snapshot exceeds response budget'')
        else ret [(''events'', JArr (map JObj selected)),
               (''next_cursor'', if selected = [] then JInt after else get (last selected) ''seq''),
               (''has_more'', JBool (length selected < length rows))])"

definition task_review :: "env \<Rightarrow> dict \<Rightarrow> string \<Rightarrow> (broker, dict) eff" where
  "task_review E projects k =
     bindS (get_private projects k) (\<lambda>(r, task).
     bindS (get_public k) (\<lambda>public. ret
       [(''task'', JObj public), (''request'', get task ''body''), (''policy'', get task ''policy''), (''result'', get task ''result''),
        (''result_sha256'', JStr (policy_digest E (get task ''result'')))]))"

section \<open>Publication\<close>

text \<open>
  The publisher is a parameter: it receives the private task and its policy, and answers with the
  commit and the address of the pull request, or raises. The first phase returns the task that the
  publisher is given.
\<close>

type_synonym publisher = "dict \<Rightarrow> json \<Rightarrow> (string \<times> string) res"

definition publish_begin :: "env \<Rightarrow> dict \<Rightarrow> string \<Rightarrow> json \<Rightarrow> (broker, dict) eff" where
  "publish_begin E projects k digest = transaction
     (bindS (get_private projects k) (\<lambda>(r, task).
      bindS (check (t_state r = ''review'') (ValueError ''only reviewed worker results can be published'')) (\<lambda>_.
      bindS (lift (check_task_policy E task)) (\<lambda>_.
      bindS (task_review E projects k) (\<lambda>reviewed.
      bindS (lift (compare_digest digest (get reviewed ''result_sha256''))) (\<lambda>same.
      bindS (check same (ValueError ''approval must match reviewed result digest'')) (\<lambda>_.
      bindS (transition E k ''publishing'' id) (\<lambda>_. ret task))))))))"

definition set_published :: "string \<times> string \<Rightarrow> task_row \<Rightarrow> task_row" where
  "set_published out r = r\<lparr>t_commit := JStr (fst out), t_pr_url := JStr (snd out)\<rparr>"

definition publish_end :: "env \<Rightarrow> string \<Rightarrow> (string \<times> string) res \<Rightarrow> (broker, dict) eff" where
  "publish_end E k out = (case out of
       Inl _ \<Rightarrow> bindS (transaction (transition E k ''failed'' (set_error ''publish failed; reconcile GitHub branch before retry''))) (\<lambda>_.
                 raise (ValueError ''publish failed; credentials/output omitted''))
     | Inr result \<Rightarrow> bindS (transaction (transition E k ''completed'' (set_published result))) (\<lambda>_. get_public k))"

definition publish :: "env \<Rightarrow> dict \<Rightarrow> publisher \<Rightarrow> string \<Rightarrow> json \<Rightarrow> (broker, dict) eff" where
  "publish E projects publisher k digest =
     bindS (publish_begin E projects k digest) (\<lambda>task. publish_end E k (publisher task (get task ''policy'')))"

section \<open>The invariant\<close>

definition task_edge :: "string \<Rightarrow> string \<Rightarrow> bool" where
  "task_edge a b \<longleftrightarrow> (a, b) \<in> {(''pending'', ''queued''), (''pending'', ''cancelled''), (''queued'', ''running''), (''queued'', ''failed''), (''queued'', ''cancelled''),
     (''running'', ''running''), (''running'', ''review''), (''running'', ''failed''), (''running'', ''cancelled''), (''review'', ''publishing''), (''review'', ''cancelled''),
     (''publishing'', ''completed''), (''publishing'', ''failed'')}"

definition same_task :: "task_row \<Rightarrow> task_row \<Rightarrow> bool" where
  "same_task r r' \<longleftrightarrow> t_id r' = t_id r \<and> t_project r' = t_project r \<and> t_issue r' = t_issue r \<and> t_created r' = t_created r \<and> t_body r' = t_body r \<and> t_policy r' = t_policy r"

abbreviation frozen :: "string set" where
  "frozen \<equiv> {''review'', ''publishing'', ''completed'', ''failed'', ''cancelled''}"

definition task_moves :: "task_row \<Rightarrow> task_row \<Rightarrow> bool" where
  "task_moves r r' \<longleftrightarrow> same_task r r' \<and> task_edge\<^sup>*\<^sup>* (t_state r) (t_state r')
     \<and> (t_state r \<in> frozen \<longrightarrow> t_result r' = t_result r)"

text \<open>A result that reached review is successful, and its files passed under a policy with the digest the task was submitted with.\<close>

definition reviewed :: "env \<Rightarrow> task_row \<Rightarrow> bool" where
  "reviewed E r \<longleftrightarrow> get (t_result r) ''ok'' = JBool True
     \<and> (\<exists>policy out. t_policy r = JStr (policy_digest E policy) \<and> validate_files (get (t_result r) ''files'') policy = Inr out)"

definition good_task :: "env \<Rightarrow> dict \<Rightarrow> task_row \<Rightarrow> bool" where
  "good_task E projects r \<longleftrightarrow> t_state r \<in> fst ` set STATUS
     \<and> (t_state r = ''running'' \<longrightarrow> has projects (t_project r) \<and> t_policy r = JStr (policy_digest E (get projects (t_project r))))
     \<and> (t_state r \<in> {''review'', ''publishing'', ''completed''} \<longrightarrow> reviewed E r)"

definition is_running :: "task_row \<Rightarrow> bool" where
  "is_running r \<longleftrightarrow> t_state r = ''running''"

definition waiting :: "task_row \<Rightarrow> bool" where
  "waiting r \<longleftrightarrow> t_state r \<in> {''pending'', ''queued'', ''running''}"

definition codex_inv :: "env \<Rightarrow> dict \<Rightarrow> string list \<Rightarrow> broker \<Rightarrow> bool" where
  "codex_inv E projects threads s \<longleftrightarrow> table_ok t_id (good_task E projects) (tasks s)
     \<and> distinct (map (\<lambda>r. (t_project r, t_issue r)) (tasks s))
     \<and> census is_running (tasks s) \<le> 1 \<and> census waiting (tasks s) \<le> 32
     \<and> audited t_id t_state ev_task ev_state (tasks s) (events s)
     \<and> distinct threads \<and> (\<forall>k \<in> set threads. states t_id t_state (tasks s) k = Some ''publishing'')"

lemma edge_frozen: "task_edge a b \<Longrightarrow> a \<in> frozen \<Longrightarrow> b \<in> frozen"
  unfolding task_edge_def insert_iff prod.inject by (elim disjE conjE) simp_all

lemma frozen_closed: "task_edge\<^sup>*\<^sup>* a b \<Longrightarrow> a \<in> frozen \<Longrightarrow> b \<in> frozen"
  by (induction rule: rtranclp_induct) (assumption, rule edge_frozen)

lemma task_moves_trans: "task_moves r q \<Longrightarrow> task_moves q p \<Longrightarrow> task_moves r p"
proof -
  assume a: "task_moves r q" and b: "task_moves q p"
  have "same_task r p" using a b by (simp add: task_moves_def same_task_def)
  moreover have "task_edge\<^sup>*\<^sup>* (t_state r) (t_state p)" using a b unfolding task_moves_def by (blast intro: rtranclp_trans)
  moreover have "t_result p = t_result r" if "t_state r \<in> frozen"
  proof -
    have "t_state q \<in> frozen" by (rule frozen_closed [OF _ that]) (use a in \<open>simp add: task_moves_def\<close>)
    then show ?thesis using that a b unfolding task_moves_def by argo
  qed
  ultimately show ?thesis unfolding task_moves_def by blast
qed

interpretation tm: row_moves t_id task_moves
proof unfold_locales
  show "task_moves r r" for r by (simp add: task_moves_def same_task_def)
  show "task_moves r r' \<Longrightarrow> t_id r' = t_id r" for r r' by (simp add: task_moves_def same_task_def)
qed (rule task_moves_trans)

text \<open>What every change of the tables does: it keeps the invariant and moves the rows forward.\<close>

definition after :: "env \<Rightarrow> dict \<Rightarrow> string list \<Rightarrow> broker \<Rightarrow> broker \<Rightarrow> bool" where
  "after E projects T s s' \<longleftrightarrow> codex_inv E projects T s' \<and> table_moves t_id task_moves (tasks s) (tasks s')"

lemma after_refl: "codex_inv E projects T s \<Longrightarrow> after E projects T s s"
  by (simp add: after_def tm.table_refl)

lemma after_trans: "after E projects T s t \<Longrightarrow> after E projects T' t u \<Longrightarrow> after E projects T' s u"
  unfolding after_def using tm.table_trans by blast

definition same_db :: "broker \<Rightarrow> broker \<Rightarrow> bool" where
  "same_db s s' \<longleftrightarrow> tasks s' = tasks s \<and> events s' = events s"

lemma same_db_after: "same_db s s' \<Longrightarrow> codex_inv E projects T s \<Longrightarrow> after E projects T s s'"
  by (simp add: same_db_def after_def codex_inv_def tm.table_refl)

lemma same_db_simps [simp]: "same_db s s" "same_db s (s\<lparr>ticks := n\<rparr>)" "same_db s (s\<lparr>ids := n\<rparr>)" "same_db s (restore s t)"
  by (simp_all add: same_db_def restore_def)

section \<open>The parts of an operation\<close>

lemma wp_fetch_task [wp_simps]:
  "wp (fetch_task k) Q X s \<longleftrightarrow> (case find_by t_id (tasks s) k of None \<Rightarrow> X (KeyError ''task not found'') s | Some r \<Rightarrow> Q r s)"
  by (simp add: fetch_task_def wp_simps split: option.split)

lemma wp_get_public: "(\<And>r d. find_by t_id (tasks s) k = Some r \<Longrightarrow> public_task r = Inr d \<Longrightarrow> Q d s) \<Longrightarrow> (\<And>e. X e s) \<Longrightarrow> wp (get_public k) Q X s"
  by (simp add: get_public_def wp_simps split: option.split sum.split)

lemma wp_get_private:
  "(\<And>r p d. find_by t_id (tasks s) k = Some r \<Longrightarrow> map_of projects (t_project r) = Some p \<Longrightarrow> private_task projects r = Inr d
      \<Longrightarrow> get d ''policy'' = p \<Longrightarrow> get d ''policy_sha256'' = t_policy r \<Longrightarrow> get d ''result'' = JObj (t_result r) \<Longrightarrow> Q (r, d) s) \<Longrightarrow> (\<And>e. X e s) \<Longrightarrow> wp (get_private projects k) Q X s"
  by (auto simp: get_private_def private_task_def wp_simps bindr_def item_def get_def get_or_def split: option.splits sum.splits)

lemma wp_update_task [wp_simps]: "wp (update_task k f) Q X s \<longleftrightarrow> Q () (s\<lparr>tasks := update_by t_id k f (tasks s)\<rparr>)"
  by (simp add: update_task_def wp_simps)

definition moved :: "string \<Rightarrow> string \<Rightarrow> (task_row \<Rightarrow> task_row) \<Rightarrow> broker \<Rightarrow> broker \<Rightarrow> bool" where
  "moved k st g s s' \<longleftrightarrow> (\<exists>now e r. find_by t_id (tasks s) k = Some r \<and> ev_task e = k \<and> ev_state e = st
     \<and> tasks s' = update_by t_id k (\<lambda>r. g (set_state st now r)) (tasks s) \<and> events s' = events s @ [e])"

lemma wp_transition:
  assumes "\<And>r. t_id (g r) = t_id r" and "\<And>s'. moved k st g s s' \<Longrightarrow> Q () s'" and "\<And>e s'. X e s'"
  shows "wp (transition E k st g) Q X s"
proof -
  let ?s = "\<lambda>now. s\<lparr>ticks := Suc (ticks s), tasks := update_by t_id k (\<lambda>r. g (set_state st now r)) (tasks s)\<rparr>"
  have f: "find_by t_id (tasks (?s now)) k = map_option (\<lambda>r. g (set_state st now r)) (find_by t_id (tasks s) k)" for now
    by (simp add: find_by_update assms(1) set_state_def)
  show ?thesis
    unfolding transition_def log_task_def
    apply (simp add: wp_simps)
    apply (rule wp_get_public)
     apply (simp only: wp_simps)
     apply (rule assms(2))
     apply (use f in \<open>auto simp: moved_def\<close>)[1]
    apply (rule assms(3))
    done
qed

lemma set_state_simps [simp]:
  "t_id (set_state st now r) = t_id r" "t_state (set_state st now r) = st" "t_project (set_state st now r) = t_project r"
  "t_issue (set_state st now r) = t_issue r" "t_created (set_state st now r) = t_created r" "t_body (set_state st now r) = t_body r"
  "t_policy (set_state st now r) = t_policy r" "t_result (set_state st now r) = t_result r"
  by (simp_all add: set_state_def)

lemma row_writers [simp]:
  "same_task r (set_error m r)" "t_state (set_error m r) = t_state r" "t_result (set_error m r) = t_result r"
  "same_task r (set_published p r)" "t_state (set_published p r) = t_state r" "t_result (set_published p r) = t_result r"
  "same_task r (set_result b r)" "t_state (set_result b r) = t_state r" "t_result (set_result b r) = b" "same_task r r"
  by (simp_all add: set_error_def set_published_def set_result_def same_task_def)

lemma same_task_fields: "same_task r r' \<Longrightarrow> t_id r' = t_id r \<and> t_project r' = t_project r \<and> t_issue r' = t_issue r \<and> t_policy r' = t_policy r"
  by (simp add: same_task_def)

lemma codex_inv_row: "codex_inv E projects T s \<Longrightarrow> find_by t_id (tasks s) k = Some r \<Longrightarrow> good_task E projects r \<and> t_id r = k \<and> r \<in> set (tasks s)"
  using table_ok_row find_by_Some unfolding codex_inv_def by fast

text \<open>One move along the graph; \<open>T'\<close> are the publishing threads after it.\<close>

lemma moved_after:
  assumes inv: "codex_inv E projects T s" and m: "moved k st g s s'" and r: "find_by t_id (tasks s) k = Some r"
    and g: "\<And>q. same_task q (g q) \<and> t_state (g q) = t_state q" and edge: "task_edge (t_state r) st"
    and res: "t_state r = ''running'' \<or> (\<forall>q. t_result (g q) = t_result q)"
    and good: "\<And>now. good_task E projects (g (set_state st now r))"
    and run: "st = ''running'' \<Longrightarrow> t_state r = ''running'' \<or> census is_running (tasks s) = 0"
    and threads: "distinct T'" "set T' \<subseteq> (if st = ''publishing'' then insert k (set T) else set T - {k})"
  shows "after E projects T' s s'"
proof -
  from m obtain now e where e: "ev_task e = k" "ev_state e = st"
      "tasks s' = update_by t_id k (\<lambda>r. g (set_state st now r)) (tasks s)" "events s' = events s @ [e]"
    by (auto simp: moved_def)
  let ?f = "\<lambda>r. g (set_state st now r)"
  have key: "t_id (?f q) = t_id q" "(t_project (?f q), t_issue (?f q)) = (t_project q, t_issue q)" for q
    using g [of "set_state st now q"] by (simp_all add: same_task_def)
  have st: "t_state (?f r) = st" using g [of "set_state st now r"] by simp
  have ok: "table_ok t_id (good_task E projects) (tasks s)" "distinct (map t_id (tasks s))" using inv by (simp_all add: codex_inv_def table_ok_def)
  have mv: "task_moves r (?f r)"
  proof -
    have "same_task r (?f r)" using g [of "set_state st now r"] by (simp add: same_task_def)
    moreover have "t_state r \<in> frozen \<longrightarrow> t_result (?f r) = t_result r" using res by auto
    ultimately show ?thesis using edge st by (auto simp: task_moves_def)
  qed
  note upd = tm.update_moves [where f = ?f, OF ok(1) r mv good]
  have "map (\<lambda>r. (t_project r, t_issue r)) (tasks s') = map (\<lambda>r. (t_project r, t_issue r)) (tasks s)"
    unfolding e(3) update_by_def using key(2) by simp
  moreover have "census is_running (tasks s') \<le> 1"
    using census_update [where f = ?f and p = is_running, OF ok(2) r] run inv st unfolding e(3) codex_inv_def is_running_def by (auto split: if_splits)
  moreover have "census waiting (tasks s') \<le> 32"
    unfolding e(3) by (rule census_le [OF ok(2) r]) (use inv st edge in \<open>auto simp: codex_inv_def waiting_def task_edge_def\<close>)
  moreover have "audited t_id t_state ev_task ev_state (tasks s') (events s')"
    unfolding e(3,4) by (rule audited_update [OF _ key(1) r]) (use inv e st in \<open>simp_all add: codex_inv_def\<close>)
  moreover have "states t_id t_state (tasks s') j = Some ''publishing''" if "j \<in> set T'" for j
    using inv threads(2) r st key(1) that unfolding e(3) by (auto simp: codex_inv_def states_def find_by_update split: if_splits)
  ultimately show ?thesis
    using upd inv threads(1) unfolding after_def codex_inv_def e(3) by auto
qed

text \<open>The common case: the task is not being published, before or after.\<close>

lemma thread_free: "codex_inv E projects T s \<Longrightarrow> find_by t_id (tasks s) k = Some r \<Longrightarrow> t_state r \<noteq> ''publishing'' \<Longrightarrow> k \<notin> set T"
  by (auto simp: codex_inv_def states_def)

lemma moved_states: "moved k st g s s' \<Longrightarrow> (\<And>q. t_id (g q) = t_id q \<and> t_state (g q) = t_state q) \<Longrightarrow> states t_id t_state (tasks s') j = (if j = k then Some st else states t_id t_state (tasks s) j)"
  by (auto simp: moved_def states_def find_by_update)

lemma moved_plain:
  assumes "codex_inv E projects T s" "moved k st g s s'" "find_by t_id (tasks s) k = Some r" "t_state r \<noteq> ''publishing''" "st \<noteq> ''publishing''"
    "\<And>q. same_task q (g q) \<and> t_state (g q) = t_state q" "task_edge (t_state r) st" "t_state r = ''running'' \<or> (\<forall>q. t_result (g q) = t_result q)"
    "\<And>now. good_task E projects (g (set_state st now r))" "st = ''running'' \<Longrightarrow> t_state r = ''running'' \<or> census is_running (tasks s) = 0"
  shows "after E projects T s s'"
  by (rule moved_after [OF assms(1,2,3,6,7,8,9,10)]) (use assms(1,5) thread_free [OF assms(1,3,4)] in \<open>auto simp: codex_inv_def\<close>)

text \<open>A change of other columns.\<close>

lemma touched_after:
  assumes inv: "codex_inv E projects T s" and s': "tasks s' = map f (tasks s)" "events s' = events s"
    and f: "\<And>r. same_task r (f r) \<and> t_state (f r) = t_state r \<and> t_result (f r) = t_result r"
  shows "after E projects T s s'"
proof -
  have key: "t_id (f r) = t_id r" "(t_project (f r), t_issue (f r)) = (t_project r, t_issue r)" "good_task E projects (f r) = good_task E projects r"
      "is_running (f r) = is_running r" "waiting (f r) = waiting r" for r
    using f [of r] by (simp_all add: same_task_def good_task_def reviewed_def is_running_def waiting_def)
  have st: "states t_id t_state (map f (tasks s)) k = states t_id t_state (tasks s) k" for k
    using f by (simp add: states_def find_by_map key(1) option.map_comp comp_def)
  have "audited t_id t_state ev_task ev_state (map f (tasks s)) (events s)"
    by (rule audited_same [OF _ st]) (use inv in \<open>simp add: codex_inv_def\<close>)
  moreover have "table_moves t_id task_moves (tasks s) (map f (tasks s))"
    using f by (auto simp: table_moves_def find_by_map key(1) task_moves_def)
  ultimately show ?thesis
    using inv key st unfolding after_def codex_inv_def s' by (simp add: table_ok_def comp_def census_map)
qed

section \<open>The operations\<close>

lemma wp_tx: "wp m Q (\<lambda>_ _. True) s \<Longrightarrow> wp (transaction m) Q (\<lambda>_ s'. same_db s s') s"
  by (simp add: wp_transaction)

lemma edges [simp]:
  "task_edge ''pending'' ''queued''" "task_edge ''pending'' ''cancelled''" "task_edge ''queued'' ''running''" "task_edge ''queued'' ''failed''"
  "task_edge ''queued'' ''cancelled''" "task_edge ''running'' ''running''" "task_edge ''running'' ''review''" "task_edge ''running'' ''failed''"
  "task_edge ''running'' ''cancelled''" "task_edge ''review'' ''publishing''" "task_edge ''review'' ''cancelled''"
  "task_edge ''publishing'' ''completed''" "task_edge ''publishing'' ''failed''"
  by (simp_all add: task_edge_def)

lemma STATUS_keys: "fst ` set STATUS = {''pending'', ''queued'', ''running'', ''review'', ''publishing'', ''completed'', ''failed'', ''cancelled''}"
  by (simp add: STATUS_def)

text \<open>A row whose new state makes no promise is good.\<close>

lemma good_plain: "t_state r \<in> {''pending'', ''queued'', ''failed'', ''cancelled''} \<Longrightarrow> good_task E projects r"
  by (auto simp: good_task_def STATUS_keys)

lemma keeps_id: "same_task r r \<and> t_state (id r) = t_state r"
  by simp

lemma wp_move:
  assumes inv: "codex_inv E projects T s" and r: "find_by t_id (tasks s) k = Some r"
    and g: "\<And>q. same_task q (g q) \<and> t_state (g q) = t_state q" and edge: "task_edge (t_state r) st"
    and st: "t_state r \<noteq> ''publishing''" "st \<noteq> ''publishing''" and res: "t_state r = ''running'' \<or> (\<forall>q. t_result (g q) = t_result q)"
    and good: "\<And>now. good_task E projects (g (set_state st now r))"
    and run: "st = ''running'' \<Longrightarrow> t_state r = ''running'' \<or> census is_running (tasks s) = 0"
    and Q: "\<And>s'. after E projects T s s' \<Longrightarrow> moved k st g s s' \<Longrightarrow> Q () s'"
  shows "wp (transition E k st g) Q (\<lambda>_ _. True) s"
proof (rule wp_transition)
  show "t_id (g q) = t_id q" for q using g [of q] by (simp add: same_task_def)
  show "Q () s'" if "moved k st g s s'" for s'
    by (rule Q [OF moved_plain [OF inv that r st g edge res good run]]) (use that in auto)
qed simp

lemma moved_find:
  "moved k st g s s' \<Longrightarrow> (\<And>q. t_id (g q) = t_id q) \<Longrightarrow> find_by t_id (tasks s) k = Some r
   \<Longrightarrow> \<exists>now. find_by t_id (tasks s') k = Some (g (set_state st now r)) \<and> (\<forall>j. j \<noteq> k \<longrightarrow> find_by t_id (tasks s') j = find_by t_id (tasks s) j)"
  unfolding moved_def by (auto simp: find_by_update)

text \<open>A loop that fails a list of started tasks.\<close>

lemma wp_fail_all:
  assumes "codex_inv E projects T s" and "distinct (map t_id rs)" and "\<forall>r \<in> set rs. t_id r \<notin> set T"
    and "\<forall>r \<in> set rs. \<exists>st \<in> {''running'', ''publishing''}. states t_id t_state (tasks s) (t_id r) = Some st"
    and "\<And>s'. after E projects T s s' \<Longrightarrow> (\<And>k. states t_id t_state (tasks s') k = (if k \<in> t_id ` set rs then Some ''failed'' else states t_id t_state (tasks s) k)) \<Longrightarrow> Q () s'"
  shows "wp (for_eachS (\<lambda>r. transition E (t_id r) ''failed'' (set_error m)) rs) Q (\<lambda>_ _. True) s"
  using assms
proof (induction rs arbitrary: s)
  case Nil
  then show ?case by (simp add: wp_simps after_refl)
next
  case (Cons r rs)
  from Cons.prems(4) obtain q where q: "find_by t_id (tasks s) (t_id r) = Some q" "t_state q \<in> {''running'', ''publishing''}"
    by (auto simp: states_def)
  have edge: "task_edge (t_state q) ''failed''" using q(2) by auto
  have key: "t_id (set_error m p) = t_id p" "t_id (set_error m p) = t_id p \<and> t_state (set_error m p) = t_state p" for p
    using same_task_fields [of p "set_error m p"] by simp_all
  have "wp (transition E (t_id r) ''failed'' (set_error m))
      (\<lambda>_. wp (for_eachS (\<lambda>r. transition E (t_id r) ''failed'' (set_error m)) rs) Q (\<lambda>_ _. True)) (\<lambda>_ _. True) s"
  proof (rule wp_transition [OF key(1)])
    fix s' assume m: "moved (t_id r) ''failed'' (set_error m) s s'"
    have af: "after E projects T s s'"
      by (rule moved_after [OF Cons.prems(1) m q(1) _ edge]) (use Cons.prems(1,3) in \<open>auto simp: codex_inv_def intro: good_plain\<close>)
    have st: "states t_id t_state (tasks s') k = (if k = t_id r then Some ''failed'' else states t_id t_state (tasks s) k)" for k
      by (rule moved_states [OF m key(2)])
    show "wp (for_eachS (\<lambda>r. transition E (t_id r) ''failed'' (set_error m)) rs) Q (\<lambda>_ _. True) s'"
    proof (rule Cons.IH)
      show "codex_inv E projects T s'" using af by (simp add: after_def)
      show "distinct (map t_id rs)" "\<forall>r \<in> set rs. t_id r \<notin> set T" using Cons.prems(2,3) by simp_all
      show "\<forall>p \<in> set rs. \<exists>st \<in> {''running'', ''publishing''}. states t_id t_state (tasks s') (t_id p) = Some st"
      proof
        fix p assume p: "p \<in> set rs"
        then have "t_id p \<noteq> t_id r" using Cons.prems(2) by (metis distinct.simps(2) image_eqI list.simps(9) set_map)
        then show "\<exists>st \<in> {''running'', ''publishing''}. states t_id t_state (tasks s') (t_id p) = Some st" using Cons.prems(4) p st by simp
      qed
      show "Q () u" if "after E projects T s' u" "\<And>k. states t_id t_state (tasks u) k = (if k \<in> t_id ` set rs then Some ''failed'' else states t_id t_state (tasks s') k)" for u
        by (rule Cons.prems(5) [OF after_trans [OF af that(1)]]) (simp add: that(2) st)
    qed
  qed simp
  then show ?case by (simp add: wp_simps)
qed

section \<open>What each operation does\<close>

definition acted :: "env \<Rightarrow> dict \<Rightarrow> string \<Rightarrow> dict \<Rightarrow> task_row \<Rightarrow> task_row \<Rightarrow> bool" where
  "acted E projects action body r r' \<longleftrightarrow>
     action = ''cancel'' \<and> t_state r \<in> {''pending'', ''queued'', ''running'', ''review'', ''cancelled''} \<and> t_state r' = ''cancelled''
   \<or> action = ''approve'' \<and> t_state r = ''pending'' \<and> t_state r' = ''queued'' \<and> t_policy r = JStr (policy_digest E (get projects (t_project r)))
   \<or> action = ''heartbeat'' \<and> t_state r = ''running'' \<and> t_state r' = ''running''
   \<or> action = ''result'' \<and> t_state r = ''running'' \<and> t_result r' = body \<and> t_state r' = (if get body ''ok'' = JBool True then ''review'' else ''failed'')"

definition only_task :: "string \<Rightarrow> broker \<Rightarrow> broker \<Rightarrow> bool" where
  "only_task k s s' \<longleftrightarrow> (\<forall>j. j \<noteq> k \<longrightarrow> find_by t_id (tasks s') j = find_by t_id (tasks s) j)"

lemma wp_get_public': "(\<And>d. Q d s) \<Longrightarrow> (\<And>e. X e s) \<Longrightarrow> wp (get_public k) Q X s"
  by (rule wp_get_public)

lemma result_files_ok:
  "result_files body policy = Inr u \<Longrightarrow> get body ''ok'' = JBool True \<Longrightarrow> \<exists>out. validate_files (get body ''files'') policy = Inr out"
  by (auto simp: result_files_def bindr_Inr_iff)

lemma act_moves:
  assumes inv: "codex_inv E projects T s" and r: "find_by t_id (tasks s) k = Some r" and p: "map_of projects (t_project r) = Some p"
    and task: "get task ''policy'' = p" "get task ''policy_sha256'' = t_policy r"
    and Q: "\<And>s' r'. after E projects T s s' \<Longrightarrow> find_by t_id (tasks s') k = Some r' \<Longrightarrow> acted E projects action body r r' \<Longrightarrow> only_task k s s' \<Longrightarrow> Q () s'"
  shows "wp (act_branch E r task action body) Q (\<lambda>_ _. True) s"
proof -
  note d = act_branch_def
  have k: "t_id r = k" "good_task E projects r" using codex_inv_row [OF inv r] by simp_all
  have pol: "get projects (t_project r) = p" "has projects (t_project r)" using p by (simp_all add: get_def get_or_def has_def)
  have go: "wp (transition E k st g) Q (\<lambda>_ _. True) s"
    if g: "\<And>q. same_task q (g q) \<and> t_state (g q) = t_state q" and edge: "task_edge (t_state r) st" and np: "t_state r \<noteq> ''publishing''" "st \<noteq> ''publishing''"
      and res: "t_state r = ''running'' \<or> (\<forall>q. t_result (g q) = t_result q)" and good: "\<And>now. good_task E projects (g (set_state st now r))"
      and run: "st = ''running'' \<Longrightarrow> t_state r = ''running''" and act: "\<And>now. acted E projects action body r (g (set_state st now r))" for st g
  proof (rule wp_move [OF inv r g edge np res good])
    show "st = ''running'' \<Longrightarrow> t_state r = ''running'' \<or> census is_running (tasks s) = 0" using run by simp
    fix s' assume af: "after E projects T s s'" and m: "moved k st g s s'"
    have "t_id (g q) = t_id q" for q using g [of q] by (simp add: same_task_def)
    from moved_find [OF m this r] act show "Q () s'" using Q [OF af] by (fastforce simp: only_task_def)
  qed
  consider (cancel) "action = ''cancel'' \<and> t_state r \<in> {''pending'', ''queued'', ''running'', ''review''}"
    | (again) "action = ''cancel'' \<and> t_state r = ''cancelled''"
    | (approve) "action = ''approve'' \<and> t_state r = ''pending''"
    | (beat) "action = ''heartbeat'' \<and> t_state r = ''running''"
    | (result) "action = ''result'' \<and> t_state r = ''running''"
    | (other) "\<not> (action = ''cancel'' \<and> t_state r \<in> {''pending'', ''queued'', ''running'', ''review''})" "\<not> (action = ''cancel'' \<and> t_state r = ''cancelled'')"
        "\<not> (action = ''approve'' \<and> t_state r = ''pending'')" "\<not> (action = ''heartbeat'' \<and> t_state r = ''running'')" "\<not> (action = ''result'' \<and> t_state r = ''running'')"
    by argo
  then show ?thesis
  proof cases
    case cancel
    have "wp (transition E k ''cancelled'' id) Q (\<lambda>_ _. True) s"
    proof (rule go)
      show "task_edge (t_state r) ''cancelled''" "t_state r \<noteq> ''publishing''" using cancel by auto
      show "acted E projects action body r (id (set_state ''cancelled'' now r))" for now using cancel by (auto simp: acted_def)
    qed (simp_all add: good_plain)
    then show ?thesis using cancel k by (simp add: d)
  next
    case again
    then have "Q () s" using r by (intro Q [OF after_refl [OF inv] r]) (auto simp: acted_def only_task_def)
    then show ?thesis using again by (simp add: d wp_simps)
  next
    case approve
    have "wp (transition E k ''queued'' id) Q (\<lambda>_ _. True) s" if "check_task_policy E task = Inr ()"
      using approve that task pol by (intro go) (simp_all add: acted_def check_task_policy_def good_plain)
    then show ?thesis using approve k by (simp add: d wp_simps split: sum.split)
  next
    case beat
    have "wp (transition E k ''running'' (\<lambda>q. q\<lparr>t_phase := v\<rparr>)) Q (\<lambda>_ _. True) s" for v
      using beat k(2) by (intro go) (auto simp: acted_def same_task_def good_task_def STATUS_keys)
    moreover have "Q () (s\<lparr>ticks := n, tasks := update_by t_id k (\<lambda>q. q\<lparr>t_updated := v\<rparr>) (tasks s)\<rparr>)" for n v
    proof (rule Q)
      show "after E projects T s (s\<lparr>ticks := n, tasks := update_by t_id k (\<lambda>q. q\<lparr>t_updated := v\<rparr>) (tasks s)\<rparr>)"
        by (rule touched_after [OF inv, where f = "\<lambda>q. if t_id q = k then q\<lparr>t_updated := v\<rparr> else q"]) (auto simp: update_by_def same_task_def)
      show "find_by t_id (tasks (s\<lparr>ticks := n, tasks := update_by t_id k (\<lambda>q. q\<lparr>t_updated := v\<rparr>) (tasks s)\<rparr>)) k = Some (r\<lparr>t_updated := v\<rparr>)"
        using r by (simp add: find_by_update)
      show "acted E projects action body r (r\<lparr>t_updated := v\<rparr>)" using beat by (simp add: acted_def)
    qed (simp add: only_task_def find_by_update)
    ultimately show ?thesis using beat k(1) by (simp add: d heartbeat_def wp_simps split: sum.split)
  next
    case result
    have "wp (transition E k (if get body ''ok'' = JBool True then ''review'' else ''failed'') (set_result body)) Q (\<lambda>_ _. True) s"
      if "result_files body (get task ''policy'') = Inr ()"
    proof (rule go)
      show "good_task E projects (set_result body (set_state (if get body ''ok'' = JBool True then ''review'' else ''failed'') now r))" for now
      proof (cases "get body ''ok'' = JBool True")
        case True
        from result_files_ok [OF that True] have "\<exists>out. validate_files (get body ''files'') p = Inr out" using task(1) by simp
        moreover have "t_policy r = JStr (policy_digest E p)" using k(2) result pol by (simp add: good_task_def)
        moreover have "t_policy (set_result body (set_state st now r)) = t_policy r" for st by (simp add: set_result_def)
        ultimately show ?thesis using True by (auto simp: good_task_def STATUS_keys reviewed_def)
      qed (auto intro!: good_plain)
    qed (use result in \<open>auto simp: acted_def\<close>)
    then show ?thesis using result k(1)
      by (cases "get body ''ok'' = JBool True") (simp_all add: d worker_result_def wp_simps split: sum.split)
  next
    case other
    then show ?thesis unfolding d by (simp only: if_False wp_simps)
  qed
qed

lemma act_spec:
  assumes inv: "codex_inv E projects T s"
  shows "wp (act E projects k action body) (\<lambda>d s'. after E projects T s s' \<and> only_task k s s'
      \<and> (\<exists>r r'. find_by t_id (tasks s) k = Some r \<and> find_by t_id (tasks s') k = Some r' \<and> acted E projects action body r r')) (\<lambda>_ s'. same_db s s') s"
  unfolding act_def
  by (intro wp_tx wp_bindI wp_get_private wp_checkI TrueI)
    (simp only: prod.case, intro wp_bindI wp_checkI TrueI, erule (3) act_moves [OF inv], rule wp_get_public', blast+)

lemma census_waiting: "census waiting rs \<le> length (filter occupies rs)"
proof -
  have "filter waiting (filter occupies rs) = filter waiting rs" by (auto simp: filter_filter waiting_def occupies_def intro!: filter_cong)
  then show ?thesis unfolding census_def by (metis length_filter_le)
qed

lemma new_task_fields [simp]:
  "t_id (new_task E projects body k now) = k" "t_project (new_task E projects body k now) = str_of (get body ''project'')"
  "t_issue (new_task E projects body k now) = str_of (get body ''issue_key'')" "t_body (new_task E projects body k now) = body"
  "t_state (new_task E projects body k now) = (if get (dict_of (get projects (str_of (get body ''project'')))) ''auto_prepare'' = JBool True then ''queued'' else ''pending'')"
  by (simp_all add: new_task_def Let_def)

lemma inserted_after:
  assumes inv: "codex_inv E projects T s" and room: "census waiting (tasks s) < 32"
    and new: "\<not> list_ex (\<lambda>q. t_id q = t_id r \<or> t_project q = t_project r \<and> t_issue q = t_issue r) (tasks s)"
    and st: "t_state r \<in> {''pending'', ''queued''}" and s': "tasks s' = tasks s @ [r]" "events s' = events s @ [e]" "ev_task e = t_id r" "ev_state e = t_state r"
  shows "after E projects T s s'"
proof -
  have fresh: "t_id r \<notin> t_id ` set (tasks s)" using new by (auto simp: list_ex_iff)
  have good: "good_task E projects r" using st by (intro good_plain) auto
  have ok: "table_ok t_id (good_task E projects) (tasks s)" using inv by (simp add: codex_inv_def)
  have "audited t_id t_state ev_task ev_state (tasks s') (events s')"
    unfolding s' by (rule audited_insert) (use inv fresh s'(3,4) in \<open>simp_all add: codex_inv_def\<close>)
  moreover have "distinct (map (\<lambda>r. (t_project r, t_issue r)) (tasks s'))"
    using inv new by (auto simp: s' codex_inv_def list_ex_iff)
  moreover have "census is_running (tasks s') \<le> 1" using inv st by (auto simp: s' codex_inv_def is_running_def)
  moreover have "states t_id t_state (tasks s') k = Some ''publishing''" if "k \<in> set T" for k
    using inv that fresh by (auto simp: s' codex_inv_def states_def find_by_append)
  ultimately show ?thesis
    using tm.insert_moves [OF ok fresh good] inv room unfolding after_def codex_inv_def s' by auto
qed

lemma wp_insert_task:
  assumes "\<not> list_ex (\<lambda>q. t_id q = t_id r \<or> t_project q = t_project r \<and> t_issue q = t_issue r) (tasks s) \<Longrightarrow> Q () (s\<lparr>tasks := tasks s @ [r]\<rparr>)" and "\<And>e. X e s"
  shows "wp (insert_task r) Q X s"
  using assms by (simp add: insert_task_def wp_simps)

lemma wp_log_task:
  assumes "\<And>d. Q () (s\<lparr>events := events s @ [\<lparr>ev_task = k, ev_state = st, ev_at = stamp, ev_snapshot = JObj d\<rparr>]\<rparr>)" and "\<And>e. X e s"
  shows "wp (log_task k st stamp) Q X s"
  unfolding log_task_def by (intro wp_bindI wp_get_public') (simp_all add: wp_simps assms)

definition submitted :: "env \<Rightarrow> dict \<Rightarrow> dict \<Rightarrow> broker \<Rightarrow> broker \<Rightarrow> bool" where
  "submitted E projects body s s' \<longleftrightarrow>
     (\<exists>r \<in> set (tasks s). same_db s s' \<and> t_project r = str_of (get body ''project'') \<and> t_issue r = str_of (get body ''issue_key'') \<and> py_eq (JObj (t_body r)) (JObj body))
   \<or> (\<exists>k now. tasks s' = tasks s @ [new_task E projects body k now] \<and> (\<forall>r \<in> set (tasks s). \<not> (t_project r = str_of (get body ''project'') \<and> t_issue r = str_of (get body ''issue_key''))))"

lemma submit_spec:
  assumes inv: "codex_inv E projects T s"
  shows "wp (submit E projects body) (\<lambda>d s'. after E projects T s s' \<and> submitted E projects body s s' \<and> has projects (str_of (get body ''project'')))
    (\<lambda>_ s'. same_db s s') s"
proof -
  let ?same = "\<lambda>r. t_project r = str_of (get body ''project'') \<and> t_issue r = str_of (get body ''issue_key'')"
  let ?Q = "\<lambda>d s'. after E projects T s s' \<and> submitted E projects body s s' \<and> has projects (str_of (get body ''project''))"
  have fresh: "wp (bindS (fresh_uuid E) (\<lambda>k. bindS (read_clock E) (\<lambda>now.
             let r = new_task E projects body k now in
             bindS (insert_task r) (\<lambda>_. bindS (log_task k (t_state r) (sql_real now)) (\<lambda>_. get_public k))))) ?Q (\<lambda>_ _. True) s"
    if none: "List.find ?same (tasks s) = None" and room: "length (filter occupies (tasks s)) < 32" and P: "has projects (str_of (get body ''project''))"
  proof -
    let ?k = "uuid4 E (ids s)" and ?now = "clock E (ticks s)"
    let ?r = "new_task E projects body ?k ?now"
    have fin: "?Q d s'" if "tasks s' = tasks s @ [?r]" "events s' = events s @ [e]" "ev_task e = ?k" "ev_state e = t_state ?r"
        "\<not> list_ex (\<lambda>q. t_id q = t_id ?r \<or> t_project q = t_project ?r \<and> t_issue q = t_issue ?r) (tasks s)" for d s' e
      using inserted_after [OF inv _ that(5) _ that(1,2)] that room census_waiting [of "tasks s"] P find_None [OF none]
      by (auto simp: submitted_def)
    show ?thesis
      unfolding Let_def
      by (simp only: wp_simps) (intro wp_insert_task wp_log_task wp_get_public' TrueI, rule fin, simp, simp, simp_all)
  qed
  have old: "wp (if \<not> py_eq (JObj (t_body r)) (JObj body) then raise (ValueError ''stable issue key reused with different task content'')
           else get_public (t_id r)) ?Q (\<lambda>_ _. True) s" if some: "List.find ?same (tasks s) = Some r" and P: "has projects (str_of (get body ''project''))" for r
  proof -
    have r: "r \<in> set (tasks s)" "?same r" using some by (auto simp: find_Some_iff)
    have "?Q d s" if "py_eq (JObj (t_body r)) (JObj body)" for d
      using after_refl [OF inv] r that P by (auto simp: submitted_def)
    then show ?thesis by (simp only: wp_simps split: if_split) (auto intro!: wp_get_public')
  qed
  have P: "submit_args projects body = Inr u \<Longrightarrow> has projects (str_of (get body ''project''))" for u
    by (auto simp: submit_args_def bindr_Inr_iff)
  show ?thesis
    unfolding submit_def
  proof (intro wp_bindI wp_liftI wp_tx wp_getsI)
    fix u assume "submit_args projects body = Inr u"
    note P = P [OF this]
    show "wp (case List.find ?same (tasks s) of
         Some r \<Rightarrow>
           if \<not> py_eq (JObj (t_body r)) (JObj body) then raise (ValueError ''stable issue key reused with different task content'')
           else get_public (t_id r)
       | None \<Rightarrow>
           if 32 \<le> length (filter occupies (tasks s)) then raise (ValueError ''pending task budget exhausted'')
           else
             bindS (fresh_uuid E) (\<lambda>k.
             bindS (read_clock E) (\<lambda>now.
             let r = new_task E projects body k now in
             bindS (insert_task r) (\<lambda>_.
             bindS (log_task k (t_state r) (sql_real now)) (\<lambda>_.
             get_public k))))) ?Q (\<lambda>_ _. True) s"
      using fresh [OF _ _ P] old [OF _ P] by (auto simp: wp_raise split: option.split)
  qed simp
qed

definition claimed :: "env \<Rightarrow> dict \<Rightarrow> dict option \<Rightarrow> broker \<Rightarrow> bool" where
  "claimed E projects out s' \<longleftrightarrow> (case out of None \<Rightarrow> True | Some task \<Rightarrow>
     \<exists>r. find_by t_id (tasks s') (t_id r) = Some r \<and> private_task projects r = Inr task \<and> t_state r = ''running''
       \<and> t_policy r = JStr (policy_digest E (get projects (t_project r))) \<and> (\<forall>q \<in> set (tasks s'). t_state q = ''running'' \<longrightarrow> q = r))"

lemma inv_ids: "codex_inv E projects T s \<Longrightarrow> r \<in> set (tasks s) \<Longrightarrow> find_by t_id (tasks s) (t_id r) = Some r"
  unfolding codex_inv_def by (elim conjE) (rule table_ok_mem)

lemma distinct_filter_ids: "codex_inv E projects T s \<Longrightarrow> distinct (map t_id (filter p (tasks s)))"
  by (simp add: codex_inv_def table_ok_def distinct_map_filter)

lemma find_states: "find_by t_id rs k = Some r \<Longrightarrow> states t_id t_state rs k = Some (t_state r)"
  by (simp add: states_def)

lemma claim_next_spec:
  assumes inv: "codex_inv E projects T s" and q: "q \<in> set (tasks s)" "t_state q = ''queued''" and idle: "census is_running (tasks s) = 0"
  shows "wp (claim_next E projects q) (\<lambda>out s'. after E projects T s s' \<and> claimed E projects out s') (\<lambda>_ _. True) s"
  unfolding claim_next_def
proof (intro wp_bindI wp_get_private TrueI)
  have f: "find_by t_id (tasks s) (t_id q) = Some q" by (rule inv_ids [OF inv q(1)])
  fix r p task
  assume r: "find_by t_id (tasks s) (t_id q) = Some r" and p: "map_of projects (t_project r) = Some p" "get task ''policy'' = p" "get task ''policy_sha256'' = t_policy r"
  have rq: "r = q" using r f by simp
  have pol: "get projects (t_project q) = p" "has projects (t_project q)" using p(1) rq by (simp_all add: get_def get_or_def has_def)
  have fail: "wp (transition E (t_id q) ''failed'' (set_error m)) (\<lambda>_. wp (ret None) (\<lambda>out s'. after E projects T s s' \<and> claimed E projects out s') (\<lambda>_ _. True)) (\<lambda>_ _. True) s" for m
    by (rule wp_move [OF inv f]) (use q(2) in \<open>simp_all add: good_plain wp_simps claimed_def\<close>)
  have run: "wp (transition E (t_id q) ''running'' id)
      (\<lambda>_. wp (bindS (get_private projects (t_id q)) (\<lambda>(r', task'). ret (Some task'))) (\<lambda>out s'. after E projects T s s' \<and> claimed E projects out s') (\<lambda>_ _. True)) (\<lambda>_ _. True) s"
    if ok: "t_policy q = JStr (policy_digest E p)"
  proof (rule wp_move [OF inv f])
    show "good_task E projects (id (set_state ''running'' now q))" for now using ok pol by (simp add: good_task_def STATUS_keys)
    fix s' assume af: "after E projects T s s'" and m: "moved (t_id q) ''running'' id s s'"
    obtain now where now: "find_by t_id (tasks s') (t_id q) = Some (set_state ''running'' now q)"
      using moved_find [OF m _ f] by auto
    let ?r = "set_state ''running'' now q"
    have inv': "codex_inv E projects T s'" using af by (simp add: after_def)
    have mem: "?r \<in> set (tasks s')" using now find_by_Some by fast
    have only: "p = ?r" if "p \<in> set (tasks s')" "t_state p = ''running''" for p
      by (rule census_one [where p = is_running, OF _ that(1) mem]) (use inv' that(2) in \<open>simp_all add: codex_inv_def is_running_def\<close>)
    have "claimed E projects (Some task') s'" if "private_task projects ?r = Inr task'" for task'
      unfolding claimed_def option.case
      by (rule exI [of _ ?r]) (use now that ok pol only in simp)
    then show "wp (bindS (get_private projects (t_id q)) (\<lambda>(r', task'). ret (Some task'))) (\<lambda>out s'. after E projects T s s' \<and> claimed E projects out s') (\<lambda>_ _. True) s'"
      using now af by (intro wp_bindI wp_get_private) (simp_all add: wp_simps)
  qed (use q(2) idle in simp_all)
  show "wp (case (r, task) of (r, task) \<Rightarrow> case check_task_policy E task of
       Inl _ \<Rightarrow> bindS (transition E (t_id q) ''failed'' (set_error ''task policy changed; operator reconciliation required'')) (\<lambda>_. ret None)
     | Inr _ \<Rightarrow>
         bindS (transition E (t_id q) ''running'' id) (\<lambda>_.
         bindS (get_private projects (t_id q)) (\<lambda>(r', task'). ret (Some task'))))
    (\<lambda>out s'. after E projects T s s' \<and> claimed E projects out s') (\<lambda>_ _. True) s"
    using fail run p(2,3) rq by (auto simp: check_task_policy_def require_def wp_bindS)
qed

lemma stale_ok:
  assumes inv: "codex_inv E projects T s" and "\<forall>r \<in> set rs. r \<in> set (tasks s) \<and> t_state r = ''running''"
  shows "\<forall>r \<in> set rs. t_id r \<notin> set T" "\<forall>r \<in> set rs. \<exists>st \<in> {''running'', ''publishing''}. states t_id t_state (tasks s) (t_id r) = Some st"
proof -
  have f: "find_by t_id (tasks s) (t_id r) = Some r" if "r \<in> set rs" for r using inv_ids [OF inv] assms(2) that by blast
  show "\<forall>r \<in> set rs. t_id r \<notin> set T" using thread_free [OF inv f] assms(2) by fastforce
  show "\<forall>r \<in> set rs. \<exists>st \<in> {''running'', ''publishing''}. states t_id t_state (tasks s) (t_id r) = Some st"
    using find_states [OF f] assms(2) by auto
qed

lemma codex_claim_spec:
  assumes inv: "codex_inv E projects T s"
  shows "wp (claim E projects) (\<lambda>out s'. after E projects T s s' \<and> claimed E projects out s') (\<lambda>_ s'. same_db s s') s"
  unfolding claim_def
proof (intro wp_tx wp_bindI wp_clockI wp_getsI)
  let ?s = "s\<lparr>ticks := Suc (ticks s)\<rparr>" and ?Q = "\<lambda>out s'. after E projects T s s' \<and> claimed E projects out s'"
  let ?next = "\<lambda>rs. if list_ex (\<lambda>r. t_state r = ''running'') rs then ret None
        else (case order_by (\<lambda>q r. sql_before (t_created q) (t_created r)) (filter (\<lambda>r. t_state r = ''queued'') rs) of
          [] \<Rightarrow> ret None | q # _ \<Rightarrow> claim_next E projects q)"
  let ?rs = "filter (\<lambda>r. t_state r = ''running'' \<and> sql_less (t_updated r) (sql_real (fsub (clock E (ticks s)) (flt_int 60)))) (tasks ?s)"
  have inv1: "codex_inv E projects T ?s" using inv by (simp add: codex_inv_def)
  have run: "\<forall>r \<in> set ?rs. r \<in> set (tasks ?s) \<and> t_state r = ''running''" by auto
  show "wp (for_eachS (\<lambda>r. transition E (t_id r) ''failed'' (set_error ''worker lease expired; no automatic retry'')) ?rs)
     (\<lambda>_. wp (bindS (gets tasks) ?next) ?Q (\<lambda>_ _. True)) (\<lambda>_ _. True) ?s"
  proof (rule wp_fail_all [OF inv1 distinct_filter_ids [OF inv1] stale_ok [OF inv1 run]])
    fix s1 assume af: "after E projects T ?s s1"
    have af': "after E projects T s s1" using af by (simp add: after_def)
    have inv2: "codex_inv E projects T s1" using af by (simp add: after_def)
    have none: "wp (ret None) (\<lambda>out s'. after E projects T s s' \<and> claimed E projects out s') (\<lambda>_ _. True) s1"
      using af' by (simp add: wp_simps claimed_def)
    have next': "wp (claim_next E projects q) (\<lambda>out s'. after E projects T s s' \<and> claimed E projects out s') (\<lambda>_ _. True) s1"
      if "\<not> list_ex (\<lambda>r. t_state r = ''running'') (tasks s1)"
        and "order_by (\<lambda>q r. sql_before (t_created q) (t_created r)) (filter (\<lambda>r. t_state r = ''queued'') (tasks s1)) = q # qs" for q qs
    proof -
      have "q \<in> set (filter (\<lambda>r. t_state r = ''queued'') (tasks s1))" using arg_cong [OF that(2), of set] by auto
      then have q: "q \<in> set (tasks s1)" "t_state q = ''queued''" by simp_all
      have idle: "census is_running (tasks s1) = 0" using that(1) by (simp add: census_zero is_running_def list_ex_iff)
      show ?thesis by (rule wp_mono [OF claim_next_spec [OF inv2 q idle]]) (use af' after_trans in blast)+
    qed
    show "wp (bindS (gets tasks) ?next) ?Q (\<lambda>_ _. True) s1"
      unfolding wp_bindS wp_gets using none next' by (simp split: list.split)
  qed
qed

definition recovered :: "broker \<Rightarrow> bool" where
  "recovered s \<longleftrightarrow> (\<forall>r \<in> set (tasks s). t_state r \<noteq> ''running'' \<and> t_state r \<noteq> ''publishing'')"

lemma recover_spec:
  assumes inv: "codex_inv E projects T s"
  shows "wp (recover E) (\<lambda>_ s'. after E projects [] s s' \<and> recovered s') (\<lambda>_ s'. same_db s s') s"
  unfolding recover_def
proof (intro wp_tx, simp only: wp_simps)
  let ?f = "\<lambda>r. if t_public_updated r = JNull then r\<lparr>t_public_updated := t_updated r\<rparr> else r"
  let ?s = "s\<lparr>tasks := map ?f (tasks s)\<rparr>"
  let ?rs = "filter (\<lambda>r. t_state r \<in> {''running'', ''publishing''}) (tasks ?s)"
  have inv0: "codex_inv E projects [] s" using inv by (simp add: codex_inv_def)
  have af0: "after E projects [] s ?s" by (rule touched_after [OF inv0, where f = ?f]) (simp_all add: same_task_def)
  then have inv1: "codex_inv E projects [] ?s" by (simp add: after_def)
  show "wp (for_eachS (\<lambda>r. transition E (t_id r) ''failed'' (set_error ''broker restarted; operator reconciliation required'')) ?rs)
     (\<lambda>_ s'. after E projects [] s s' \<and> recovered s') (\<lambda>_ _. True) ?s"
  proof (rule wp_fail_all [OF inv1 distinct_filter_ids [OF inv1]])
    show "\<forall>r \<in> set ?rs. \<exists>st \<in> {''running'', ''publishing''}. states t_id t_state (tasks ?s) (t_id r) = Some st"
    proof
      fix r assume "r \<in> set ?rs"
      then have "r \<in> set (tasks ?s)" "t_state r \<in> {''running'', ''publishing''}" by simp_all
      then show "\<exists>st \<in> {''running'', ''publishing''}. states t_id t_state (tasks ?s) (t_id r) = Some st"
        using find_states [OF inv_ids [OF inv1]] by blast
    qed
    fix s' assume af: "after E projects [] ?s s'"
      and st: "\<And>k. states t_id t_state (tasks s') k = (if k \<in> t_id ` set ?rs then Some ''failed'' else states t_id t_state (tasks ?s) k)"
    have inv2: "codex_inv E projects [] s'" using af by (simp add: after_def)
    have "t_state r \<notin> {''running'', ''publishing''}" if "r \<in> set (tasks s')" for r
    proof
      assume bad: "t_state r \<in> {''running'', ''publishing''}"
      have s1: "states t_id t_state (tasks s') (t_id r) = Some (t_state r)" by (rule find_states [OF inv_ids [OF inv2 that]])
      then have "t_id r \<notin> t_id ` set ?rs" using st [of "t_id r"] bad by (auto split: if_splits)
      then have "states t_id t_state (tasks ?s) (t_id r) = Some (t_state r)" using st s1 by simp
      then obtain q where q: "find_by t_id (tasks ?s) (t_id r) = Some q" "t_state q = t_state r" by (auto simp: states_def)
      then have "q \<in> set (tasks ?s)" "t_id q = t_id r" using find_by_Some by fast+
      then have "t_id r \<in> t_id ` set ?rs" using q(2) bad by (intro image_eqI [of _ _ q]) simp_all
      with \<open>t_id r \<notin> t_id ` set ?rs\<close> show False ..
    qed
    then show "after E projects [] s s' \<and> recovered s'" using after_trans [OF af0 af] by (auto simp: recovered_def)
  qed simp
qed

lemma recovered_inv: "codex_inv E projects T s \<Longrightarrow> recovered s \<Longrightarrow> codex_inv E projects' [] s"
  unfolding codex_inv_def table_ok_def recovered_def good_task_def by auto

definition begun :: "env \<Rightarrow> dict \<Rightarrow> string \<Rightarrow> json \<Rightarrow> dict \<Rightarrow> broker \<Rightarrow> broker \<Rightarrow> bool" where
  "begun E projects k digest task s s' \<longleftrightarrow> (\<exists>r r'. find_by t_id (tasks s) k = Some r \<and> t_state r = ''review'' \<and> private_task projects r = Inr task
     \<and> has projects (t_project r) \<and> t_policy r = JStr (policy_digest E (get projects (t_project r))) \<and> digest = JStr (policy_digest E (JObj (t_result r)))
     \<and> find_by t_id (tasks s') k = Some r' \<and> t_state r' = ''publishing'' \<and> t_result r' = t_result r)"

lemma publish_begin_spec:
  assumes inv: "codex_inv E projects T s"
  shows "wp (publish_begin E projects k digest) (\<lambda>task s'. after E projects (k # T) s s' \<and> begun E projects k digest task s s') (\<lambda>_ s'. same_db s s') s"
  unfolding publish_begin_def
proof (intro wp_tx wp_bindI wp_get_private TrueI)
  fix r p task
  assume r: "find_by t_id (tasks s) k = Some r" and p: "map_of projects (t_project r) = Some p" "private_task projects r = Inr task"
    "get task ''policy'' = p" "get task ''policy_sha256'' = t_policy r" "get task ''result'' = JObj (t_result r)"
  let ?Q = "\<lambda>task s'. after E projects (k # T) s s' \<and> begun E projects k digest task s s'"
  have pol: "get projects (t_project r) = p" "has projects (t_project r)" using p(1) by (simp_all add: get_def get_or_def has_def)
  have go: "wp (transition E k ''publishing'' id) (\<lambda>_. wp (ret task) ?Q (\<lambda>_ _. True)) (\<lambda>_ _. True) s"
    if st: "t_state r = ''review''" and ok: "t_policy r = JStr (policy_digest E p)" and dig: "digest = JStr (policy_digest E (JObj (t_result r)))"
  proof (rule wp_transition)
    fix s' assume m: "moved k ''publishing'' id s s'"
    have k: "k \<notin> set T" by (rule thread_free [OF inv r]) (simp add: st)
    have good: "good_task E projects (id (set_state ''publishing'' now r))" for now
      using codex_inv_row [OF inv r] st by (simp add: good_task_def reviewed_def STATUS_keys)
    have "after E projects (k # T) s s'"
      by (rule moved_after [OF inv m r _ _ _ good]) (use st k inv in \<open>simp_all add: codex_inv_def\<close>)
    moreover obtain now where "find_by t_id (tasks s') k = Some (set_state ''publishing'' now r)" using moved_find [OF m _ r] by auto
    ultimately show "wp (ret task) ?Q (\<lambda>_ _. True) s'" using r st ok dig p(2) pol by (simp add: wp_simps begun_def)
  qed simp_all
  show "wp (case (r, task) of (r, task) \<Rightarrow>
      bindS (check (t_state r = ''review'') (ValueError ''only reviewed worker results can be published'')) (\<lambda>_.
      bindS (lift (check_task_policy E task)) (\<lambda>_.
      bindS (task_review E projects k) (\<lambda>reviewed.
      bindS (lift (compare_digest digest (get reviewed ''result_sha256''))) (\<lambda>same.
      bindS (check same (ValueError ''approval must match reviewed result digest'')) (\<lambda>_.
      bindS (transition E k ''publishing'' id) (\<lambda>_. ret task))))))) ?Q (\<lambda>_ _. True) s"
    unfolding prod.case task_review_def
  proof (intro wp_bindI wp_checkI wp_liftI wp_get_private TrueI, unfold prod.case, intro wp_bindI wp_get_public' TrueI)
    fix u q p' task' d
    assume st: "t_state r = ''review''" and c: "check_task_policy E task = Inr u"
      and q: "find_by t_id (tasks s) k = Some q" "get task' ''result'' = JObj (t_result q)"
    have pd: "t_policy r = JStr (policy_digest E p)" using c p(3,4) by (simp add: check_task_policy_def)
    let ?rev = "[(''task'', JObj d), (''request'', get task' ''body''), (''policy'', get task' ''policy''), (''result'', get task' ''result''),
        (''result_sha256'', JStr (policy_digest E (get task' ''result'')))]"
    have rev: "get ?rev ''result_sha256'' = JStr (policy_digest E (JObj (t_result r)))" using q r by (simp add: get_def get_or_def)
    show "wp (ret ?rev) (\<lambda>reviewed. wp (bindS (lift (compare_digest digest (get reviewed ''result_sha256''))) (\<lambda>same.
        bindS (check same (ValueError ''approval must match reviewed result digest'')) (\<lambda>_. bindS (transition E k ''publishing'' id) (\<lambda>_. ret task)))) ?Q (\<lambda>_ _. True)) (\<lambda>_ _. True) s"
      unfolding wp_ret rev
      by (intro wp_bindI wp_liftI wp_checkI TrueI go [OF st pd]) (auto dest: compare_digest_True)
  qed
qed

lemma wp_publish_end:
  assumes inv: "codex_inv E projects T s" and k: "k \<in> set T"
  shows "after E projects (remove1 k T) s (snd (publish_end E k out s))"
proof -
  obtain r where r: "find_by t_id (tasks s) k = Some r" "t_state r = ''publishing''" using inv k by (fastforce simp: codex_inv_def states_def)
  have rest: "distinct (remove1 k T)" "set (remove1 k T) = set T - {k}" using inv by (simp_all add: codex_inv_def)
  have inv': "codex_inv E projects (remove1 k T) s" using inv rest by (auto simp: codex_inv_def)
  have tx: "wp (transaction (transition E k st g)) (\<lambda>_ s'. after E projects (remove1 k T) s s') (\<lambda>_ s'. after E projects (remove1 k T) s s') s"
    if st: "st = ''failed'' \<or> st = ''completed''" and g: "\<And>q. same_task q (g q) \<and> t_state (g q) = t_state q" "\<And>q. t_result (g q) = t_result q" for st g
  proof -
    have good: "good_task E projects (g (set_state st now r))" for now
    proof -
      have f: "t_policy (g (set_state st now r)) = t_policy r" "t_result (g (set_state st now r)) = t_result r" "t_state (g (set_state st now r)) = st"
        using g [of "set_state st now r"] by (simp_all add: same_task_def)
      show ?thesis using codex_inv_row [OF inv r(1)] r(2) st f by (auto simp: good_task_def reviewed_def STATUS_keys)
    qed
    have "wp (transaction (transition E k st g)) (\<lambda>_ s'. after E projects (remove1 k T) s s') (\<lambda>_ s'. same_db s s') s"
    proof (rule wp_tx [OF wp_transition])
      show "t_id (g q) = t_id q" for q using g(1) [of q] by (simp add: same_task_def)
      fix s' assume m: "moved k st g s s'"
      show "after E projects (remove1 k T) s s'"
        by (rule moved_after [OF inv m r(1) g(1) _ _ good _ rest(1)]) (use st r(2) g(2) rest(2) in auto)
    qed simp
    then show ?thesis by (rule wp_mono) (auto intro: same_db_after [OF _ inv'])
  qed
  have get: "wp (get_public k) (\<lambda>_ s'. after E projects (remove1 k T) s s') (\<lambda>_ s'. after E projects (remove1 k T) s s') s'"
    if "after E projects (remove1 k T) s s'" for s' by (rule wp_get_public') (rule that)+
  have "wp (publish_end E k out) (\<lambda>_ s'. after E projects (remove1 k T) s s') (\<lambda>_ s'. after E projects (remove1 k T) s s') s"
  proof (cases out)
    case (Inl e)
    have t: "wp (transaction (transition E k ''failed'' (set_error m))) (\<lambda>_ s'. after E projects (remove1 k T) s s') (\<lambda>_ s'. after E projects (remove1 k T) s s') s" for m
      by (rule tx) simp_all
    show ?thesis unfolding publish_end_def Inl sum.case by (rule wp_bindI, rule wp_mono [OF t]) (simp_all add: wp_raise)
  next
    case (Inr x)
    have t: "wp (transaction (transition E k ''completed'' (set_published x))) (\<lambda>_ s'. after E projects (remove1 k T) s s') (\<lambda>_ s'. after E projects (remove1 k T) s s') s"
      by (rule tx) simp_all
    show ?thesis unfolding publish_end_def Inr sum.case by (rule wp_bindI, rule wp_mono [OF t]) (simp_all add: get)
  qed
  then show ?thesis by (simp only: wp_snd)
qed

section \<open>The running broker\<close>

text \<open>
  The broker serves calls from many threads; each transaction is atomic, and a publication is two of
  them with the publisher in between. \<open>sys_threads\<close> are the tasks whose publisher is at work. A
  restart loses them, may load another policy, and recovers the ledger.
\<close>

record codex_sys =
  sys_projects :: dict
  sys_threads :: "string list"
  sys_db :: broker

datatype task_call =
    Submit dict
  | Act string string dict
  | Claim
  | Get string
  | List_Tasks
  | Task_Events int int
  | Task_Review string

fun run_task_call :: "env \<Rightarrow> dict \<Rightarrow> task_call \<Rightarrow> (broker, unit) eff" where
  "run_task_call E projects (Submit body) = bindS (submit E projects body) (\<lambda>_. ret ())"
| "run_task_call E projects (Act k action body) = bindS (act E projects k action body) (\<lambda>_. ret ())"
| "run_task_call E projects Claim = bindS (claim E projects) (\<lambda>_. ret ())"
| "run_task_call E projects (Get k) = bindS (get_public k) (\<lambda>_. ret ())"
| "run_task_call E projects List_Tasks = bindS (list_tasks E) (\<lambda>_. ret ())"
| "run_task_call E projects (Task_Events a n) = bindS (task_events E a n) (\<lambda>_. ret ())"
| "run_task_call E projects (Task_Review k) = bindS (task_review E projects k) (\<lambda>_. ret ())"

inductive codex_step :: "env \<Rightarrow> codex_sys \<Rightarrow> codex_sys \<Rightarrow> bool" for E where
  call: "codex_step E y (y\<lparr>sys_db := snd (run_task_call E (sys_projects y) c (sys_db y))\<rparr>)"
| publish_start: "publish_begin E (sys_projects y) k digest (sys_db y) = (Inr task, s') \<Longrightarrow> codex_step E y (y\<lparr>sys_threads := k # sys_threads y, sys_db := s'\<rparr>)"
| publish_refused: "publish_begin E (sys_projects y) k digest (sys_db y) = (Inl e, s') \<Longrightarrow> codex_step E y (y\<lparr>sys_db := s'\<rparr>)"
| publish_finish: "k \<in> set (sys_threads y) \<Longrightarrow>
    codex_step E y (y\<lparr>sys_threads := remove1 k (sys_threads y), sys_db := snd (publish_end E k out (sys_db y))\<rparr>)"
| restart: "recover E (sys_db y) = (Inr (), s') \<Longrightarrow> codex_step E y \<lparr>sys_projects = projects', sys_threads = [], sys_db = s'\<rparr>"

inductive_simps codex_step_iff: "codex_step E y y'"

definition sys_inv :: "env \<Rightarrow> codex_sys \<Rightarrow> bool" where
  "sys_inv E y \<longleftrightarrow> codex_inv E (sys_projects y) (sys_threads y) (sys_db y)"

interpretation reading: frame same_db
  by unfold_locales (simp_all add: same_db_def)

lemma reads_get: "same_db s (snd (get_public k s))"
  by (auto simp: get_public_def fetch_task_def eff_defs split: option.splits)

lemma reads_list_loop: "same_db s (snd (list_loop E n rs s))"
proof (induction E n rs arbitrary: s rule: list_loop.induct)
  case (2 E used r rs)
  show ?case by (auto intro!: reading.keeps_bind reads_get simp: ret_def 2)
qed (simp add: ret_def)

lemma reads_private: "same_db s (snd (get_private projects k s))"
  by (auto simp: get_private_def fetch_task_def eff_defs split: option.splits sum.splits)

lemma reads_rest:
  "same_db s (snd (list_tasks E s))" "same_db s (snd (task_events E a n s))" "same_db s (snd (task_review E projects k s))"
  unfolding list_tasks_def task_events_def task_review_def
  by (auto intro!: reading.keeps_bind reads_list_loop reads_get reads_private simp: gets_def Let_def ret_def raise_def)

lemma snd_unit: "snd (bindS m (\<lambda>_. ret ()) s) = snd (m s)"
  by (auto simp: bindS_def ret_def split: prod.splits sum.splits)

lemma after_of_wp: "codex_inv E projects T s \<Longrightarrow> wp m (\<lambda>x s'. after E projects T s s' \<and> R x s') (\<lambda>_ s'. same_db s s') s \<Longrightarrow> after E projects T s (snd (m s))"
  unfolding wp_def by (auto intro: same_db_after split: prod.splits sum.splits)

lemma call_after:
  assumes inv: "codex_inv E projects T s" shows "after E projects T s (snd (run_task_call E projects c s))"
proof (cases c)
  case (Submit body)
  then show ?thesis using after_of_wp [OF inv submit_spec [OF inv]] by (simp add: snd_unit)
next
  case (Act k action body)
  then show ?thesis using after_of_wp [OF inv act_spec [OF inv]] by (simp add: snd_unit)
next
  case Claim
  then show ?thesis using after_of_wp [OF inv codex_claim_spec [OF inv]] by (simp add: snd_unit)
qed (simp_all add: snd_unit same_db_after [OF _ inv] reads_get reads_rest)

lemma step_after:
  assumes "codex_step E y y'" and "sys_inv E y"
  shows "sys_inv E y' \<and> table_moves t_id task_moves (tasks (sys_db y)) (tasks (sys_db y'))"
  using assms
proof cases
  case (call c)
  then show ?thesis using call_after assms(2) by (simp add: sys_inv_def after_def)
next
  case (publish_start k digest task s')
  then show ?thesis using wp_outcome [OF publish_begin_spec [OF assms(2) [unfolded sys_inv_def]] publish_start(2)] by (simp add: sys_inv_def after_def)
next
  case (publish_refused k digest e s')
  then have "same_db (sys_db y) s'" using wp_raised [OF publish_begin_spec [OF assms(2) [unfolded sys_inv_def]] publish_refused(2)] by simp
  then show ?thesis using same_db_after assms(2) publish_refused(1) by (simp add: sys_inv_def after_def)
next
  case (publish_finish k out)
  then show ?thesis using wp_publish_end [OF assms(2) [unfolded sys_inv_def] publish_finish(2)] by (simp add: sys_inv_def after_def)
next
  case (restart s' projects')
  have "after E (sys_projects y) [] (sys_db y) s' \<and> recovered s'"
    using wp_outcome [OF recover_spec [OF assms(2) [unfolded sys_inv_def]] restart(2)] by simp
  then show ?thesis using recovered_inv restart(1) by (auto simp: sys_inv_def after_def)
qed

lemma run_after:
  assumes "(codex_step E)\<^sup>*\<^sup>* y y'" and "sys_inv E y"
  shows "sys_inv E y' \<and> table_moves t_id task_moves (tasks (sys_db y)) (tasks (sys_db y'))"
  using assms
proof (induction rule: rtranclp_induct)
  case base
  then show ?case by (simp add: tm.table_refl)
next
  case (step u v)
  then show ?case using step_after [OF step.hyps(2)] tm.table_trans by blast
qed

interpretation codex: status_machine "\<lambda>y. states t_id t_state (tasks (sys_db y))" "\<lambda>y y'. codex_step E y y' \<and> sys_inv E y" task_edge
proof
  fix y y' k a
  assume "codex_step E y y' \<and> sys_inv E y" "states t_id t_state (tasks (sys_db y)) k = Some a"
  then show "\<exists>b. states t_id t_state (tasks (sys_db y')) k = Some b \<and> task_edge\<^sup>*\<^sup>* a b"
    using step_after by (fastforce simp: states_def table_moves_def task_moves_def)
qed

lemma sound_steps: "(codex_step E)\<^sup>*\<^sup>* y y' \<Longrightarrow> sys_inv E y \<Longrightarrow> (\<lambda>y y'. codex_step E y y' \<and> sys_inv E y)\<^sup>*\<^sup>* y y'"
proof (induction rule: rtranclp_induct)
  case (step u v)
  then have "sys_inv E u" using run_after by blast
  with step show ?case by (metis (mono_tags, lifting) rtranclp.rtrancl_into_rtrancl)
qed simp

lemma terminal_edges: "st \<in> {''completed'', ''failed'', ''cancelled''} \<Longrightarrow> task_edge st b \<Longrightarrow> b = st"
  unfolding task_edge_def insert_iff prod.inject by (elim disjE conjE) simp_all

section \<open>A small broker\<close>

definition codex_env :: env where
  "codex_env = \<lparr>clock = (\<lambda>n. flt_int (1000 + int n)), uuid4 = (\<lambda>n. ''task-'' @ int_text (int n)), token = (\<lambda>_. []), sha256 = take 8, float_text = (\<lambda>_. ''0'')\<rparr>"

definition codex_projects :: dict where
  "codex_projects = [(''home'', JObj demo_project)]"

definition empty_broker :: broker where
  "empty_broker = \<lparr>ticks = 0, ids = 0, tokens = 0, tasks = [], events = []\<rparr>"

definition codex_start :: codex_sys where
  "codex_start = \<lparr>sys_projects = codex_projects, sys_threads = [], sys_db = empty_broker\<rparr>"

lemma codex_start_inv: "sys_inv E codex_start"
  by (auto simp: sys_inv_def codex_start_def empty_broker_def codex_inv_def table_ok_def census_def audited_def states_def fun_eq_iff)

definition codex_request :: dict where
  "codex_request = [(''project'', JStr ''home''), (''issue_key'', JStr ''bug-1''), (''summary'', JStr ''fix it''), (''context'', JStr [])]"

definition worker_answer :: dict where
  "worker_answer = [(''ok'', JBool True), (''session_id'', JNull), (''files'', JArr [JObj [(''path'', JStr ''src/a.py''), (''content'', JStr ''YQ=='')]])]"

text \<open>The state after a list of calls, and a ledger with one task in review.\<close>

fun run_calls :: "env \<Rightarrow> task_call list \<Rightarrow> codex_sys \<Rightarrow> codex_sys" where
  "run_calls E [] y = y"
| "run_calls E (c # cs) y = run_calls E cs (y\<lparr>sys_db := snd (run_task_call E (sys_projects y) c (sys_db y))\<rparr>)"

lemma run_calls_steps: "(codex_step E)\<^sup>*\<^sup>* y (run_calls E cs y)"
  by (induction E cs y rule: run_calls.induct) (auto intro: converse_rtranclp_into_rtranclp codex_step.call)

definition review_task :: task_row where
  "review_task = (new_task codex_env codex_projects codex_request ''task-0'' (flt_int 1000))\<lparr>t_state := ''review'', t_result := worker_answer\<rparr>"

definition review_db :: broker where
  "review_db = \<lparr>ticks = 5, ids = 1, tokens = 0, tasks = [review_task],
     events = [\<lparr>ev_task = ''task-0'', ev_state = ''review'', ev_at = JNull, ev_snapshot = JNull\<rparr>]\<rparr>"

definition review_sys :: codex_sys where
  "review_sys = \<lparr>sys_projects = codex_projects, sys_threads = [], sys_db = review_db\<rparr>"

lemma review_fields: "t_id review_task = ''task-0''" "t_state review_task = ''review''" "t_result review_task = worker_answer"
    "t_policy review_task = JStr (policy_digest codex_env (JObj demo_project))"
  by (simp_all add: review_task_def new_task_def codex_request_def codex_projects_def Let_def get_def get_or_def)

lemma review_good: "good_task codex_env codex_projects review_task"
proof -
  have "get worker_answer ''ok'' = JBool True" by code_simp
  moreover have "isl (validate_files (get worker_answer ''files'') (JObj demo_project)) = False" by code_simp
  then obtain out where "validate_files (get worker_answer ''files'') (JObj demo_project) = Inr out" by (metis isl_def sum.exhaust_sel)
  ultimately show ?thesis unfolding good_task_def reviewed_def review_fields STATUS_keys by auto
qed

lemma review_inv: "codex_inv codex_env codex_projects [] review_db"
  using review_good
  by (auto simp: codex_inv_def review_db_def table_ok_def census_def is_running_def waiting_def audited_def states_def trail_def fun_eq_iff review_fields)

lemma review_sys_inv: "sys_inv codex_env review_sys"
  using review_inv by (simp add: sys_inv_def review_sys_def)

lemma review_state: "find_by t_id (tasks (sys_db review_sys)) ''task-0'' = Some review_task"
  by (simp add: review_sys_def review_db_def review_fields)

section \<open>Properties of the ledger\<close>

text \<open>
  C24: the broker keeps its ledger sound through any interleaving of requests, worker reports, publications
  and restarts: task identifiers are unique, a project and issue have one task, at most one
  task is running, at most 32 are waiting or running, a running task was submitted under the
  policy now loaded, and whatever is in review, being published or completed is a successful
  result whose files passed the policy the task was submitted under.
\<close>

theorem codex_invariant:
  assumes "(codex_step E)\<^sup>*\<^sup>* y y'" and "sys_inv E y"
  shows "distinct (map t_id (tasks (sys_db y'))) \<and> distinct (map (\<lambda>r. (t_project r, t_issue r)) (tasks (sys_db y')))
    \<and> length (filter is_running (tasks (sys_db y'))) \<le> 1 \<and> length (filter waiting (tasks (sys_db y'))) \<le> 32
    \<and> (\<forall>r \<in> set (tasks (sys_db y')). (t_state r = ''running'' \<longrightarrow> t_policy r = JStr (policy_digest E (get (sys_projects y') (t_project r))))
        \<and> (t_state r \<in> {''review'', ''publishing'', ''completed''} \<longrightarrow> reviewed E r))"
  using run_after [OF assms] by (auto simp: sys_inv_def codex_inv_def table_ok_def census_def good_task_def)

theorem codex_invariant_witness:
  "length (filter is_running (tasks (sys_db (run_calls codex_env [Submit codex_request, Claim] codex_start)))) \<le> 1"
  using codex_invariant [OF run_calls_steps codex_start_inv] by blast

text \<open>
  C25: the audit log refines the ledger. In every reachable state the state that the last event of a
  task names is the state of the task's row, and a task without a row has no events: the map that
  the events alone describe is the map of the rows.
\<close>

theorem codex_trail:
  assumes "(codex_step E)\<^sup>*\<^sup>* y y'" and "sys_inv E y"
  shows "trail ev_task ev_state (events (sys_db y')) = states t_id t_state (tasks (sys_db y'))"
  using run_after [OF assms] by (simp add: sys_inv_def codex_inv_def audited_def)

theorem codex_trail_witness: "trail ev_task ev_state (events (sys_db review_sys)) ''task-0'' = Some ''review''"
  using codex_trail [OF rtranclp.rtrancl_refl review_sys_inv] review_state review_fields(2) by (simp add: states_def)

text \<open>
  C26: a task keeps its identity, its request and the digest of its policy; its state moves only along
  the graph of the broker; a completed, failed or cancelled task stays so, and a result that
  has been handed in is never replaced.
\<close>

theorem task_lifecycle:
  assumes run: "(codex_step E)\<^sup>*\<^sup>* y y'" and inv: "sys_inv E y" and r: "find_by t_id (tasks (sys_db y)) k = Some r"
  shows "\<exists>r'. find_by t_id (tasks (sys_db y')) k = Some r' \<and> same_task r r' \<and> task_edge\<^sup>*\<^sup>* (t_state r) (t_state r')
    \<and> (t_state r \<in> {''completed'', ''failed'', ''cancelled''} \<longrightarrow> t_state r' = t_state r) \<and> (t_state r \<in> frozen \<longrightarrow> t_result r' = t_result r)"
proof -
  from run_after [OF run inv] r obtain r' where r': "find_by t_id (tasks (sys_db y')) k = Some r'" "task_moves r r'"
    by (auto simp: table_moves_def)
  have "t_state r' = t_state r" if "t_state r \<in> {''completed'', ''failed'', ''cancelled''}"
    using codex.terminal_stable [OF sound_steps [OF run inv] find_states [OF r] terminal_edges [OF that]] r'(1) by (simp add: states_def)
  then show ?thesis using r' by (auto simp: task_moves_def)
qed

theorem task_lifecycle_witness:
  "\<exists>r'. find_by t_id (tasks (sys_db (run_calls codex_env [Act ''task-0'' ''cancel'' []] review_sys))) ''task-0'' = Some r' \<and> task_edge\<^sup>*\<^sup>* ''review'' (t_state r')"
proof -
  from task_lifecycle [OF run_calls_steps review_sys_inv review_state, of "[Act ''task-0'' ''cancel'' []]"] show ?thesis unfolding review_fields by blast
qed

text \<open>
  C23: publication is what the operator approved. When \<open>publish\<close> calls the publisher, the task was in
  review, the digest that the operator gave is the digest of exactly the stored result, the
  project's policy is still the one the task was submitted under, and the result's files passed a
  policy with that digest; the task is then marked as publishing, with its result unchanged.
\<close>

theorem publish_sound:
  assumes "codex_inv E projects T s" and "publish_begin E projects k digest s = (Inr task, s')"
  shows "\<exists>r r'. find_by t_id (tasks s) k = Some r \<and> t_state r = ''review'' \<and> private_task projects r = Inr task
    \<and> digest = JStr (policy_digest E (JObj (t_result r))) \<and> t_policy r = JStr (policy_digest E (get projects (t_project r))) \<and> reviewed E r
    \<and> find_by t_id (tasks s') k = Some r' \<and> t_state r' = ''publishing'' \<and> t_result r' = t_result r"
proof -
  from wp_outcome [OF publish_begin_spec [OF assms(1)] assms(2)] obtain r r' where b: "find_by t_id (tasks s) k = Some r" "t_state r = ''review''"
      "private_task projects r = Inr task" "t_policy r = JStr (policy_digest E (get projects (t_project r)))" "digest = JStr (policy_digest E (JObj (t_result r)))"
      "find_by t_id (tasks s') k = Some r'" "t_state r' = ''publishing''" "t_result r' = t_result r"
    by (auto simp: begun_def)
  have "reviewed E r" using codex_inv_row [OF assms(1) b(1)] b(2) by (simp add: good_task_def)
  then show ?thesis using b by blast
qed

theorem publish_sound_witness:
  "\<exists>task s'. publish_begin codex_env codex_projects ''task-0'' (JStr (policy_digest codex_env (JObj worker_answer))) review_db = (Inr task, s')
     \<and> states t_id t_state (tasks s') ''task-0'' = Some ''publishing''"
proof -
  let ?s = review_db and ?d = "JStr (policy_digest codex_env (JObj worker_answer))"
  have "isl (fst (publish_begin codex_env codex_projects ''task-0'' ?d ?s)) = False" by code_simp
  then obtain task s' where p: "publish_begin codex_env codex_projects ''task-0'' ?d ?s = (Inr task, s')" by (metis isl_def prod.collapse sum.exhaust_sel)
  from publish_sound [OF review_inv p] obtain r' where "find_by t_id (tasks s') ''task-0'' = Some r'" "t_state r' = ''publishing''" by blast
  then show ?thesis using p by - (rule exI [of _ task], rule exI [of _ s'], simp add: states_def)
qed

text \<open>
  C27: a request is submitted once. After a submission was accepted, and after whatever happened since,
  submitting the same project and issue again is accepted only with the same content, and then
  changes neither a task nor the log.
\<close>

theorem submit_once:
  assumes "sys_inv E y" and "submit E (sys_projects y) body (sys_db y) = (Inr d, s1)" and "(codex_step E)\<^sup>*\<^sup>* (y\<lparr>sys_db := s1\<rparr>) y'"
    and "submit E (sys_projects y') body' (sys_db y') = (Inr d', s2)"
    and "get body' ''project'' = get body ''project''" and "get body' ''issue_key'' = get body ''issue_key''"
  shows "tasks s2 = tasks (sys_db y') \<and> events s2 = events (sys_db y')
    \<and> (\<exists>r \<in> set (tasks s1). t_project r = str_of (get body ''project'') \<and> t_issue r = str_of (get body ''issue_key'') \<and> py_eq (JObj (t_body r)) (JObj body'))"
proof -
  let ?same = "\<lambda>r. t_project r = str_of (get body ''project'') \<and> t_issue r = str_of (get body ''issue_key'')"
  have inv: "codex_inv E (sys_projects y) (sys_threads y) (sys_db y)" using assms(1) by (simp add: sys_inv_def)
  have s1: "after E (sys_projects y) (sys_threads y) (sys_db y) s1" "submitted E (sys_projects y) body (sys_db y) s1"
    using wp_outcome [OF submit_spec [OF inv] assms(2)] by simp_all
  have inv1: "sys_inv E (y\<lparr>sys_db := s1\<rparr>)" using s1(1) by (simp add: sys_inv_def after_def)
  have "\<exists>r \<in> set (tasks s1). ?same r" using s1(2) by (auto simp: submitted_def same_db_def)
  then obtain r where r: "r \<in> set (tasks s1)" "?same r" by blast
  have run: "sys_inv E y'" "table_moves t_id task_moves (tasks s1) (tasks (sys_db y'))" using run_after [OF assms(3) inv1] by simp_all
  have f: "find_by t_id (tasks s1) (t_id r) = Some r" using inv_ids r(1) s1(1) by (fastforce simp: after_def)
  then obtain r' where r': "find_by t_id (tasks (sys_db y')) (t_id r) = Some r'" "task_moves r r'" using run(2) by (auto simp: table_moves_def)
  then have mem: "r' \<in> set (tasks (sys_db y'))" "?same r'" "t_body r' = t_body r" using find_by_Some r(2) by (fastforce simp: task_moves_def same_task_def)+
  have inv2: "codex_inv E (sys_projects y') (sys_threads y') (sys_db y')" using run(1) by (simp add: sys_inv_def)
  have "submitted E (sys_projects y') body' (sys_db y') s2" using wp_outcome [OF submit_spec [OF inv2] assms(4)] by simp
  with mem assms(5,6) obtain q where q: "q \<in> set (tasks (sys_db y'))" "same_db (sys_db y') s2" "?same q" "py_eq (JObj (t_body q)) (JObj body')"
    by (auto simp: submitted_def)
  have dist: "distinct (map (\<lambda>r. (t_project r, t_issue r)) (tasks (sys_db y')))" using inv2 by (simp add: codex_inv_def)
  have "q = r'" by (rule inj_onD [OF distinct_map [THEN iffD1, OF dist, THEN conjunct2] _ q(1) mem(1)]) (use q(3) mem(2) in simp)
  then show ?thesis using q(2,4) r mem(3) by (auto simp: same_db_def)
qed

theorem submit_once_witness:
  "let s1 = snd (submit codex_env codex_projects codex_request empty_broker) in
   tasks s1 \<noteq> [] \<and> tasks (snd (submit codex_env codex_projects codex_request s1)) = tasks s1"
proof -
  let ?sub = "submit codex_env codex_projects codex_request"
  let ?s1 = "snd (?sub empty_broker)"
  have ok: "isl (fst (?sub empty_broker)) = False" "isl (fst (?sub ?s1)) = False" "tasks ?s1 \<noteq> []" by code_simp+
  obtain d where d: "?sub empty_broker = (Inr d, ?s1)" using ok(1) by (cases "?sub empty_broker"; cases "fst (?sub empty_broker)") auto
  obtain d' where d': "?sub ?s1 = (Inr d', snd (?sub ?s1))" using ok(2) by (cases "?sub ?s1"; cases "fst (?sub ?s1)") auto
  have p: "sys_projects codex_start = codex_projects" "sys_db codex_start = empty_broker" by (simp_all add: codex_start_def)
  have p': "sys_projects (codex_start\<lparr>sys_db := s\<rparr>) = codex_projects" "sys_db (codex_start\<lparr>sys_db := s\<rparr>) = s" for s by (simp_all add: codex_start_def)
  have "tasks (snd (?sub ?s1)) = tasks ?s1"
    using submit_once [OF codex_start_inv, of codex_env codex_request d ?s1 "codex_start\<lparr>sys_db := ?s1\<rparr>" codex_request d' "snd (?sub ?s1)"] d d'
    by (simp only: p p' rtranclp.rtrancl_refl simp_thms)
  with ok(3) show ?thesis by (simp only: Let_def simp_thms not_False_eq_True)
qed

end
