(* ===== verification/Action_Policy.thy ===== *)
theory Action_Policy
  imports Py_Containers
begin

text \<open>
  The policy half of \<open>deploy/codex-worker/actions.py\<close>: the operator's registry of maintenance actions,
  checked against the monitoring registry. Time zones and ISO timestamps are parameters (the record
  \<open>calendar\<close>): the time zone database is data of the host, and a timestamp is read by
  \<open>datetime.fromisoformat\<close>, here a function from the text to whether the result knows its offset,
  and its POSIX time. A checked policy is stored as \<open>json.loads(json.dumps(p))\<close>, which is \<open>p\<close>: the
  checks leave text, integers, booleans, lists and dictionaries only.
\<close>

record calendar =
  fromisoformat :: "string \<Rightarrow> (bool \<times> flt) res"
  zone_info :: "json \<Rightarrow> unit res"
  local_time :: "json \<Rightarrow> flt \<Rightarrow> (int \<times> int \<times> int) res"

section \<open>Names\<close>

definition ID :: rexp where
  "ID = Rep (Cls (\<lambda>c. is_alnum c \<or> c \<in> {CHR ''_'', CHR ''.'', CHR '':'', CHR ''-''})) 1 128"

definition is_id :: "json \<Rightarrow> bool" where
  "is_id v \<longleftrightarrow> is_str v \<and> fullmatch ID (str_of v)"

abbreviation POLICY_KEYS :: "string list" where
  "POLICY_KEYS \<equiv> [''id'', ''target'', ''environment'', ''enabled'', ''executor'', ''check_id'', ''category'', ''status'', ''gates'',
     ''approval'', ''evidence_ttl_seconds'', ''approval_ttl_seconds'', ''maintenance_window'',
     ''cooldown_seconds'', ''max_attempts'', ''postcheck'', ''rollback'', ''mechanism_refs'']"

abbreviation SYNTHETIC :: "string list" where
  "SYNTHETIC \<equiv> [''synthetic-core'', ''synthetic-spark'']"

definition PRODUCTION :: "(string \<times> string) list" where
  "PRODUCTION = [(''guarded-home-core-deploy'', ''home-core''), (''guarded-home-spark-deploy'', ''home-spark''),
     (''approved-compose-recovery'', ''home-core''), (''approved-spark-compose-recovery'', ''home-spark''),
     (''dgx-os-maintenance'', ''home-spark'')]"

abbreviation GATES :: "string list" where
  "GATES \<equiv> [''reviewed-change'', ''backup'', ''model-qualification'', ''promotion-approval'',
     ''recovery-runbook-reviewed'', ''vendor-maintenance-reviewed'']"

section \<open>Digests and times\<close>

definition digest_of :: "env \<Rightarrow> json \<Rightarrow> string" where
  "digest_of E v = sha256 E (dumps (float_text E) canonical_style v)"

definition digest :: "env \<Rightarrow> json \<Rightarrow> string res" where
  "digest E v = (if finite_json v then Inr (digest_of E v) else Inl (ValueError ''Out of range float values are not JSON compliant''))"

definition stamp :: "calendar \<Rightarrow> json \<Rightarrow> flt res" where
  "stamp C v =
     bindr (require (is_str v) (ValueError ''timestamp required'')) (\<lambda>_.
     bindr (fromisoformat C (py_replace ''Z'' ''+00:00'' (str_of v))) (\<lambda>(aware, t).
     bindr (require aware (ValueError ''timezone required'')) (\<lambda>_. Inr t)))"

definition minute :: "json \<Rightarrow> bool \<Rightarrow> int res" where
  "minute v at_end =
     bindr (require (is_str v \<and> fullmatch (Seq (Rep (Cls is_digit) 2 2) (Seq (Lit '':'') (Rep (Cls is_digit) 2 2))) (str_of v)) (ValueError ''invalid window time'')) (\<lambda>_.
     let hour = dec_val (take 2 (str_of v)); mins = dec_val (drop 3 (str_of v)) in
     bindr (require (\<not> (mins > 59 \<or> hour > 23 \<and> \<not> (at_end \<and> hour = 24 \<and> mins = 0))) (ValueError ''invalid window time'')) (\<lambda>_.
     Inr (hour * 60 + mins)))"

section \<open>Policies\<close>

text \<open>\<open>{s['id']: s for s in monitoring['systems']}\<close>; a later system with the same id replaces an earlier one.\<close>

definition systems_of :: "json \<Rightarrow> (json \<times> json) list res" where
  "systems_of monitoring =
     bindr (subscript monitoring ''systems'') (\<lambda>v.
     bindr (py_iter v) (\<lambda>xs.
     map_res (\<lambda>s. bindr (subscript s ''id'') (\<lambda>i. if hashable i then Inr (i, s) else Inl TypeError)) xs))"

definition system_named :: "(json \<times> json) list \<Rightarrow> string \<Rightarrow> json option" where
  "system_named systems name = map_of (rev systems) (JStr name)"

text \<open>\<open>{prefix + x['name'] for x in v}\<close>.\<close>

definition named_checks :: "string \<Rightarrow> json \<Rightarrow> json list res" where
  "named_checks prefix v = bindr (py_iter v) (\<lambda>xs.
     map_res (\<lambda>x. bindr (subscript x ''name'') (\<lambda>n. if is_str n then Inr (JStr (prefix @ str_of n)) else Inl TypeError)) xs)"

definition registered_checks :: "json \<Rightarrow> json list res" where
  "registered_checks s =
     bindr (subscript s ''containers'') (\<lambda>cs. bindr (named_checks ''container.'' cs) (\<lambda>a.
     bindr (subscript s ''units'') (\<lambda>us. bindr (named_checks ''unit.'' us) (\<lambda>b.
     bindr (subscript s ''updates'') (\<lambda>ws. bindr (py_set ws) (\<lambda>c.
     Inr (a @ b @ c @ [JStr ''model-update-report.changed''])))))))"

definition check_gates :: "dict \<Rightarrow> unit res" where
  "check_gates p =
     bindr (require (is_list (get p ''gates'')) (ValueError ''invalid gates'')) (\<lambda>_.
     bindr (py_set (get p ''gates'')) (\<lambda>gs.
     bindr (require (set_within gs GATES \<and> distinct gs) (ValueError ''invalid gates'')) (\<lambda>_.
     require (\<not> (get p ''category'' = JStr ''updates'' \<and> \<not> set_covers gs [''reviewed-change'', ''backup'', ''model-qualification'', ''promotion-approval'']))
       (ValueError ''update qualification and promotion gates required''))))"

definition synthetic_binding :: "string \<Rightarrow> (string \<times> string \<times> string) option" where
  "synthetic_binding executor =
     (if executor = ''synthetic-recover'' then Some (''synthetic.health'', ''health'', ''synthetic-healthy'')
      else if executor = ''synthetic-update'' then Some (''synthetic.updates'', ''updates'', ''synthetic-next-version-healthy'')
      else None)"

definition check_synthetic :: "dict \<Rightarrow> unit res" where
  "check_synthetic p = require
     (str_of (get p ''target'') \<in> set SYNTHETIC
      \<and> (case synthetic_binding (str_of (get p ''executor'')) of None \<Rightarrow> False | Some (c, k, q) \<Rightarrow>
           get p ''check_id'' = JStr c \<and> get p ''category'' = JStr k \<and> get p ''postcheck'' = JStr q)
      \<and> get p ''rollback'' = JStr ''synthetic-snapshot-once'' \<and> get p ''mechanism_refs'' = JArr [])
     (ValueError ''invalid synthetic executor binding'')"

definition maintenance_ref :: "json \<Rightarrow> bool" where
  "maintenance_ref v \<longleftrightarrow> is_str v \<and> (let s = str_of v in \<not> starts ''/'' s \<and> ''..'' \<notin> set (split_on CHR ''/'' s)
     \<and> (starts ''scripts/'' s \<or> starts ''docs/'' s \<or> starts ''deploy/'' s))"

definition check_production :: "(json \<times> json) list \<Rightarrow> dict \<Rightarrow> unit res" where
  "check_production systems p =
     bindr (require (get p ''enabled'' = JBool False \<and> map_of PRODUCTION (str_of (get p ''executor'')) = Some (str_of (get p ''target''))
         \<and> system_named systems (str_of (get p ''target'')) \<noteq> None) (ValueError ''production executors are not provisioned'')) (\<lambda>_.
     bindr (registered_checks (the (system_named systems (str_of (get p ''target''))))) (\<lambda>checks.
     bindr (require (get p ''check_id'' \<in> set checks \<and> get p ''rollback'' = JStr ''operator-reconcile'') (ValueError ''action not registered in monitoring'')) (\<lambda>_.
     bindr (in_strs (get p ''postcheck'') [''registered-health'', ''registered-health-and-revision'', ''registered-health-and-driver-qualification'']) (\<lambda>known.
     bindr (require known (ValueError ''invalid production postcheck'')) (\<lambda>_.
     bindr (require (is_list (get p ''mechanism_refs'') \<and> truthy (get p ''mechanism_refs'')) (ValueError ''existing maintenance reference required'')) (\<lambda>_.
     for_each (\<lambda>ref. require (maintenance_ref ref) (ValueError ''invalid maintenance reference'')) (list_of (get p ''mechanism_refs''))))))))"

definition budget :: "dict \<Rightarrow> string \<times> int \<times> int \<Rightarrow> unit res" where
  "budget p rule = (case rule of (key, low, high) \<Rightarrow>
     require (case get p key of JInt n \<Rightarrow> low \<le> n \<and> n \<le> high | _ \<Rightarrow> False) (ValueError ''invalid execution budget''))"

abbreviation BUDGETS :: "(string \<times> int \<times> int) list" where
  "BUDGETS \<equiv> [(''evidence_ttl_seconds'', 1, 900), (''approval_ttl_seconds'', 1, 900), (''cooldown_seconds'', 1, 604800), (''max_attempts'', 1, 3)]"

definition weekday :: "json \<Rightarrow> bool" where
  "weekday v = (case v of JInt d \<Rightarrow> 0 \<le> d \<and> d < 7 | _ \<Rightarrow> False)"

definition check_window :: "calendar \<Rightarrow> json \<Rightarrow> unit res" where
  "check_window C v =
     (let w = dict_of v in
      bindr (require (is_dict v \<and> same_keys w [''timezone'', ''weekdays'', ''start'', ''end''] \<and> is_list (get w ''weekdays'') \<and> truthy (get w ''weekdays'')
          \<and> list_all weekday (list_of (get w ''weekdays''))) (ValueError ''invalid maintenance window'')) (\<lambda>_.
      bindr (case zone_info C (get w ''timezone'') of
          Inl (KeyError _) \<Rightarrow> Inl (ValueError ''invalid window timezone'')
        | Inl TypeError \<Rightarrow> Inl (ValueError ''invalid window timezone'')
        | r \<Rightarrow> r) (\<lambda>_.
      bindr (minute (get w ''start'') False) (\<lambda>start.
      bindr (minute (get w ''end'') True) (\<lambda>end.
      require (start < end) (ValueError ''windows must use an explicit same-day interval''))))))"

definition check_policy :: "calendar \<Rightarrow> (json \<times> json) list \<Rightarrow> string list \<Rightarrow> json \<Rightarrow> unit res" where
  "check_policy C systems seen v =
     (let p = dict_of v in
      bindr (require (is_dict v \<and> same_keys p POLICY_KEYS) (ValueError ''unsupported action fields'')) (\<lambda>_.
      bindr (for_each (\<lambda>key. require (is_id (get p key)) (ValueError ''invalid action identifier'')) [''id'', ''target'', ''executor'', ''check_id'']) (\<lambda>_.
      bindr (require (str_of (get p ''id'') \<notin> set seen \<and> type_is_bool (get p ''enabled'') \<and> get p ''approval'' = JStr ''operator'')
        (ValueError ''duplicate action or missing operator approval'')) (\<lambda>_.
      bindr (in_strs (get p ''category'') [''health'', ''updates'']) (\<lambda>known.
      bindr (require (known \<and> get p ''status'' = JStr ''degraded'') (ValueError ''unsupported precondition'')) (\<lambda>_.
      bindr (check_gates p) (\<lambda>_.
      bindr (if get p ''environment'' = JStr ''synthetic'' then check_synthetic p
             else if get p ''environment'' = JStr ''production'' then check_production systems p
             else Inl (ValueError ''unsupported environment'')) (\<lambda>_.
      bindr (for_each (budget p) BUDGETS) (\<lambda>_.
      check_window C (get p ''maintenance_window''))))))))))"

fun check_policies :: "calendar \<Rightarrow> (json \<times> json) list \<Rightarrow> (string \<times> dict) list \<Rightarrow> json list \<Rightarrow> (string \<times> dict) list res" where
  "check_policies C systems accepted [] = Inr accepted"
| "check_policies C systems accepted (v # vs) =
     bindr (check_policy C systems (map fst accepted) v) (\<lambda>_.
     check_policies C systems (accepted @ [(str_of (get (dict_of v) ''id''), dict_of v)]) vs)"

definition validate_policies :: "calendar \<Rightarrow> json \<Rightarrow> json \<Rightarrow> (string \<times> dict) list res" where
  "validate_policies C data monitoring =
     (let d = dict_of data in
      bindr (require (is_dict data \<and> same_keys d [''schema_version'', ''mode'', ''actions''] \<and> py_eq (get d ''schema_version'') (JInt 1)
          \<and> get d ''mode'' = JStr ''synthetic-only'' \<and> is_list (get d ''actions'') \<and> 1 \<le> length (list_of (get d ''actions'')) \<and> length (list_of (get d ''actions'')) \<le> 64)
        (ValueError ''unsupported action registry'')) (\<lambda>_.
      bindr (systems_of monitoring) (\<lambda>systems.
      check_policies C systems [] (list_of (get d ''actions'')))))"

section \<open>What an accepted registry satisfies\<close>

definition good_policy :: "calendar \<Rightarrow> string \<Rightarrow> dict \<Rightarrow> bool" where
  "good_policy C name p \<longleftrightarrow> get p ''id'' = JStr name
     \<and> (\<forall>(key, low, high) \<in> set BUDGETS. \<exists>n. get p key = JInt n \<and> low \<le> n \<and> n \<le> high)
     \<and> (get p ''environment'' = JStr ''synthetic'' \<and> (\<exists>t. get p ''target'' = JStr t \<and> t \<in> set SYNTHETIC)
        \<or> get p ''environment'' = JStr ''production'' \<and> get p ''enabled'' = JBool False)
     \<and> (get p ''category'' = JStr ''updates'' \<longrightarrow> set (map JStr [''reviewed-change'', ''backup'', ''model-qualification'', ''promotion-approval'']) \<subseteq> set (list_of (get p ''gates'')))"

lemma budget_Inr: "budget p (key, low, high) = Inr u \<Longrightarrow> \<exists>n. get p key = JInt n \<and> low \<le> n \<and> n \<le> high"
  by (auto simp: budget_def split: json.splits)

lemma check_policy_good:
  assumes "check_policy C systems seen v = Inr ()"
  shows "good_policy C (str_of (get (dict_of v) ''id'')) (dict_of v) \<and> str_of (get (dict_of v) ''id'') \<notin> set seen"
proof -
  let ?p = "dict_of v"
  from assms obtain u w where c: "\<forall>key \<in> set [''id'', ''target'', ''executor'', ''check_id'']. is_id (get ?p key)" "str_of (get ?p ''id'') \<notin> set seen"
      "check_gates ?p = Inr u"
      "(if get ?p ''environment'' = JStr ''synthetic'' then check_synthetic ?p
             else if get ?p ''environment'' = JStr ''production'' then check_production systems ?p
             else Inl (ValueError ''unsupported environment'')) = Inr w" "\<forall>b \<in> set BUDGETS. budget ?p b = Inr ()"
    unfolding check_policy_def Let_def bindr_Inr_iff for_each_Inr_iff require_Inr_iff
    by (elim exE conjE) (rule that, assumption, assumption, assumption, assumption, assumption)
  have gates: "set_covers (list_of (get ?p ''gates'')) [''reviewed-change'', ''backup'', ''model-qualification'', ''promotion-approval'']" if "get ?p ''category'' = JStr ''updates''"
    using c(3) that by (auto simp: check_gates_def bindr_Inr_iff is_list_iff py_set_def py_iter_def split: if_splits)
  have env: "get ?p ''environment'' = JStr ''synthetic'' \<and> (\<exists>t. get ?p ''target'' = JStr t \<and> t \<in> set SYNTHETIC)
        \<or> get ?p ''environment'' = JStr ''production'' \<and> get ?p ''enabled'' = JBool False"
  proof -
    obtain t where t: "get ?p ''target'' = JStr t" using c(1) by (auto simp: is_id_def is_str_iff)
    show ?thesis using c(4) t by (auto simp: check_synthetic_def check_production_def bindr_Inr_iff split: if_splits)
  qed
  have "\<exists>i. get ?p ''id'' = JStr i" using c(1) by (auto simp: is_id_def is_str_iff)
  then have "get ?p ''id'' = JStr (str_of (get ?p ''id''))" by auto
  moreover have "\<forall>(key, low, high) \<in> set BUDGETS. \<exists>n. get ?p key = JInt n \<and> low \<le> n \<and> n \<le> high"
    using c(5) budget_Inr by blast
  moreover have "get ?p ''category'' = JStr ''updates'' \<longrightarrow> set (map JStr [''reviewed-change'', ''backup'', ''model-qualification'', ''promotion-approval'']) \<subseteq> set (list_of (get ?p ''gates''))"
    using gates by (simp add: set_covers_def)
  ultimately show ?thesis unfolding good_policy_def using env c(2) by blast
qed

lemma check_policies_good:
  assumes "check_policies C systems accepted vs = Inr policies" and "distinct (map fst accepted)" and "\<forall>(name, p) \<in> set accepted. good_policy C name p"
  shows "distinct (map fst policies) \<and> (\<forall>(name, p) \<in> set policies. good_policy C name p)"
  using assms
proof (induction C systems accepted vs rule: check_policies.induct)
  case (2 C systems accepted v vs)
  from 2(2) have c: "check_policy C systems (map fst accepted) v = Inr ()" "check_policies C systems (accepted @ [(str_of (get (dict_of v) ''id''), dict_of v)]) vs = Inr policies"
    by (auto simp: bindr_Inr_iff)
  from check_policy_good [OF c(1)] 2(3,4) show ?case by (intro 2(1) [OF c(2)]) auto
qed simp

lemma validate_policies_good:
  assumes "validate_policies C data monitoring = Inr policies"
  shows "distinct (map fst policies) \<and> (\<forall>(name, p) \<in> set policies. good_policy C name p)"
  using assms check_policies_good [of C _ "[]"] by (fastforce simp: validate_policies_def Let_def bindr_Inr_iff)

end
