(* ===== verification/Action_Ledger.thy ===== *)
theory Action_Ledger
  imports Action_Policy Ledger_Audit
begin

text \<open>
  The ledger half of \<open>deploy/codex-worker/actions.py\<close>: evidence, proposals, approvals and the execution of
  approved actions, in the broker's database. Only the synthetic executor exists; it changes
  rows of \<open>action_synthetic\<close>. A JSON column holds the decoded document. \<open>execute\<close> is several
  transactions; its parts are definitions of their own, so that other calls may come between them.
\<close>

section \<open>Rows\<close>

record evidence_row =
  e_id :: string
  e_sha :: string
  e_body :: dict
  e_system :: string
  e_check :: string
  e_observed :: json

record action_row =
  a_id :: string
  a_action :: string
  a_target :: string
  a_incident :: string
  a_evidence :: string
  a_state :: string
  a_created :: json
  a_updated :: json
  a_policy :: string
  a_approval :: json
  a_approved_at :: json
  a_started_at :: json
  a_snapshot :: json
  a_error :: json
  a_policy_json :: json

record action_event =
  ae_action :: string
  ae_state :: string
  ae_at :: json
  ae_metadata :: dict

record synthetic_row =
  syn_target :: string
  syn_healthy :: bool
  syn_version :: int

record actions_db = world +
  evidence_rows :: "evidence_row list"
  action_rows :: "action_row list"
  action_events :: "action_event list"
  synthetic_rows :: "synthetic_row list"

text \<open>What a ledger is opened with: the accepted policies and the digest of the monitoring registry.\<close>

record action_cfg =
  policies :: "(string \<times> dict) list"
  registry_hash :: string

definition open_ledger :: "env \<Rightarrow> calendar \<Rightarrow> json \<Rightarrow> json \<Rightarrow> action_cfg res" where
  "open_ledger E C data monitoring =
     bindr (validate_policies C data monitoring) (\<lambda>ps.
     bindr (digest E monitoring) (\<lambda>h. Inr \<lparr>policies = ps, registry_hash = h\<rparr>))"

abbreviation OBS_KEYS :: "string list" where
  "OBS_KEYS \<equiv> [''system_id'', ''check_id'', ''stable_key'', ''category'', ''status'', ''severity'', ''evidence'',
     ''observed_at'', ''expires_at'', ''action'', ''approval_required'', ''physical_device_actions'']"

definition SAFE_ERRORS :: "json list" where
  "SAFE_ERRORS = [JNull, JStr ''broker restarted; operator reconciliation required'',
     JStr ''effect or postcheck failed; bounded rollback started'', JStr ''effect failed; rollback verified'',
     JStr ''rollback uncertain; operator reconciliation required'']"

section \<open>Reading\<close>

definition fetch_action :: "string \<Rightarrow> (actions_db, action_row) eff" where
  "fetch_action k = bindS (gets action_rows) (\<lambda>rs. case find_by a_id rs k of None \<Rightarrow> raise (KeyError ''action not found'') | Some r \<Rightarrow> ret r)"

definition action_view :: "action_row \<Rightarrow> dict" where
  "action_view r =
     [(''id'', JStr (a_id r)), (''action_id'', JStr (a_action r)), (''target'', JStr (a_target r)), (''incident_key'', JStr (a_incident r)),
      (''evidence_id'', JStr (a_evidence r)), (''state'', JStr (a_state r)), (''created'', a_created r), (''updated'', a_updated r),
      (''policy_sha256'', JStr (a_policy r)), (''approval_sha256'', a_approval r), (''approved_at'', a_approved_at r),
      (''started_at'', a_started_at r), (''error'', a_error r)]"

definition get_action :: "string \<Rightarrow> (actions_db, dict) eff" where
  "get_action k = bindS (fetch_action k) (\<lambda>r. ret (action_view r))"

definition list_actions :: "(actions_db, dict list) eff" where
  "list_actions = bindS (gets action_rows) (\<lambda>rs.
     mapS (\<lambda>r. get_action (a_id r)) (take 100 (order_by (\<lambda>q r. sql_before (a_created r) (a_created q)) rs)))"

definition audit :: "string \<Rightarrow> (actions_db, dict list) eff" where
  "audit k = bindS (gets action_events) (\<lambda>evs. ret (map (\<lambda>(i, ev).
     [(''seq'', JInt (int i + 1)), (''action_id'', JStr (ae_action ev)), (''state'', JStr (ae_state ev)), (''at'', ae_at ev), (''metadata'', JObj (ae_metadata ev))])
     (filter (\<lambda>(i, ev). ae_action ev = k) (enumerate 0 evs))))"

text \<open>\<open>SELECT body FROM action_evidence WHERE id=?\<close>; a list or dictionary cannot be bound.\<close>

definition evidence :: "json \<Rightarrow> (actions_db, dict) eff" where
  "evidence v = bindS (gets evidence_rows) (\<lambda>es. case v of
       JStr k \<Rightarrow> (case find_by e_id es k of None \<Rightarrow> raise (ValueError ''trusted evidence not found'') | Some e \<Rightarrow> ret (e_body e))
     | JArr _ \<Rightarrow> raise DatabaseError
     | JObj _ \<Rightarrow> raise DatabaseError
     | _ \<Rightarrow> raise (ValueError ''trusted evidence not found''))"

section \<open>Transitions\<close>

definition set_column :: "string \<times> json \<Rightarrow> action_row \<Rightarrow> action_row" where
  "set_column c r = (case c of (name, v) \<Rightarrow>
     if name = ''approval_sha256'' then r\<lparr>a_approval := v\<rparr>
     else if name = ''approved_at'' then r\<lparr>a_approved_at := v\<rparr>
     else if name = ''started_at'' then r\<lparr>a_started_at := v\<rparr>
     else if name = ''snapshot'' then r\<lparr>a_snapshot := v\<rparr>
     else if name = ''error'' then r\<lparr>a_error := v\<rparr>
     else r)"

definition safe_field :: "string \<times> json \<Rightarrow> string \<times> json" where
  "safe_field c = (case c of (name, v) \<Rightarrow>
     if name = ''error'' \<and> v \<notin> set SAFE_ERRORS then (name, JStr ''action failed; operator reconciliation required'') else (name, v))"

definition update_action :: "string \<Rightarrow> (action_row \<Rightarrow> action_row) \<Rightarrow> (actions_db, unit) eff" where
  "update_action k f = modify (\<lambda>s. s\<lparr>action_rows := update_by a_id k f (action_rows s)\<rparr>)"

definition event_metadata :: "action_row \<Rightarrow> string \<Rightarrow> dict" where
  "event_metadata r sha =
     [(''action_id'', JStr (a_action r)), (''target'', JStr (a_target r)), (''incident_key'', JStr (a_incident r)), (''evidence_id'', JStr (a_evidence r)),
      (''policy_sha256'', JStr (a_policy r)), (''approval_sha256'', a_approval r), (''approved_at'', a_approved_at r), (''started_at'', a_started_at r),
      (''error'', a_error r), (''evidence_sha256'', JStr sha)]"

definition log_action :: "env \<Rightarrow> string \<Rightarrow> string \<Rightarrow> (actions_db, unit) eff" where
  "log_action E k st =
     bindS (fetch_action k) (\<lambda>r.
     bindS (evidence (JStr (a_evidence r))) (\<lambda>e.
     bindS (lift (digest E (JObj e))) (\<lambda>sha.
     bindS (read_clock E) (\<lambda>now.
     modify (\<lambda>s. s\<lparr>action_events := action_events s @ [\<lparr>ae_action = k, ae_state = st, ae_at = sql_real now, ae_metadata = event_metadata r sha\<rparr>]\<rparr>)))))"

definition action_transition :: "env \<Rightarrow> string \<Rightarrow> string \<Rightarrow> (string \<times> json) list \<Rightarrow> (actions_db, unit) eff" where
  "action_transition E k st columns =
     bindS (check (set (map fst columns) \<subseteq> {''approval_sha256'', ''approved_at'', ''started_at'', ''snapshot'', ''error''}) (ValueError ''invalid transition fields'')) (\<lambda>_.
     bindS (read_clock E) (\<lambda>now.
     bindS (update_action k (\<lambda>r. fold set_column (map safe_field columns) (r\<lparr>a_state := st, a_updated := sql_real now\<rparr>))) (\<lambda>_.
     log_action E k st)))"

text \<open>Opening: an action whose effect was under way is left to the operator.\<close>

definition in_flight :: "string \<Rightarrow> bool" where
  "in_flight st \<longleftrightarrow> st \<in> {''running'', ''postchecking'', ''rolling_back''}"

definition reopen :: "env \<Rightarrow> (actions_db, unit) eff" where
  "reopen E = transaction (bindS (gets action_rows) (\<lambda>rs.
     for_eachS (\<lambda>r. action_transition E (a_id r) ''reconcile_required'' [(''error'', JStr ''broker restarted; operator reconciliation required'')])
       (filter (\<lambda>r. in_flight (a_state r)) rs)))"

section \<open>Evidence\<close>

definition projected :: "json \<Rightarrow> bool" where
  "projected v = (case v of JStr s \<Rightarrow> int (length s) \<le> 128 | JInt _ \<Rightarrow> True | JBool _ \<Rightarrow> True | _ \<Rightarrow> False)"

definition check_values :: "calendar \<Rightarrow> json \<Rightarrow> unit res" where
  "check_values C v =
     (let d = dict_of v in
      bindr (require (is_dict v \<and> d \<noteq> [] \<and> set (keys d) \<subseteq> {''state'', ''count'', ''candidate_count'', ''reason'', ''source_report_generated_at'', ''failed''}
          \<and> list_all (\<lambda>(k, w). projected w) d) (ValueError ''unprojected evidence'')) (\<lambda>_.
      bindr (require (has d ''state'' \<longrightarrow> get d ''state'' \<in> JStr ` {''healthy'', ''unhealthy'', ''running'', ''missing'', ''unknown''}) (ValueError ''unprojected state'')) (\<lambda>_.
      bindr (for_each (\<lambda>key. require (has d key \<longrightarrow> (case get d key of JInt n \<Rightarrow> 0 \<le> n \<and> n \<le> 10000000 | _ \<Rightarrow> False)) (ValueError ''invalid projected count''))
        [''count'', ''candidate_count'']) (\<lambda>_.
      bindr (require (has d ''failed'' \<longrightarrow> type_is_bool (get d ''failed'')) (ValueError ''invalid failure flag'')) (\<lambda>_.
      bindr (require (has d ''reason'' \<longrightarrow> get d ''reason'' \<in> JStr ` {''collection_failed'', ''not_provisioned'', ''missing'', ''stale'',
          ''unsupported_schema'', ''health_not_reported'', ''update_metadata_unavailable'', ''cached_inventory_only'', ''never_started''}) (ValueError ''unprojected reason'')) (\<lambda>_.
      if has d ''source_report_generated_at'' then bindr (stamp C (get d ''source_report_generated_at'')) (\<lambda>_. Inr ()) else Inr ()))))))"

definition check_observation :: "action_cfg \<Rightarrow> calendar \<Rightarrow> dict \<Rightarrow> unit res" where
  "check_observation cfg C body =
     (let o' = dict_of (get body ''observation'') in
      bindr (require (is_dict (get body ''observation'') \<and> same_keys o' OBS_KEYS) (ValueError ''unsupported observation contract'')) (\<lambda>_.
      bindr (for_each (\<lambda>key. require (is_id (get o' key)) (ValueError ''invalid evidence identifier'')) [''system_id'', ''check_id'']) (\<lambda>_.
      bindr (require (is_id (get body ''incident_key'') \<and> get o' ''stable_key'' = JStr (str_of (get o' ''system_id'') @ '':'' @ str_of (get o' ''check_id'')))
        (ValueError ''invalid observation boundary'')) (\<lambda>_.
      bindr (in_strs (get o' ''status'') [''healthy'', ''degraded'', ''unknown'']) (\<lambda>status_ok.
      bindr (require status_ok (ValueError ''invalid observation boundary'')) (\<lambda>_.
      bindr (in_strs (get o' ''category'') [''health'', ''updates'']) (\<lambda>category_ok.
      bindr (require (category_ok \<and> get o' ''severity'' = JStr (if get o' ''status'' = JStr ''degraded'' then ''warning'' else ''info'')
          \<and> get o' ''action'' = JStr ''review_only'' \<and> get o' ''approval_required'' = JBool True \<and> get o' ''physical_device_actions'' = JBool False)
        (ValueError ''invalid observation boundary'')) (\<lambda>_.
      bindr (require (list_ex (\<lambda>(name, p). get p ''target'' = get o' ''system_id'' \<and> get p ''check_id'' = get o' ''check_id'') (policies cfg)) (ValueError ''unregistered observation'')) (\<lambda>_.
      check_values C (get o' ''evidence''))))))))))"

definition trusted_gates :: "json \<Rightarrow> bool" where
  "trusted_gates v \<longleftrightarrow> is_dict v \<and> set (keys (dict_of v)) \<subseteq> set GATES \<and> list_all (\<lambda>(k, w). type_is_bool w) (dict_of v)"

definition store_evidence :: "env \<Rightarrow> dict \<Rightarrow> string \<Rightarrow> flt \<Rightarrow> (actions_db, string) eff" where
  "store_evidence E body sha observed =
     bindS (gets evidence_rows) (\<lambda>es.
     case find_by e_sha es sha of
       Some e \<Rightarrow> ret (e_id e)
     | None \<Rightarrow>
         bindS (fresh_uuid E) (\<lambda>k.
         if 10000 \<le> length es then raise (ValueError ''evidence budget exhausted; operator archival required'')
         else if list_ex (\<lambda>e. e_id e = k) es then raise IntegrityError
         else
           bindS (modify (\<lambda>s. s\<lparr>evidence_rows := evidence_rows s @ [\<lparr>e_id = k, e_sha = sha, e_body = body,
             e_system = str_of (get (dict_of (get body ''observation'')) ''system_id''), e_check = str_of (get (dict_of (get body ''observation'')) ''check_id''),
             e_observed = sql_real observed\<rparr>]\<rparr>)) (\<lambda>_. ret k)))"

definition ingest_evidence :: "env \<Rightarrow> action_cfg \<Rightarrow> calendar \<Rightarrow> json \<Rightarrow> (actions_db, dict) eff" where
  "ingest_evidence E cfg C v =
     (let body = dict_of v; o' = dict_of (get body ''observation'') in
      bindS (check (is_dict v \<and> same_keys body [''observation'', ''incident_key'', ''gates'']) (ValueError ''trusted projected observation required'')) (\<lambda>_.
      bindS (lift (check_observation cfg C body)) (\<lambda>_.
      bindS (lift (stamp C (get o' ''observed_at''))) (\<lambda>observed.
      bindS (lift (stamp C (get o' ''expires_at''))) (\<lambda>expires.
      bindS (read_clock E) (\<lambda>now.
      bindS (check (isfinite now \<and> \<not> flt_less now observed \<and> \<not> flt_le expires observed) (ValueError ''invalid evidence lifetime or future observation'')) (\<lambda>_.
      bindS (check (trusted_gates (get body ''gates'')) (ValueError ''invalid trusted gates'')) (\<lambda>_.
      bindS (lift (digest E (JObj body))) (\<lambda>sha.
      bindS (transaction (store_evidence E body sha observed)) (\<lambda>k.
      ret [(''id'', JStr k), (''sha256'', JStr sha)]))))))))))"

section \<open>Proposals and approvals\<close>

definition policy_doc :: "action_cfg \<Rightarrow> dict \<Rightarrow> json" where
  "policy_doc cfg p = JObj [(''policy'', JObj p), (''monitoring_registry_sha256'', JStr (registry_hash cfg))]"

definition latest_evidence :: "string \<Rightarrow> string \<Rightarrow> evidence_row list \<Rightarrow> string option" where
  "latest_evidence target check_id es =
     (case order_by (\<lambda>a b. sql_before (e_observed b) (e_observed a)) (filter (\<lambda>e. e_system e = target \<and> e_check e = check_id) (rev es)) of
        [] \<Rightarrow> None | e # _ \<Rightarrow> Some (e_id e))"

text \<open>\<open>0 <= x - y < n\<close> on floats.\<close>

definition age_within :: "flt \<Rightarrow> flt \<Rightarrow> int \<Rightarrow> bool" where
  "age_within x y n \<longleftrightarrow> flt_le (Fin 0) (fsub x y) \<and> flt_less (fsub x y) (flt_int n)"

definition fresh_for :: "action_cfg \<Rightarrow> dict \<Rightarrow> dict \<Rightarrow> string \<Rightarrow> string \<Rightarrow> flt \<Rightarrow> flt \<Rightarrow> flt \<Rightarrow> evidence_row list \<Rightarrow> bool" where
  "fresh_for cfg p e incident evidence_id now observed expires es \<longleftrightarrow>
     (let o' = dict_of (get e ''observation'') in
      isfinite now \<and> age_within now observed (int_of (get p ''evidence_ttl_seconds'')) \<and> \<not> flt_le expires now
      \<and> latest_evidence (str_of (get p ''target'')) (str_of (get p ''check_id'')) es = Some evidence_id
      \<and> get e ''incident_key'' = JStr incident \<and> get o' ''system_id'' = get p ''target'' \<and> get o' ''check_id'' = get p ''check_id''
      \<and> get o' ''category'' = get p ''category'' \<and> get o' ''status'' = get p ''status''
      \<and> list_all (\<lambda>gate. get (dict_of (get e ''gates'')) (str_of gate) = JBool True) (list_of (get p ''gates'')))"

definition preconditions ::
    "env \<Rightarrow> action_cfg \<Rightarrow> calendar \<Rightarrow> string \<Rightarrow> string \<Rightarrow> string \<Rightarrow> json \<Rightarrow> string option \<Rightarrow> (actions_db, dict) eff" where
  "preconditions E cfg C action target incident evidence_id policy_sha =
     (case map_of (policies cfg) action of
        None \<Rightarrow> raise (ValueError ''executor disabled or target not approved'')
      | Some p \<Rightarrow>
          bindS (check (get p ''enabled'' = JBool True \<and> get p ''environment'' = JStr ''synthetic'' \<and> get p ''target'' = JStr target)
            (ValueError ''executor disabled or target not approved'')) (\<lambda>_.
          bindS (lift (digest E (policy_doc cfg p))) (\<lambda>h.
          bindS (check (policy_sha = None \<or> policy_sha = Some h) (ValueError ''policy changed; new proposal required'')) (\<lambda>_.
          bindS (evidence evidence_id) (\<lambda>e.
          bindS (read_clock E) (\<lambda>now.
          bindS (lift (stamp C (get (dict_of (get e ''observation'')) ''observed_at''))) (\<lambda>observed.
          bindS (lift (stamp C (get (dict_of (get e ''observation'')) ''expires_at''))) (\<lambda>expires.
          bindS (gets evidence_rows) (\<lambda>es.
          bindS (check (fresh_for cfg p e incident (str_of evidence_id) now observed expires es) (ValueError ''fresh evidence and trusted preconditions required'')) (\<lambda>_.
          ret p))))))))))"

definition queued_state :: "string \<Rightarrow> bool" where
  "queued_state st \<longleftrightarrow> st \<in> {''pending'', ''approved'', ''running'', ''postchecking'', ''rolling_back''}"

definition new_action :: "string \<Rightarrow> dict \<Rightarrow> flt \<Rightarrow> string \<Rightarrow> json \<Rightarrow> action_row" where
  "new_action k body now h doc = \<lparr>a_id = k, a_action = str_of (get body ''action_id''), a_target = str_of (get body ''target''), a_incident = str_of (get body ''incident_key''),
     a_evidence = str_of (get body ''evidence_id''), a_state = ''pending'', a_created = sql_real now, a_updated = sql_real now, a_policy = h, a_approval = JNull,
     a_approved_at = JNull, a_started_at = JNull, a_snapshot = JNull, a_error = JNull, a_policy_json = doc\<rparr>"

definition insert_action :: "action_row \<Rightarrow> (actions_db, unit) eff" where
  "insert_action r = bindS (gets action_rows) (\<lambda>rs.
     if list_ex (\<lambda>q. a_id q = a_id r \<or> a_action q = a_action r \<and> a_target q = a_target r \<and> a_incident q = a_incident r) rs then raise IntegrityError
     else modify (\<lambda>s. s\<lparr>action_rows := action_rows s @ [r]\<rparr>))"

definition action_propose :: "env \<Rightarrow> action_cfg \<Rightarrow> calendar \<Rightarrow> json \<Rightarrow> (actions_db, dict) eff" where
  "action_propose E cfg C v =
     (let body = dict_of v in
      bindS (check (is_dict v \<and> same_keys body [''action_id'', ''target'', ''incident_key'', ''evidence_id'']) (ValueError ''exact action, target, incident and evidence IDs required'')) (\<lambda>_.
      bindS (check (list_all (\<lambda>(k, w). is_id w) body) (ValueError ''invalid IDs'')) (\<lambda>_.
      transaction (bindS (gets action_rows) (\<lambda>rs.
        case List.find (\<lambda>r. a_action r = str_of (get body ''action_id'') \<and> a_target r = str_of (get body ''target'') \<and> a_incident r = str_of (get body ''incident_key'')) rs of
          Some r \<Rightarrow> get_action (a_id r)
        | None \<Rightarrow>
            bindS (preconditions E cfg C (str_of (get body ''action_id'')) (str_of (get body ''target'')) (str_of (get body ''incident_key'')) (get body ''evidence_id'') None) (\<lambda>p.
            if 32 \<le> length (filter (\<lambda>r. queued_state (a_state r)) rs) then raise (ValueError ''action queue budget exhausted'')
            else
              bindS (fresh_uuid E) (\<lambda>k.
              bindS (read_clock E) (\<lambda>now.
              bindS (lift (digest E (policy_doc cfg p))) (\<lambda>h.
              bindS (insert_action (new_action k body now h (policy_doc cfg p))) (\<lambda>_.
              bindS (action_transition E k ''pending'' []) (\<lambda>_.
              get_action k)))))))))))"

definition bound_doc :: "action_row \<Rightarrow> string \<Rightarrow> json" where
  "bound_doc r evidence_sha = JObj [(''id'', JStr (a_id r)), (''action_id'', JStr (a_action r)), (''target'', JStr (a_target r)), (''incident_key'', JStr (a_incident r)),
     (''evidence_id'', JStr (a_evidence r)), (''policy_sha256'', JStr (a_policy r)), (''evidence_sha256'', JStr evidence_sha)]"

definition action_review :: "env \<Rightarrow> string \<Rightarrow> (actions_db, dict) eff" where
  "action_review E k =
     bindS (fetch_action k) (\<lambda>r.
     bindS (lift (digest E (a_policy_json r))) (\<lambda>stored.
     bindS (check (stored = a_policy r) (ValueError ''stored policy snapshot corrupt'')) (\<lambda>_.
     bindS (evidence (JStr (a_evidence r))) (\<lambda>e.
     bindS (lift (digest E (JObj e))) (\<lambda>sha.
     bindS (lift (digest E (bound_doc r sha))) (\<lambda>approval.
     bindS (audit k) (\<lambda>events.
     ret [(''action'', JObj (action_view r)), (''policy'', get (dict_of (a_policy_json r)) ''policy''),
       (''monitoring_registry_sha256'', get (dict_of (a_policy_json r)) ''monitoring_registry_sha256''),
       (''evidence'', JObj e), (''approval_sha256'', JStr approval), (''audit'', JArr (map JObj events))])))))))"

definition action_approve :: "env \<Rightarrow> action_cfg \<Rightarrow> calendar \<Rightarrow> string \<Rightarrow> json \<Rightarrow> (actions_db, dict) eff" where
  "action_approve E cfg C k approval = transaction
     (bindS (fetch_action k) (\<lambda>r.
      bindS (preconditions E cfg C (a_action r) (a_target r) (a_incident r) (JStr (a_evidence r)) (Some (a_policy r))) (\<lambda>_.
      bindS (check (a_state r = ''pending'' \<and> is_str approval) (ValueError ''approval must bind reviewed policy and evidence'')) (\<lambda>_.
      bindS (action_review E k) (\<lambda>reviewed.
      bindS (lift (compare_digest approval (get reviewed ''approval_sha256''))) (\<lambda>same.
      bindS (check same (ValueError ''approval must bind reviewed policy and evidence'')) (\<lambda>_.
      bindS (read_clock E) (\<lambda>now.
      bindS (action_transition E k ''approved'' [(''approval_sha256'', approval), (''approved_at'', sql_real now)]) (\<lambda>_.
      get_action k)))))))))"

definition action_refresh :: "env \<Rightarrow> action_cfg \<Rightarrow> calendar \<Rightarrow> string \<Rightarrow> json \<Rightarrow> (actions_db, dict) eff" where
  "action_refresh E cfg C k evidence_id = transaction
     (bindS (fetch_action k) (\<lambda>r.
      bindS (check (a_state r \<in> {''pending'', ''approved''}) (ValueError ''only an unstarted action may refresh evidence'')) (\<lambda>_.
      bindS (preconditions E cfg C (a_action r) (a_target r) (a_incident r) evidence_id (Some (a_policy r))) (\<lambda>_.
      bindS (update_action k (\<lambda>q. q\<lparr>a_evidence := str_of evidence_id\<rparr>)) (\<lambda>_.
      bindS (action_transition E k ''pending'' [(''approval_sha256'', JNull), (''approved_at'', JNull)]) (\<lambda>_.
      get_action k))))))"

definition action_cancel :: "env \<Rightarrow> string \<Rightarrow> (actions_db, dict) eff" where
  "action_cancel E k = transaction
     (bindS (fetch_action k) (\<lambda>r.
      bindS (check (a_state r \<in> {''pending'', ''approved''}) (ValueError ''cannot cancel an effect already started'')) (\<lambda>_.
      bindS (action_transition E k ''cancelled'' []) (\<lambda>_. get_action k))))"

section \<open>The synthetic executor\<close>

definition seed_synthetic :: "string \<Rightarrow> bool \<Rightarrow> int \<Rightarrow> (actions_db, unit) eff" where
  "seed_synthetic target healthy version =
     bindS (check (target \<in> set SYNTHETIC \<and> 0 \<le> version \<and> version \<le> 100000) (ValueError ''invalid synthetic fixture'')) (\<lambda>_.
     transaction (modify (\<lambda>s. s\<lparr>synthetic_rows := filter (\<lambda>r. syn_target r \<noteq> target) (synthetic_rows s)
       @ [\<lparr>syn_target = target, syn_healthy = healthy, syn_version = version\<rparr>]\<rparr>)))"

definition synthetic_state :: "string \<Rightarrow> (actions_db, bool \<times> int) eff" where
  "synthetic_state target = bindS (gets synthetic_rows) (\<lambda>rs.
     case find_by syn_target rs target of None \<Rightarrow> raise (ValueError ''synthetic target not initialized'')
     | Some r \<Rightarrow> ret (syn_healthy r, syn_version r))"

definition target_of :: "dict \<Rightarrow> string" where
  "target_of p = str_of (get p ''target'')"

definition next_version :: "dict \<Rightarrow> bool \<times> int \<Rightarrow> int" where
  "next_version p snapshot = snd snapshot + (if get p ''executor'' = JStr ''synthetic-update'' then 1 else 0)"

definition prepare :: "dict \<Rightarrow> (actions_db, bool \<times> int) eff" where
  "prepare p =
     bindS (synthetic_state (target_of p)) (\<lambda>st.
     bindS (check (\<not> (get p ''executor'' = JStr ''synthetic-recover'' \<and> fst st)) (ValueError ''target is already healthy'')) (\<lambda>_.
     bindS (check (\<not> (get p ''executor'' = JStr ''synthetic-update'' \<and> \<not> fst st)) (ValueError ''update requires a healthy baseline'')) (\<lambda>_.
     ret st)))"

definition apply_effect :: "dict \<Rightarrow> bool \<times> int \<Rightarrow> (actions_db, unit) eff" where
  "apply_effect p snapshot = seed_synthetic (target_of p) True (next_version p snapshot)"

definition postcheck :: "dict \<Rightarrow> bool \<times> int \<Rightarrow> (actions_db, bool) eff" where
  "postcheck p snapshot = bindS (synthetic_state (target_of p)) (\<lambda>st. ret (st = (True, next_version p snapshot)))"

definition rollback_effect :: "dict \<Rightarrow> bool \<times> int \<Rightarrow> (actions_db, unit) eff" where
  "rollback_effect p snapshot = seed_synthetic (target_of p) (fst snapshot) (snd snapshot)"

definition rollback_postcheck :: "dict \<Rightarrow> bool \<times> int \<Rightarrow> (actions_db, bool) eff" where
  "rollback_postcheck p snapshot = bindS (synthetic_state (target_of p)) (\<lambda>st. ret (st = snapshot))"

section \<open>Execution\<close>

definition in_window :: "calendar \<Rightarrow> json \<Rightarrow> int \<times> int \<times> int \<Rightarrow> bool res" where
  "in_window C window now = (let w = dict_of window in case now of (day, hour, mins) \<Rightarrow>
     if JInt day \<notin> set (list_of (get w ''weekdays'')) then Inr False
     else bindr (minute (get w ''start'') False) (\<lambda>start.
       if \<not> start \<le> hour * 60 + mins then Inr False
       else bindr (minute (get w ''end'') True) (\<lambda>end. Inr (hour * 60 + mins < end))))"

definition blocks :: "string \<Rightarrow> json \<Rightarrow> action_row \<Rightarrow> bool" where
  "blocks target since r \<longleftrightarrow> a_target r = target
     \<and> (a_state r \<in> {''running'', ''postchecking'', ''rolling_back'', ''reconcile_required''} \<or> sql_less since (a_started_at r))"

definition approval_age :: "action_row \<Rightarrow> flt \<Rightarrow> int \<Rightarrow> bool res" where
  "approval_age r now ttl = (case num_of (a_approved_at r) of None \<Rightarrow> Inl TypeError | Some t \<Rightarrow> Inr (age_within now t ttl))"

definition snapshot_doc :: "bool \<times> int \<Rightarrow> json" where
  "snapshot_doc st = JObj [(''healthy'', JBool (fst st)), (''version'', JInt (snd st))]"

text \<open>The first transaction: everything that is checked before the effect, and the mark that it runs.\<close>

definition execute_start :: "env \<Rightarrow> action_cfg \<Rightarrow> calendar \<Rightarrow> string \<Rightarrow> (actions_db, dict \<times> bool \<times> int) eff" where
  "execute_start E cfg C k = transaction
     (bindS (fetch_action k) (\<lambda>r.
      bindS (preconditions E cfg C (a_action r) (a_target r) (a_incident r) (JStr (a_evidence r)) (Some (a_policy r))) (\<lambda>p.
      bindS (read_clock E) (\<lambda>now.
      bindS (lift (local_time C (get (dict_of (get p ''maintenance_window'')) ''timezone'') now)) (\<lambda>here.
      bindS (check (a_state r = ''approved'') (ValueError ''approval expired or outside maintenance window'')) (\<lambda>_.
      bindS (lift (approval_age r now (int_of (get p ''approval_ttl_seconds'')))) (\<lambda>young.
      bindS (check young (ValueError ''approval expired or outside maintenance window'')) (\<lambda>_.
      bindS (action_review E k) (\<lambda>reviewed.
      bindS (lift (compare_digest (a_approval r) (get reviewed ''approval_sha256''))) (\<lambda>same.
      bindS (check same (ValueError ''approval expired or outside maintenance window'')) (\<lambda>_.
      bindS (lift (in_window C (get p ''maintenance_window'') here)) (\<lambda>inside.
      bindS (check inside (ValueError ''approval expired or outside maintenance window'')) (\<lambda>_.
      bindS (gets action_rows) (\<lambda>rs.
      bindS (check (\<not> list_ex (blocks (a_target r) (sql_real (fsub now (flt_int (int_of (get p ''cooldown_seconds'')))))) rs) (ValueError ''target blocked, occupied or cooling down'')) (\<lambda>_.
      bindS (check (int (length (filter (\<lambda>q. a_action q = a_action r \<and> a_target q = a_target r \<and> a_incident q = a_incident r \<and> a_started_at q \<noteq> JNull) rs))
          < int_of (get p ''max_attempts'')) (ValueError ''attempt budget exhausted'')) (\<lambda>_.
      bindS (prepare p) (\<lambda>snapshot.
      bindS (action_transition E k ''running'' [(''started_at'', sql_real now), (''snapshot'', snapshot_doc snapshot)]) (\<lambda>_.
      ret (p, snapshot)))))))))))))))))))"

text \<open>The rest: the \<open>try\<close> block, its handler, and its \<open>else\<close> branch.\<close>

definition mark :: "env \<Rightarrow> string \<Rightarrow> string \<Rightarrow> (string \<times> json) list \<Rightarrow> (actions_db, unit) eff" where
  "mark E k st columns = transaction (action_transition E k st columns)"

definition attempt :: "env \<Rightarrow> string \<Rightarrow> dict \<Rightarrow> bool \<times> int \<Rightarrow> (actions_db, unit) eff" where
  "attempt E k p snapshot =
     bindS (apply_effect p snapshot) (\<lambda>_.
     bindS (mark E k ''postchecking'' []) (\<lambda>_.
     bindS (postcheck p snapshot) (\<lambda>ok. check ok (ValueError ''postcheck failed''))))"

definition undo :: "dict \<Rightarrow> bool \<times> int \<Rightarrow> (actions_db, string) eff" where
  "undo p snapshot = catch
     (bindS (rollback_effect p snapshot) (\<lambda>_.
      bindS (rollback_postcheck p snapshot) (\<lambda>ok. ret (if ok then ''rolled_back'' else ''reconcile_required''))))
     (\<lambda>_. True) (\<lambda>_. ret ''reconcile_required'')"

definition settle_error :: "string \<Rightarrow> json" where
  "settle_error st = JStr (if st = ''rolled_back'' then ''effect failed; rollback verified'' else ''rollback uncertain; operator reconciliation required'')"

definition recover_effect :: "env \<Rightarrow> string \<Rightarrow> dict \<Rightarrow> bool \<times> int \<Rightarrow> (actions_db, unit) eff" where
  "recover_effect E k p snapshot =
     bindS (mark E k ''rolling_back'' [(''error'', JStr ''effect or postcheck failed; bounded rollback started'')]) (\<lambda>_.
     bindS (undo p snapshot) (\<lambda>st. mark E k st [(''error'', settle_error st)]))"

definition finish :: "env \<Rightarrow> string \<Rightarrow> dict \<Rightarrow> bool \<times> int \<Rightarrow> (actions_db, unit) eff" where
  "finish E k p snapshot s = (case attempt E k p snapshot s of
       (Inl e, s') \<Rightarrow> recover_effect E k p snapshot s'
     | (Inr _, s') \<Rightarrow> mark E k ''completed'' [] s')"

definition execute :: "env \<Rightarrow> action_cfg \<Rightarrow> calendar \<Rightarrow> string \<Rightarrow> (actions_db, dict) eff" where
  "execute E cfg C k =
     bindS (execute_start E cfg C k) (\<lambda>(p, snapshot).
     bindS (finish E k p snapshot) (\<lambda>_. get_action k))"

section \<open>The invariant\<close>

definition ACTION_STATES :: "string set" where
  "ACTION_STATES = {''pending'', ''approved'', ''cancelled'', ''running'', ''postchecking'', ''rolling_back'', ''completed'', ''rolled_back'', ''reconcile_required''}"

definition unstarted :: "string \<Rightarrow> bool" where
  "unstarted st \<longleftrightarrow> st \<in> {''pending'', ''approved'', ''cancelled''}"

definition unresolved :: "action_row \<Rightarrow> bool" where
  "unresolved r \<longleftrightarrow> a_state r \<in> {''running'', ''postchecking'', ''rolling_back'', ''reconcile_required''}"

definition action_edge :: "string \<Rightarrow> string \<Rightarrow> bool" where
  "action_edge a b \<longleftrightarrow> (a, b) \<in> {(''pending'', ''pending''), (''approved'', ''pending''), (''pending'', ''approved''), (''pending'', ''cancelled''),
     (''approved'', ''cancelled''), (''approved'', ''running''), (''running'', ''postchecking''), (''running'', ''rolling_back''),
     (''postchecking'', ''rolling_back''), (''postchecking'', ''completed''), (''rolling_back'', ''rolled_back''),
     (''running'', ''reconcile_required''), (''postchecking'', ''reconcile_required''), (''rolling_back'', ''reconcile_required'')}"

text \<open>What no transition changes, and the moves of a row.\<close>

definition same_action :: "action_row \<Rightarrow> action_row \<Rightarrow> bool" where
  "same_action r r' \<longleftrightarrow> a_id r' = a_id r \<and> a_action r' = a_action r \<and> a_target r' = a_target r \<and> a_incident r' = a_incident r
     \<and> a_created r' = a_created r \<and> a_policy r' = a_policy r \<and> a_policy_json r' = a_policy_json r"

definition action_moves :: "action_row \<Rightarrow> action_row \<Rightarrow> bool" where
  "action_moves r r' \<longleftrightarrow> same_action r r' \<and> action_edge\<^sup>*\<^sup>* (a_state r) (a_state r')"

definition evidence_ok :: "env \<Rightarrow> evidence_row list \<Rightarrow> bool" where
  "evidence_ok E es \<longleftrightarrow> distinct (map e_id es) \<and> distinct (map e_sha es) \<and> length es \<le> 10000
     \<and> (\<forall>e \<in> set es. digest E (JObj (e_body e)) = Inr (e_sha e))"

text \<open>
  A row's evidence is on record, its stored policy has the digest it was proposed under, an
  effect has a start time exactly when it was started, and an approval in force is
  the digest of this row, its policy and its evidence.
\<close>

definition bound_to :: "env \<Rightarrow> evidence_row list \<Rightarrow> action_row \<Rightarrow> bool" where
  "bound_to E es r \<longleftrightarrow> (\<exists>e. find_by e_id es (a_evidence r) = Some e \<and> a_approval r = JStr (digest_of E (bound_doc r (e_sha e))))"

definition good_action :: "env \<Rightarrow> evidence_row list \<Rightarrow> action_row \<Rightarrow> bool" where
  "good_action E es r \<longleftrightarrow> a_state r \<in> ACTION_STATES \<and> find_by e_id es (a_evidence r) \<noteq> None \<and> digest E (a_policy_json r) = Inr (a_policy r)
     \<and> (a_started_at r = JNull \<longleftrightarrow> unstarted (a_state r)) \<and> (a_state r \<notin> {''pending'', ''cancelled''} \<longrightarrow> bound_to E es r)"

abbreviation rivals :: "action_row \<Rightarrow> action_row \<Rightarrow> bool" where
  "rivals q r \<equiv> a_target q = a_target r \<and> unresolved q \<and> unresolved r"

definition synthetic_ok :: "synthetic_row list \<Rightarrow> bool" where
  "synthetic_ok rs \<longleftrightarrow> distinct (map syn_target rs) \<and> (\<forall>r \<in> set rs. syn_target r \<in> set SYNTHETIC \<and> 0 \<le> syn_version r \<and> syn_version r \<le> 100000)"

definition action_inv :: "env \<Rightarrow> actions_db \<Rightarrow> bool" where
  "action_inv E s \<longleftrightarrow> evidence_ok E (evidence_rows s) \<and> table_ok a_id (good_action E (evidence_rows s)) (action_rows s)
     \<and> distinct (map (\<lambda>r. (a_action r, a_target r, a_incident r)) (action_rows s))
     \<and> at_most_one a_id rivals (set (action_rows s)) \<and> synthetic_ok (synthetic_rows s)
     \<and> audited a_id a_state ae_action ae_state (action_rows s) (action_events s)"

lemma action_moves_trans: "action_moves r q \<Longrightarrow> action_moves q p \<Longrightarrow> action_moves r p"
  by (auto simp: action_moves_def same_action_def)

interpretation am: row_moves a_id action_moves
  by unfold_locales (auto simp: action_moves_def same_action_def intro: action_moves_trans)

lemma edges_of [simp]:
  "action_edge ''pending'' ''pending''" "action_edge ''approved'' ''pending''" "action_edge ''pending'' ''approved''" "action_edge ''pending'' ''cancelled''"
  "action_edge ''approved'' ''cancelled''" "action_edge ''approved'' ''running''" "action_edge ''running'' ''postchecking''" "action_edge ''running'' ''rolling_back''"
  "action_edge ''postchecking'' ''rolling_back''" "action_edge ''postchecking'' ''completed''" "action_edge ''rolling_back'' ''rolled_back''"
  "action_edge ''running'' ''reconcile_required''" "action_edge ''postchecking'' ''reconcile_required''" "action_edge ''rolling_back'' ''reconcile_required''"
  by (simp_all add: action_edge_def)

section \<open>Transitions keep it\<close>

text \<open>The state after a transition: one row replaced, one event with its new state.\<close>

definition turned :: "string \<Rightarrow> action_row \<Rightarrow> actions_db \<Rightarrow> actions_db \<Rightarrow> bool" where
  "turned k r' s s' \<longleftrightarrow> action_rows s' = update_by a_id k (\<lambda>_. r') (action_rows s) \<and> evidence_rows s' = evidence_rows s \<and> synthetic_rows s' = synthetic_rows s
     \<and> (\<exists>ev. action_events s' = action_events s @ [ev] \<and> ae_action ev = k \<and> ae_state ev = a_state r')"

definition settled :: "string \<Rightarrow> json \<Rightarrow> (string \<times> json) list \<Rightarrow> action_row \<Rightarrow> action_row" where
  "settled st now columns r = fold set_column (map safe_field columns) (r\<lparr>a_state := st, a_updated := now\<rparr>)"

abbreviation COLUMNS :: "string set" where
  "COLUMNS \<equiv> {''approval_sha256'', ''approved_at'', ''started_at'', ''snapshot'', ''error''}"

lemma set_column_fields [simp]: "same_action r (set_column c r)" "a_state (set_column c r) = a_state r" "a_evidence (set_column c r) = a_evidence r"
  by (auto simp: set_column_def same_action_def split: prod.splits)

lemma fold_columns: "same_action r (fold set_column cs r) \<and> a_state (fold set_column cs r) = a_state r \<and> a_evidence (fold set_column cs r) = a_evidence r"
proof (induction cs arbitrary: r)
  case (Cons c cs)
  then show ?case using set_column_fields(1) [of r c] by (auto simp: same_action_def simp del: set_column_fields(1))
qed (simp add: same_action_def)

lemma settled_fields [simp]:
  "same_action r (settled st now cs r)" "a_state (settled st now cs r) = st" "a_evidence (settled st now cs r) = a_evidence r" "a_id (settled st now cs r) = a_id r"
  using fold_columns [of "r\<lparr>a_state := st, a_updated := now\<rparr>" "map safe_field cs"] by (simp_all add: settled_def same_action_def)

lemma update_const:
  assumes "distinct (map key rs)" "find_by key rs k = Some r" shows "update_by key k f rs = update_by key k (\<lambda>_. f r) rs"
proof -
  have "q = r" if "q \<in> set rs" "key q = k" for q using that assms distinct_find_by by fastforce
  then show ?thesis by (auto simp: update_by_def)
qed

lemma wp_fetch_action: "(\<And>r. find_by a_id (action_rows s) k = Some r \<Longrightarrow> Q r s) \<Longrightarrow> (find_by a_id (action_rows s) k = None \<Longrightarrow> X (KeyError ''action not found'') s) \<Longrightarrow> wp (fetch_action k) Q X s"
  by (auto simp: fetch_action_def wp_simps split: option.split)

lemma get_action_reads: "snd (get_action k s) = s"
  by (simp add: get_action_def fetch_action_def bindS_def gets_def raise_def ret_def split: option.split)

lemma wp_get_action: "(\<And>d. Q d s) \<Longrightarrow> (\<And>e. X e s) \<Longrightarrow> wp (get_action k) Q X s"
  by (auto simp: get_action_def fetch_action_def wp_simps split: option.split)

lemma transition_runs:
  assumes ids: "distinct (map a_id (action_rows s))" and r: "find_by a_id (action_rows s) k = Some r"
    and e: "find_by e_id (evidence_rows s) (a_evidence r) = Some e" "digest E (JObj (e_body e)) = Inr sha" and cs: "set (map fst cs) \<subseteq> COLUMNS"
  shows "\<exists>s'. action_transition E k st cs s = (Inr (), s') \<and> turned k (settled st (sql_real (clock E (ticks s))) cs r) s s'"
proof -
  let ?now = "sql_real (clock E (ticks s))"
  let ?s1 = "s\<lparr>ticks := Suc (ticks s), action_rows := update_by a_id k (settled st ?now cs) (action_rows s)\<rparr>"
  have f: "find_by a_id (action_rows ?s1) k = Some (settled st ?now cs r)" using r by (simp add: find_by_update)
  have "action_transition E k st cs s = log_action E k st ?s1"
    using cs by (simp add: action_transition_def bindS_def check_def read_clock_def update_action_def modify_def settled_def [abs_def])
  also have "\<dots> = (Inr (), ?s1\<lparr>ticks := Suc (Suc (ticks s)), action_events := action_events s @ [\<lparr>ae_action = k, ae_state = st,
      ae_at = sql_real (clock E (Suc (ticks s))), ae_metadata = event_metadata (settled st ?now cs r) sha\<rparr>]\<rparr>)"
    using f e by (simp add: log_action_def fetch_action_def evidence_def bindS_def gets_def ret_def lift_def read_clock_def modify_def)
  finally show ?thesis using update_const [OF ids r] by (simp add: turned_def)
qed

lemma wp_action_transition:
  assumes "distinct (map a_id (action_rows s))" "find_by a_id (action_rows s) k = Some r"
    and "find_by e_id (evidence_rows s) (a_evidence r) = Some e" "digest E (JObj (e_body e)) = Inr sha" and "set (map fst cs) \<subseteq> COLUMNS"
    and Q: "\<And>s' now. turned k (settled st now cs r) s s' \<Longrightarrow> Q () s'"
  shows "wp (action_transition E k st cs) Q X s"
  using transition_runs [OF assms(1-5), of st] Q by (auto simp: wp_def)

lemma action_inv_row:
  assumes "action_inv E s" "find_by a_id (action_rows s) k = Some r"
  shows "good_action E (evidence_rows s) r" "a_id r = k" "r \<in> set (action_rows s)" "distinct (map a_id (action_rows s))"
  using assms table_ok_row find_by_Some by (fastforce simp: action_inv_def table_ok_def)+

lemma inv_evidence:
  assumes "action_inv E s" "find_by e_id (evidence_rows s) k = Some e"
  shows "digest E (JObj (e_body e)) = Inr (e_sha e)"
  using assms find_by_Some by (fastforce simp: action_inv_def evidence_ok_def)

lemma inv_row_evidence:
  assumes "action_inv E s" "find_by a_id (action_rows s) k = Some r"
  obtains e where "find_by e_id (evidence_rows s) (a_evidence r) = Some e" "digest E (JObj (e_body e)) = Inr (e_sha e)"
  using action_inv_row(1) [OF assms] inv_evidence [OF assms(1)] by (auto simp: good_action_def)

text \<open>On a sound ledger a transition of an existing row always succeeds.\<close>

lemma wp_inv_transition:
  assumes inv: "action_inv E s" and r: "find_by a_id (action_rows s) k = Some r" and cs: "set (map fst cs) \<subseteq> COLUMNS"
    and Q: "\<And>s' now. turned k (settled st now cs r) s s' \<Longrightarrow> Q () s'"
  shows "wp (action_transition E k st cs) Q X s"
proof -
  obtain e where e: "find_by e_id (evidence_rows s) (a_evidence r) = Some e" "digest E (JObj (e_body e)) = Inr (e_sha e)"
    using inv_row_evidence [OF inv r] by blast
  show ?thesis by (rule wp_action_transition [OF action_inv_row(4) [OF inv r] r e cs]) (rule Q)
qed

definition action_after :: "env \<Rightarrow> actions_db \<Rightarrow> actions_db \<Rightarrow> bool" where
  "action_after E s s' \<longleftrightarrow> action_inv E s' \<and> table_moves a_id action_moves (action_rows s) (action_rows s')"

lemma action_after_refl: "action_inv E s \<Longrightarrow> action_after E s s"
  by (simp add: action_after_def am.table_refl)

lemma action_after_trans: "action_after E s t \<Longrightarrow> action_after E t u \<Longrightarrow> action_after E s u"
  by (auto simp: action_after_def intro: am.table_trans)

lemma map_update_same: "(\<And>q. q \<in> set rs \<Longrightarrow> key q = k \<Longrightarrow> g (f q) = g q) \<Longrightarrow> map g (update_by key k f rs) = map g rs"
  by (auto simp: update_by_def)

lemma turned_after:
  assumes inv: "action_inv E s" and t: "turned k r' s s'" and r: "find_by a_id (action_rows s) k = Some r"
    and same: "same_action r r'" and edge: "action_edge (a_state r) (a_state r')" and good: "good_action E (evidence_rows s) r'"
    and free: "unresolved r' \<Longrightarrow> unresolved r \<or> (\<forall>q \<in> set (action_rows s). a_target q = a_target r \<longrightarrow> \<not> unresolved q)"
  shows "action_after E s s'"
proof -
  have ok: "table_ok a_id (good_action E (evidence_rows s)) (action_rows s)" using inv by (simp add: action_inv_def)
  have mv: "action_moves r r'" using same edge by (auto simp: action_moves_def)
  note up = am.update_moves [OF ok r, of "\<lambda>_. r'", OF mv good]
  have "r \<in> set (action_rows s)" and id: "a_id r = k" using action_inv_row [OF inv r] by blast+
  have one: "at_most_one a_id rivals (insert r' (set (action_rows s) - {r}))"
  proof (rule at_most_one_replace)
    show "at_most_one a_id rivals (set (action_rows s))" using inv by (simp add: action_inv_def)
    show "\<not> rivals q r' \<and> \<not> rivals r' q" if q: "q \<in> set (action_rows s)" "q \<noteq> r" for q
    proof -
      have "a_id q \<noteq> a_id r" using q table_ok_mem [OF ok q(1)] r id by auto
      then have "\<not> (a_target q = a_target r \<and> unresolved q \<and> unresolved r)"
        using inv q(1) \<open>r \<in> _\<close> unfolding action_inv_def at_most_one_def by blast
      moreover have "a_target r' = a_target r" using same by (simp add: same_action_def)
      ultimately show ?thesis using free q(1) by auto
    qed
  qed
  have trip: "map (\<lambda>q. (a_action q, a_target q, a_incident q)) (update_by a_id k (\<lambda>_. r') (action_rows s)) = map (\<lambda>q. (a_action q, a_target q, a_incident q)) (action_rows s)"
    by (rule map_update_same) (use same table_ok_mem [OF ok] r in \<open>fastforce simp: same_action_def\<close>)
  have st: "states a_id a_state (update_by a_id k (\<lambda>_. r') (action_rows s)) j = (if j = k then Some (a_state r') else states a_id a_state (action_rows s) j)" for j
    using am.update_find [OF ok r, of "\<lambda>_. r'", OF mv] by (simp add: states_def)
  have "audited a_id a_state ae_action ae_state (action_rows s') (action_events s')"
    using inv t by (auto simp: action_inv_def turned_def audited_def fun_eq_iff st)
  then show ?thesis using inv t up one trip am.update_as_set [OF ok r, of "\<lambda>_. r'"] by (simp add: action_after_def action_inv_def turned_def)
qed
section \<open>The operations\<close>

definition same_tables :: "actions_db \<Rightarrow> actions_db \<Rightarrow> bool" where
  "same_tables s s' \<longleftrightarrow> action_rows s' = action_rows s \<and> action_events s' = action_events s \<and> evidence_rows s' = evidence_rows s \<and> synthetic_rows s' = synthetic_rows s"

lemma action_same_tables_simps [simp]: "same_tables s s" "same_tables s (s\<lparr>ticks := n\<rparr>)" "same_tables s (s\<lparr>ids := n\<rparr>)" "same_tables s (restore s t)"
  by (simp_all add: same_tables_def restore_def)

lemma same_tables_after: "same_tables s s' \<Longrightarrow> action_inv E s \<Longrightarrow> action_after E s s'"
  by (simp add: same_tables_def action_after_def action_inv_def am.table_refl)

lemma action_inv_world [simp]: "action_inv E (s\<lparr>ticks := n\<rparr>) = action_inv E s" "action_inv E (s\<lparr>ids := n\<rparr>) = action_inv E s"
  by (simp_all add: action_inv_def)

lemma turned_world [simp]: "turned k r (s\<lparr>ticks := n\<rparr>) s' = turned k r s s'" "turned k r (s\<lparr>ids := n\<rparr>) s' = turned k r s s'"
  by (simp_all add: turned_def)

lemma action_after_world [simp]: "action_after E (s\<lparr>ticks := n\<rparr>) s' = action_after E s s'"
  by (simp add: action_after_def)

lemma tx_failed: "transaction m s = (Inl e, s') \<Longrightarrow> same_tables s s'"
  by (auto simp: eff_iffs)

text \<open>The rows that an execution owns are left alone.\<close>

definition quiet :: "actions_db \<Rightarrow> actions_db \<Rightarrow> bool" where
  "quiet s s' \<longleftrightarrow> (\<forall>k r. find_by a_id (action_rows s) k = Some r \<and> in_flight (a_state r) \<longrightarrow> find_by a_id (action_rows s') k = Some r)"

lemma same_tables_quiet: "same_tables s s' \<Longrightarrow> quiet s s'"
  by (simp add: same_tables_def quiet_def)

lemma turned_find: "turned k r' s s' \<Longrightarrow> a_id r' = k \<Longrightarrow> find_by a_id (action_rows s') j = (if j = k then map_option (\<lambda>_. r') (find_by a_id (action_rows s) k) else find_by a_id (action_rows s) j)"
proof -
  assume "turned k r' s s'" "a_id r' = k"
  then have "action_rows s' = update_by a_id k (\<lambda>q. if a_id q = k then r' else q) (action_rows s)" by (auto simp: turned_def update_by_def)
  then show ?thesis using \<open>a_id r' = k\<close> by (simp add: find_by_update) (auto simp: option.map_ident dest: find_by_Some intro!: option.map_cong0 split: option.splits)
qed

lemma turned_quiet: "turned k r' s s' \<Longrightarrow> a_id r' = k \<Longrightarrow> find_by a_id (action_rows s) k = Some r \<Longrightarrow> \<not> in_flight (a_state r) \<Longrightarrow> quiet s s'"
  by (auto simp: quiet_def turned_find)

lemma digest_Inr [simp]: "digest E v = Inr h \<longleftrightarrow> finite_json v \<and> h = digest_of E v" "Inr h = digest E v \<longleftrightarrow> finite_json v \<and> h = digest_of E v"
  by (auto simp: digest_def)

text \<open>What \<open>preconditions\<close> has found to hold when it returns a policy.\<close>

definition cleared :: "env \<Rightarrow> action_cfg \<Rightarrow> calendar \<Rightarrow> string \<Rightarrow> string \<Rightarrow> string \<Rightarrow> string \<Rightarrow> dict \<Rightarrow> flt \<Rightarrow> evidence_row list \<Rightarrow> bool" where
  "cleared E cfg C action target incident ev p now es \<longleftrightarrow>
     map_of (policies cfg) action = Some p \<and> get p ''enabled'' = JBool True \<and> get p ''environment'' = JStr ''synthetic'' \<and> get p ''target'' = JStr target
     \<and> digest E (policy_doc cfg p) = Inr (digest_of E (policy_doc cfg p))
     \<and> (\<exists>e observed expires. find_by e_id es ev = Some e \<and> stamp C (get (dict_of (get (e_body e) ''observation'')) ''observed_at'') = Inr observed
         \<and> stamp C (get (dict_of (get (e_body e) ''observation'')) ''expires_at'') = Inr expires \<and> fresh_for cfg p (e_body e) incident ev now observed expires es)"

lemma wp_preconditions:
  assumes "\<And>p ev. v = JStr ev \<Longrightarrow> cleared E cfg C action target incident ev p (clock E (ticks s)) (evidence_rows s)
      \<Longrightarrow> sha = None \<or> sha = Some (digest_of E (policy_doc cfg p)) \<Longrightarrow> Q p (s\<lparr>ticks := Suc (ticks s)\<rparr>)"
  shows "wp (preconditions E cfg C action target incident v sha) Q (\<lambda>_ _. True) s"
proof (cases v)
  case (JStr ev)
  show ?thesis unfolding preconditions_def evidence_def JStr
    by (auto simp: wp_simps cleared_def intro!: assms [OF JStr] split: option.split sum.split)
qed (auto simp: preconditions_def evidence_def wp_simps split: option.split sum.split)

lemma wp_review:
  assumes inv: "action_inv E s" and r: "find_by a_id (action_rows s) k = Some r"
    and Q: "\<And>d e. find_by e_id (evidence_rows s) (a_evidence r) = Some e \<Longrightarrow> get d ''approval_sha256'' = JStr (digest_of E (bound_doc r (e_sha e))) \<Longrightarrow> Q d s"
  shows "wp (action_review E k) Q (\<lambda>_ _. True) s"
proof -
  obtain e where e: "find_by e_id (evidence_rows s) (a_evidence r) = Some e" "digest E (JObj (e_body e)) = Inr (e_sha e)"
    using inv_row_evidence [OF inv r] by blast
  show ?thesis unfolding action_review_def fetch_action_def evidence_def audit_def
    using e r by (auto simp: wp_simps get_def get_or_def intro!: Q split: sum.split)
qed

lemma bound_settled: "bound_doc (settled st now cs r) h = bound_doc r h"
  using settled_fields(1) [of r st now cs] by (simp add: bound_doc_def same_action_def)

lemma settled_bound: "a_approval (settled st now cs r) = a_approval r \<Longrightarrow> bound_to E es (settled st now cs r) = bound_to E es r"
  by (simp add: bound_to_def bound_settled)

lemma action_settled_good:
  assumes "good_action E es r" and "st \<in> ACTION_STATES" and "a_started_at (settled st now cs r) = JNull \<longleftrightarrow> unstarted st"
    and "st \<notin> {''pending'', ''cancelled''} \<Longrightarrow> bound_to E es (settled st now cs r)"
  shows "good_action E es (settled st now cs r)"
  using assms settled_fields(1) [of r st now cs] by (simp add: good_action_def same_action_def)

text \<open>The parts of an operation that went through, each with what it leaves.\<close>

lemma fetch_Inr [eff_iffs]: "fetch_action k s = (Inr r, s') \<longleftrightarrow> find_by a_id (action_rows s) k = Some r \<and> s' = s"
  by (auto simp: fetch_action_def eff_iffs split: option.splits)

lemma get_Inr: "get_action k s = (x, s') \<Longrightarrow> s' = s"
  using get_action_reads [of k s] by simp

lemma preconditions_Inr:
  assumes "preconditions E cfg C action target incident v sha s = (Inr p, s')"
  shows "\<exists>ev. v = JStr ev \<and> cleared E cfg C action target incident ev p (clock E (ticks s)) (evidence_rows s)
    \<and> (sha = None \<or> sha = Some (digest_of E (policy_doc cfg p))) \<and> s' = s\<lparr>ticks := Suc (ticks s)\<rparr>"
  by (rule wp_outcome [OF wp_preconditions assms]) blast

lemma review_Inr:
  assumes "action_inv E s" "find_by a_id (action_rows s) k = Some r" "action_review E k s = (Inr d, s')"
  shows "\<exists>e. find_by e_id (evidence_rows s) (a_evidence r) = Some e \<and> get d ''approval_sha256'' = JStr (digest_of E (bound_doc r (e_sha e))) \<and> s' = s"
  by (rule wp_outcome [OF wp_review [OF assms(1,2)] assms(3)]) blast

lemma transition_Inr:
  assumes "action_inv E s" "find_by a_id (action_rows s) k = Some r" "set (map fst cs) \<subseteq> COLUMNS" "action_transition E k st cs s = (x, s')"
  shows "x = Inr () \<and> (\<exists>now. turned k (settled st now cs r) s s')"
proof -
  have "wp (action_transition E k st cs) (\<lambda>_ s'. \<exists>now. turned k (settled st now cs r) s s') (\<lambda>_ _. False) s"
    by (rule wp_inv_transition [OF assms(1-3)]) blast
  then show ?thesis using assms(4) by (auto simp: wp_def split: sum.splits)
qed

lemma approved_good:
  assumes "good_action E es r" "a_state r = ''pending''" "find_by e_id es (a_evidence r) = Some e" "v = JStr (digest_of E (bound_doc r (e_sha e)))"
  shows "good_action E es (settled ''approved'' now [(''approval_sha256'', v), (''approved_at'', t)] r)"
proof (rule action_settled_good [OF assms(1)])
  let ?r = "settled ''approved'' now [(''approval_sha256'', v), (''approved_at'', t)] r"
  have "a_approval ?r = v" "a_started_at ?r = a_started_at r" by (simp_all add: settled_def set_column_def safe_field_def)
  then show "a_started_at ?r = JNull \<longleftrightarrow> unstarted ''approved''" "bound_to E es ?r"
    using assms by (simp_all add: good_action_def unstarted_def bound_to_def bound_settled)
qed (simp add: ACTION_STATES_def)

lemma approve_spec:
  assumes inv: "action_inv E s" and ok: "action_approve E cfg C k v s = (Inr d, s')"
  shows "\<exists>r r' p. find_by a_id (action_rows s) k = Some r \<and> a_state r = ''pending'' \<and> cleared E cfg C (a_action r) (a_target r) (a_incident r) (a_evidence r) p (clock E (ticks s)) (evidence_rows s)
    \<and> find_by a_id (action_rows s') k = Some r' \<and> a_state r' = ''approved'' \<and> same_action r r' \<and> a_approval r' = v \<and> bound_to E (evidence_rows s) r' \<and> action_after E s s' \<and> quiet s s'"
proof -
  from ok obtain r p s1 w s2 now s3 s4 where r: "find_by a_id (action_rows s) k = Some r"
    and p: "preconditions E cfg C (a_action r) (a_target r) (a_incident r) (JStr (a_evidence r)) (Some (a_policy r)) s = (Inr p, s1)"
    and st: "a_state r = ''pending''" and rev: "action_review E k s1 = (Inr w, s2)" and eq: "compare_digest v (get w ''approval_sha256'') = Inr True"
    and s3: "s3 = s2\<lparr>ticks := Suc (ticks s2)\<rparr>" and t: "action_transition E k ''approved'' [(''approval_sha256'', v), (''approved_at'', sql_real now)] s3 = (Inr (), s4)"
    and g: "get_action k s4 = (Inr d, s')"
    by (fastforce simp: action_approve_def eff_iffs)
  from preconditions_Inr [OF p] have c: "cleared E cfg C (a_action r) (a_target r) (a_incident r) (a_evidence r) p (clock E (ticks s)) (evidence_rows s)"
    and s1: "s1 = s\<lparr>ticks := Suc (ticks s)\<rparr>" by auto
  have "action_inv E s1" "find_by a_id (action_rows s1) k = Some r" using inv r by (simp_all add: s1)
  from review_Inr [OF this rev] obtain e where e: "find_by e_id (evidence_rows s) (a_evidence r) = Some e"
      "get w ''approval_sha256'' = JStr (digest_of E (bound_doc r (e_sha e)))" and s2: "s2 = s1" by (auto simp: s1)
  have v: "v = JStr (digest_of E (bound_doc r (e_sha e)))" using compare_digest_True [OF eq] e(2) by simp
  have "action_inv E s3" "find_by a_id (action_rows s3) k = Some r" using inv r by (simp_all add: s1 s2 s3)
  from transition_Inr [OF this _ t] obtain u where u: "turned k (settled ''approved'' u [(''approval_sha256'', v), (''approved_at'', sql_real now)] r) s s4"
    by (auto simp: s1 s2 s3)
  let ?r = "settled ''approved'' u [(''approval_sha256'', v), (''approved_at'', sql_real now)] r"
  have good: "good_action E (evidence_rows s) ?r" by (rule approved_good [OF action_inv_row(1) [OF inv r] st e(1) v])
  have s': "s' = s4" by (rule get_Inr [OF g])
  have id: "a_id ?r = k" using action_inv_row(2) [OF inv r] by simp
  have "action_after E s s4" by (rule turned_after [OF inv u r _ _ good]) (simp_all add: st unresolved_def)
  moreover have "quiet s s4" by (rule turned_quiet [OF u id r]) (simp add: st in_flight_def)
  moreover have "find_by a_id (action_rows s4) k = Some ?r" using turned_find [OF u id] r by simp
  moreover have "bound_to E (evidence_rows s) ?r" using good by (simp add: good_action_def)
  moreover have "a_approval ?r = v" by (simp add: settled_def set_column_def safe_field_def)
  ultimately show ?thesis using r st c s' by (intro exI [of _ r] exI [of _ ?r] exI [of _ p]) simp
qed
lemma update_twice: "(\<And>q. key (g q) = key q) \<Longrightarrow> update_by key k (\<lambda>_. r) (update_by key k g rs) = update_by key k (\<lambda>_. r) rs"
  by (auto simp: update_by_def)

lemma refresh_spec:
  assumes inv: "action_inv E s" and ok: "action_refresh E cfg C k v s = (Inr d, s')"
  shows "\<exists>r r' ev p. v = JStr ev \<and> find_by a_id (action_rows s) k = Some r \<and> a_state r \<in> {''pending'', ''approved''}
    \<and> cleared E cfg C (a_action r) (a_target r) (a_incident r) ev p (clock E (ticks s)) (evidence_rows s)
    \<and> find_by a_id (action_rows s') k = Some r' \<and> a_state r' = ''pending'' \<and> a_evidence r' = ev \<and> a_approval r' = JNull \<and> action_after E s s' \<and> quiet s s'"
proof -
  let ?cs = "[(''approval_sha256'', JNull), (''approved_at'', JNull)]"
  from ok obtain r p s1 s2 s3 where r: "find_by a_id (action_rows s) k = Some r" and st: "a_state r = ''pending'' \<or> a_state r = ''approved''"
    and p: "preconditions E cfg C (a_action r) (a_target r) (a_incident r) v (Some (a_policy r)) s = (Inr p, s1)"
    and s2: "s2 = s1\<lparr>action_rows := update_by a_id k (\<lambda>q. q\<lparr>a_evidence := str_of v\<rparr>) (action_rows s1)\<rparr>"
    and t: "action_transition E k ''pending'' ?cs s2 = (Inr (), s3)" and g: "get_action k s3 = (Inr d, s')"
    by (fastforce simp: action_refresh_def update_action_def eff_iffs)
  from preconditions_Inr [OF p] obtain ev where c: "v = JStr ev" "cleared E cfg C (a_action r) (a_target r) (a_incident r) ev p (clock E (ticks s)) (evidence_rows s)"
    and s1: "s1 = s\<lparr>ticks := Suc (ticks s)\<rparr>" by auto
  from c(2) obtain e where e: "find_by e_id (evidence_rows s) ev = Some e" by (auto simp: cleared_def)
  let ?q = "r\<lparr>a_evidence := ev\<rparr>"
  have ids: "distinct (map a_id (action_rows s2))" using action_inv_row(4) [OF inv r] by (simp add: s2 s1 keys_update_by)
  have f: "find_by a_id (action_rows s2) k = Some ?q" using r by (simp add: s2 s1 c(1) find_by_update)
  have ev: "find_by e_id (evidence_rows s2) (a_evidence ?q) = Some e" using e by (simp add: s2 s1)
  from transition_runs [OF ids f ev inv_evidence [OF inv e], of ?cs "''pending''"] t
  obtain u where u2: "turned k (settled ''pending'' u ?cs ?q) s2 s3" by auto
  let ?r = "settled ''pending'' u ?cs ?q"
  have u: "turned k ?r s s3" using u2 by (simp add: turned_def s2 s1 update_twice)
  have id: "a_id ?r = k" using action_inv_row(2) [OF inv r] by simp
  have same: "same_action r ?r" using settled_fields(1) [of ?q "''pending''" u ?cs] by (simp add: same_action_def)
  have cols: "a_started_at ?r = a_started_at r" "a_approval ?r = JNull" "a_policy_json ?r = a_policy_json r" "a_policy ?r = a_policy r"
    by (simp_all add: settled_def set_column_def safe_field_def)
  have good: "good_action E (evidence_rows s) ?r"
    using action_inv_row(1) [OF inv r] st e cols by (auto simp: good_action_def ACTION_STATES_def unstarted_def)
  have "action_after E s s3" by (rule turned_after [OF inv u r same _ good]) (use st in \<open>auto simp: unresolved_def\<close>)
  moreover have "quiet s s3" by (rule turned_quiet [OF u id r]) (use st in \<open>auto simp: in_flight_def\<close>)
  moreover have "find_by a_id (action_rows s3) k = Some ?r" using turned_find [OF u id] r by simp
  ultimately show ?thesis using r st c get_Inr [OF g] cols
    by (intro exI [of _ r] exI [of _ ?r] exI [of _ ev] exI [of _ p]) simp
qed

lemma cancel_spec:
  assumes inv: "action_inv E s" and ok: "action_cancel E k s = (Inr d, s')"
  shows "\<exists>r r'. find_by a_id (action_rows s) k = Some r \<and> a_state r \<in> {''pending'', ''approved''} \<and> find_by a_id (action_rows s') k = Some r' \<and> a_state r' = ''cancelled''
    \<and> action_after E s s' \<and> quiet s s'"
proof -
  from ok obtain r s3 where r: "find_by a_id (action_rows s) k = Some r" and st: "a_state r = ''pending'' \<or> a_state r = ''approved''"
    and t: "action_transition E k ''cancelled'' [] s = (Inr (), s3)" and g: "get_action k s3 = (Inr d, s')"
    by (fastforce simp: action_cancel_def eff_iffs)
  from transition_Inr [OF inv r _ t] obtain u where u: "turned k (settled ''cancelled'' u [] r) s s3" by auto
  let ?r = "settled ''cancelled'' u [] r"
  have id: "a_id ?r = k" using action_inv_row(2) [OF inv r] by simp
  have good: "good_action E (evidence_rows s) ?r"
    by (rule action_settled_good [OF action_inv_row(1) [OF inv r]])
       (use action_inv_row(1) [OF inv r] st in \<open>auto simp: ACTION_STATES_def unstarted_def settled_def good_action_def\<close>)
  have "action_after E s s3" by (rule turned_after [OF inv u r _ _ good]) (use st in \<open>auto simp: unresolved_def\<close>)
  moreover have "quiet s s3" by (rule turned_quiet [OF u id r]) (use st in \<open>auto simp: in_flight_def\<close>)
  moreover have "find_by a_id (action_rows s3) k = Some ?r" using turned_find [OF u id] r by simp
  ultimately show ?thesis using r st get_Inr [OF g] by auto
qed

lemma edge_in_flight: "action_edge a b \<Longrightarrow> in_flight a \<Longrightarrow> b \<in> ACTION_STATES \<and> \<not> unstarted b"
  unfolding action_edge_def insert_iff prod.inject by (elim disjE conjE) (simp_all add: in_flight_def ACTION_STATES_def unstarted_def)

lemma in_flight_started: "in_flight a \<Longrightarrow> \<not> unstarted a"
  by (auto simp: in_flight_def unstarted_def)

text \<open>A transition of an execution under way.\<close>

lemma flight_spec:
  assumes inv: "action_inv E s" and r: "find_by a_id (action_rows s) k = Some r" and fl: "in_flight (a_state r)"
    and st: "action_edge (a_state r) st" and t: "action_transition E k st cs s = (x, s')" and cs: "cs = [] \<or> cs = [(''error'', w)]"
  shows "x = Inr () \<and> action_after E s s' \<and> synthetic_rows s' = synthetic_rows s \<and> (\<exists>r'. find_by a_id (action_rows s') k = Some r' \<and> a_state r' = st \<and> same_action r r')
    \<and> (\<forall>j. j \<noteq> k \<longrightarrow> find_by a_id (action_rows s') j = find_by a_id (action_rows s) j)"
proof -
  have cols: "set (map fst cs) \<subseteq> COLUMNS" using cs by auto
  from transition_Inr [OF inv r cols t] obtain u where x: "x = Inr ()" and u: "turned k (settled st u cs r) s s'" by blast
  let ?r = "settled st u cs r"
  have id: "a_id ?r = k" using action_inv_row(2) [OF inv r] by simp
  have keep: "a_started_at ?r = a_started_at r" "a_approval ?r = a_approval r" using cs by (auto simp: settled_def set_column_def safe_field_def)
  have good: "good_action E (evidence_rows s) ?r"
  proof (rule action_settled_good [OF action_inv_row(1) [OF inv r]])
    show "st \<in> ACTION_STATES" using edge_in_flight [OF st fl] by simp
    show "a_started_at ?r = JNull \<longleftrightarrow> unstarted st"
      using keep action_inv_row(1) [OF inv r] edge_in_flight [OF st fl] in_flight_started [OF fl] by (simp add: good_action_def)
    show "bound_to E (evidence_rows s) ?r"
      using action_inv_row(1) [OF inv r] fl settled_bound [OF keep(2)] by (auto simp: good_action_def in_flight_def)
  qed
  have "action_after E s s'"
    by (rule turned_after [OF inv u r _ _ good]) (use fl st in \<open>auto simp: unresolved_def in_flight_def\<close>)
  then show ?thesis using x turned_find [OF u id] r u by (auto simp: turned_def)
qed

lemma mark_transition: "action_inv E s \<Longrightarrow> find_by a_id (action_rows s) k = Some r \<Longrightarrow> set (map fst cs) \<subseteq> COLUMNS \<Longrightarrow> mark E k st cs s = action_transition E k st cs s"
  using transition_Inr [of E s k r cs st] by (cases "action_transition E k st cs s") (auto simp: mark_def transaction_def transaction_keeping_def)

lemma seed_spec:
  assumes inv: "action_inv E s" and ok: "seed_synthetic target h v s = (Inr x, s')"
  shows "target \<in> set SYNTHETIC \<and> 0 \<le> v \<and> v \<le> 100000 \<and> action_after E s s' \<and> quiet s s' \<and> action_rows s' = action_rows s
    \<and> find_by syn_target (synthetic_rows s') target = Some \<lparr>syn_target = target, syn_healthy = h, syn_version = v\<rparr>"
proof -
  from ok have c: "target \<in> set SYNTHETIC" "0 \<le> v" "v \<le> 100000"
    and s': "s' = s\<lparr>synthetic_rows := filter (\<lambda>r. syn_target r \<noteq> target) (synthetic_rows s) @ [\<lparr>syn_target = target, syn_healthy = h, syn_version = v\<rparr>]\<rparr>"
    by (auto simp: seed_synthetic_def eff_iffs)
  have "find_by syn_target (filter (\<lambda>r. syn_target r \<noteq> target) (synthetic_rows s)) target = None" by (auto simp: find_by_None)
  moreover have "synthetic_ok (synthetic_rows s')"
    using inv c by (auto simp: s' action_inv_def synthetic_ok_def distinct_map_filter)
  ultimately show ?thesis using inv c by (simp add: s' action_after_def action_inv_def am.table_refl quiet_def find_by_append)
qed

lemma seed_failed: "seed_synthetic target h v s = (Inl e, s') \<Longrightarrow> s' = s \<and> \<not> (target \<in> set SYNTHETIC \<and> 0 \<le> v \<and> v \<le> 100000)"
  by (auto simp: seed_synthetic_def eff_iffs)
lemma find_grown: "find_by key rs k = Some r \<Longrightarrow> find_by key (rs @ [x]) k = Some r"
  by (simp add: find_by_append)

lemma good_grown: "good_action E es r \<Longrightarrow> good_action E (es @ [e]) r"
  by (auto simp: good_action_def bound_to_def dest: find_grown [of e_id, where x = e])

lemma ingest_spec:
  assumes inv: "action_inv E s" and ok: "ingest_evidence E cfg C v s = (Inr d, s')"
  shows "action_after E s s' \<and> quiet s s' \<and> (\<exists>e \<in> set (evidence_rows s'). e_sha e = digest_of E v \<and> d = [(''id'', JStr (e_id e)), (''sha256'', JStr (e_sha e))])"
proof -
  let ?body = "dict_of v"
  from ok obtain k observed s1 where v: "is_dict v" and sha: "digest E (JObj ?body) = Inr (digest_of E (JObj ?body))"
    and st: "store_evidence E ?body (digest_of E (JObj ?body)) observed s1 = (Inr k, s')" and s1: "s1 = s\<lparr>ticks := Suc (ticks s)\<rparr>"
    and d: "d = [(''id'', JStr k), (''sha256'', JStr (digest_of E (JObj ?body)))]"
    by (fastforce simp: ingest_evidence_def Let_def eff_iffs)
  have vb: "JObj ?body = v" using v by (cases v) auto
  show ?thesis
  proof (cases "find_by e_sha (evidence_rows s) (digest_of E (JObj ?body))")
    case (Some e)
    then have "s' = s1" "k = e_id e" using st by (auto simp: store_evidence_def s1 eff_iffs)
    moreover have "e \<in> set (evidence_rows s)" "e_sha e = digest_of E (JObj ?body)" using find_by_Some Some by fastforce+
    ultimately show ?thesis using inv d by (auto simp: s1 vb intro!: same_tables_after same_tables_quiet)
  next
    case None
    from None st obtain sys chk where len: "length (evidence_rows s) < 10000" and new: "k \<notin> e_id ` set (evidence_rows s)"
      and s': "s' = s1\<lparr>ids := Suc (ids s1), evidence_rows := evidence_rows s @ [\<lparr>e_id = k, e_sha = digest_of E (JObj ?body), e_body = ?body, e_system = sys, e_check = chk, e_observed = sql_real observed\<rparr>]\<rparr>"
      by (fastforce simp: store_evidence_def s1 eff_iffs list_ex_iff split: if_splits)
    have "digest_of E (JObj ?body) \<notin> e_sha ` set (evidence_rows s)" using None by (simp add: find_by_None)
    then have "evidence_ok E (evidence_rows s')" using inv len new sha by (auto simp: s' action_inv_def evidence_ok_def)
    moreover have "table_ok a_id (good_action E (evidence_rows s')) (action_rows s')"
      using inv by (auto simp: s' s1 action_inv_def table_ok_def intro: good_grown)
    ultimately show ?thesis using inv d by (simp add: s' s1 vb action_after_def action_inv_def am.table_refl quiet_def)
  qed
qed

lemma new_action_fields [simp]:
  "a_id (new_action k body now h doc) = k" "a_state (new_action k body now h doc) = ''pending''" "a_evidence (new_action k body now h doc) = str_of (get body ''evidence_id'')"
  "a_action (new_action k body now h doc) = str_of (get body ''action_id'')" "a_target (new_action k body now h doc) = str_of (get body ''target'')"
  "a_incident (new_action k body now h doc) = str_of (get body ''incident_key'')" "a_started_at (new_action k body now h doc) = JNull"
  "a_policy (new_action k body now h doc) = h" "a_policy_json (new_action k body now h doc) = doc"
  by (simp_all add: new_action_def)

lemma propose_parts:
  assumes "action_propose E cfg C v s = (Inr d, s')"
  shows "(\<exists>r \<in> set (action_rows s). a_action r = str_of (get (dict_of v) ''action_id'') \<and> a_target r = str_of (get (dict_of v) ''target'') \<and> a_incident r = str_of (get (dict_of v) ''incident_key'')
      \<and> s' = s)
    \<or> (\<exists>p k now s1 s2 s3. preconditions E cfg C (str_of (get (dict_of v) ''action_id'')) (str_of (get (dict_of v) ''target'')) (str_of (get (dict_of v) ''incident_key'')) (get (dict_of v) ''evidence_id'') None s = (Inr p, s1)
      \<and> length (filter (\<lambda>r. queued_state (a_state r)) (action_rows s)) < 32 \<and> s2 = s1\<lparr>ids := Suc (ids s1), ticks := Suc (ticks s1)\<rparr>
      \<and> insert_action (new_action k (dict_of v) now (digest_of E (policy_doc cfg p)) (policy_doc cfg p)) s2 = (Inr (), s3) \<and> finite_json (policy_doc cfg p)
      \<and> action_transition E k ''pending'' [] s3 = (Inr (), s'))"
proof (cases "List.find (\<lambda>r. a_action r = str_of (get (dict_of v) ''action_id'') \<and> a_target r = str_of (get (dict_of v) ''target'') \<and> a_incident r = str_of (get (dict_of v) ''incident_key'')) (action_rows s)")
  case (Some r)
  then have "s' = s" using assms by (auto simp: action_propose_def Let_def eff_iffs dest: get_Inr)
  with Some show ?thesis by (auto simp: find_Some_iff)
next
  case None
  with assms show ?thesis by (fastforce simp: action_propose_def Let_def eff_iffs dest: get_Inr split: if_splits)
qed

text \<open>The ledger after an insertion and its first event.\<close>

lemma action_inserted_after:
  assumes inv: "action_inv E s" and good: "good_action E (evidence_rows s) r" and st: "\<not> unresolved r"
    and id: "a_id r \<notin> a_id ` set (action_rows s)" and key: "(a_action r, a_target r, a_incident r) \<notin> (\<lambda>r. (a_action r, a_target r, a_incident r)) ` set (action_rows s)"
    and s': "action_rows s' = action_rows s @ [r]" "evidence_rows s' = evidence_rows s" "synthetic_rows s' = synthetic_rows s"
      "action_events s' = action_events s @ [ev]" "ae_action ev = a_id r" "ae_state ev = a_state r"
  shows "action_after E s s' \<and> quiet s s'"
proof -
  have ok: "table_ok a_id (good_action E (evidence_rows s)) (action_rows s)" using inv by (simp add: action_inv_def)
  have "at_most_one a_id rivals (insert r (set (action_rows s)))"
    by (rule at_most_one_insert) (use inv st in \<open>auto simp: action_inv_def\<close>)
  moreover have "audited a_id a_state ae_action ae_state (action_rows s') (action_events s')"
    unfolding s'(1,4) by (rule audited_insert) (use inv id s'(5,6) in \<open>auto simp: action_inv_def\<close>)
  moreover have "quiet s s'" by (simp add: quiet_def s'(1) find_grown)
  ultimately show ?thesis using inv am.insert_moves [OF ok id good] key s'(1-3) by (simp add: action_after_def action_inv_def)
qed

lemma action_propose_spec:
  assumes inv: "action_inv E s" and ok: "action_propose E cfg C v s = (Inr d, s')"
  shows "action_after E s s' \<and> quiet s s' \<and> (action_rows s' = action_rows s \<or>
    (\<exists>r p. action_rows s' = action_rows s @ [r] \<and> a_state r = ''pending'' \<and> a_action r = str_of (get (dict_of v) ''action_id'') \<and> length (filter (\<lambda>r. queued_state (a_state r)) (action_rows s)) < 32
      \<and> cleared E cfg C (a_action r) (a_target r) (a_incident r) (a_evidence r) p (clock E (ticks s)) (evidence_rows s) \<and> a_policy r = digest_of E (policy_doc cfg p)))"
  using propose_parts [OF ok]
proof (elim disjE bexE exE conjE)
  assume "s' = s"
  then show ?thesis using inv by (simp add: action_after_refl quiet_def)
next
  fix p k now s1 s2 s3
  let ?body = "dict_of v" and ?r = "new_action k (dict_of v) now (digest_of E (policy_doc cfg p)) (policy_doc cfg p)"
  assume p: "preconditions E cfg C (str_of (get ?body ''action_id'')) (str_of (get ?body ''target'')) (str_of (get ?body ''incident_key'')) (get ?body ''evidence_id'') None s = (Inr p, s1)"
    and q: "length (filter (\<lambda>r. queued_state (a_state r)) (action_rows s)) < 32" and s2: "s2 = s1\<lparr>ids := Suc (ids s1), ticks := Suc (ticks s1)\<rparr>"
    and ins: "insert_action ?r s2 = (Inr (), s3)" and fin: "finite_json (policy_doc cfg p)" and t: "action_transition E k ''pending'' [] s3 = (Inr (), s')"
  from preconditions_Inr [OF p] obtain ev where c: "get ?body ''evidence_id'' = JStr ev" and s1: "s1 = s\<lparr>ticks := Suc (ticks s)\<rparr>"
    and cl: "cleared E cfg C (str_of (get ?body ''action_id'')) (str_of (get ?body ''target'')) (str_of (get ?body ''incident_key'')) ev p (clock E (ticks s)) (evidence_rows s)"
    by blast
  from cl obtain e where e: "find_by e_id (evidence_rows s) ev = Some e" by (auto simp: cleared_def)
  from ins have s3: "s3 = s2\<lparr>action_rows := action_rows s @ [?r]\<rparr>" and new: "k \<notin> a_id ` set (action_rows s)"
      "(a_action ?r, a_target ?r, a_incident ?r) \<notin> (\<lambda>r. (a_action r, a_target r, a_incident r)) ` set (action_rows s)"
    by (auto simp: insert_action_def eff_iffs list_ex_iff s2 s1 split: if_splits)
  have ids: "distinct (map a_id (action_rows s3))" using inv new(1) by (simp add: s3 action_inv_def table_ok_def)
  have "find_by a_id (action_rows s) k = None" using new(1) by (simp add: find_by_None)
  then have f: "find_by a_id (action_rows s3) k = Some ?r" by (simp add: s3 find_by_append)
  have ev: "find_by e_id (evidence_rows s3) (a_evidence ?r) = Some e" using e c by (simp add: s3 s2 s1)
  from transition_runs [OF ids f ev inv_evidence [OF inv e], of "[]" "''pending''"] t
  obtain u where u: "turned k (settled ''pending'' u [] ?r) s3 s'" by auto
  let ?q = "settled ''pending'' u [] ?r"
  have q_def: "?q = ?r\<lparr>a_updated := u\<rparr>" by (simp add: settled_def new_action_def)
  have rows: "action_rows s' = action_rows s @ [?q]" using u new(1) update_absent [of k a_id "action_rows s" "\<lambda>_. ?q"] by (simp add: turned_def s3 update_by_def)
  have good: "good_action E (evidence_rows s) ?q"
    using fin e c by (simp add: q_def good_action_def ACTION_STATES_def unstarted_def)
  from u obtain ev where "action_events s' = action_events s @ [ev]" "ae_action ev = k" "ae_state ev = ''pending''" "evidence_rows s' = evidence_rows s" "synthetic_rows s' = synthetic_rows s"
    by (auto simp: turned_def s3 s2 s1)
  with action_inserted_after [OF inv good _ _ _ rows] new have "action_after E s s' \<and> quiet s s'" by (simp add: q_def unresolved_def)
  then show ?thesis using rows cl q c by (auto simp: q_def)
qed
section \<open>Starting an execution\<close>

lemma age_within_finite: "age_within x y n \<Longrightarrow> \<exists>a b. x = Fin a \<and> y = Fin b"
  by (cases x; cases y) (auto simp: age_within_def fsub_def flt_le_def)

lemma age_within_exact:
  assumes "age_within (Fin a) (Fin b) n" "double a" "double b" "\<bar>n\<bar> \<le> 2 ^ 53"
  shows "b \<le> a \<and> a - b < of_int n"
  using assms fsub_ge fsub_less by (auto simp: age_within_def)

lemma lift_Inr: "lift m s = (Inr x, s') \<longleftrightarrow> m = Inr x \<and> s' = s"
  by (auto simp: lift_def)

definition executable :: "env \<Rightarrow> action_cfg \<Rightarrow> calendar \<Rightarrow> action_row \<Rightarrow> dict \<Rightarrow> bool \<times> int \<Rightarrow> actions_db \<Rightarrow> bool" where
  "executable E cfg C r p snapshot s \<longleftrightarrow>
     (let now = clock E (Suc (ticks s)) in
      a_state r = ''approved'' \<and> cleared E cfg C (a_action r) (a_target r) (a_incident r) (a_evidence r) p (clock E (ticks s)) (evidence_rows s)
      \<and> a_policy r = digest_of E (policy_doc cfg p) \<and> bound_to E (evidence_rows s) r
      \<and> (\<exists>t. num_of (a_approved_at r) = Some t \<and> age_within now t (int_of (get p ''approval_ttl_seconds'')))
      \<and> (\<exists>here. local_time C (get (dict_of (get p ''maintenance_window'')) ''timezone'') now = Inr here \<and> in_window C (get p ''maintenance_window'') here = Inr True)
      \<and> (\<forall>q \<in> set (action_rows s). a_target q = a_target r \<longrightarrow> \<not> unresolved q \<and> \<not> sql_less (sql_real (fsub now (flt_int (int_of (get p ''cooldown_seconds''))))) (a_started_at q))
      \<and> (\<exists>row. find_by syn_target (synthetic_rows s) (a_target r) = Some row \<and> snapshot = (syn_healthy row, syn_version row)
          \<and> (get p ''executor'' = JStr ''synthetic-recover'' \<longrightarrow> \<not> syn_healthy row) \<and> (get p ''executor'' = JStr ''synthetic-update'' \<longrightarrow> syn_healthy row)))"

lemma prepare_Inr:
  "prepare p s = (Inr snapshot, s') \<longleftrightarrow> s' = s \<and> (\<exists>row. find_by syn_target (synthetic_rows s) (target_of p) = Some row \<and> snapshot = (syn_healthy row, syn_version row)
     \<and> (get p ''executor'' = JStr ''synthetic-recover'' \<longrightarrow> \<not> syn_healthy row) \<and> (get p ''executor'' = JStr ''synthetic-update'' \<longrightarrow> syn_healthy row))"
  by (auto simp: prepare_def synthetic_state_def eff_iffs split: option.splits)

lemma started_good:
  assumes "good_action E es r" "a_state r = ''approved''" "t \<noteq> JNull"
  shows "good_action E es (settled ''running'' now [(''started_at'', t), (''snapshot'', w)] r)"
proof (rule action_settled_good [OF assms(1)])
  let ?r = "settled ''running'' now [(''started_at'', t), (''snapshot'', w)] r"
  have "a_approval ?r = a_approval r" "a_started_at ?r = t" by (simp_all add: settled_def set_column_def safe_field_def)
  then show "a_started_at ?r = JNull \<longleftrightarrow> unstarted ''running''" "bound_to E es ?r"
    using assms settled_bound by (simp_all add: good_action_def unstarted_def)
qed (simp add: ACTION_STATES_def)

lemma start_parts:
  assumes "execute_start E cfg C k s = (Inr (p, snapshot), s')"
  shows "\<exists>r s1 s2 here reviewed s3 t. find_by a_id (action_rows s) k = Some r
    \<and> preconditions E cfg C (a_action r) (a_target r) (a_incident r) (JStr (a_evidence r)) (Some (a_policy r)) s = (Inr p, s1) \<and> s2 = s1\<lparr>ticks := Suc (ticks s1)\<rparr>
    \<and> local_time C (get (dict_of (get p ''maintenance_window'')) ''timezone'') (clock E (ticks s1)) = Inr here \<and> a_state r = ''approved''
    \<and> num_of (a_approved_at r) = Some t \<and> age_within (clock E (ticks s1)) t (int_of (get p ''approval_ttl_seconds''))
    \<and> action_review E k s2 = (Inr reviewed, s3) \<and> compare_digest (a_approval r) (get reviewed ''approval_sha256'') = Inr True
    \<and> in_window C (get p ''maintenance_window'') here = Inr True
    \<and> \<not> list_ex (blocks (a_target r) (sql_real (fsub (clock E (ticks s1)) (flt_int (int_of (get p ''cooldown_seconds'')))))) (action_rows s3)
    \<and> prepare p s3 = (Inr snapshot, s3)
    \<and> action_transition E k ''running'' [(''started_at'', sql_real (clock E (ticks s1))), (''snapshot'', snapshot_doc snapshot)] s3 = (Inr (), s')"
proof -
  have here: "prepare p s3 = (Inr snapshot, s4) \<Longrightarrow> s4 = s3" for s3 s4 by (simp add: prepare_Inr)
  from assms obtain r s1 here b reviewed s3 s4 where "find_by a_id (action_rows s) k = Some r"
      "preconditions E cfg C (a_action r) (a_target r) (a_incident r) (JStr (a_evidence r)) (Some (a_policy r)) s = (Inr p, s1)"
      "local_time C (get (dict_of (get p ''maintenance_window'')) ''timezone'') (clock E (ticks s1)) = Inr here" "a_state r = ''approved''"
      "approval_age r (clock E (ticks s1)) (int_of (get p ''approval_ttl_seconds'')) = Inr True"
      "action_review E k (s1\<lparr>ticks := Suc (ticks s1)\<rparr>) = (Inr reviewed, s3)" "compare_digest (a_approval r) (get reviewed ''approval_sha256'') = Inr True"
      "in_window C (get p ''maintenance_window'') here = Inr True"
      "\<not> list_ex (blocks (a_target r) (sql_real (fsub (clock E (ticks s1)) (flt_int (int_of (get p ''cooldown_seconds'')))))) (action_rows s3)"
      "prepare p s3 = (Inr snapshot, s4)"
      "action_transition E k ''running'' [(''started_at'', sql_real (clock E (ticks s1))), (''snapshot'', snapshot_doc snapshot)] s4 = (Inr (), s')"
    unfolding execute_start_def by (fastforce simp: eff_iffs lift_Inr simp del: lift_iff)
  moreover from this(5) obtain t where "num_of (a_approved_at r) = Some t" "age_within (clock E (ticks s1)) t (int_of (get p ''approval_ttl_seconds''))"
    by (auto simp: approval_age_def split: option.splits)
  ultimately show ?thesis using here by blast
qed
lemma start_spec:
  assumes inv: "action_inv E s" and ok: "execute_start E cfg C k s = (Inr (p, snapshot), s')"
  shows "\<exists>r r'. find_by a_id (action_rows s) k = Some r \<and> executable E cfg C r p snapshot s \<and> find_by a_id (action_rows s') k = Some r' \<and> a_state r' = ''running''
    \<and> same_action r r' \<and> action_after E s s' \<and> quiet s s' \<and> synthetic_rows s' = synthetic_rows s"
proof -
  from start_parts [OF ok] obtain r s1 s2 here w s3 t where r: "find_by a_id (action_rows s) k = Some r"
    and p: "preconditions E cfg C (a_action r) (a_target r) (a_incident r) (JStr (a_evidence r)) (Some (a_policy r)) s = (Inr p, s1)" and s2: "s2 = s1\<lparr>ticks := Suc (ticks s1)\<rparr>"
    and here: "local_time C (get (dict_of (get p ''maintenance_window'')) ''timezone'') (clock E (ticks s1)) = Inr here" and st: "a_state r = ''approved''"
    and age: "num_of (a_approved_at r) = Some t" "age_within (clock E (ticks s1)) t (int_of (get p ''approval_ttl_seconds''))"
    and rev: "action_review E k s2 = (Inr w, s3)" and eq: "compare_digest (a_approval r) (get w ''approval_sha256'') = Inr True"
    and win: "in_window C (get p ''maintenance_window'') here = Inr True"
    and free: "\<not> list_ex (blocks (a_target r) (sql_real (fsub (clock E (ticks s1)) (flt_int (int_of (get p ''cooldown_seconds'')))))) (action_rows s3)"
    and prep: "prepare p s3 = (Inr snapshot, s3)"
    and t: "action_transition E k ''running'' [(''started_at'', sql_real (clock E (ticks s1))), (''snapshot'', snapshot_doc snapshot)] s3 = (Inr (), s')"
    by blast
  from preconditions_Inr [OF p] have c: "cleared E cfg C (a_action r) (a_target r) (a_incident r) (a_evidence r) p (clock E (ticks s)) (evidence_rows s)"
    "a_policy r = digest_of E (policy_doc cfg p)" and s1: "s1 = s\<lparr>ticks := Suc (ticks s)\<rparr>" by auto
  have "action_inv E s2" "find_by a_id (action_rows s2) k = Some r" using inv r by (simp_all add: s2 s1)
  from review_Inr [OF this rev] obtain e where e: "find_by e_id (evidence_rows s) (a_evidence r) = Some e"
      "get w ''approval_sha256'' = JStr (digest_of E (bound_doc r (e_sha e)))" and s3: "s3 = s2" by (auto simp: s2 s1)
  have bound: "bound_to E (evidence_rows s) r" using compare_digest_True [OF eq] e by (simp add: bound_to_def)
  have "action_inv E s3" "find_by a_id (action_rows s3) k = Some r" using inv r by (simp_all add: s3 s2 s1)
  from transition_Inr [OF this _ t] obtain u where
    u: "turned k (settled ''running'' u [(''started_at'', sql_real (clock E (ticks s1))), (''snapshot'', snapshot_doc snapshot)] r) s s'"
    by (auto simp: s3 s2 s1)
  let ?r = "settled ''running'' u [(''started_at'', sql_real (clock E (ticks s1))), (''snapshot'', snapshot_doc snapshot)] r"
  have "sql_real (clock E (ticks s1)) \<noteq> JNull" using age_within_finite [OF age(2)] by (auto simp: sql_real_def)
  then have good: "good_action E (evidence_rows s) ?r" by (rule started_good [OF action_inv_row(1) [OF inv r] st])
  have id: "a_id ?r = k" using action_inv_row(2) [OF inv r] by simp
  have occ: "\<forall>q \<in> set (action_rows s). a_target q = a_target r \<longrightarrow> \<not> unresolved q \<and> \<not> sql_less (sql_real (fsub (clock E (ticks s1)) (flt_int (int_of (get p ''cooldown_seconds''))))) (a_started_at q)"
    using free by (auto simp: list_ex_iff blocks_def unresolved_def s3 s2 s1)
  have "action_after E s s'" by (rule turned_after [OF inv u r _ _ good]) (use occ st in auto)
  moreover have "quiet s s'" by (rule turned_quiet [OF u id r]) (simp add: st in_flight_def)
  moreover have "find_by a_id (action_rows s') k = Some ?r" using turned_find [OF u id] r by simp
  moreover have "target_of p = a_target r" using c(1) by (simp add: cleared_def target_of_def)
  then have "executable E cfg C r p snapshot s"
    using c st bound age here win occ prep by (cases here) (auto simp: executable_def Let_def prepare_Inr s3 s2 s1)
  ultimately show ?thesis using r u by (intro exI [of _ r] exI [of _ ?r]) (simp add: turned_def)
qed

section \<open>Reopening\<close>

lemma reconcile_all:
  assumes "action_inv E s" and "distinct (map a_id rs)" and "\<forall>r \<in> set rs. \<exists>q. find_by a_id (action_rows s) (a_id r) = Some q \<and> in_flight (a_state q)"
    and "for_eachS (\<lambda>r. action_transition E (a_id r) ''reconcile_required'' [(''error'', w)]) rs s = (x, s')"
  shows "x = Inr () \<and> action_after E s s' \<and> (\<forall>k. states a_id a_state (action_rows s') k = (if k \<in> a_id ` set rs then Some ''reconcile_required'' else states a_id a_state (action_rows s) k))"
  using assms
proof (induction rs arbitrary: s)
  case Nil
  then show ?case by (auto simp: ret_def action_after_refl)
next
  case (Cons r rs)
  let ?t = "action_transition E (a_id r) ''reconcile_required'' [(''error'', w)]"
  from Cons.prems(3) obtain q where q: "find_by a_id (action_rows s) (a_id r) = Some q" "in_flight (a_state q)" by auto
  obtain y s1 where t: "?t s = (y, s1)" by fastforce
  have edge: "action_edge (a_state q) ''reconcile_required''" using q(2) by (auto simp: in_flight_def)
  have one: "y = Inr ()" "action_after E s s1" "\<exists>r'. find_by a_id (action_rows s1) (a_id r) = Some r' \<and> a_state r' = ''reconcile_required''"
      "\<And>j. j \<noteq> a_id r \<Longrightarrow> find_by a_id (action_rows s1) j = find_by a_id (action_rows s) j"
    using flight_spec [OF Cons.prems(1) q edge t] by auto
  have ne: "a_id p \<noteq> a_id r" if "p \<in> set rs" for p using that Cons.prems(2) by (metis distinct.simps(2) image_eqI list.simps(9) set_map)
  have rest: "for_eachS (\<lambda>r. action_transition E (a_id r) ''reconcile_required'' [(''error'', w)]) rs s1 = (x, s')"
    using Cons.prems(4) t one(1) by (simp add: bindS_def)
  have "x = Inr () \<and> action_after E s1 s' \<and> (\<forall>k. states a_id a_state (action_rows s') k = (if k \<in> a_id ` set rs then Some ''reconcile_required'' else states a_id a_state (action_rows s1) k))"
    by (rule Cons.IH [OF _ _ _ rest]) (use Cons.prems one(2,4) ne in \<open>auto simp: action_after_def\<close>)
  then show ?case using one(2,3,4) by (auto simp: states_def intro: action_after_trans)
qed

lemma reopen_spec:
  assumes inv: "action_inv E s" and ok: "reopen E s = (x, s')"
  shows "x = Inr () \<and> action_after E s s' \<and> (\<forall>k. states a_id a_state (action_rows s') k = (case states a_id a_state (action_rows s) k of
    Some st \<Rightarrow> Some (if in_flight st then ''reconcile_required'' else st) | None \<Rightarrow> None))"
proof -
  let ?rs = "filter (\<lambda>r. in_flight (a_state r)) (action_rows s)"
  let ?f = "\<lambda>r. action_transition E (a_id r) ''reconcile_required'' [(''error'', JStr ''broker restarted; operator reconciliation required'')]"
  obtain y t where t: "for_eachS ?f ?rs s = (y, t)" by fastforce
  have tab: "table_ok a_id (good_action E (evidence_rows s)) (action_rows s)" using inv by (simp add: action_inv_def)
  have rec: "y = Inr () \<and> action_after E s t \<and> (\<forall>k. states a_id a_state (action_rows t) k = (if k \<in> a_id ` set ?rs then Some ''reconcile_required'' else states a_id a_state (action_rows s) k))"
    by (rule reconcile_all [OF inv _ _ t]) (use tab table_ok_mem [OF tab] in \<open>auto simp: table_ok_def distinct_map_filter\<close>)
  have "x = Inr ()" "s' = t" using ok rec t by (auto simp: reopen_def transaction_def transaction_keeping_def bindS_def gets_def)
  moreover have "k \<in> a_id ` set ?rs \<longleftrightarrow> (\<exists>st. states a_id a_state (action_rows s) k = Some st \<and> in_flight st)" for k
    using table_ok_mem [OF tab] find_by_Some by (fastforce simp: states_def)
  ultimately show ?thesis using rec by (auto split: option.splits)
qed

section \<open>Stages of an execution\<close>

text \<open>
  After the first transaction an execution is a sequence of separate transactions and reads; other calls may come
  between them. \<open>run_stage\<close> is one of them and says which comes next.
\<close>

datatype stage = Apply | Mark_Postchecking | Postcheck | Complete | Mark_Rolling_Back | Rollback | Rollback_Postcheck | Settle string

definition otherwise :: "('s, 'a) eff \<Rightarrow> 'a \<Rightarrow> ('s, 'a) eff" where
  "otherwise m x = catch m (\<lambda>_. True) (\<lambda>_. ret x)"

fun run_stage :: "env \<Rightarrow> string \<Rightarrow> dict \<Rightarrow> bool \<times> int \<Rightarrow> stage \<Rightarrow> (actions_db, stage option) eff" where
  "run_stage E k p snapshot Apply = otherwise (bindS (apply_effect p snapshot) (\<lambda>_. ret (Some Mark_Postchecking))) (Some Mark_Rolling_Back)"
| "run_stage E k p snapshot Mark_Postchecking = otherwise (bindS (mark E k ''postchecking'' []) (\<lambda>_. ret (Some Postcheck))) (Some Mark_Rolling_Back)"
| "run_stage E k p snapshot Postcheck = otherwise (bindS (postcheck p snapshot) (\<lambda>ok. ret (Some (if ok then Complete else Mark_Rolling_Back)))) (Some Mark_Rolling_Back)"
| "run_stage E k p snapshot Complete = bindS (mark E k ''completed'' []) (\<lambda>_. ret None)"
| "run_stage E k p snapshot Mark_Rolling_Back = bindS (mark E k ''rolling_back'' [(''error'', JStr ''effect or postcheck failed; bounded rollback started'')]) (\<lambda>_. ret (Some Rollback))"
| "run_stage E k p snapshot Rollback = otherwise (bindS (rollback_effect p snapshot) (\<lambda>_. ret (Some Rollback_Postcheck))) (Some (Settle ''reconcile_required''))"
| "run_stage E k p snapshot Rollback_Postcheck =
     otherwise (bindS (rollback_postcheck p snapshot) (\<lambda>ok. ret (Some (Settle (if ok then ''rolled_back'' else ''reconcile_required''))))) (Some (Settle ''reconcile_required''))"
| "run_stage E k p snapshot (Settle st) = bindS (mark E k st [(''error'', settle_error st)]) (\<lambda>_. ret None)"

fun stages_left :: "stage \<Rightarrow> nat" where
  "stages_left Apply = 6"
| "stages_left Mark_Postchecking = 5"
| "stages_left Postcheck = 4"
| "stages_left Complete = 0"
| "stages_left Mark_Rolling_Back = 3"
| "stages_left Rollback = 2"
| "stages_left Rollback_Postcheck = 1"
| "stages_left (Settle st) = 0"

lemma otherwise_iff [eff_iffs]: "otherwise m y s = (Inr x, s') \<longleftrightarrow> m s = (Inr x, s') \<or> (\<exists>e. m s = (Inl e, s') \<and> x = y)"
  by (auto simp: otherwise_def catch_def ret_def split: prod.splits sum.splits)

lemma stages_shrink: "run_stage E k p snapshot g s = (Inr (Some g'), s') \<Longrightarrow> stages_left g' < stages_left g"
  by (cases g) (auto simp: eff_iffs)

function run_stages :: "env \<Rightarrow> string \<Rightarrow> dict \<Rightarrow> bool \<times> int \<Rightarrow> stage \<Rightarrow> (actions_db, unit) eff" where
  "run_stages E k p snapshot g s = (case run_stage E k p snapshot g s of
       (Inl e, s') \<Rightarrow> (Inl e, s')
     | (Inr None, s') \<Rightarrow> (Inr (), s')
     | (Inr (Some g'), s') \<Rightarrow> run_stages E k p snapshot g' s')"
  by pat_completeness auto

termination
  by (relation "measure (\<lambda>(E, k, p, snapshot, g, s). stages_left g)") (auto dest: stages_shrink [OF sym])
lemma run_stages_simps: "run_stage E k p snapshot g s = (Inr None, s') \<Longrightarrow> run_stages E k p snapshot g s = (Inr (), s')"
  "run_stage E k p snapshot g s = (Inr (Some g'), s') \<Longrightarrow> run_stages E k p snapshot g s = run_stages E k p snapshot g' s'"
  "run_stage E k p snapshot g s = (Inl e, s') \<Longrightarrow> run_stages E k p snapshot g s = (Inl e, s')"
  by simp_all

declare run_stages.simps [simp del]

lemma otherwise_run: "otherwise m y s = (case m s of (Inl e, s') \<Rightarrow> (Inr y, s') | (Inr x, s') \<Rightarrow> (Inr x, s'))"
  by (simp add: otherwise_def catch_def ret_def split: prod.split sum.split)

lemma run_settle: "run_stages E k p snapshot (Settle st) s = mark E k st [(''error'', settle_error st)] s"
  by (cases "mark E k st [(''error'', settle_error st)] s"; cases "fst (mark E k st [(''error'', settle_error st)] s)")
     (simp_all add: run_stages.simps [of _ _ _ _ "Settle st"] bindS_def ret_def)

lemma run_rollback: "run_stages E k p snapshot Rollback s = bindS (undo p snapshot) (\<lambda>st. mark E k st [(''error'', settle_error st)]) s"
proof -
  obtain x s1 where a: "rollback_effect p snapshot s = (x, s1)" by fastforce
  obtain y s2 where b: "rollback_postcheck p snapshot s1 = (y, s2)" by fastforce
  show ?thesis
    by (cases x; cases y)
       (simp_all add: run_stages.simps [of _ _ _ _ Rollback] run_stages.simps [of _ _ _ _ Rollback_Postcheck] otherwise_run undo_def catch_def bindS_def ret_def a b run_settle)
qed

lemma run_back: "run_stages E k p snapshot Mark_Rolling_Back s = recover_effect E k p snapshot s"
proof -
  let ?m = "mark E k ''rolling_back'' [(''error'', JStr ''effect or postcheck failed; bounded rollback started'')]"
  obtain x s1 where a: "?m s = (x, s1)" by fastforce
  show ?thesis by (cases x) (simp_all add: run_stages.simps [of _ _ _ _ Mark_Rolling_Back] recover_effect_def bindS_def ret_def a run_rollback)
qed

lemma run_complete: "run_stages E k p snapshot Complete s = mark E k ''completed'' [] s"
  by (cases "mark E k ''completed'' [] s"; cases "fst (mark E k ''completed'' [] s)")
     (simp_all add: run_stages.simps [of _ _ _ _ Complete] bindS_def ret_def)

lemma run_apply: "run_stages E k p snapshot Apply s = finish E k p snapshot s"
proof -
  obtain x s1 where a: "apply_effect p snapshot s = (x, s1)" by fastforce
  obtain y s2 where b: "mark E k ''postchecking'' [] s1 = (y, s2)" by fastforce
  obtain z s3 where c: "postcheck p snapshot s2 = (z, s3)" by fastforce
  show ?thesis
    by (cases x; cases y; cases z)
       (auto simp: run_stages.simps [of _ _ _ _ Apply] run_stages.simps [of _ _ _ _ Mark_Postchecking] run_stages.simps [of _ _ _ _ Postcheck]
          otherwise_run finish_def attempt_def bindS_def ret_def check_def a b c run_back run_complete)
qed

section \<open>The running service\<close>

record action_sys =
  as_cfg :: action_cfg
  as_threads :: "(string \<times> dict \<times> (bool \<times> int) \<times> stage) list"
  as_db :: actions_db

datatype action_call =
  Ingest json
| Propose json
| Approve string json
| Refresh string json
| Cancel string
| Seed string bool int

abbreviation discard :: "('s, 'a) eff \<Rightarrow> ('s, unit) eff" where
  "discard m \<equiv> bindS m (\<lambda>_. ret ())"

fun run_action_call :: "env \<Rightarrow> action_cfg \<Rightarrow> calendar \<Rightarrow> action_call \<Rightarrow> (actions_db, unit) eff" where
  "run_action_call E cfg C (Ingest v) = discard (ingest_evidence E cfg C v)"
| "run_action_call E cfg C (Propose v) = discard (action_propose E cfg C v)"
| "run_action_call E cfg C (Approve k v) = discard (action_approve E cfg C k v)"
| "run_action_call E cfg C (Refresh k v) = discard (action_refresh E cfg C k v)"
| "run_action_call E cfg C (Cancel k) = discard (action_cancel E k)"
| "run_action_call E cfg C (Seed target h v) = seed_synthetic target h v"

inductive action_step :: "env \<Rightarrow> calendar \<Rightarrow> action_sys \<Rightarrow> action_sys \<Rightarrow> bool" for E C where
  call: "action_step E C y (y\<lparr>as_db := snd (run_action_call E (as_cfg y) C c (as_db y))\<rparr>)"
| start: "execute_start E (as_cfg y) C k (as_db y) = (Inr (p, snapshot), s')
    \<Longrightarrow> action_step E C y (y\<lparr>as_threads := (k, p, snapshot, Apply) # as_threads y, as_db := s'\<rparr>)"
| refused: "execute_start E (as_cfg y) C k (as_db y) = (Inl e, s') \<Longrightarrow> action_step E C y (y\<lparr>as_db := s'\<rparr>)"
| advance: "as_threads y = before @ (k, p, snapshot, g) # behind \<Longrightarrow> run_stage E k p snapshot g (as_db y) = (x, s')
    \<Longrightarrow> action_step E C y (y\<lparr>as_threads := before @ (case x of Inr (Some g') \<Rightarrow> [(k, p, snapshot, g')] | _ \<Rightarrow> []) @ behind, as_db := s'\<rparr>)"
| restart: "open_ledger E C data monitoring = Inr cfg \<Longrightarrow> reopen E (as_db y) = (Inr (), s')
    \<Longrightarrow> action_step E C y \<lparr>as_cfg = cfg, as_threads = [], as_db = s'\<rparr>"

fun stage_fits :: "stage \<Rightarrow> string \<Rightarrow> bool" where
  "stage_fits Apply st = (st = ''running'')"
| "stage_fits Mark_Postchecking st = (st = ''running'')"
| "stage_fits Postcheck st = (st = ''postchecking'')"
| "stage_fits Complete st = (st = ''postchecking'')"
| "stage_fits Mark_Rolling_Back st = (st \<in> {''running'', ''postchecking''})"
| "stage_fits Rollback st = (st = ''rolling_back'')"
| "stage_fits Rollback_Postcheck st = (st = ''rolling_back'')"
| "stage_fits (Settle st') st = (st = ''rolling_back'' \<and> st' \<in> {''rolled_back'', ''reconcile_required''})"

definition thread_ok :: "actions_db \<Rightarrow> string \<times> dict \<times> (bool \<times> int) \<times> stage \<Rightarrow> bool" where
  "thread_ok s t = (case t of (k, p, snapshot, g) \<Rightarrow> \<exists>r. find_by a_id (action_rows s) k = Some r \<and> stage_fits g (a_state r))"

definition action_sys_inv :: "env \<Rightarrow> action_sys \<Rightarrow> bool" where
  "action_sys_inv E y \<longleftrightarrow> action_inv E (as_db y) \<and> distinct (map fst (as_threads y)) \<and> (\<forall>t \<in> set (as_threads y). thread_ok (as_db y) t)"

lemma fits_in_flight: "stage_fits g st \<Longrightarrow> in_flight st"
  by (cases g) (auto simp: in_flight_def)

lemma quiet_threads: "quiet s s' \<Longrightarrow> thread_ok s t \<Longrightarrow> thread_ok s' t"
  unfolding quiet_def thread_ok_def using fits_in_flight by (auto split: prod.splits) blast

lemma apart_threads: "thread_ok s t \<Longrightarrow> fst t \<noteq> k \<Longrightarrow> (\<And>j. j \<noteq> k \<Longrightarrow> find_by a_id (action_rows s') j = find_by a_id (action_rows s) j) \<Longrightarrow> thread_ok s' t"
  by (auto simp: thread_ok_def split: prod.splits)

lemma snd_discard: "snd (discard m s) = snd (m s)"
  by (auto simp: bindS_def ret_def split: prod.splits sum.splits)

lemma ingest_failed: "ingest_evidence E cfg C v s = (Inl e, s') \<Longrightarrow> same_tables s s'"
  unfolding ingest_evidence_def Let_def by (auto simp: eff_iffs dest!: tx_failed) (auto simp: same_tables_def restore_def)

lemma outcomes: "(\<And>x s'. m s = (Inr x, s') \<Longrightarrow> P s') \<Longrightarrow> (\<And>e s'. m s = (Inl e, s') \<Longrightarrow> P s') \<Longrightarrow> P (snd (m s))"
  by (cases "m s") (metis snd_conv sum.exhaust)

lemma call_failed:
  "action_propose E cfg C v s = (Inl e, s') \<Longrightarrow> same_tables s s'" "action_approve E cfg C k v s = (Inl e, s') \<Longrightarrow> same_tables s s'"
  "action_refresh E cfg C k v s = (Inl e, s') \<Longrightarrow> same_tables s s'" "action_cancel E k s = (Inl e, s') \<Longrightarrow> same_tables s s'"
  "execute_start E cfg C k s = (Inl e, s') \<Longrightarrow> same_tables s s'"
  unfolding action_propose_def action_approve_def action_refresh_def action_cancel_def execute_start_def Let_def
  by (auto simp: bindS_Inl_iff check_Inl_iff check_Inr_iff dest: tx_failed)

lemma action_call_after:
  assumes inv: "action_inv E s" shows "action_after E s (snd (run_action_call E cfg C c s)) \<and> quiet s (snd (run_action_call E cfg C c s))"
proof -
  have failed: "same_tables s s' \<Longrightarrow> action_after E s s' \<and> quiet s s'" for s'
    using inv by (simp add: same_tables_after same_tables_quiet)
  show ?thesis
  proof (cases c)
    case (Ingest v)
    show ?thesis unfolding Ingest run_action_call.simps snd_discard
      by (rule outcomes) (use ingest_spec [OF inv] failed [OF ingest_failed] in blast)+
  next
    case (Propose v)
    show ?thesis unfolding Propose run_action_call.simps snd_discard
      by (rule outcomes) (use action_propose_spec [OF inv] failed [OF call_failed(1)] in blast)+
  next
    case (Approve k v)
    show ?thesis unfolding Approve run_action_call.simps snd_discard
      by (rule outcomes) (use approve_spec [OF inv] failed [OF call_failed(2)] in blast)+
  next
    case (Refresh k v)
    show ?thesis unfolding Refresh run_action_call.simps snd_discard
      by (rule outcomes) (use refresh_spec [OF inv] failed [OF call_failed(3)] in blast)+
  next
    case (Cancel k)
    show ?thesis unfolding Cancel run_action_call.simps snd_discard
      by (rule outcomes) (use cancel_spec [OF inv] failed [OF call_failed(4)] in blast)+
  next
    case (Seed target h v)
    have "seed_synthetic target h v s = (Inl e, s') \<Longrightarrow> same_tables s s'" for e s' using seed_failed [of target h v s e s'] by simp
    then show ?thesis unfolding Seed run_action_call.simps
      by (intro outcomes [where m = "seed_synthetic target h v" and P = "\<lambda>t. action_after E s t \<and> quiet s t"]) (use seed_spec [OF inv] failed in blast)+
  qed
qed
lemma mark_spec:
  assumes "action_inv E s" "find_by a_id (action_rows s) k = Some r" "in_flight (a_state r)" "action_edge (a_state r) st" "cs = [] \<or> cs = [(''error'', w)]"
  shows "\<exists>s' r'. mark E k st cs s = (Inr (), s') \<and> action_after E s s' \<and> synthetic_rows s' = synthetic_rows s \<and> find_by a_id (action_rows s') k = Some r' \<and> a_state r' = st \<and> same_action r r'
    \<and> (\<forall>j. j \<noteq> k \<longrightarrow> find_by a_id (action_rows s') j = find_by a_id (action_rows s) j)"
proof -
  obtain x s' where t: "action_transition E k st cs s = (x, s')" by fastforce
  moreover have "mark E k st cs s = (x, s')" using mark_transition [OF assms(1,2)] assms(5) t by fastforce
  ultimately show ?thesis using flight_spec [OF assms(1-4) t assms(5)] by auto
qed

definition stage_done :: "env \<Rightarrow> string \<Rightarrow> dict \<Rightarrow> bool \<times> int \<Rightarrow> stage option res \<Rightarrow> actions_db \<Rightarrow> actions_db \<Rightarrow> bool" where
  "stage_done E k p snapshot x s s' \<longleftrightarrow> action_after E s s' \<and> (\<forall>j. j \<noteq> k \<longrightarrow> find_by a_id (action_rows s') j = find_by a_id (action_rows s) j)
     \<and> (case x of Inl e \<Rightarrow> False | Inr None \<Rightarrow> True | Inr (Some g) \<Rightarrow> thread_ok s' (k, p, snapshot, g))"

lemma read_stage: "synthetic_state target s = (x, s') \<Longrightarrow> s' = s"
  by (auto simp: synthetic_state_def bindS_def gets_def raise_def ret_def split: option.splits)

lemma seed_stage:
  assumes "action_inv E s" "find_by a_id (action_rows s) k = Some r" "seed_synthetic target h v s = (y, s')"
  shows "action_after E s s' \<and> action_rows s' = action_rows s"
proof (cases y)
  case (Inl e)
  then show ?thesis using seed_failed [of target h v s e s'] assms by (simp add: action_after_refl)
next
  case (Inr u)
  then show ?thesis using seed_spec [OF assms(1), of target h v u s'] assms(3) by simp
qed

lemma stage_after:
  assumes inv: "action_inv E s" and ok: "thread_ok s (k, p, snapshot, g)" and run: "run_stage E k p snapshot g s = (x, s')"
  shows "stage_done E k p snapshot x s s'"
proof -
  from ok obtain r where r: "find_by a_id (action_rows s) k = Some r" and fits: "stage_fits g (a_state r)" by (auto simp: thread_ok_def)
  have marked: "stage_done E k p snapshot x s s'"
    if "bindS (mark E k st cs) (\<lambda>_. ret h) s = (x, s') \<or> otherwise (bindS (mark E k st cs) (\<lambda>_. ret h)) h' s = (x, s')" "action_edge (a_state r) st" "cs = [] \<or> cs = [(''error'', w)]"
      "\<And>g'. h = Some g' \<Longrightarrow> stage_fits g' st" for st cs h h' w
  proof -
    from mark_spec [OF inv r fits_in_flight [OF fits] that(2,3)] obtain t r' where t: "mark E k st cs s = (Inr (), t)" "action_after E s t"
      "find_by a_id (action_rows t) k = Some r'" "a_state r' = st" "\<forall>j. j \<noteq> k \<longrightarrow> find_by a_id (action_rows t) j = find_by a_id (action_rows s) j" by blast
    then have "x = Inr h" "s' = t" using that(1) by (auto simp: bindS_def ret_def otherwise_run)
    then show ?thesis using t that(4) by (auto simp: stage_done_def thread_ok_def split: option.split)
  qed
  have seeded: "stage_done E k p snapshot x s s'"
    if "otherwise (bindS (seed_synthetic target h v) (\<lambda>_. ret (Some g1))) (Some g2) s = (x, s')" "stage_fits g1 (a_state r)" "stage_fits g2 (a_state r)" for target h v g1 g2
  proof -
    obtain y t where t: "seed_synthetic target h v s = (y, t)" by fastforce
    have "s' = t" "x = Inr (Some (if isl y then g2 else g1))" using that(1) t by (cases y; simp add: otherwise_run bindS_def ret_def)+
    then show ?thesis using seed_stage [OF inv r t] that(2,3) r by (simp add: stage_done_def thread_ok_def)
  qed
  have looked: "stage_done E k p snapshot x s s'"
    if "otherwise (bindS (bindS (synthetic_state target) (\<lambda>st. ret (f st))) (\<lambda>b. ret (Some (if b then g1 else g2)))) (Some g2) s = (x, s')" "stage_fits g1 (a_state r)" "stage_fits g2 (a_state r)" for target f g1 g2
  proof -
    obtain y where "synthetic_state target s = (y, s)" using read_stage by (cases "synthetic_state target s") blast
    then show ?thesis using that r action_after_refl [OF inv] by (cases y) (simp_all add: otherwise_run bindS_def ret_def stage_done_def, auto simp: thread_ok_def)
  qed
  show ?thesis
  proof (cases g)
    case Apply
    then show ?thesis using run fits by (intro seeded) (simp add: apply_effect_def, simp_all)
  next
    case Mark_Postchecking
    then show ?thesis using run fits by (intro marked [of "''postchecking''" "[]"]) auto
  next
    case Postcheck
    then show ?thesis using run fits by (intro looked) (simp add: postcheck_def, simp_all)
  next
    case Complete
    then show ?thesis using run fits by (intro marked [of "''completed''" "[]"]) auto
  next
    case Mark_Rolling_Back
    then show ?thesis using run fits by (intro marked [of "''rolling_back''" _ "Some Rollback"]) auto
  next
    case Rollback
    then show ?thesis using run fits by (intro seeded) (simp add: rollback_effect_def, simp_all)
  next
    case Rollback_Postcheck
    then show ?thesis using run fits
      by (intro looked [of "target_of p" "\<lambda>st. st = snapshot" "Settle ''rolled_back''" "Settle ''reconcile_required''"]) (simp_all add: rollback_postcheck_def if_distrib [of Settle])
  next
    case (Settle st)
    then show ?thesis using run fits by (intro marked [of st "[(''error'', settle_error st)]" None None]) auto
  qed
qed

lemma action_step_after:
  assumes "action_step E C y y'" "action_sys_inv E y"
  shows "action_sys_inv E y' \<and> table_moves a_id action_moves (action_rows (as_db y)) (action_rows (as_db y'))"
  using assms
proof cases
  case (call c)
  then show ?thesis using action_call_after [of E "as_db y" "as_cfg y" C c] assms(2) by (auto simp: action_sys_inv_def action_after_def intro: quiet_threads)
next
  case (start k p snapshot s')
  have inv: "action_inv E (as_db y)" using assms(2) by (simp add: action_sys_inv_def)
  from start_spec [OF inv start(2)] obtain r r' where r: "find_by a_id (action_rows (as_db y)) k = Some r" "a_state r = ''approved''"
      "find_by a_id (action_rows s') k = Some r'" "a_state r' = ''running''" "action_after E (as_db y) s'" "quiet (as_db y) s'"
    by (auto simp: executable_def Let_def)
  have "k \<notin> fst ` set (as_threads y)"
  proof
    assume "k \<in> fst ` set (as_threads y)"
    then obtain p' sn g where "thread_ok (as_db y) (k, p', sn, g)" using assms(2) by (fastforce simp: action_sys_inv_def)
    then show False using r(1,2) fits_in_flight by (fastforce simp: thread_ok_def in_flight_def)
  qed
  then show ?thesis using start(1) r assms(2) by (auto simp: action_sys_inv_def action_after_def thread_ok_def [of s' "(k, _)"] intro: quiet_threads)
next
  case (refused k e s')
  then show ?thesis using same_tables_after [OF call_failed(5)] same_tables_quiet [OF call_failed(5)] assms(2)
    by (fastforce simp: action_sys_inv_def action_after_def intro: quiet_threads)
next
  case (advance before k p snapshot g behind x s')
  have "thread_ok (as_db y) (k, p, snapshot, g)" "action_inv E (as_db y)" using assms(2) advance(2) by (auto simp: action_sys_inv_def)
  then have d: "stage_done E k p snapshot x (as_db y) s'" using stage_after advance(3) by blast
  have other: "thread_ok s' t" if "t \<in> set before \<union> set behind" for t
  proof -
    have "fst t \<noteq> k" using that assms(2) advance(2) by (force simp: action_sys_inv_def)
    then show ?thesis using apart_threads [of "as_db y" t k s'] that d assms(2) advance(2) by (auto simp: action_sys_inv_def stage_done_def)
  qed
  show ?thesis
    using d other assms(2) advance(1,2) by (auto simp: action_sys_inv_def stage_done_def action_after_def split: sum.splits option.splits)
next
  case (restart data monitoring cfg s')
  then show ?thesis using reopen_spec [OF _ restart(3)] assms(2) by (auto simp: action_sys_inv_def action_after_def)
qed

lemma action_run_after:
  "(action_step E C)\<^sup>*\<^sup>* y y' \<Longrightarrow> action_sys_inv E y \<Longrightarrow> action_sys_inv E y' \<and> table_moves a_id action_moves (action_rows (as_db y)) (action_rows (as_db y'))"
proof (induction rule: rtranclp_induct)
  case base
  then show ?case by (simp add: am.table_refl)
next
  case (step u v)
  then show ?case using action_step_after [OF step.hyps(2)] by (auto intro: am.table_trans)
qed
section \<open>An execution among other calls\<close>

text \<open>
  \<open>interleaved E C k y n z\<close>: the service came from \<open>y\<close> to \<open>z\<close> by \<open>n\<close> stages of the execution of \<open>k\<close> and any other
  steps between them, among them calls, other executions and their stages. A restart, which ends the execution, is one of these
  steps only when the execution is over.
\<close>

definition stage_of :: "string \<Rightarrow> action_sys \<Rightarrow> stage option" where
  "stage_of k y = map_option (\<lambda>(p, snapshot, g). g) (map_of (as_threads y) k)"

inductive interleaved :: "env \<Rightarrow> calendar \<Rightarrow> string \<Rightarrow> action_sys \<Rightarrow> nat \<Rightarrow> action_sys \<Rightarrow> bool" for E C k y where
  here: "interleaved E C k y 0 y"
| between: "interleaved E C k y n z \<Longrightarrow> action_step E C z z' \<Longrightarrow> stage_of k z' = stage_of k z \<Longrightarrow> interleaved E C k y n z'"
| own: "interleaved E C k y n z \<Longrightarrow> as_threads z = before @ (k, p, snapshot, g) # behind \<Longrightarrow> run_stage E k p snapshot g (as_db z) = (x, s')
    \<Longrightarrow> interleaved E C k y (Suc n) (z\<lparr>as_threads := before @ (case x of Inr (Some g') \<Rightarrow> [(k, p, snapshot, g')] | _ \<Rightarrow> []) @ behind, as_db := s'\<rparr>)"

abbreviation over :: "string option \<Rightarrow> bool" where
  "over st \<equiv> st \<in> {Some ''completed'', Some ''rolled_back'', Some ''reconcile_required''}"

lemma over_stays:
  assumes "table_moves a_id action_moves rs rs'" "over (states a_id a_state rs k)"
  shows "over (states a_id a_state rs' k)"
proof -
  obtain r where r: "find_by a_id rs k = Some r" "a_state r \<in> {''completed'', ''rolled_back'', ''reconcile_required''}"
    using assms(2) by (auto simp: states_def)
  then obtain r' where r': "find_by a_id rs' k = Some r'" "action_edge\<^sup>*\<^sup>* (a_state r) (a_state r')"
    using assms(1) by (auto simp: table_moves_def action_moves_def)
  have "a_state r' = a_state r" using r'(2) r(2) by (induction rule: rtranclp_induct) (auto simp: action_edge_def)
  then show ?thesis using r r' by (auto simp: states_def)
qed

lemma last_stage:
  assumes inv: "action_inv E s" and ok: "thread_ok s (k, p, snapshot, g)" and run: "run_stage E k p snapshot g s = (Inr None, s')"
  shows "over (states a_id a_state (action_rows s') k)"
proof -
  from ok obtain r where r: "find_by a_id (action_rows s) k = Some r" and fits: "stage_fits g (a_state r)" by (auto simp: thread_ok_def)
  have marked: "over (states a_id a_state (action_rows s') k)"
    if "bindS (mark E k st cs) (\<lambda>_. ret None) s = (Inr None, s')" "action_edge (a_state r) st" "cs = [] \<or> cs = [(''error'', w)]" "over (Some st)" for st cs w
    using mark_spec [OF inv r fits_in_flight [OF fits] that(2,3)] that(1,4) by (auto simp: eff_iffs states_def)
  show ?thesis
  proof (cases g)
    case Complete
    then show ?thesis using run fits by (intro marked [of "''completed''" "[]"]) auto
  next
    case (Settle st)
    then show ?thesis using run fits by (intro marked [of st "[(''error'', settle_error st)]"]) auto
  qed (use run in \<open>auto simp: eff_iffs\<close>)
qed

lemma stage_of_thread: "distinct (map fst (as_threads y)) \<Longrightarrow> (k, p, snapshot, g) \<in> set (as_threads y) \<Longrightarrow> stage_of k y = Some g"
  by (force simp: stage_of_def)

lemma stage_gone: "stage_of k y = None \<longleftrightarrow> k \<notin> fst ` set (as_threads y)"
  by (auto simp: stage_of_def map_of_eq_None_iff)

lemma interleaved_ends:
  assumes "interleaved E C k y n z" and "action_sys_inv E y" and "stage_of k y = Some Apply"
  shows "action_sys_inv E z \<and> (case stage_of k z of Some g \<Rightarrow> n + stages_left g \<le> 6 | None \<Rightarrow> n \<le> 7 \<and> over (states a_id a_state (action_rows (as_db z)) k))"
  using assms
proof (induction rule: interleaved.induct)
  case here
  then show ?case by simp
next
  case (between n z z')
  then have "action_sys_inv E z'" "table_moves a_id action_moves (action_rows (as_db z)) (action_rows (as_db z'))"
    using action_step_after by blast+
  then show ?case using between over_stays by (auto split: option.splits)
next
  case (own n z before p snapshot g behind x s')
  let ?z = "z\<lparr>as_threads := before @ (case x of Inr (Some g') \<Rightarrow> [(k, p, snapshot, g')] | _ \<Rightarrow> []) @ behind, as_db := s'\<rparr>"
  have z: "action_sys_inv E z" using own by simp
  then have t: "action_inv E (as_db z)" "thread_ok (as_db z) (k, p, snapshot, g)" and d: "distinct (map fst (as_threads z))"
    using own.hyps(2) by (auto simp: action_sys_inv_def)
  have "(k, p, snapshot, g) \<in> set (as_threads z)" by (simp add: own.hyps(2))
  then have "stage_of k z = Some g" by (rule stage_of_thread [OF d])
  then have left: "n + stages_left g \<le> 6" using own by simp
  have "action_step E C z ?z" by (rule action_step.advance [OF own.hyps(2,3)])
  then have inv: "action_sys_inv E ?z" using action_step_after z by blast
  have "stage_done E k p snapshot x (as_db z) s'" by (rule stage_after [OF t own.hyps(3)])
  then obtain next' where x: "x = Inr next'" by (cases x) (auto simp: stage_done_def)
  show ?case
  proof (cases next')
    case None
    have "stage_of k ?z = None" using d own.hyps(2) by (auto simp: stage_gone x None)
    then show ?thesis using inv left last_stage [OF t own.hyps(3) [unfolded x None]] by simp
  next
    case (Some g')
    have "stages_left g' < stages_left g" using stages_shrink own.hyps(3) unfolding x Some by blast
    moreover have "stage_of k ?z = Some g'"
      by (rule stage_of_thread [where p = p and snapshot = snapshot]) (use inv in \<open>simp_all add: action_sys_inv_def x Some\<close>)
    ultimately show ?thesis using inv left by simp
  qed
qed

lemma stage_returns:
  assumes "action_sys_inv E z" "(k, p, snapshot, g) \<in> set (as_threads z)"
  shows "\<exists>next' s'. run_stage E k p snapshot g (as_db z) = (Inr next', s')"
proof -
  obtain x s' where r: "run_stage E k p snapshot g (as_db z) = (x, s')" by fastforce
  have "stage_done E k p snapshot x (as_db z) s'" using stage_after [OF _ _ r] assms by (auto simp: action_sys_inv_def)
  then show ?thesis using r by (cases x) (auto simp: stage_done_def)
qed

section \<open>How an execution ends\<close>

text \<open>Alone on its target, an execution either reaches the next version or puts the snapshot back.\<close>

lemma seed_sets:
  assumes "target \<in> set SYNTHETIC" "0 \<le> v" "v \<le> 100000"
  shows "\<exists>s'. seed_synthetic target h v s = (Inr (), s')"
  using assms by (auto simp: seed_synthetic_def bindS_def check_def transaction_def transaction_keeping_def modify_def)

lemma state_of: "find_by syn_target (synthetic_rows s) target = Some row \<Longrightarrow> synthetic_state target s = (Inr (syn_healthy row, syn_version row), s)"
  by (simp add: synthetic_state_def bindS_def gets_def ret_def)

lemma finish_completes:
  assumes inv: "action_inv E s" and r: "find_by a_id (action_rows s) k = Some r" "a_state r = ''running''"
    and t: "target_of p \<in> set SYNTHETIC" and v: "0 \<le> next_version p snapshot" "next_version p snapshot \<le> 100000"
  shows "\<exists>s' r' row. finish E k p snapshot s = (Inr (), s') \<and> action_after E s s' \<and> find_by a_id (action_rows s') k = Some r' \<and> a_state r' = ''completed''
    \<and> find_by syn_target (synthetic_rows s') (target_of p) = Some row \<and> syn_healthy row \<and> syn_version row = next_version p snapshot"
proof -
  obtain s1 where a: "apply_effect p snapshot s = (Inr (), s1)" using seed_sets [OF t v] unfolding apply_effect_def by blast
  have s1: "action_after E s s1" "action_rows s1 = action_rows s"
      "find_by syn_target (synthetic_rows s1) (target_of p) = Some \<lparr>syn_target = target_of p, syn_healthy = True, syn_version = next_version p snapshot\<rparr>"
    using seed_spec [OF inv a [unfolded apply_effect_def]] by simp_all
  have inv1: "action_inv E s1" and r1: "find_by a_id (action_rows s1) k = Some r" using s1 r by (simp_all add: action_after_def)
  obtain s2 r2 where m: "mark E k ''postchecking'' [] s1 = (Inr (), s2)" "action_after E s1 s2" "synthetic_rows s2 = synthetic_rows s1" "find_by a_id (action_rows s2) k = Some r2" "a_state r2 = ''postchecking''"
    using mark_spec [OF inv1 r1, of "''postchecking''" "[]"] r(2) by (auto simp: in_flight_def)
  have pc: "postcheck p snapshot s2 = (Inr True, s2)" using state_of [of s2 "target_of p"] s1(3) m(3) by (simp add: postcheck_def bindS_def ret_def)
  have inv2: "action_inv E s2" using m(2) by (simp add: action_after_def)
  obtain s3 r3 where c: "mark E k ''completed'' [] s2 = (Inr (), s3)" "action_after E s2 s3" "synthetic_rows s3 = synthetic_rows s2" "find_by a_id (action_rows s3) k = Some r3" "a_state r3 = ''completed''"
    using mark_spec [OF inv2 m(4), of "''completed''" "[]"] m(5) by (auto simp: in_flight_def)
  have "finish E k p snapshot s = (Inr (), s3)" using a m(1) pc c(1) by (simp add: finish_def attempt_def bindS_def check_def)
  moreover have "action_after E s s3" using s1(1) m(2) c(2) by (blast intro: action_after_trans)
  ultimately show ?thesis using c s1(3) m(3) by auto
qed

lemma finish_rolls_back:
  assumes inv: "action_inv E s" and r: "find_by a_id (action_rows s) k = Some r" "a_state r = ''running''"
    and t: "target_of p \<in> set SYNTHETIC" and v: "\<not> next_version p snapshot \<le> 100000" and snap: "0 \<le> snd snapshot" "snd snapshot \<le> 100000"
  shows "\<exists>s' r' row. finish E k p snapshot s = (Inr (), s') \<and> action_after E s s' \<and> find_by a_id (action_rows s') k = Some r' \<and> a_state r' = ''rolled_back''
    \<and> find_by syn_target (synthetic_rows s') (target_of p) = Some row \<and> (syn_healthy row, syn_version row) = snapshot"
proof -
  have a: "apply_effect p snapshot s = (Inl (ValueError ''invalid synthetic fixture''), s)" using v by (simp add: apply_effect_def seed_synthetic_def bindS_def check_def)
  obtain s1 r1 where m: "mark E k ''rolling_back'' [(''error'', JStr ''effect or postcheck failed; bounded rollback started'')] s = (Inr (), s1)" "action_after E s s1"
      "find_by a_id (action_rows s1) k = Some r1" "a_state r1 = ''rolling_back''"
    using mark_spec [OF inv r(1), of "''rolling_back''" "[(''error'', JStr ''effect or postcheck failed; bounded rollback started'')]"] r(2) by (auto simp: in_flight_def)
  have inv1: "action_inv E s1" using m(2) by (simp add: action_after_def)
  obtain s2 where b: "rollback_effect p snapshot s1 = (Inr (), s2)" using seed_sets [OF t snap] unfolding rollback_effect_def by blast
  have s2: "action_after E s1 s2" "action_rows s2 = action_rows s1"
      "find_by syn_target (synthetic_rows s2) (target_of p) = Some \<lparr>syn_target = target_of p, syn_healthy = fst snapshot, syn_version = snd snapshot\<rparr>"
    using seed_spec [OF inv1 b [unfolded rollback_effect_def]] by simp_all
  have inv2: "action_inv E s2" and f2: "find_by a_id (action_rows s2) k = Some r1" using s2 m by (simp_all add: action_after_def)
  have u: "undo p snapshot s1 = (Inr ''rolled_back'', s2)"
    using b state_of [OF s2(3)] by (simp add: undo_def catch_def rollback_postcheck_def bindS_def ret_def)
  obtain s3 r3 where c: "mark E k ''rolled_back'' [(''error'', settle_error ''rolled_back'')] s2 = (Inr (), s3)" "action_after E s2 s3" "synthetic_rows s3 = synthetic_rows s2"
      "find_by a_id (action_rows s3) k = Some r3" "a_state r3 = ''rolled_back''"
    using mark_spec [OF inv2 f2, of "''rolled_back''" "[(''error'', settle_error ''rolled_back'')]"] m(4) by (auto simp: in_flight_def)
  have "finish E k p snapshot s = (Inr (), s3)" using a m(1) u c(1) by (simp add: finish_def attempt_def recover_effect_def bindS_def)
  moreover have "action_after E s s3" using s2(1) m(2) c(2) by (blast intro: action_after_trans)
  ultimately show ?thesis using c s2(3) by auto
qed

lemma no_attempts:
  assumes inv: "action_inv E s" and r: "find_by a_id (action_rows s) k = Some r" "unstarted (a_state r)"
  shows "filter (\<lambda>q. a_action q = a_action r \<and> a_target q = a_target r \<and> a_incident q = a_incident r \<and> a_started_at q \<noteq> JNull) (action_rows s) = []"
proof -
  have "distinct (map (\<lambda>r. (a_action r, a_target r, a_incident r)) (action_rows s))" using inv by (simp add: action_inv_def)
  then have inj: "inj_on (\<lambda>r. (a_action r, a_target r, a_incident r)) (set (action_rows s))" by (simp add: distinct_map)
  have "a_started_at r = JNull" using action_inv_row(1) [OF inv r(1)] r(2) by (simp add: good_action_def)
  then show ?thesis using inj_onD [OF inj _ _ action_inv_row(3) [OF inv r(1)]] by (auto simp: filter_empty_conv)
qed
section \<open>A small ledger\<close>

definition action_env :: env where
  "action_env = \<lparr>clock = (\<lambda>n. flt_int (1000 + int n)), uuid4 = (\<lambda>n. ''a-'' @ int_text (int n)), token = (\<lambda>_. []), sha256 = (\<lambda>x. take 5 (drop 2 x)), float_text = (\<lambda>_. ''0'')\<rparr>"

definition small_calendar :: calendar where
  "small_calendar = \<lparr>fromisoformat = (\<lambda>t. Inr (True, if t = ''soon'' then flt_int 2000 else flt_int 990)), zone_info = (\<lambda>_. Inr ()), local_time = (\<lambda>_ _. Inr (0, 10, 0))\<rparr>"

definition small_policy :: dict where
  "small_policy = [(''id'', JStr ''recover''), (''target'', JStr ''synthetic-core''), (''environment'', JStr ''synthetic''), (''enabled'', JBool True),
     (''executor'', JStr ''synthetic-recover''), (''check_id'', JStr ''synthetic.health''), (''category'', JStr ''health''), (''status'', JStr ''degraded''),
     (''gates'', JArr []), (''approval'', JStr ''operator''), (''evidence_ttl_seconds'', JInt 60), (''approval_ttl_seconds'', JInt 60),
     (''maintenance_window'', JObj [(''timezone'', JStr ''UTC''), (''weekdays'', JArr [JInt 0]), (''start'', JStr ''09:00''), (''end'', JStr ''17:00'')]),
     (''cooldown_seconds'', JInt 60), (''max_attempts'', JInt 1), (''postcheck'', JStr ''synthetic-healthy''), (''rollback'', JStr ''synthetic-snapshot-once''), (''mechanism_refs'', JArr [])]"

definition small_cfg :: action_cfg where
  "small_cfg = \<lparr>policies = [(''recover'', small_policy)], registry_hash = ''reg''\<rparr>"

definition small_body :: dict where
  "small_body = [(''observation'', JObj [(''system_id'', JStr ''synthetic-core''), (''check_id'', JStr ''synthetic.health''), (''category'', JStr ''health''), (''status'', JStr ''degraded''),
      (''observed_at'', JStr ''now''), (''expires_at'', JStr ''soon'')]), (''incident_key'', JStr ''inc''), (''gates'', JObj [])]"

definition small_evidence :: evidence_row where
  "small_evidence = \<lparr>e_id = ''e'', e_sha = ''gates'', e_body = small_body, e_system = ''synthetic-core'', e_check = ''synthetic.health'', e_observed = JFlt (flt_int 990)\<rparr>"

definition small_action :: action_row where
  "small_action = \<lparr>a_id = ''a'', a_action = ''recover'', a_target = ''synthetic-core'', a_incident = ''inc'', a_evidence = ''e'', a_state = ''approved'', a_created = JFlt (flt_int 998),
     a_updated = JFlt (flt_int 999), a_policy = ''monit'', a_approval = JStr ''actio'', a_approved_at = JFlt (flt_int 999), a_started_at = JNull, a_snapshot = JNull,
     a_error = JNull, a_policy_json = policy_doc small_cfg small_policy\<rparr>"

definition small_ledger :: actions_db where
  "small_ledger = \<lparr>ticks = 0, ids = 1, tokens = 0, evidence_rows = [small_evidence], action_rows = [small_action],
     action_events = [\<lparr>ae_action = ''a'', ae_state = ''approved'', ae_at = JNull, ae_metadata = []\<rparr>],
     synthetic_rows = [\<lparr>syn_target = ''synthetic-core'', syn_healthy = False, syn_version = 3\<rparr>]\<rparr>"

definition small_sys :: action_sys where
  "small_sys = \<lparr>as_cfg = small_cfg, as_threads = [], as_db = small_ledger\<rparr>"

lemma small_digests:
  "digest_of action_env (JObj small_body) = ''gates''" "digest_of action_env (policy_doc small_cfg small_policy) = ''monit''"
  "digest_of action_env (bound_doc small_action ''gates'') = ''actio''"
  by code_simp+

lemma small_finite: "finite_json (policy_doc small_cfg small_policy)" "finite_json (JObj small_body)"
  by code_simp+

lemma small_good: "good_action action_env [small_evidence] small_action"
  using small_finite(1) small_digests(2,3) by (simp add: good_action_def bound_to_def small_evidence_def ACTION_STATES_def unstarted_def) (simp add: small_action_def)

lemma small_inv: "action_inv action_env small_ledger"
proof -
  have "evidence_ok action_env [small_evidence]" using small_finite(2) small_digests(1) by (simp add: evidence_ok_def small_evidence_def)
  moreover have "trail ae_action ae_state (action_events small_ledger) = states a_id a_state [small_action]" by (simp add: fun_eq_iff trail_def states_def small_ledger_def small_action_def)
  ultimately show ?thesis using small_good
    unfolding action_inv_def audited_def by (simp add: small_ledger_def table_ok_def at_most_one_def synthetic_ok_def)
qed

lemma small_sys_inv: "action_sys_inv action_env small_sys"
  using small_inv by (simp add: action_sys_inv_def small_sys_def)

lemma small_fields [simp]:
  "a_id small_action = ''a''" "a_action small_action = ''recover''" "a_target small_action = ''synthetic-core''" "a_incident small_action = ''inc''" "a_evidence small_action = ''e''"
  "a_state small_action = ''approved''" "a_policy small_action = ''monit''" "a_approval small_action = JStr ''actio''" "a_approved_at small_action = JFlt (flt_int 999)"
  "a_started_at small_action = JNull" "a_policy_json small_action = policy_doc small_cfg small_policy" "e_id small_evidence = ''e''" "e_body small_evidence = small_body" "e_sha small_evidence = ''gates''"
  by (simp_all add: small_action_def small_evidence_def)

text \<open>The first transaction on this ledger, check by check.\<close>

lemma small_checks:
  "map_of (policies small_cfg) ''recover'' = Some small_policy" "get small_policy ''enabled'' = JBool True" "get small_policy ''environment'' = JStr ''synthetic''"
  "get small_policy ''target'' = JStr ''synthetic-core''" "get small_policy ''executor'' = JStr ''synthetic-recover''" "int_of (get small_policy ''max_attempts'') = 1"
  "stamp small_calendar (get (dict_of (get small_body ''observation'')) ''observed_at'') = Inr (flt_int 990)"
  "stamp small_calendar (get (dict_of (get small_body ''observation'')) ''expires_at'') = Inr (flt_int 2000)"
  "clock action_env 0 = flt_int 1000" "clock action_env 1 = flt_int 1001"
  "in_window small_calendar (get small_policy ''maintenance_window'') (0, 10, 0) = Inr True" "compare_digest (JStr ''actio'') (JStr ''actio'') = Inr True"
  by code_simp+

lemma small_ttls: "int_of (get small_policy ''evidence_ttl_seconds'') = 60" "int_of (get small_policy ''approval_ttl_seconds'') = 60"
  by code_simp+

lemma small_observed:
  "get small_body ''incident_key'' = JStr ''inc''" "get (dict_of (get small_body ''observation'')) ''system_id'' = get small_policy ''target''" "get small_policy ''target'' = JStr ''synthetic-core''"
  "get (dict_of (get small_body ''observation'')) ''check_id'' = get small_policy ''check_id''" "get small_policy ''check_id'' = JStr ''synthetic.health''"
  "get (dict_of (get small_body ''observation'')) ''category'' = get small_policy ''category''" "get (dict_of (get small_body ''observation'')) ''status'' = get small_policy ''status''"
  "list_of (get small_policy ''gates'') = []"
  by code_simp+

lemma age_of_ints: "\<bar>a - b\<bar> \<le> 2 ^ 53 \<Longrightarrow> age_within (flt_int a) (flt_int b) n \<longleftrightarrow> 0 \<le> a - b \<and> a - b < n"
proof -
  assume "\<bar>a - b\<bar> \<le> 2 ^ 53"
  then have "fsub (flt_int a) (flt_int b) = flt_int (a - b)" using fl_int [of "a - b"] by (simp add: fsub_def)
  then show ?thesis unfolding age_within_def flt_le_def by (simp only: flt_less.simps flt_eq.simps) auto
qed

lemma small_fresh: "fresh_for small_cfg small_policy small_body ''inc'' ''e'' (flt_int 1000) (flt_int 990) (flt_int 2000) [small_evidence]"
proof -
  have "age_within (flt_int 1000) (flt_int 990) (int_of (get small_policy ''evidence_ttl_seconds''))"
    unfolding small_ttls by (subst age_of_ints) simp_all
  moreover have "latest_evidence ''synthetic-core'' ''synthetic.health'' [small_evidence] = Some ''e''" by code_simp
  ultimately show ?thesis unfolding fresh_for_def Let_def using small_observed by (simp add: flt_le_def)
qed

lemma never_started: "sql_less v JNull = False"
  by (simp add: sql_less_def num_of_def split: option.split)

lemma small_start: "\<exists>s'. execute_start action_env small_cfg small_calendar ''a'' small_ledger = (Inr (small_policy, (False, 3)), s')"
proof -
  let ?s = "small_ledger\<lparr>ticks := Suc (Suc 0)\<rparr>"
  have db: "action_rows small_ledger = [small_action]" "ticks small_ledger = 0" "synthetic_rows small_ledger = [\<lparr>syn_target = ''synthetic-core'', syn_healthy = False, syn_version = 3\<rparr>]"
    "local_time small_calendar z n = Inr (0, 10, 0)" for z n by (simp_all add: small_ledger_def small_calendar_def)
  have p: "preconditions action_env small_cfg small_calendar ''recover'' ''synthetic-core'' ''inc'' (JStr ''e'') (Some ''monit'') small_ledger = (Inr small_policy, small_ledger\<lparr>ticks := 1\<rparr>)"
    using small_checks small_digests small_finite small_fresh
    by (simp add: digest_def preconditions_def evidence_def small_ledger_def bindS_def check_def lift_def gets_def ret_def read_clock_def)
  have fin: "finite_json (bound_doc small_action ''gates'')" by code_simp
  obtain d where rv: "action_review action_env ''a'' ?s = (Inr d, ?s)" "get d ''approval_sha256'' = JStr ''actio''"
    using small_digests small_finite fin
    by (simp add: digest_def action_review_def fetch_action_def evidence_def audit_def small_ledger_def bindS_def check_def lift_def gets_def ret_def get_def get_or_def)
  have inv: "action_inv action_env ?s" and row: "find_by a_id (action_rows ?s) ''a'' = Some small_action" using small_inv by (simp, simp add: small_ledger_def)
  obtain s' where t: "action_transition action_env ''a'' ''running'' [(''started_at'', sql_real (flt_int 1001)), (''snapshot'', snapshot_doc (False, 3))] ?s = (Inr (), s')"
    using transition_runs [OF action_inv_row(4) [OF inv row] row, of small_evidence action_env "''gates''" "[(''started_at'', sql_real (flt_int 1001)), (''snapshot'', snapshot_doc (False, 3))]" "''running''"] small_digests small_finite
    by (auto simp: small_ledger_def)
  have "execute_start action_env small_cfg small_calendar ''a'' small_ledger = (Inr (small_policy, (False, 3)), s')"
    using p rv t db small_checks age_of_ints [of 1001 999 60]
    by (simp add: execute_start_def transaction_def transaction_keeping_def fetch_action_def approval_age_def num_of_def small_ttls prepare_def synthetic_state_def target_of_def blocks_def never_started
        bindS_def check_def lift_def gets_def ret_def read_clock_def)
  then show ?thesis by blast
qed

section \<open>Properties of the action ledger\<close>

text \<open>
  C30: through any interleaving of evidence, proposals, approvals, refreshes, cancellations, the stages of
  running executions and restarts, the ledger of controlled actions stays sound: identifiers and the
  triples of action, target and incident are unique; at most one action per target is running, checking,
  rolling back or waiting for reconciliation; an action that has started was approved with the digest
  of its own policy and of evidence that is on record, unchanged; and the last event of every
  action names its state.
\<close>

theorem action_invariant:
  assumes "(action_step E C)\<^sup>*\<^sup>* y y'" and "action_sys_inv E y"
  shows "distinct (map a_id (action_rows (as_db y'))) \<and> distinct (map (\<lambda>r. (a_action r, a_target r, a_incident r)) (action_rows (as_db y')))
    \<and> at_most_one a_id (\<lambda>q r. a_target q = a_target r \<and> unresolved q \<and> unresolved r) (set (action_rows (as_db y')))
    \<and> (\<forall>r \<in> set (action_rows (as_db y')). (a_started_at r = JNull \<longleftrightarrow> a_state r \<in> {''pending'', ''approved'', ''cancelled''})
        \<and> (a_state r \<notin> {''pending'', ''cancelled''} \<longrightarrow> bound_to E (evidence_rows (as_db y')) r))
    \<and> (\<forall>e \<in> set (evidence_rows (as_db y')). e_sha e = digest_of E (JObj (e_body e)))
    \<and> trail ae_action ae_state (action_events (as_db y')) = states a_id a_state (action_rows (as_db y'))"
  using action_run_after [OF assms]
  by (auto simp: action_sys_inv_def action_inv_def table_ok_def good_action_def evidence_ok_def audited_def unstarted_def)

theorem action_invariant_witness:
  "bound_to action_env (evidence_rows small_ledger) small_action \<and> trail ae_action ae_state (action_events small_ledger) ''a'' = Some ''approved''"
  using action_invariant [OF rtranclp.rtrancl_refl [of "action_step action_env small_calendar"] small_sys_inv]
  by (simp add: small_sys_def small_ledger_def states_def small_fields)

text \<open>
  C29: nothing is executed that is not approved, current and alone. When an execution starts, the action was
  approved; the policy in force is enabled, synthetic, for this target and has the digest that was
  approved; the evidence is the latest for its check, fresh, of the expected category and
  status with every gate true, and is the evidence the approval binds; the approval
  is younger than its limit (in exact arithmetic, for clock readings that are doubles);
  the local time is inside the maintenance window; no other action on the target is unresolved
  or started within the cooldown; and it is the first attempt. The action is then marked as running.
\<close>

theorem execute_sound:
  assumes inv: "action_inv E s" and ok: "execute_start E cfg C k s = (Inr (p, snapshot), s')"
    and dbl: "\<And>x. clock E (Suc (ticks s)) = Fin x \<Longrightarrow> double x" and ttl: "\<bar>int_of (get p ''approval_ttl_seconds'')\<bar> \<le> 900"
  shows "\<exists>r. find_by a_id (action_rows s) k = Some r \<and> executable E cfg C r p snapshot s \<and> states a_id a_state (action_rows s') k = Some ''running''
    \<and> (\<forall>x. a_approved_at r = JFlt (Fin x) \<and> double x \<longrightarrow> (\<exists>now. clock E (Suc (ticks s)) = Fin now \<and> x \<le> now \<and> now - x < of_int (int_of (get p ''approval_ttl_seconds''))))
    \<and> filter (\<lambda>q. a_action q = a_action r \<and> a_target q = a_target r \<and> a_incident q = a_incident r \<and> a_started_at q \<noteq> JNull) (action_rows s) = []"
proof -
  from start_spec [OF inv ok] obtain r r' where r: "find_by a_id (action_rows s) k = Some r" "executable E cfg C r p snapshot s"
    "find_by a_id (action_rows s') k = Some r'" "a_state r' = ''running''" by blast
  have "\<exists>now. clock E (Suc (ticks s)) = Fin now \<and> x \<le> now \<and> now - x < of_int (int_of (get p ''approval_ttl_seconds''))"
    if x: "a_approved_at r = JFlt (Fin x)" "double x" for x
  proof -
    have age: "age_within (clock E (Suc (ticks s))) (Fin x) (int_of (get p ''approval_ttl_seconds''))" using r(2) x(1) by (auto simp: executable_def Let_def num_of_def)
    then obtain now where now: "clock E (Suc (ticks s)) = Fin now" using age_within_finite by blast
    show ?thesis using age_within_exact [of now x] age now dbl [OF now] x(2) ttl by auto
  qed
  moreover have "unstarted (a_state r)" using r(2) by (simp add: executable_def Let_def unstarted_def)
  ultimately show ?thesis using r no_attempts [OF inv r(1)] by (auto simp: states_def)
qed

theorem execute_sound_witness:
  "\<exists>p snapshot s'. execute_start action_env small_cfg small_calendar ''a'' small_ledger = (Inr (p, snapshot), s') \<and> states a_id a_state (action_rows s') ''a'' = Some ''running''"
proof -
  from small_start obtain p snapshot s' where s: "execute_start action_env small_cfg small_calendar ''a'' small_ledger = (Inr (p, snapshot), s')" by blast
  from start_spec [OF small_inv s] have "p = small_policy"
    by (auto simp: executable_def Let_def cleared_def small_cfg_def split: if_splits)
  then have "\<bar>int_of (get p ''approval_ttl_seconds'')\<bar> \<le> 900" by (simp add: small_policy_def get_def get_or_def)
  moreover have "double x" if "clock action_env (Suc (ticks small_ledger)) = Fin x" for x
    using that fl_int [of 1001] by (simp add: action_env_def small_ledger_def double_def)
  ultimately have "states a_id a_state (action_rows s') ''a'' = Some ''running''" using execute_sound [OF small_inv s] by blast
  with s show ?thesis by blast
qed

text \<open>
  C31: an execution always ends. Whatever other calls, executions and stages of executions come between its own stages (but no restart of the
  process, which ends it by itself), none of its stages raises, there are at most seven of them, and when it is over the action is completed, rolled back or marked for reconciliation. With no other
  call in between, the sequence of its stages is the source's \<open>try\<close>, \<open>except\<close>, \<open>else\<close> block, and the action ends as completed with the target healthy at its next
  version, or, if the next version is out of range, as rolled back with the snapshot in place.
\<close>

theorem execute_outcome:
  assumes inv: "action_inv E s" and ok: "execute_start E cfg C k s = (Inr (p, snapshot), s1)"
  shows "(\<exists>s'. run_stages E k p snapshot Apply s1 = (Inr (), s') \<and> finish E k p snapshot s1 = (Inr (), s') \<and> action_inv E s'
    \<and> (if next_version p snapshot \<le> 100000
       then states a_id a_state (action_rows s') k = Some ''completed'' \<and> synthetic_state (target_of p) s' = (Inr (True, next_version p snapshot), s')
       else states a_id a_state (action_rows s') k = Some ''rolled_back'' \<and> synthetic_state (target_of p) s' = (Inr snapshot, s')))
    \<and> (\<forall>y n z. action_sys_inv E y \<and> stage_of k y = Some Apply \<and> interleaved E C k y n z \<longrightarrow>
        (if k \<in> fst ` set (as_threads z)
         then n < 7 \<and> (\<forall>q sn g. (k, q, sn, g) \<in> set (as_threads z) \<longrightarrow> (\<exists>next' s'. run_stage E k q sn g (as_db z) = (Inr next', s')))
         else n \<le> 7 \<and> states a_id a_state (action_rows (as_db z)) k \<in> {Some ''completed'', Some ''rolled_back'', Some ''reconcile_required''}))"
    (is "?alone \<and> ?among")
proof -
  from start_spec [OF inv ok] obtain r r' where r: "find_by a_id (action_rows s) k = Some r" "executable E cfg C r p snapshot s"
    "find_by a_id (action_rows s1) k = Some r'" "a_state r' = ''running''" "action_after E s s1" by blast
  then have inv1: "action_inv E s1" by (simp add: action_after_def)
  from r(2) obtain row where row: "find_by syn_target (synthetic_rows s) (target_of p) = Some row" "snapshot = (syn_healthy row, syn_version row)"
    by (auto simp: executable_def Let_def cleared_def target_of_def)
  then have t: "target_of p \<in> set SYNTHETIC" "0 \<le> snd snapshot" "snd snapshot \<le> 100000"
    using inv find_by_Some [OF row(1)] by (auto simp: action_inv_def synthetic_ok_def)
  have nonneg: "0 \<le> next_version p snapshot" using t(2) by (simp add: next_version_def)
  have ?alone
  proof (cases "next_version p snapshot \<le> 100000")
    case True
    from finish_completes [OF inv1 r(3,4) t(1) nonneg True] show ?thesis
      using True state_of by (fastforce simp: run_apply states_def action_after_def)
  next
    case False
    from finish_rolls_back [OF inv1 r(3,4) t(1) False t(2,3)] show ?thesis
      using False state_of by (fastforce simp: run_apply states_def action_after_def)
  qed
  moreover have ?among
  proof (intro allI impI, elim conjE)
    fix y n z
    assume y: "action_sys_inv E y" "stage_of k y = Some Apply" and run: "interleaved E C k y n z"
    note ends = interleaved_ends [OF run y]
    show "if k \<in> fst ` set (as_threads z)
         then n < 7 \<and> (\<forall>q sn g. (k, q, sn, g) \<in> set (as_threads z) \<longrightarrow> (\<exists>next' s'. run_stage E k q sn g (as_db z) = (Inr next', s')))
         else n \<le> 7 \<and> over (states a_id a_state (action_rows (as_db z)) k)"
    proof (cases "stage_of k z")
      case None
      then show ?thesis using ends stage_gone [of k z] by simp
    next
      case (Some g)
      then show ?thesis using ends stage_gone [of k z] stage_returns by auto
    qed
  qed
  ultimately show ?thesis by (rule conjI)
qed

theorem execute_outcome_witness:
  "\<exists>p snapshot s1 s' y. execute_start action_env small_cfg small_calendar ''a'' small_ledger = (Inr (p, snapshot), s1) \<and> run_stages action_env ''a'' p snapshot Apply s1 = (Inr (), s')
     \<and> action_step action_env small_calendar small_sys y \<and> action_sys_inv action_env y \<and> stage_of ''a'' y = Some Apply
     \<and> (\<exists>next' s2. run_stage action_env ''a'' p snapshot Apply (as_db y) = (Inr next', s2))"
proof -
  obtain s1 where run: "execute_start action_env small_cfg small_calendar ''a'' small_ledger = (Inr (small_policy, (False, 3)), s1)" using small_start by blast
  let ?y = "small_sys\<lparr>as_threads := [(''a'', small_policy, (False, 3), Apply)], as_db := s1\<rparr>"
  have step: "action_step action_env small_calendar small_sys ?y"
    using action_step.start [of action_env small_sys small_calendar "''a''" small_policy "(False, 3)" s1] run by (simp add: small_sys_def)
  then have inv: "action_sys_inv action_env ?y" using action_step_after small_sys_inv by blast
  have st: "stage_of ''a'' ?y = Some Apply" "(''a'', small_policy, (False, 3), Apply) \<in> set (as_threads ?y)" "''a'' \<in> fst ` set (as_threads ?y)" by (simp_all add: stage_of_def)
  note outcome = execute_outcome [OF small_inv run]
  have "\<exists>next' s2. run_stage action_env ''a'' small_policy (False, 3) Apply (as_db ?y) = (Inr next', s2)"
    using outcome [THEN conjunct2, rule_format, OF conjI [OF inv conjI [OF st(1) interleaved.here]]] st(2) unfolding if_P [OF st(3)] by blast
  then show ?thesis using outcome [THEN conjunct1] run step inv st(1) by blast
qed
end
