(* ===== verification/Mcp_Adapter.thy ===== *)
theory Mcp_Adapter
  imports Codex_Ledger Action_Ledger
begin

text \<open>
  \<open>deploy/codex-worker/mcp_adapter.py\<close>: the tools an assistant may call over MCP, the check of their
  arguments, the dispatch of a JSON-RPC message and the HTTP boundary before it. The state joins the
  databases of the two ledgers with the state of the other backends, whose requests are parameters. Decoding the body
  (\<open>json.loads\<close>) is the parameter \<open>loads\<close>, and budgets count the bytes of the encoded text.
\<close>

section \<open>The ledger behind the adapter\<close>

record 'x gateway =
  task_db :: broker
  action_db :: actions_db
  other_db :: 'x

definition on_tasks :: "(broker, 'a) eff \<Rightarrow> ('x gateway, 'a) eff" where
  "on_tasks m g = (case m (task_db g) of (r, t) \<Rightarrow> (r, g\<lparr>task_db := t\<rparr>))"

definition on_actions :: "(actions_db, 'a) eff \<Rightarrow> ('x gateway, 'a) eff" where
  "on_actions m g = (case m (action_db g) of (r, t) \<Rightarrow> (r, g\<lparr>action_db := t\<rparr>))"

definition on_others :: "('x, 'a) eff \<Rightarrow> ('x gateway, 'a) eff" where
  "on_others m g = (case m (other_db g) of (r, t) \<Rightarrow> (r, g\<lparr>other_db := t\<rparr>))"

record 'x infrastructure_api =
  registered_systems :: "dict list"
  read_system :: "json \<Rightarrow> ('x, json) eff"
  compact_report :: "json \<Rightarrow> json res"

record 'x home_assistant_api =
  ha_validate :: "json \<Rightarrow> json res"
  ha_request :: "string \<Rightarrow> dict \<Rightarrow> ('x, json) eff"

record 'x services_api =
  service_tools :: "dict list"
  service_validate :: "string \<Rightarrow> json \<Rightarrow> json res"
  service_request :: "string \<Rightarrow> json \<Rightarrow> ('x, json) eff"

text \<open>An attribute the ledger does not have is \<open>None\<close>.\<close>

record 'x mcp_ledger =
  task_env :: env
  task_projects :: dict
  actions :: "(env \<times> action_cfg \<times> calendar) option"
  infrastructure :: "'x infrastructure_api option"
  home_assistant :: "'x home_assistant_api option"
  maintenance :: "(string \<Rightarrow> dict \<Rightarrow> ('x, json) eff) option"
  services :: "'x services_api option"
  operations_search :: "(dict \<Rightarrow> ('x, json) eff) option"

section \<open>The tools\<close>

definition MAX_BODY_BYTES :: int where
  "MAX_BODY_BYTES = 131072"

definition MAX_RESPONSE_BYTES :: int where
  "MAX_RESPONSE_BYTES = 262144"

abbreviation VERSIONS :: "string list" where
  "VERSIONS \<equiv> [''2025-03-26'', ''2025-06-18'']"

text \<open>The text of the patterns, as the schemas show it, and what each matches.\<close>

abbreviation UUID_TEXT :: string where
  "UUID_TEXT \<equiv> ''[0-9a-f]{8}-[0-9a-f]{4}-[1-5][0-9a-f]{3}-[89ab][0-9a-f]{3}-[0-9a-f]{12}''"

abbreviation PROJECT :: string where
  "PROJECT \<equiv> ''[a-z0-9][a-z0-9-]{0,63}''"

abbreviation ISSUE :: string where
  "ISSUE \<equiv> ''[A-Za-z0-9_.:-]{1,128}''"

abbreviation HEX32 :: string where
  "HEX32 \<equiv> ''[a-f0-9]{32}''"

abbreviation COMPONENT :: string where
  "COMPONENT \<equiv> ''[A-Za-z0-9][A-Za-z0-9_.:+-]{0,127}''"

definition UUID :: rexp where
  "UUID = (let hex = Cls is_hex; dash = Lit ''-'' in
     Seq (Rep hex 8 8) (Seq dash (Seq (Rep hex 4 4) (Seq dash (Seq (Cls (between CHR ''1'' CHR ''5'')) (Seq (Rep hex 3 3) (Seq dash
       (Seq (Cls (\<lambda>c. c \<in> {CHR ''8'', CHR ''9'', CHR ''a'', CHR ''b''})) (Seq (Rep hex 3 3) (Seq dash (Rep hex 12 12)))))))))))"

definition pattern_rexp :: "string \<Rightarrow> rexp option" where
  "pattern_rexp p = map_of
     [(UUID_TEXT, UUID), (PROJECT, PROJECT_ID), (ISSUE, ISSUE_KEY), (HEX32, Rep (Cls is_hex) 32 32),
      (COMPONENT, Seq (Cls is_alnum) (Rep (Cls (\<lambda>c. is_alnum c \<or> c \<in> {CHR ''_'', CHR ''.'', CHR '':'', CHR ''+'', CHR ''-''})) 0 127))] p"

text \<open>Schemas as the source builds them: the pattern is anchored on both sides.\<close>

definition string_rule :: "int \<Rightarrow> int \<Rightarrow> string option \<Rightarrow> json" where
  "string_rule lo hi pattern = JObj ([(''type'', JStr ''string''), (''minLength'', JInt lo), (''maxLength'', JInt hi)]
     @ (case pattern of None \<Rightarrow> [] | Some p \<Rightarrow> [(''pattern'', JStr (''^'' @ p @ ''$''))]))"

definition string_enum :: "int \<Rightarrow> int \<Rightarrow> string list \<Rightarrow> json" where
  "string_enum lo hi values = JObj (dict_of (string_rule lo hi None) @ [(''enum'', JArr (map JStr values))])"

definition object_schema :: "dict \<Rightarrow> string list \<Rightarrow> dict" where
  "object_schema properties required =
     [(''type'', JStr ''object''), (''additionalProperties'', JBool False), (''properties'', JObj properties), (''required'', JArr (map JStr required))]"

definition SUBMIT :: dict where
  "SUBMIT = object_schema [(''project'', string_rule 1 64 (Some PROJECT)), (''issue_key'', string_rule 1 128 (Some ISSUE)),
     (''summary'', string_rule 1 1000 None), (''context'', string_rule 0 16000 None)] [''project'', ''issue_key'', ''summary'', ''context'']"

definition TASK_ID :: dict where
  "TASK_ID = object_schema [(''task_id'', string_rule 36 36 (Some UUID_TEXT))] [''task_id'']"

definition STATUS_ID :: dict where
  "STATUS_ID = object_schema [(''task_id'', string_rule 36 36 (Some UUID_TEXT))] []"

definition HA_ACTION :: json where
  "HA_ACTION = (let texts = (\<lambda>vs. JObj [(''type'', JStr ''string''), (''enum'', JArr (map JStr vs))]);
       number = (\<lambda>t lo hi. JObj [(''type'', JStr t), (''minimum'', JInt lo), (''maximum'', JInt hi)]) in
     JObj (object_schema
       [(''domain'', texts [''light'', ''climate'', ''cover'']),
        (''service'', texts [''turn_on'', ''turn_off'', ''set_temperature'', ''set_hvac_mode'', ''open_cover'', ''close_cover'', ''stop_cover'']),
        (''entity_ids'', JObj [(''type'', JStr ''array''), (''minItems'', JInt 1), (''maxItems'', JInt 8), (''uniqueItems'', JBool True),
           (''items'', string_rule 3 140 (Some (''[a-z_]+'' @ [CHR 0x5C] @ ''.[a-z0-9_]{1,128}'')))]),
        (''data'', JObj [(''type'', JStr ''object''), (''additionalProperties'', JBool False), (''properties'', JObj
           [(''brightness'', number ''integer'' 0 255), (''transition'', number ''number'' 0 30), (''temperature'', number ''number'' 5 35),
            (''hvac_mode'', texts [''off'', ''heat'', ''cool'', ''heat_cool'', ''auto'', ''dry'', ''fan_only''])])])]
       [''domain'', ''service'', ''entity_ids'', ''data'']))"

definition HA_ID :: dict where
  "HA_ID = object_schema [(''proposal_id'', string_rule 32 32 (Some HEX32))] [''proposal_id'']"

definition MAINTENANCE_ID :: dict where
  "MAINTENANCE_ID = object_schema [(''plan_id'', string_rule 32 32 (Some HEX32))] [''plan_id'']"

definition tool :: "string \<Rightarrow> string \<Rightarrow> dict \<Rightarrow> (string \<times> bool) list \<Rightarrow> dict" where
  "tool name description schema hints = [(''name'', JStr name), (''description'', JStr description), (''inputSchema'', JObj schema),
     (''annotations'', JObj (map (\<lambda>(k, b). (k, JBool b)) hints))]"

abbreviation ISSUE_RULE :: json where
  "ISSUE_RULE \<equiv> string_rule 1 128 (Some ISSUE)"

definition TOOLS :: "dict list" where
  "TOOLS =
    [tool ''homecompute_task_submit''
       ''Request deduplicated isolated coding preparation under reviewed project policy. This never authorizes publication, deployment or host changes.''
       (SUBMIT) [(''readOnlyHint'', False), (''destructiveHint'', False), (''idempotentHint'', True), (''openWorldHint'', False)],
     tool ''homecompute_task_status''
       ''Read one task by optional task_id, or up to 100 recent tasks. Returns public metadata without prompts, files, credentials or worker transcripts.''
       (STATUS_ID) [(''readOnlyHint'', True), (''openWorldHint'', False)],
     tool ''homecompute_task_cancel''
       ''Cancel a pending, queued, running or review task. This never authorizes execution or publication.''
       (TASK_ID) [(''readOnlyHint'', False), (''destructiveHint'', False), (''openWorldHint'', False)]]"

definition ACTION_TOOLS :: "dict list" where
  "ACTION_TOOLS =
    [tool ''homecompute_action_propose''
       ''Propose one operator-defined maintenance or recovery action using a trusted evidence ID. A person reviews the exact proposal and separately approves execution.''
       (object_schema [(''action_id'', ISSUE_RULE), (''target'', ISSUE_RULE), (''incident_key'', ISSUE_RULE), (''evidence_id'', ISSUE_RULE)] [''action_id'', ''target'', ''incident_key'', ''evidence_id'']) [(''readOnlyHint'', False), (''destructiveHint'', False), (''idempotentHint'', True), (''openWorldHint'', False)],
     tool ''homecompute_action_status''
       ''Read bounded action metadata by optional task_id. Evidence ingestion, review, approval and execution are operator-only.''
       (STATUS_ID) [(''readOnlyHint'', True), (''openWorldHint'', False)],
     tool ''homecompute_action_cancel''
       ''Cancel a maintenance proposal before execution. This cannot undo or retry an action.''
       (TASK_ID) [(''readOnlyHint'', False), (''destructiveHint'', False), (''openWorldHint'', False)]]"

definition READ_TOOLS :: "dict list" where
  "READ_TOOLS =
    [tool ''homecompute_systems''
       ''List the operator-configured systems available for bounded metadata reads.''
       (object_schema [] []) [(''readOnlyHint'', True), (''openWorldHint'', False)],
     tool ''homecompute_system_read''
       ''Collect scoped service health, host metrics, update metadata and approved Home Assistant metadata. Unknown or stale checks remain unknown. This cannot change services or devices.''
       (object_schema [(''system_id'', string_enum 1 64 [''home-core'', ''home-spark'', ''home-assistant'', ''all''])] [''system_id'']) [(''readOnlyHint'', True), (''openWorldHint'', False)]]"

definition HA_TOOLS :: "dict list" where
  "HA_TOOLS =
    [tool ''homecompute_ha_propose''
       ''Propose a bounded exact-target light, climate or cover action. A human separately reviews and approves it; this tool cannot execute device changes.''
       (object_schema [(''action'', HA_ACTION)] [''action'']) [(''readOnlyHint'', False), (''destructiveHint'', False), (''openWorldHint'', False)],
     tool ''homecompute_ha_status''
       ''Read your own HA action proposal status. This cannot review or approve it.''
       (HA_ID) [(''readOnlyHint'', True), (''openWorldHint'', False)],
     tool ''homecompute_ha_cancel''
       ''Cancel your own HA proposal before execution. This cannot execute, undo or retry an action.''
       (HA_ID) [(''readOnlyHint'', False), (''destructiveHint'', False), (''openWorldHint'', False)]]"

definition MAINTENANCE_TOOLS :: "dict list" where
  "MAINTENANCE_TOOLS =
    [tool ''homecompute_maintenance_prepare''
       ''Prepare a trusted exact update plan without installing it. Select home-core nixos, aula-mcp, tilbudstrolden-mcp or a reviewed Docker service; home-spark packages; image- plus an exact observed container name on either host; or Home Assistant an approved update entity. Custom source builds need their reviewed adapter. MCP candidates are built and tested before registration. Read preparation status and list plans afterward. No commands or versions accepted.''
       (object_schema [(''target'', string_enum 1 64 [''home-core'', ''home-spark'', ''home-assistant'']), (''component'', string_rule 1 128 (Some COMPONENT))] [''target'', ''component'']) [(''readOnlyHint'', False), (''destructiveHint'', False), (''openWorldHint'', False)],
     tool ''homecompute_maintenance_preparation''
       ''Read the latest maintenance plan preparation status and resulting plan ID or failure. Preparing does not install updates.''
       (object_schema [] []) [(''readOnlyHint'', True), (''openWorldHint'', False)],
     tool ''homecompute_maintenance_list''
       ''List trusted prepared update and repair plans for home-core, home-spark and Home Assistant, including versions and approval requirements.''
       (object_schema [] []) [(''readOnlyHint'', True), (''openWorldHint'', False)],
     tool ''homecompute_maintenance_status''
       ''Read one trusted maintenance plan and its result. Human approval is required for fixes, major upgrades and uncertain versions.''
       (MAINTENANCE_ID) [(''readOnlyHint'', True), (''openWorldHint'', False)],
     tool ''homecompute_maintenance_run''
       ''Run one root-prepared exact maintenance plan. Verified routine updates use standing authorization; fixes and major or uncertain upgrades are blocked until exact human approval. Commands and versions cannot be supplied by this tool.''
       (MAINTENANCE_ID) [(''readOnlyHint'', False), (''destructiveHint'', True), (''idempotentHint'', False), (''openWorldHint'', False)]]"

definition SEARCH_TOOL :: dict where
  "SEARCH_TOOL = [(''name'', JStr ''homecompute_operations_search''),
     (''description'', JStr ''Find past infrastructure incidents, recovery observations and reviewed runbooks. Historical evidence only; read fresh system state before proposing actions. Recovery does not prove a repair.''),
     (''inputSchema'', JObj [(''type'', JStr ''object''), (''additionalProperties'', JBool False), (''required'', JArr [JStr ''query'']),
        (''properties'', JObj [(''query'', string_rule 1 500 None), (''limit'', JObj [(''type'', JStr ''integer''), (''minimum'', JInt 1), (''maximum'', JInt 10)])])]),
     (''annotations'', JObj [(''readOnlyHint'', JBool True), (''openWorldHint'', JBool False)])]"

definition tool_inventory :: "'x mcp_ledger \<Rightarrow> dict list" where
  "tool_inventory S = TOOLS @ (if actions S \<noteq> None then ACTION_TOOLS else []) @ (if infrastructure S \<noteq> None then READ_TOOLS else [])
     @ (if home_assistant S \<noteq> None then HA_TOOLS else []) @ (if maintenance S \<noteq> None then MAINTENANCE_TOOLS else [])
     @ (case services S of None \<Rightarrow> [] | Some v \<Rightarrow> service_tools v) @ (if operations_search S \<noteq> None then [SEARCH_TOOL] else [])"

section \<open>Arguments\<close>

fun caseless :: "rexp \<Rightarrow> rexp" where
  "caseless (Cls p) = Cls (\<lambda>c. p c \<or> p (lower_char c))"
| "caseless (Seq r q) = Seq (caseless r) (caseless q)"
| "caseless (Alt r q) = Alt (caseless r) (caseless q)"
| "caseless (Rep r lo hi) = Rep (caseless r) lo hi"
| "caseless (Many r lo) = Many (caseless r) lo"
| "caseless r = r"

text \<open>\<open>re.fullmatch\<close> with a pattern of a schema, and \<open>re.I\<close> for the task identifier.\<close>

definition pattern_ok :: "string \<Rightarrow> string \<Rightarrow> string \<Rightarrow> bool" where
  "pattern_ok key pattern s = (case pattern_rexp (butlast (tl pattern)) of None \<Rightarrow> False
     | Some r \<Rightarrow> fullmatch (if key = ''task_id'' then caseless r else r) s)"

definition bad_arguments :: exn where
  "bad_arguments = RpcError (-32602) ''Invalid tool arguments''"

definition check_argument :: "string \<Rightarrow> dict \<Rightarrow> json \<Rightarrow> unit res" where
  "check_argument key rule v =
     require (if get rule ''type'' = JStr ''integer'' then type_is_int v \<and> int_of (get rule ''minimum'') \<le> int_of v \<and> int_of v \<le> int_of (get rule ''maximum'')
       else is_str v \<and> int_of (get rule ''minLength'') \<le> int (length (str_of v)) \<and> int (length (str_of v)) \<le> int_of (get rule ''maxLength'')
         \<and> (has rule ''enum'' \<longrightarrow> v \<in> set (list_of (get rule ''enum''))) \<and> (has rule ''pattern'' \<longrightarrow> pattern_ok key (str_of (get rule ''pattern'')) (str_of v)))
       bad_arguments"

definition validate_arguments :: "json \<Rightarrow> dict \<Rightarrow> dict res" where
  "validate_arguments v schema =
     (let d = dict_of v; properties = dict_of (get schema ''properties'') in
      bindr (require (is_dict v \<and> set (keys d) \<subseteq> set (keys properties) \<and> set (map str_of (list_of (get schema ''required''))) \<subseteq> set (keys d)) bad_arguments) (\<lambda>_.
      bindr (for_each (\<lambda>(key, rule). if has d key then check_argument key (dict_of rule) (get d key) else Inr ()) properties) (\<lambda>_. Inr d)))"

section \<open>Results\<close>

definition encoded_bytes :: "env \<Rightarrow> json \<Rightarrow> int" where
  "encoded_bytes E v = int (utf8_len (dumps (float_text E) plain_style v))"

definition text_result :: "string \<Rightarrow> bool \<Rightarrow> dict" where
  "text_result s failed = [(''content'', JArr [JObj [(''type'', JStr ''text''), (''text'', JStr s)]]), (''isError'', JBool failed)]"

definition bounded_result :: "env \<Rightarrow> json \<Rightarrow> dict res" where
  "bounded_result E v =
     bindr (require (finite_json v) (ValueError ''Out of range float values are not JSON compliant'')) (\<lambda>_.
     let result = text_result (dumps (float_text E) plain_style v) False in
     bindr (require (encoded_bytes E (JObj result) \<le> MAX_RESPONSE_BYTES - 1024) (ValueError ''tool response exceeds metadata budget'')) (\<lambda>_. Inr result))"

abbreviation ACTION_PUBLIC :: "string list" where
  "ACTION_PUBLIC \<equiv> [''id'', ''action_id'', ''target'', ''incident_key'', ''evidence_id'', ''state'', ''created'', ''updated'', ''attempts'', ''error'', ''policy_sha256'']"

definition action_metadata :: "dict \<Rightarrow> dict" where
  "action_metadata row = map (\<lambda>(k, v). (k, clip v))
     (filter (\<lambda>(k, v). k \<in> set ACTION_PUBLIC \<and> scalar v \<and> (case v of JFlt x \<Rightarrow> isfinite x | _ \<Rightarrow> True)) row)"

definition listing :: "env \<Rightarrow> string \<Rightarrow> dict list \<Rightarrow> bool \<Rightarrow> dict res" where
  "listing E key selected truncated = bounded_result E (JObj [(key, JArr (map JObj selected)), (''truncated'', JBool truncated)])"

fun select_rows :: "env \<Rightarrow> string \<Rightarrow> (dict \<Rightarrow> dict res) \<Rightarrow> dict list \<Rightarrow> dict list \<Rightarrow> dict list res" where
  "select_rows E key project selected [] = Inr selected"
| "select_rows E key project selected (row # rows) = bindr (project row) (\<lambda>public.
     case listing E key (selected @ [public]) True of
       Inl e \<Rightarrow> if is_value_error e then Inr selected else Inl e
     | Inr candidate \<Rightarrow> if MAX_RESPONSE_BYTES - 1024 < encoded_bytes E (JObj candidate) then Inr selected
         else select_rows E key project (selected @ [public]) rows)"

definition recent_metadata :: "env \<Rightarrow> string \<Rightarrow> (dict \<Rightarrow> dict res) \<Rightarrow> dict list \<Rightarrow> dict res" where
  "recent_metadata E key project rows =
     bindr (select_rows E key project [] (take 100 rows)) (\<lambda>selected. listing E key selected (length selected < length rows))"

definition recent_tasks :: "'x mcp_ledger \<Rightarrow> ('x gateway, dict) eff" where
  "recent_tasks S = bindS (on_tasks (list_tasks (task_env S))) (\<lambda>rows. lift (recent_metadata (task_env S) ''tasks'' metadata rows))"

section \<open>Calling a tool\<close>

definition is_service :: "'x mcp_ledger \<Rightarrow> string \<Rightarrow> bool" where
  "is_service S name = (case services S of None \<Rightarrow> False | Some v \<Rightarrow> JStr name \<in> set (map (\<lambda>t. get t ''name'') (service_tools v)))"

definition argument_failure :: "exn \<Rightarrow> bool" where
  "argument_failure e \<longleftrightarrow> is_value_error e \<or> e = TypeError \<or> (case e of KeyError _ \<Rightarrow> True | _ \<Rightarrow> False)"

definition renamed :: "string \<Rightarrow> 'a res \<Rightarrow> 'a res" where
  "renamed message r = (case r of Inl e \<Rightarrow> if argument_failure e then Inl (RpcError (-32602) message) else Inl e | Inr x \<Rightarrow> Inr x)"

definition tool_arguments :: "'x mcp_ledger \<Rightarrow> string \<Rightarrow> dict \<Rightarrow> dict \<Rightarrow> json res" where
  "tool_arguments S name found params =
     (if is_service S name then renamed ''Invalid bounded service arguments'' (service_validate (the (services S)) name (get_or params ''arguments'' (JObj [])))
      else if name = ''homecompute_ha_propose'' then
        (let raw = get params ''arguments'' in
         bindr (require (is_dict raw \<and> same_keys (dict_of raw) [''action'']) bad_arguments) (\<lambda>_.
         renamed ''Invalid bounded HA action'' (case home_assistant S of None \<Rightarrow> Inl AttributeError
           | Some h \<Rightarrow> bindr (ha_validate h (get (dict_of raw) ''action'')) (\<lambda>a. Inr (JObj [(''action'', a)])))))
      else bindr (validate_arguments (get_or params ''arguments'' (JObj [])) (dict_of (get found ''inputSchema''))) (\<lambda>d. Inr (JObj d)))"

definition bounded :: "'x mcp_ledger \<Rightarrow> ('x gateway, json) eff \<Rightarrow> ('x gateway, dict) eff" where
  "bounded S m = bindS m (\<lambda>v. lift (bounded_result (task_env S) v))"

text \<open>The backends outside the two ledgers.\<close>

definition run_backend :: "'x mcp_ledger \<Rightarrow> string \<Rightarrow> json \<Rightarrow> ('x gateway, dict) eff" where
  "run_backend S name arguments =
     (let d = dict_of arguments in
      if is_service S name then bounded S (on_others (service_request (the (services S)) name arguments))
      else if name = ''homecompute_operations_search'' then
        (case operations_search S of None \<Rightarrow> raise AttributeError | Some query \<Rightarrow> bounded S (on_others (query d)))
      else if starts ''homecompute_maintenance_'' name then
        (case maintenance S of None \<Rightarrow> raise AttributeError | Some req \<Rightarrow> bounded S (on_others (req (drop 24 name) d)))
      else if starts ''homecompute_ha_'' name then
        (case home_assistant S of None \<Rightarrow> raise AttributeError
         | Some h \<Rightarrow> bounded S (bindS (on_others (ha_request h (drop 15 name) d)) (\<lambda>v. ret (JObj [(''proposal'', v)]))))
      else (case infrastructure S of None \<Rightarrow> raise AttributeError
         | Some i \<Rightarrow>
           if name = ''homecompute_systems'' then
             bounded S (lift (bindr (map_res (\<lambda>row. bindr (item row ''id'') (\<lambda>k. bindr (item row ''enabled'') (\<lambda>e. Inr (JObj [(''id'', k), (''read_enabled'', e)])))) (registered_systems i))
               (\<lambda>rows. Inr (JObj [(''systems'', JArr rows), (''metadata_only'', JBool True)]))))
           else bounded S (bindS (lift (item d ''system_id'')) (\<lambda>k. bindS (on_others (read_system i k)) (\<lambda>report.
               bindS (lift (compact_report i report)) (\<lambda>v. ret (JObj [(''report'', v), (''metadata_only'', JBool True)])))))))"

definition run_action_tool :: "'x mcp_ledger \<Rightarrow> string \<Rightarrow> dict \<Rightarrow> ('x gateway, dict) eff" where
  "run_action_tool S name d = (case actions S of None \<Rightarrow> raise AttributeError | Some (E, cfg, C) \<Rightarrow>
     let one = (\<lambda>m. bounded S (bindS (on_actions m) (\<lambda>v. ret (JObj [(''actions'', JArr [JObj (action_metadata v)])])))) in
     if name = ''homecompute_action_propose'' then one (action_propose E cfg C (JObj d))
     else if name = ''homecompute_action_cancel'' then bindS (lift (item d ''task_id'')) (\<lambda>k. one (action_cancel E (str_of k)))
     else if \<not> has d ''task_id'' then bindS (on_actions list_actions) (\<lambda>rows. lift (recent_metadata (task_env S) ''actions'' (\<lambda>row. Inr (action_metadata row)) rows))
     else one (get_action (str_of (get d ''task_id''))))"

definition run_task_tool :: "'x mcp_ledger \<Rightarrow> string \<Rightarrow> dict \<Rightarrow> ('x gateway, dict) eff" where
  "run_task_tool S name d =
     (let E = task_env S; one = (\<lambda>m. bounded S (bindS (on_tasks m) (\<lambda>task. bindS (lift (metadata task)) (\<lambda>v. ret (JObj [(''task'', JObj v)]))))) in
      if name = ''homecompute_task_submit'' then one (submit E (task_projects S) d)
      else if name = ''homecompute_task_status'' then (if \<not> has d ''task_id'' then recent_tasks S else one (get_public (str_of (get d ''task_id''))))
      else bindS (lift (item d ''task_id'')) (\<lambda>k. one (act E (task_projects S) (str_of k) ''cancel'' [])))"

definition run_tool :: "'x mcp_ledger \<Rightarrow> string \<Rightarrow> json \<Rightarrow> ('x gateway, dict) eff" where
  "run_tool S name arguments =
     (if is_service S name \<or> name \<in> {''homecompute_operations_search'', ''homecompute_systems'', ''homecompute_system_read''}
         \<or> starts ''homecompute_maintenance_'' name \<or> starts ''homecompute_ha_'' name then run_backend S name arguments
      else if starts ''homecompute_action_'' name then run_action_tool S name (dict_of arguments)
      else run_task_tool S name (dict_of arguments))"

definition tool_failure :: "exn \<Rightarrow> bool" where
  "tool_failure e \<longleftrightarrow> argument_failure e \<or> e = OSError"

definition failure_text :: "bool \<Rightarrow> string" where
  "failure_text service = (if service then ''Service read unavailable; retry later or ask the operator to check the integration.''
     else ''Task request rejected; check task status and operator policy.'')"

definition call_tool :: "'x mcp_ledger \<Rightarrow> dict \<Rightarrow> ('x gateway, dict) eff" where
  "call_tool S params =
     bindS (check (set (keys params) \<subseteq> {''name'', ''arguments'', ''_meta''} \<and> is_str (get params ''name'')) (RpcError (-32602) ''Invalid tool call'')) (\<lambda>_.
     let name = str_of (get params ''name'') in
     case List.find (\<lambda>t. get t ''name'' = JStr name) (tool_inventory S) of
       None \<Rightarrow> raise (RpcError (-32602) ''Unknown tool'')
     | Some found \<Rightarrow>
         bindS (lift (tool_arguments S name found params)) (\<lambda>arguments.
         catch (run_tool S name arguments) tool_failure (\<lambda>_. ret (text_result (failure_text (is_service S name)) True))))"

section \<open>Messages\<close>

definition request_id :: "json \<Rightarrow> json" where
  "request_id message = (let v = get (dict_of message) ''id'' in
     if is_dict message \<and> (type_is_int v \<or> is_str v \<and> length (str_of v) \<le> 128) then v else JNull)"

definition initialize :: "dict \<Rightarrow> dict res" where
  "initialize params =
     bindr (require (is_str (get params ''protocolVersion'') \<and> is_dict (get params ''capabilities'') \<and> is_dict (get params ''clientInfo'')) (RpcError (-32602) ''Invalid initialization'')) (\<lambda>_.
     Inr [(''protocolVersion'', JStr (if str_of (get params ''protocolVersion'') \<in> set VERSIONS then str_of (get params ''protocolVersion'') else ''2025-06-18'')),
       (''capabilities'', JObj [(''tools'', JObj [(''listChanged'', JBool False)])]),
       (''serverInfo'', JObj [(''name'', JStr ''homecompute-task-broker''), (''version'', JStr ''1.0.0'')])])"

definition call_method :: "'x mcp_ledger \<Rightarrow> string \<Rightarrow> dict \<Rightarrow> ('x gateway, dict) eff" where
  "call_method S name params =
     (if name = ''initialize'' then lift (initialize params)
      else if name = ''ping'' then ret []
      else if name = ''tools/list'' then
        bindS (check (set (keys params) \<subseteq> {''_meta''}) (RpcError (-32602) ''No pagination cursor is supported'')) (\<lambda>_.
        ret [(''tools'', JArr (map JObj (tool_inventory S)))])
      else if name = ''tools/call'' then call_tool S params
      else raise (RpcError (-32601) ''Method not available''))"

definition answer :: "'x mcp_ledger \<Rightarrow> json \<Rightarrow> ('x gateway, nat \<times> json option) eff" where
  "answer S message =
     (let d = dict_of message; params = get_or d ''params'' (JObj []); name = str_of (get d ''method'') in
      bindS (check (is_dict message) (RpcError (-32600) ''JSON-RPC object required'')) (\<lambda>_.
      bindS (check (set (keys d) \<subseteq> {''jsonrpc'', ''id'', ''method'', ''params''} \<and> get d ''jsonrpc'' = JStr ''2.0'' \<and> is_str (get d ''method'')
          \<and> \<not> (has d ''id'' \<and> request_id message = JNull)) (RpcError (-32600) ''Invalid JSON-RPC request'')) (\<lambda>_.
      bindS (check (is_dict params) (RpcError (-32602) ''Object parameters required'')) (\<lambda>_.
      if \<not> has d ''id'' then
        (if name \<in> {''notifications/initialized'', ''notifications/cancelled''} then ret (202, None) else raise (RpcError (-32600) ''Request id required''))
      else bindS (call_method S name (dict_of params)) (\<lambda>result.
        ret (200, Some (JObj [(''jsonrpc'', JStr ''2.0''), (''id'', request_id message), (''result'', JObj result)])))))))"

fun is_rpc_error :: "exn \<Rightarrow> bool" where
  "is_rpc_error (RpcError _ _) = True"
| "is_rpc_error _ = False"

fun rpc_failure :: "json \<Rightarrow> exn \<Rightarrow> nat \<times> json option" where
  "rpc_failure rid (RpcError number message) = (if number = -32600 then 400 else 200,
     Some (JObj [(''jsonrpc'', JStr ''2.0''), (''id'', rid), (''error'', JObj [(''code'', JInt number), (''message'', JStr message)])]))"
| "rpc_failure rid _ = (200, None)"

definition dispatch :: "'x mcp_ledger \<Rightarrow> json \<Rightarrow> ('x gateway, nat \<times> json option) eff" where
  "dispatch S message = catch (answer S message) is_rpc_error (\<lambda>e. ret (rpc_failure (request_id message) e))"

section \<open>The HTTP boundary\<close>

record http_request =
  command :: string
  target :: string
  headers :: "(string \<times> string) list"
  payload :: string

definition header_values :: "http_request \<Rightarrow> string \<Rightarrow> string list" where
  "header_values r name = map snd (filter (\<lambda>(k, v). py_lower k = py_lower name) (headers r))"

definition header_of :: "http_request \<Rightarrow> string \<Rightarrow> string option" where
  "header_of r name = (case header_values r name of [] \<Rightarrow> None | v # _ \<Rightarrow> Some v)"

definition header_or :: "http_request \<Rightarrow> string \<Rightarrow> string \<Rightarrow> string" where
  "header_or r name d = (case header_of r name of None \<Rightarrow> d | Some v \<Rightarrow> v)"

text \<open>\<open>get_content_type\<close>: the part before a semicolon, in lower case; text/plain when it is not a type and a subtype.\<close>

definition content_type :: "http_request \<Rightarrow> string" where
  "content_type r = (case header_of r ''Content-Type'' of None \<Rightarrow> ''text/plain''
     | Some v \<Rightarrow> let t = py_lower (py_strip (takeWhile (\<lambda>c. c \<noteq> CHR '';'') v)) in
         if length (filter (\<lambda>c. c = CHR ''/'') t) = 1 then t else ''text/plain'')"

definition accepted :: "http_request \<Rightarrow> string set" where
  "accepted r = set (map (\<lambda>part. py_lower (py_strip (takeWhile (\<lambda>c. c \<noteq> CHR '';'') part))) (split_on CHR '','' (header_or r ''Accept'' [])))"

text \<open>\<open>int(text)\<close>: blanks around, a sign, at most 4300 digits with single underscores between them.\<close>

fun dec_digits :: "string \<Rightarrow> string option" where
  "dec_digits [] = None"
| "dec_digits [c] = (if is_digit c then Some [c] else None)"
| "dec_digits (c # d # s) = (if is_digit c then map_option (Cons c) (dec_digits (if d = CHR ''_'' then s else d # s)) else None)"

definition py_int :: "string \<Rightarrow> int res" where
  "py_int s =
     (let t = py_strip s; neg = (t \<noteq> [] \<and> hd t = CHR ''-''); u = (if t \<noteq> [] \<and> hd t \<in> {CHR ''-'', CHR ''+''} then tl t else t) in
      case dec_digits u of
        None \<Rightarrow> Inl (ValueError ''invalid literal for int() with base 10'')
      | Some ds \<Rightarrow> if 4300 < length ds then Inl (ValueError ''Exceeds the limit for integer string conversion'')
          else Inr (if neg then - dec_val ds else dec_val ds))"

type_synonym response = "nat \<times> json option"

definition error_body :: "string \<Rightarrow> json option" where
  "error_body message = Some (JObj [(''error'', JStr message)])"

definition invalid_json :: response where
  "invalid_json = (400, Some (JObj [(''jsonrpc'', JStr ''2.0''), (''id'', JNull), (''error'', JObj [(''code'', JInt (-32700)), (''message'', JStr ''Invalid JSON'')])]))"

text \<open>The only runtime error of the decoder is too deep a nesting.\<close>

definition decode_failure :: "exn \<Rightarrow> bool" where
  "decode_failure e \<longleftrightarrow> is_value_error e \<or> (case e of RuntimeError _ \<Rightarrow> True | _ \<Rightarrow> False)"

definition read_message :: "(string \<Rightarrow> json res) \<Rightarrow> http_request \<Rightarrow> string \<Rightarrow> (response + json) res" where
  "read_message loads r len =
     bindr (py_int len) (\<lambda>n.
     if \<not> (0 < n \<and> n \<le> MAX_BODY_BYTES) then Inr (Inl (413, error_body ''body budget exceeded''))
     else let raw = take (nat n) (payload r) in
       if int (length raw) \<noteq> n then Inr (Inl (400, error_body ''incomplete request''))
       else bindr (loads raw) (\<lambda>v. Inr (Inr v)))"

definition DATE :: rexp where
  "DATE = (let d = Cls is_digit in Seq (Lit ''20'') (Seq (Rep d 2 2) (Seq (Lit ''-'') (Seq (Rep d 2 2) (Seq (Lit ''-'') (Rep d 2 2))))))"

definition version_offer :: "json \<Rightarrow> string \<Rightarrow> http_request \<Rightarrow> bool" where
  "version_offer message version r = (let d = dict_of message in
     is_dict message \<and> get d ''method'' = JStr ''initialize'' \<and> has d ''id'' \<and> is_dict (get d ''params'')
     \<and> get (dict_of (get d ''params'')) ''protocolVersion'' = JStr version \<and> fullmatch DATE version \<and> header_of r ''MCP-Session-Id'' = None)"

definition handle_http :: "'x mcp_ledger \<Rightarrow> (string \<Rightarrow> json res) \<Rightarrow> http_request \<Rightarrow> string \<Rightarrow> ('x gateway, response) eff" where
  "handle_http S loads r role =
     (if role \<noteq> ''assistant'' then ret (403, error_body ''assistant credential required'')
      else if header_of r ''Origin'' \<noteq> None then ret (403, error_body ''browser origin not permitted'')
      else if command r \<noteq> ''POST'' then ret (405, error_body ''POST required'')
      else if content_type r \<noteq> ''application/json'' then ret (415, error_body ''JSON content type required'')
      else if \<not> {''application/json'', ''text/event-stream''} \<subseteq> accepted r then ret (406, error_body ''JSON and event-stream acceptance required'')
      else case header_values r ''Content-Length'' of
        [len] \<Rightarrow>
          if header_of r ''Transfer-Encoding'' \<noteq> None then ret (400, error_body ''one bounded content length required'')
          else (case read_message loads r len of
              Inl e \<Rightarrow> if decode_failure e then ret invalid_json else raise e
            | Inr (Inl refused) \<Rightarrow> ret refused
            | Inr (Inr message) \<Rightarrow>
                let version = header_or r ''MCP-Protocol-Version'' ''2025-03-26'' in
                if version \<notin> set VERSIONS \<and> \<not> version_offer message version r then ret (400, error_body ''unsupported protocol version'')
                else dispatch S message)
      | _ \<Rightarrow> ret (400, error_body ''one bounded content length required''))"

section \<open>The shape of an answer\<close>

text \<open>What an operation returns, and what it raises.\<close>

definition yields :: "('a \<Rightarrow> bool) \<Rightarrow> ('s, 'a) eff \<Rightarrow> bool" where
  "yields P m \<longleftrightarrow> (\<forall>s x s'. m s = (Inr x, s') \<longrightarrow> P x)"

definition raises :: "(exn \<Rightarrow> bool) \<Rightarrow> ('s, 'a) eff \<Rightarrow> bool" where
  "raises P m \<longleftrightarrow> (\<forall>s e s'. m s = (Inl e, s') \<longrightarrow> P e)"

lemma yields_simps [simp]:
  "yields P (ret x) \<longleftrightarrow> P x" "yields P (raise e)" "yields P (lift r) \<longleftrightarrow> (\<forall>x. r = Inr x \<longrightarrow> P x)"
  by (auto simp: yields_def eff_defs)

lemma yields_bind: "(\<And>x. yields P (k x)) \<Longrightarrow> yields P (bindS m k)"
  unfolding yields_def bindS_Inr_iff by blast

lemma yields_catch: "yields P m \<Longrightarrow> (\<And>e. yields P (h e)) \<Longrightarrow> yields P (catch m p h)"
  unfolding yields_def catch_def by (auto split: prod.splits sum.splits if_splits)

lemma yields_if: "(c \<Longrightarrow> yields P m) \<Longrightarrow> (\<not> c \<Longrightarrow> yields P n) \<Longrightarrow> yields P (if c then m else n)"
  by simp

lemma raises_simps [simp]:
  "raises P (ret x)" "raises P (raise e) \<longleftrightarrow> P e" "raises P (lift r) \<longleftrightarrow> (\<forall>e. r = Inl e \<longrightarrow> P e)" "raises P (check c e) \<longleftrightarrow> c \<or> P e"
  by (auto simp: raises_def eff_defs)

lemma raises_bind: "raises P m \<Longrightarrow> (\<And>x. raises P (k x)) \<Longrightarrow> raises P (bindS m k)"
  unfolding raises_def bindS_Inl_iff by blast

lemma raises_if: "(c \<Longrightarrow> raises P m) \<Longrightarrow> (\<not> c \<Longrightarrow> raises P n) \<Longrightarrow> raises P (if c then m else n)"
  by simp

lemma raises_catch: "(\<And>e. \<not> p e \<Longrightarrow> P e) \<Longrightarrow> (\<And>e. raises P (h e)) \<Longrightarrow> raises P (catch m p h)"
  unfolding raises_def catch_def by (auto split: prod.splits sum.splits if_splits)

definition tool_result :: "env \<Rightarrow> dict \<Rightarrow> bool" where
  "tool_result E d \<longleftrightarrow> (\<exists>s failed. d = text_result s failed) \<and> encoded_bytes E (JObj d) \<le> MAX_RESPONSE_BYTES - 1024"

lemma bounded_Inr: "bounded_result E v = Inr d \<Longrightarrow> tool_result E d"
  by (auto simp: bounded_result_def tool_result_def Let_def bindr_Inr_iff)

lemma recent_Inr: "recent_metadata E key project rows = Inr d \<Longrightarrow> tool_result E d"
  by (auto simp: recent_metadata_def listing_def bindr_Inr_iff dest: bounded_Inr)

lemma bounded_yields: "yields (tool_result (task_env S)) (bounded S m)"
  unfolding bounded_def by (rule yields_bind) (simp add: bounded_Inr)

lemma failure_bytes: "encoded_bytes E (JObj (text_result (failure_text service) True)) \<le> MAX_RESPONSE_BYTES - 1024"
proof -
  have "encoded_bytes E (JObj (text_result (failure_text True) True)) \<le> 1000" "encoded_bytes E (JObj (text_result (failure_text False) True)) \<le> 1000" by code_simp+
  then show ?thesis by (cases service) (simp_all add: MAX_RESPONSE_BYTES_def)
qed

lemma run_tool_yields: "yields (tool_result (task_env S)) (run_tool S name arguments)"
proof -
  have "yields (tool_result (task_env S)) (run_backend S name arguments)"
    unfolding run_backend_def Let_def by (intro yields_if) (simp_all add: bounded_yields split: option.split)
  moreover have "yields (tool_result (task_env S)) (run_action_tool S name d)" for d
    unfolding run_action_tool_def Let_def
    by (cases "actions S") (auto simp: bounded_yields recent_Inr intro!: yields_bind split: prod.split)
  moreover have "yields (tool_result (task_env S)) (run_task_tool S name d)" for d
    unfolding run_task_tool_def recent_tasks_def Let_def
    by (intro yields_if) (auto simp: bounded_yields recent_Inr intro!: yields_bind)
  ultimately show ?thesis unfolding run_tool_def by (intro yields_if)
qed

lemma call_tool_yields: "yields (tool_result (task_env S)) (call_tool S params)"
proof -
  have "yields (tool_result (task_env S)) (catch (run_tool S name arguments) tool_failure (\<lambda>_. ret (text_result (failure_text service) True)))" for name arguments service
    by (intro yields_catch run_tool_yields) (use failure_bytes in \<open>auto simp: tool_result_def\<close>)
  then show ?thesis unfolding call_tool_def Let_def by (auto intro!: yields_bind split: option.split)
qed

definition known_error :: "exn \<Rightarrow> bool" where
  "known_error e \<longleftrightarrow> (case e of RpcError n m \<Rightarrow> n \<in> {-32600, -32601, -32602} | _ \<Rightarrow> True)"

lemma known_bad: "known_error bad_arguments" "known_error (RpcError (-32602) m)" "known_error (RpcError (-32600) m)" "known_error (RpcError (-32601) m)"
  by (simp_all add: known_error_def bad_arguments_def)

lemma unknown_failure: "\<not> tool_failure e \<Longrightarrow> known_error e" "\<not> argument_failure e \<Longrightarrow> known_error e"
  by (cases e; simp add: tool_failure_def argument_failure_def known_error_def)+

lemma renamed_Inl: "renamed m r = Inl e \<Longrightarrow> known_error e"
  by (auto simp: renamed_def known_bad unknown_failure split: sum.splits if_splits)

lemma arguments_Inl: "tool_arguments S name found params = Inl e \<Longrightarrow> known_error e"
proof -
  have "check_argument k d v = Inl e \<Longrightarrow> known_error e" for k d v by (auto simp: check_argument_def known_bad)
  moreover have "for_each f xs = Inl e \<Longrightarrow> \<exists>x \<in> set xs. f x = Inl e" for f :: "string \<times> json \<Rightarrow> unit res" and xs
    by (induction xs) (auto simp: bindr_Inl_iff)
  ultimately have each: "for_each (\<lambda>(key, rule). if has d key then check_argument key (dict_of rule) (get d key) else Inr ()) xs = Inl e \<Longrightarrow> known_error e" for d xs
    by (fastforce split: if_splits)
  have "validate_arguments v schema = Inl e \<Longrightarrow> known_error e" for v schema
    unfolding validate_arguments_def Let_def bindr_Inl_iff require_Inl_iff using each known_bad(1) by blast
  then show "tool_arguments S name found params = Inl e \<Longrightarrow> known_error e"
    by (auto simp: tool_arguments_def Let_def bindr_Inl_iff known_bad dest: renamed_Inl split: if_splits)
qed

lemma call_tool_raises: "raises known_error (call_tool S params)"
  unfolding call_tool_def Let_def
  by (auto intro!: raises_bind raises_catch simp: known_bad unknown_failure arguments_Inl split: option.split)

lemma answer_raises: "raises known_error (answer S message)"
proof -
  have "raises known_error (call_method S name params)" for name params
    unfolding call_method_def
    by (intro raises_if raises_bind) (auto simp: known_bad call_tool_raises initialize_def bindr_Inl_iff)
  then show ?thesis unfolding answer_def Let_def
    by (intro raises_bind raises_if) (simp_all add: known_bad)
qed

definition rpc_success :: "'x mcp_ledger \<Rightarrow> json \<Rightarrow> json \<Rightarrow> bool" where
  "rpc_success S message v \<longleftrightarrow> (\<exists>result. v = JObj [(''jsonrpc'', JStr ''2.0''), (''id'', request_id message), (''result'', JObj result)]
     \<and> (get (dict_of message) ''method'' = JStr ''tools/call'' \<longrightarrow> tool_result (task_env S) result))"

definition rpc_refusal :: "json \<Rightarrow> int \<Rightarrow> json \<Rightarrow> bool" where
  "rpc_refusal message n v \<longleftrightarrow> (\<exists>m. v = JObj [(''jsonrpc'', JStr ''2.0''), (''id'', request_id message), (''error'', JObj [(''code'', JInt n), (''message'', JStr m)])])"

lemma answer_Inr:
  assumes "answer S message s = (Inr (status, v), s')"
  shows "case v of None \<Rightarrow> status = 202 | Some w \<Rightarrow> status = 200 \<and> rpc_success S message w"
proof -
  let ?d = "dict_of message" and ?name = "str_of (get (dict_of message) ''method'')"
  from assms consider "status = 202" "v = None" "\<not> has ?d ''id''"
    | result where "call_method S ?name (dict_of (get_or ?d ''params'' (JObj []))) s = (Inr result, s')" "is_str (get ?d ''method'')"
      "status = 200" "v = Some (JObj [(''jsonrpc'', JStr ''2.0''), (''id'', request_id message), (''result'', JObj result)])"
    by (auto simp: answer_def Let_def eff_iffs split: if_splits)
  then show ?thesis
  proof cases
    case 2
    have "tool_result (task_env S) result" if "get ?d ''method'' = JStr ''tools/call''"
      using 2(1) call_tool_yields [of S "dict_of (get_or ?d ''params'' (JObj []))"] that by (auto simp: call_method_def yields_def)
    then show ?thesis using 2 by (auto simp: rpc_success_def)
  qed simp
qed

text \<open>
  A message that is dispatched without an internal error is answered with status 202 and no body, or
  with status 200 and a result, or with an error whose code is one of three and whose status is 400
  exactly when the request itself was invalid.
\<close>

definition answered :: "'x mcp_ledger \<Rightarrow> json \<Rightarrow> response \<Rightarrow> bool" where
  "answered S message rsp \<longleftrightarrow> (case rsp of (status, v) \<Rightarrow> case v of None \<Rightarrow> status = 202
    | Some w \<Rightarrow> status = 200 \<and> rpc_success S message w
        \<or> (\<exists>n \<in> {-32600, -32601, -32602}. rpc_refusal message n w \<and> status = (if n = -32600 then 400 else 200)))"

lemma dispatch_shape:
  assumes "dispatch S message g = (Inr (status, v), g')"
  shows "answered S message (status, v)"
proof (cases "answer S message g")
  case (Pair out s1)
  show ?thesis
  proof (cases out)
    case (Inr p)
    then have "answer S message g = (Inr (status, v), g')" using assms Pair by (auto simp: dispatch_def catch_def)
    from answer_Inr [OF this] show ?thesis by (auto simp: answered_def split: option.splits)
  next
    case (Inl e)
    then have rpc: "is_rpc_error e" and r: "rpc_failure (request_id message) e = (status, v)" using assms Pair by (auto simp: dispatch_def catch_def ret_def split: if_splits)
    from rpc obtain n m where e: "e = RpcError n m" by (cases e) auto
    have "known_error e" using answer_raises [of S message] Pair Inl by (auto simp: raises_def)
    then have "n \<in> {-32600, -32601, -32602}" by (simp add: e known_error_def)
    then show ?thesis using r by (auto simp: e rpc_refusal_def answered_def)
  qed
qed

definition demo_mcp :: "unit mcp_ledger" where
  "demo_mcp = \<lparr>task_env = codex_env, task_projects = codex_projects, actions = Some (action_env, small_cfg, small_calendar), infrastructure = None, home_assistant = None,
     maintenance = None, services = None, operations_search = None\<rparr>"

definition demo_state :: "unit gateway" where
  "demo_state = \<lparr>task_db = empty_broker, action_db = small_ledger, other_db = ()\<rparr>"

text \<open>The plain refusals of the boundary, each with the check that failed; and what an admitted request has.\<close>

definition boundary_refusal :: "http_request \<Rightarrow> string \<Rightarrow> nat \<Rightarrow> bool" where
  "boundary_refusal r role status \<longleftrightarrow>
     status = 403 \<and> (role \<noteq> ''assistant'' \<or> header_of r ''Origin'' \<noteq> None)
   \<or> status = 405 \<and> command r \<noteq> ''POST''
   \<or> status = 415 \<and> content_type r \<noteq> ''application/json''
   \<or> status = 406 \<and> \<not> {''application/json'', ''text/event-stream''} \<subseteq> accepted r
   \<or> status = 413 \<and> (\<exists>len n. header_values r ''Content-Length'' = [len] \<and> py_int len = Inr n \<and> \<not> (0 < n \<and> n \<le> MAX_BODY_BYTES))
   \<or> status = 400 \<and> (length (header_values r ''Content-Length'') \<noteq> 1 \<or> header_of r ''Transfer-Encoding'' \<noteq> None
       \<or> (\<exists>len n. header_values r ''Content-Length'' = [len] \<and> py_int len = Inr n \<and> int (length (payload r)) < n)
       \<or> header_or r ''MCP-Protocol-Version'' ''2025-03-26'' \<notin> set VERSIONS)"

definition admitted_message :: "(string \<Rightarrow> json res) \<Rightarrow> http_request \<Rightarrow> string \<Rightarrow> json \<Rightarrow> bool" where
  "admitted_message loads r role message \<longleftrightarrow> role = ''assistant'' \<and> header_of r ''Origin'' = None \<and> command r = ''POST''
     \<and> content_type r = ''application/json'' \<and> {''application/json'', ''text/event-stream''} \<subseteq> accepted r \<and> header_of r ''Transfer-Encoding'' = None
     \<and> (\<exists>len n. header_values r ''Content-Length'' = [len] \<and> py_int len = Inr n \<and> 0 < n \<and> n \<le> MAX_BODY_BYTES \<and> n \<le> int (length (payload r))
         \<and> loads (take (nat n) (payload r)) = Inr message)
     \<and> (let version = header_or r ''MCP-Protocol-Version'' ''2025-03-26'' in version \<in> set VERSIONS \<or> version_offer message version r)"

lemma read_message_cases:
  assumes "read_message loads r len = x"
  obtains (failed) e where "x = Inl e"
    | (large) n where "x = Inr (Inl (413, error_body ''body budget exceeded''))" "py_int len = Inr n" "\<not> (0 < n \<and> n \<le> MAX_BODY_BYTES)"
    | (short) n where "x = Inr (Inl (400, error_body ''incomplete request''))" "py_int len = Inr n" "int (length (payload r)) < n"
    | (message) n m where "x = Inr (Inr m)" "py_int len = Inr n" "0 < n" "n \<le> MAX_BODY_BYTES" "n \<le> int (length (payload r))"
        "loads (take (nat n) (payload r)) = Inr m"
  using assms unfolding read_message_def Let_def
  by (auto simp: bindr_def split: sum.splits if_splits)

text \<open>
  C36: every answer of the MCP endpoint has one of three shapes. A request the boundary refuses is
  answered with a plain error message and the status of a check that it fails, and nothing
  changes; a body that cannot be decoded is answered with status 400 and the JSON-RPC error -32700
  over a null identifier, and nothing changes; any other answer is to a message the boundary
  admitted (an assistant's POST of JSON, from no browser, of a bounded declared length that
  arrived, in a known or offered protocol version), and it is status 202 without a body, or status 200 with a
  result, or an error with one of three codes whose status is 400 exactly when the request itself was invalid; that response has the
  version, the identifier of the request (null when it has no valid one), and a result or an error but
  not both; and the result of a tool call is one text with an error flag whose encoding is at least
  1024 bytes below the budget.
\<close>

theorem endpoint_shape:
  assumes "handle_http S loads r role g = (Inr (status, v), g')"
  shows "(\<exists>m. v = error_body m) \<and> boundary_refusal r role status \<and> g' = g
    \<or> (status, v) = invalid_json \<and> (\<exists>len e. header_values r ''Content-Length'' = [len] \<and> read_message loads r len = Inl e \<and> decode_failure e) \<and> g' = g
    \<or> (\<exists>message. admitted_message loads r role message \<and> answered S message (status, v))"
proof (cases "role \<noteq> ''assistant'' \<or> header_of r ''Origin'' \<noteq> None \<or> command r \<noteq> ''POST'' \<or> content_type r \<noteq> ''application/json''
    \<or> \<not> {''application/json'', ''text/event-stream''} \<subseteq> accepted r \<or> length (header_values r ''Content-Length'') \<noteq> 1 \<or> header_of r ''Transfer-Encoding'' \<noteq> None")
  case True
  then show ?thesis
    using assms by (auto simp: handle_http_def boundary_refusal_def ret_def split: if_splits list.splits)
next
  case False
  then obtain len where len: "header_values r ''Content-Length'' = [len]" by (auto simp: length_Suc_conv)
  note ok = False [unfolded de_Morgan_disj not_not]
  let ?version = "header_or r ''MCP-Protocol-Version'' ''2025-03-26''"
  have run: "handle_http S loads r role g = (case read_message loads r len of
      Inl e \<Rightarrow> if decode_failure e then ret invalid_json g else raise e g | Inr (Inl rsp) \<Rightarrow> ret rsp g
    | Inr (Inr message) \<Rightarrow> if ?version \<notin> set VERSIONS \<and> \<not> version_offer message ?version r then ret (400, error_body ''unsupported protocol version'') g
        else dispatch S message g)"
    using ok len by (simp add: handle_http_def Let_def split: sum.split)
  have "read_message loads r len = read_message loads r len" ..
  then show ?thesis
  proof (cases rule: read_message_cases)
    case (failed e)
    then show ?thesis using assms len unfolding run by (auto simp: ret_def raise_def split: if_splits)
  next
    case (large n)
    then show ?thesis using assms len unfolding run boundary_refusal_def by (auto simp: ret_def)
  next
    case (short n)
    then show ?thesis using assms len unfolding run boundary_refusal_def by (auto simp: ret_def)
  next
    case (message n m)
    show ?thesis
    proof (cases "?version \<notin> set VERSIONS \<and> \<not> version_offer m ?version r")
      case True
      then show ?thesis using assms unfolding run message boundary_refusal_def by (auto simp: ret_def)
    next
      case False
      then have "dispatch S m g = (Inr (status, v), g')" using assms [unfolded run message(1)] by (simp only: sum.case if_not_P [OF False] if_False)
      from dispatch_shape [OF this] have "answered S m (status, v)" .
      moreover have "admitted_message loads r role m"
        using ok len message(2-6) False unfolding admitted_message_def Let_def by blast
      ultimately show ?thesis by blast
    qed
  qed
qed

definition demo_message :: json where
  "demo_message = JObj [(''jsonrpc'', JStr ''2.0''), (''id'', JInt 7), (''method'', JStr ''tools/call''), (''params'', JObj [(''name'', JStr ''homecompute_task_status'')])]"

definition demo_request :: http_request where
  "demo_request = \<lparr>command = ''POST'', target = ''/mcp'', headers = [(''Content-Type'', ''application/json; charset=utf-8''),
     (''Accept'', ''application/json, text/event-stream''), (''Content-Length'', ''2'')], payload = ''{}''\<rparr>"

theorem endpoint_shape_witness:
  "\<exists>v. fst (handle_http demo_mcp (\<lambda>_. Inr demo_message) demo_request ''assistant'' demo_state) = Inr (200, Some v)
     \<and> (\<exists>result. tool_result codex_env result \<and> get (dict_of v) ''result'' = JObj result)"
proof -
  let ?run = "handle_http demo_mcp (\<lambda>_. Inr demo_message) demo_request ''assistant'' demo_state"
  have "case fst ?run of Inl e \<Rightarrow> False | Inr (status, v) \<Rightarrow> status = 200 \<and> v \<noteq> None \<and> has (dict_of (the v)) ''result''" by code_simp
  then obtain v g' where d: "?run = (Inr (200, Some v), g')" and h: "has (dict_of v) ''result''"
    by (cases ?run) (auto split: sum.splits)
  have "\<not> rpc_refusal m n v" for m n using h by (auto simp: rpc_refusal_def has_def)
  moreover have "Some v \<noteq> error_body m" for m using h by (auto simp: error_body_def has_def)
  ultimately obtain m where m: "admitted_message (\<lambda>_. Inr demo_message) demo_request ''assistant'' m" "rpc_success demo_mcp m v"
    using endpoint_shape [OF d] by (auto simp: answered_def invalid_json_def)
  then have "m = demo_message" by (auto simp: admitted_message_def)
  then show ?thesis using d m(2) by (auto simp: rpc_success_def demo_message_def demo_mcp_def get_def get_or_def)
qed

end
