(* ===== verification/Broker_Service.thy ===== *)
theory Broker_Service
  imports Mcp_Adapter Py_Url
begin

text \<open>
  The request handler of \<open>deploy/codex-worker/broker.py\<close> (\<open>serve\<close>): which credential may reach which
  operation of the two ledgers, and how their errors are answered. A request is read, run and answered as one step; operations of
  other requests come between the transactions of an execution or a publication only in the step
  relations of the ledgers. \<open>json.loads\<close> and \<open>parse_qs\<close> are the parameters \<open>loads\<close> and \<open>parse_query\<close> (the
  latter's treatment of an empty query differs between versions of Python).
\<close>

section \<open>Requests\<close>

record 'x server =
  credentials :: "(string \<times> string) list"
  ledger :: "'x mcp_ledger"
  publishing :: "publisher option"
  loads :: "string \<Rightarrow> json res"
  parse_query :: "string \<Rightarrow> (string \<times> string list) list res"

text \<open>The first role whose secret the header holds, in the order of the dictionary.\<close>

fun find_role :: "(string \<times> string) list \<Rightarrow> string \<Rightarrow> string option res" where
  "find_role [] header = Inr None"
| "find_role ((name, secret) # cs) header =
     bindr (compare_digest (JStr header) (JStr (''Bearer '' @ secret))) (\<lambda>same. if same then Inr (Some name) else find_role cs header)"

definition request_cursor :: "(string \<times> string list) list \<Rightarrow> (int \<times> int) res" where
  "request_cursor q =
     (let first = (\<lambda>name d. case map_of q name of Some vs \<Rightarrow> hd vs | None \<Rightarrow> d) in
      bindr (require (set (map fst q) \<subseteq> {''after'', ''limit''} \<and> list_all (\<lambda>(k, vs). length vs = 1) q) (ValueError ''invalid cursor'')) (\<lambda>_.
      bindr (py_int (first ''after'' ''0'')) (\<lambda>after.
      bindr (py_int (first ''limit'' ''100'')) (\<lambda>limit.
      bindr (require (0 \<le> after \<and> after \<le> 9223372036854775807 \<and> 1 \<le> limit \<and> limit \<le> 100) (ValueError ''invalid cursor'')) (\<lambda>_. Inr (after, limit))))))"

definition SNAPSHOT_PATH :: rexp where
  "SNAPSHOT_PATH = Seq (Lit ''/'') (Seq (Alt (Lit ''tasks'') (Lit ''actions'')) (Seq (Lit ''/'')
     (Rep (Cls (\<lambda>c. is_hexdigit c \<or> c = CHR ''-'')) 36 36)))"

definition snapshot_allowed :: "http_request \<Rightarrow> bool" where
  "snapshot_allowed r \<longleftrightarrow> command r = ''GET'' \<and> (target r \<in> {''/tasks'', ''/actions''} \<or> fullmatch SNAPSHOT_PATH (target r))"

definition path_parts :: "string \<Rightarrow> string list" where
  "path_parts p = split_on CHR ''/'' (strip_by (\<lambda>c. c = CHR ''/'') p)"

definition read_body :: "'x server \<Rightarrow> http_request \<Rightarrow> (response + dict) res" where
  "read_body B r =
     bindr (py_int (header_or r ''Content-Length'' ''0'')) (\<lambda>n.
     if n < 0 \<or> 1500000 < n then Inr (Inl (413, error_body ''body budget exceeded''))
     else bindr (if n = 0 then Inr (JObj []) else loads B (take (nat n) (payload r))) (\<lambda>body.
     bindr (require (is_dict body) (ValueError ''JSON object required'')) (\<lambda>_. Inr (Inr (dict_of body)))))"

section \<open>Routes\<close>

definition ok :: "('s, dict) eff \<Rightarrow> ('s, response) eff" where
  "ok m = bindS m (\<lambda>d. ret (200, Some (JObj d)))"

definition ok_rows :: "('s, dict list) eff \<Rightarrow> ('s, response) eff" where
  "ok_rows m = bindS m (\<lambda>ds. ret (200, Some (JArr (map JObj ds))))"

definition forbidden :: "('s, response) eff" where
  "forbidden = ret (403, error_body ''operator approval required'')"

definition unknown_route :: "('s, response) eff" where
  "unknown_route = ret (404, error_body ''unknown route'')"

definition action_post :: "env \<Rightarrow> action_cfg \<Rightarrow> calendar \<Rightarrow> string \<Rightarrow> string \<Rightarrow> string \<Rightarrow> dict \<Rightarrow> ('x gateway, response) eff" where
  "action_post E cfg C role k action body =
     (if role = ''operator'' \<and> action = ''approve'' \<and> same_keys body [''approval_sha256''] then ok (on_actions (action_approve E cfg C k (get body ''approval_sha256'')))
      else if role = ''operator'' \<and> action = ''refresh'' \<and> same_keys body [''evidence_id''] then ok (on_actions (action_refresh E cfg C k (get body ''evidence_id'')))
      else if role = ''operator'' \<and> action = ''execute'' \<and> body = [] then ok (on_actions (execute E cfg C k))
      else if role \<in> {''assistant'', ''operator''} \<and> action = ''cancel'' \<and> body = [] then ok (on_actions (action_cancel E k))
      else forbidden)"

definition action_routes :: "env \<Rightarrow> action_cfg \<Rightarrow> calendar \<Rightarrow> http_request \<Rightarrow> string \<Rightarrow> string list \<Rightarrow> dict \<Rightarrow> ('x gateway, response) eff" where
  "action_routes E cfg C r role parts body =
     (if target r = ''/actions'' \<and> command r = ''POST'' \<and> role \<in> {''assistant'', ''operator''} then ok (on_actions (action_propose E cfg C (JObj body)))
      else if target r = ''/actions'' \<and> command r = ''GET'' \<and> role \<in> {''assistant'', ''operator'', ''snapshot''} then ok_rows (on_actions list_actions)
      else if target r = ''/actions/evidence'' \<and> command r = ''POST'' \<and> role = ''operator'' then ok (on_actions (ingest_evidence E cfg C (JObj body)))
      else if length parts = 2 \<and> command r = ''GET'' \<and> role \<in> {''assistant'', ''operator'', ''snapshot''} then ok (on_actions (get_action (parts ! 1)))
      else if length parts = 3 \<and> parts ! 2 = ''review'' \<and> command r = ''GET'' \<and> role = ''operator'' then ok (on_actions (action_review E (parts ! 1)))
      else if length parts = 3 \<and> command r = ''POST'' then action_post E cfg C role (parts ! 1) (parts ! 2) body
      else unknown_route)"

definition ALLOWED :: "(string \<times> string list) list" where
  "ALLOWED = [(''assistant'', [''cancel'']), (''worker'', [''result'', ''heartbeat'']), (''operator'', [''cancel'', ''approve'', ''publish''])]"

definition task_post :: "'x server \<Rightarrow> string \<Rightarrow> string \<Rightarrow> string \<Rightarrow> dict \<Rightarrow> ('x gateway, response) eff" where
  "task_post B role k action body = (case map_of ALLOWED role of None \<Rightarrow> raise (KeyError role) | Some allowed \<Rightarrow>
     if action \<notin> set allowed then forbidden
     else if action = ''publish'' then
       (case publishing B of None \<Rightarrow> ret (403, error_body ''publisher credential not provisioned'')
        | Some p \<Rightarrow> ok (on_tasks (publish (task_env (ledger B)) (task_projects (ledger B)) p k (get_or body ''result_sha256'' (JStr [])))))
     else ok (on_tasks (act (task_env (ledger B)) (task_projects (ledger B)) k action body)))"

definition task_routes :: "'x server \<Rightarrow> http_request \<Rightarrow> string \<Rightarrow> string list \<Rightarrow> dict \<Rightarrow> ('x gateway, response) eff" where
  "task_routes B r role parts body =
     (let E = task_env (ledger B); ps = task_projects (ledger B) in
      if target r = ''/tasks'' \<and> command r = ''POST'' \<and> role \<in> {''assistant'', ''operator''} then ok (on_tasks (submit E ps body))
      else if target r = ''/tasks'' \<and> command r = ''GET'' \<and> role \<in> {''assistant'', ''operator'', ''snapshot''} then ok_rows (on_tasks (list_tasks E))
      else if target r = ''/worker/claim'' \<and> command r = ''POST'' \<and> role = ''worker'' then
        bindS (on_tasks (claim E ps)) (\<lambda>task. ret (200, Some (case task of None \<Rightarrow> JNull | Some d \<Rightarrow> JObj d)))
      else if length parts = 2 \<and> hd parts = ''tasks'' \<and> command r = ''GET'' then ok (on_tasks (get_public (parts ! 1)))
      else if length parts = 3 \<and> hd parts = ''tasks'' \<and> parts ! 2 = ''review'' \<and> command r = ''GET'' \<and> role = ''operator'' then ok (on_tasks (task_review E ps (parts ! 1)))
      else if length parts = 3 \<and> hd parts = ''tasks'' \<and> command r = ''POST'' then task_post B role (parts ! 1) (parts ! 2) body
      else unknown_route)"

definition routes :: "'x server \<Rightarrow> http_request \<Rightarrow> string \<Rightarrow> ('x gateway, response) eff" where
  "routes B r role = bindS (lift (read_body B r)) (\<lambda>outcome. case outcome of Inl refused \<Rightarrow> ret refused | Inr body \<Rightarrow>
     let parts = path_parts (target r) in
     (case actions (ledger B) of
        Some (E, cfg, C) \<Rightarrow> if hd parts = ''actions'' then action_routes E cfg C r role parts body else task_routes B r role parts body
      | None \<Rightarrow> task_routes B r role parts body))"

definition authorized :: "'x server \<Rightarrow> http_request \<Rightarrow> string \<Rightarrow> ('x gateway, response) eff" where
  "authorized B r role =
     (if target r = ''/mcp'' then handle_http (ledger B) (loads B) r role
      else bindS (lift (urlsplit (target r))) (\<lambda>parsed.
        if path parsed = ''/task-events'' \<and> command r = ''GET'' \<and> role \<in> {''snapshot'', ''operator''} then
          bindS (lift (bindr (parse_query B (query parsed)) request_cursor)) (\<lambda>(after, limit). ok (on_tasks (task_events (task_env (ledger B)) after limit)))
        else if role = ''snapshot'' \<and> \<not> snapshot_allowed r then ret (403, error_body ''read-only snapshot credential'')
        else routes B r role))"

definition failure_response :: "exn \<Rightarrow> response" where
  "failure_response e = (case e of KeyError _ \<Rightarrow> (404, error_body ''task not found'')
     | _ \<Rightarrow> if is_value_error e \<or> e = TypeError then (400, error_body ''invalid request or state transition'') else (500, error_body ''internal error; details suppressed''))"

definition handle_request :: "'x server \<Rightarrow> http_request \<Rightarrow> ('x gateway, response) eff" where
  "handle_request B r = catch
     (if target r = ''/healthz'' \<and> command r = ''GET'' then ret (200, Some (JObj [(''ok'', JBool True)]))
      else bindS (lift (find_role (credentials B) (header_or r ''Authorization'' []))) (\<lambda>role.
        case role of None \<Rightarrow> ret (401, error_body ''unauthorized'') | Some name \<Rightarrow> authorized B r name))
     (\<lambda>_. True) (\<lambda>e. ret (failure_response e))"

section \<open>What a credential may change\<close>

definition task_kept :: "dict \<Rightarrow> string option \<Rightarrow> broker \<Rightarrow> broker \<Rightarrow> bool" where
  "task_kept ps role s s' \<longleftrightarrow>
     (\<forall>k r. find_by t_id (tasks s) k = Some r \<longrightarrow> (\<exists>r'. find_by t_id (tasks s') k = Some r' \<and>
        (r' = r \<or> role = Some ''assistant'' \<and> t_state r' = ''cancelled''
         \<or> role = Some ''worker'' \<and> t_state r \<in> {''queued'', ''running''} \<and> t_state r' \<in> {''running'', ''review'', ''failed''})))
     \<and> (\<forall>k r'. find_by t_id (tasks s) k = None \<and> find_by t_id (tasks s') k = Some r' \<longrightarrow> role = Some ''assistant''
        \<and> t_state r' = (if get (dict_of (get ps (t_project r'))) ''auto_prepare'' = JBool True then ''queued'' else ''pending''))"

definition action_kept :: "string option \<Rightarrow> actions_db \<Rightarrow> actions_db \<Rightarrow> bool" where
  "action_kept role s s' \<longleftrightarrow> evidence_rows s' = evidence_rows s \<and> synthetic_rows s' = synthetic_rows s
     \<and> (\<forall>k r. find_by a_id (action_rows s) k = Some r \<longrightarrow> (\<exists>r'. find_by a_id (action_rows s') k = Some r' \<and>
        (r' = r \<or> role = Some ''assistant'' \<and> a_state r \<in> {''pending'', ''approved''} \<and> a_state r' = ''cancelled'')))
     \<and> (\<forall>k r'. find_by a_id (action_rows s) k = None \<and> find_by a_id (action_rows s') k = Some r' \<longrightarrow> role = Some ''assistant'' \<and> a_state r' = ''pending'')"

lemma same_db_kept: "same_db s s' \<Longrightarrow> task_kept ps role s s'"
  by (auto simp: same_db_def task_kept_def)

lemma same_tables_kept: "same_tables s s' \<Longrightarrow> action_kept role s s'"
  by (auto simp: same_tables_def action_kept_def)

lemma one_row_kept:
  assumes o: "only_task k s s'" and f: "find_by t_id (tasks s) k = Some r" "find_by t_id (tasks s') k = Some r'"
    and ok: "r' = r \<or> role = Some ''assistant'' \<and> t_state r' = ''cancelled''
         \<or> role = Some ''worker'' \<and> t_state r \<in> {''queued'', ''running''} \<and> t_state r' \<in> {''running'', ''review'', ''failed''}"
  shows "task_kept ps role s s'"
  unfolding task_kept_def
proof (intro conjI allI impI)
  fix j q assume q: "find_by t_id (tasks s) j = Some q"
  show "\<exists>q'. find_by t_id (tasks s') j = Some q' \<and> (q' = q \<or> role = Some ''assistant'' \<and> t_state q' = ''cancelled''
         \<or> role = Some ''worker'' \<and> t_state q \<in> {''queued'', ''running''} \<and> t_state q' \<in> {''running'', ''review'', ''failed''})"
  proof (cases "j = k")
    case True
    then show ?thesis using q f ok by (intro exI [of _ r']) simp
  next
    case False
    then show ?thesis using q o by (intro exI [of _ q]) (simp add: only_task_def)
  qed
next
  fix j q assume "find_by t_id (tasks s) j = None \<and> find_by t_id (tasks s') j = Some q"
  then have False using o f unfolding only_task_def by (cases "j = k") auto
  then show "role = Some ''assistant''" "t_state q = (if get (dict_of (get ps (t_project q))) ''auto_prepare'' = JBool True then ''queued'' else ''pending'')" by simp_all
qed

lemma act_kept:
  assumes inv: "codex_inv E ps T s" and role: "role = Some ''assistant'' \<and> action = ''cancel'' \<or> role = Some ''worker'' \<and> action \<in> {''heartbeat'', ''result''}"
  shows "task_kept ps role s (snd (act E ps k action body s))"
proof -
  have "wp (act E ps k action body) (\<lambda>_. task_kept ps role s) (\<lambda>_. task_kept ps role s) s"
  proof (rule wp_mono [OF act_spec [OF inv]], elim conjE exE)
    fix d s' r r'
    assume o: "only_task k s s'" and f: "find_by t_id (tasks s) k = Some r" "find_by t_id (tasks s') k = Some r'" and a: "acted E ps action body r r'"
    have "role = Some ''assistant'' \<and> t_state r' = ''cancelled''
        \<or> role = Some ''worker'' \<and> t_state r \<in> {''queued'', ''running''} \<and> t_state r' \<in> {''running'', ''review'', ''failed''}"
      using a role by (auto simp: acted_def split: if_splits)
    then show "task_kept ps role s s'" by (rule one_row_kept [OF o f disjI2])
  qed (rule same_db_kept)
  then show ?thesis by (simp add: wp_snd)
qed

lemma submit_kept:
  assumes inv: "codex_inv E ps T s"
  shows "task_kept ps (Some ''assistant'') s (snd (submit E ps body s))"
proof -
  have "wp (submit E ps body) (\<lambda>_. task_kept ps (Some ''assistant'') s) (\<lambda>_. task_kept ps (Some ''assistant'') s) s"
  proof (rule wp_mono [OF submit_spec [OF inv]], elim conjE)
    fix d s' assume "submitted E ps body s s'"
    then consider "same_db s s'" | k now where "tasks s' = tasks s @ [new_task E ps body k now]" unfolding submitted_def by blast
    then show "task_kept ps (Some ''assistant'') s s'"
    proof cases
      case 2
      then show ?thesis by (auto simp: task_kept_def find_by_append split: option.splits if_splits)
    qed (rule same_db_kept)
  qed (rule same_db_kept)
  then show ?thesis by (simp add: wp_snd)
qed

text \<open>A claim touches only tasks that are queued or running, and only to run or to fail them.\<close>

definition only_worker_rows :: "string set \<Rightarrow> broker \<Rightarrow> broker \<Rightarrow> bool" where
  "only_worker_rows K s s' \<longleftrightarrow> map t_id (tasks s') = map t_id (tasks s) \<and> (\<forall>k \<in> K. find_by t_id (tasks s') k = find_by t_id (tasks s) k)
     \<and> (\<forall>k r'. find_by t_id (tasks s') k = Some r' \<and> t_state r' \<notin> {''running'', ''review'', ''failed''} \<longrightarrow> find_by t_id (tasks s) k = Some r')"

lemma owr_refl: "only_worker_rows K s s" and owr_world: "only_worker_rows K s (s\<lparr>ticks := n\<rparr>)"
  by (simp_all add: only_worker_rows_def)

lemma owrD:
  assumes "only_worker_rows K s s'"
  shows "t_id ` set (tasks s') = t_id ` set (tasks s)" "k \<in> K \<Longrightarrow> find_by t_id (tasks s') k = find_by t_id (tasks s) k"
    "find_by t_id (tasks s') k = Some r' \<Longrightarrow> t_state r' \<notin> {''running'', ''review'', ''failed''} \<Longrightarrow> find_by t_id (tasks s) k = Some r'"
  using assms unfolding only_worker_rows_def by (metis list.set_map, blast+)

lemma owr_trans: "only_worker_rows K s t \<Longrightarrow> only_worker_rows K t u \<Longrightarrow> only_worker_rows K s u"
  unfolding only_worker_rows_def by metis

lemma owr_moved:
  assumes m: "moved k st g s s'" and g: "\<And>q. t_id (g q) = t_id q \<and> t_state (g q) = t_state q" and k: "k \<notin> K" "st \<in> {''running'', ''review'', ''failed''}"
  shows "only_worker_rows K s s'"
  using m k unfolding moved_def only_worker_rows_def
  by (auto simp: find_by_update keys_update_by g split: if_splits)

lemma owr_fail_all:
  assumes "t_id ` set rs \<inter> K = {}" and "\<And>s'. only_worker_rows K s s' \<Longrightarrow> Q () s'"
  shows "wp (for_eachS (\<lambda>r. transition E (t_id r) ''failed'' (set_error m)) rs) Q (\<lambda>_ _. True) s"
  using assms
proof (induction rs arbitrary: s)
  case Nil
  then show ?case by (simp add: wp_simps owr_refl)
next
  case (Cons r rs)
  have key: "t_id (set_error m p) = t_id p" "t_id (set_error m p) = t_id p \<and> t_state (set_error m p) = t_state p" for p
    using same_task_fields [of p "set_error m p"] by simp_all
  have "wp (transition E (t_id r) ''failed'' (set_error m))
      (\<lambda>_. wp (for_eachS (\<lambda>r. transition E (t_id r) ''failed'' (set_error m)) rs) Q (\<lambda>_ _. True)) (\<lambda>_ _. True) s"
  proof (rule wp_transition [OF key(1)])
    fix s' assume mv: "moved (t_id r) ''failed'' (set_error m) s s'"
    have "only_worker_rows K s s'" by (rule owr_moved [OF mv key(2)]) (use Cons.prems(1) in auto)
    then show "wp (for_eachS (\<lambda>r. transition E (t_id r) ''failed'' (set_error m)) rs) Q (\<lambda>_ _. True) s'"
      using Cons.prems by (intro Cons.IH) (auto intro: owr_trans)
  qed simp
  then show ?case by (simp add: wp_simps)
qed

lemma owr_claim_next:
  assumes "t_id q \<notin> K"
  shows "wp (claim_next E ps q) (\<lambda>_. only_worker_rows K s) (\<lambda>_ _. True) s"
proof -
  have go: "wp (transition E (t_id q) st g) (\<lambda>_. wp m (\<lambda>_. only_worker_rows K s) (\<lambda>_ _. True)) (\<lambda>_ _. True) s"
    if "\<And>p. t_id (g p) = t_id p \<and> t_state (g p) = t_state p" "st \<in> {''running'', ''failed''}" "\<And>s'. snd (m s') = s'" for st g and m :: "(broker, dict option) eff"
  proof (rule wp_transition)
    fix s' assume mv: "moved (t_id q) st g s s'"
    have "only_worker_rows K s s'" by (rule owr_moved [OF mv that(1) assms]) (use that(2) in auto)
    then show "wp m (\<lambda>_. only_worker_rows K s) (\<lambda>_ _. True) s'" using that(3) [of s'] by (auto simp: wp_def split: prod.splits sum.splits)
  qed (use that(1) in simp_all)
  have read: "snd (bindS (get_private ps (t_id q)) (\<lambda>(r', task'). ret (Some task')) s') = s'" for s'
    by (auto simp: get_private_def fetch_task_def eff_defs split: option.splits sum.splits prod.splits)
  have key: "t_id (set_error m p) = t_id p \<and> t_state (set_error m p) = t_state p" for m p
    using same_task_fields [of p "set_error m p"] by simp
  show ?thesis unfolding claim_next_def
    by (intro wp_bindI wp_get_private TrueI)
      (simp split: sum.split, intro conjI allI impI wp_bindI; rule go; simp add: key read ret_def)
qed

lemma claim_kept:
  assumes inv: "codex_inv E ps T s"
  shows "task_kept ps (Some ''worker'') s (snd (claim E ps s))"
proof -
  define K where "K = {k. \<forall>r. find_by t_id (tasks s) k = Some r \<longrightarrow> t_state r \<notin> {''queued'', ''running''}}"
  have dist: "distinct (map t_id (tasks s))" using inv by (simp add: codex_inv_def table_ok_def)
  have free: "t_id q \<notin> K" if o: "only_worker_rows K s s1" and q: "q \<in> set (tasks s1)" "t_state q \<in> {''queued'', ''running''}" for q s1
  proof
    assume k: "t_id q \<in> K"
    have "map t_id (tasks s1) = map t_id (tasks s)" and same: "find_by t_id (tasks s1) (t_id q) = find_by t_id (tasks s) (t_id q)"
      using o k unfolding only_worker_rows_def by blast+
    then have "distinct (map t_id (tasks s1))" using dist by (simp only:)
    from distinct_find_by [OF this q(1)] same have "find_by t_id (tasks s) (t_id q) = Some q" by (simp only:)
    then show False using k q(2) by (simp add: K_def)
  qed
  have kept: "task_kept ps (Some ''worker'') s s'" if o: "only_worker_rows K s s'" for s'
    unfolding task_kept_def
  proof (intro conjI allI impI)
    fix k r assume r: "find_by t_id (tasks s) k = Some r"
    have "k \<in> t_id ` set (tasks s')" using find_by_Some [OF r] owrD(1) [OF o] by auto
    then obtain r' where r': "find_by t_id (tasks s') k = Some r'" using find_by_None by fastforce
    show "\<exists>r'. find_by t_id (tasks s') k = Some r' \<and> (r' = r \<or> Some ''worker'' = Some ''assistant'' \<and> t_state r' = ''cancelled''
         \<or> Some ''worker'' = Some ''worker'' \<and> t_state r \<in> {''queued'', ''running''} \<and> t_state r' \<in> {''running'', ''review'', ''failed''})"
    proof (cases "k \<in> K")
      case True
      then show ?thesis using owrD(2) [OF o True] r by (intro exI [of _ r]) simp
    next
      case False
      then have st: "t_state r \<in> {''queued'', ''running''}" using r by (auto simp: K_def)
      show ?thesis
      proof (cases "t_state r' \<in> {''running'', ''review'', ''failed''}")
        case True
        then show ?thesis using st r' by (intro exI [of _ r']) blast
      next
        case False
        then have "r' = r" using owrD(3) [OF o r' False] r by simp
        then show ?thesis using r' by (intro exI [of _ r']) simp
      qed
    qed
  next
    fix k r' assume "find_by t_id (tasks s) k = None \<and> find_by t_id (tasks s') k = Some r'"
    then have "k \<notin> t_id ` set (tasks s)" "k \<in> t_id ` set (tasks s')" using find_by_None find_by_Some by fastforce+
    then have False using owrD(1) [OF o] by simp
    then show "Some ''worker'' = Some ''assistant''" "t_state r' = (if get (dict_of (get ps (t_project r'))) ''auto_prepare'' = JBool True then ''queued'' else ''pending'')" by simp_all
  qed
  have "wp (claim E ps) (\<lambda>_. only_worker_rows K s) (\<lambda>_ s'. same_db s s') s"
    unfolding claim_def
  proof (intro wp_tx wp_bindI wp_clockI wp_getsI owr_fail_all)
    let ?s = "s\<lparr>ticks := Suc (ticks s)\<rparr>"
    show "t_id ` set (filter (\<lambda>r. t_state r = ''running'' \<and> sql_less (t_updated r) (sql_real (fsub (clock E (ticks s)) (flt_int 60)))) (tasks ?s)) \<inter> K = {}"
      using free [OF owr_world, of _ "Suc (ticks s)"] by auto
    fix s1 assume "only_worker_rows K ?s s1"
    then have o: "only_worker_rows K s s1" using owr_trans owr_world by blast
    show "wp (if list_ex (\<lambda>r. t_state r = ''running'') (tasks s1) then ret None
        else (case order_by (\<lambda>q r. sql_before (t_created q) (t_created r)) (filter (\<lambda>r. t_state r = ''queued'') (tasks s1)) of
          [] \<Rightarrow> ret None | q # _ \<Rightarrow> claim_next E ps q)) (\<lambda>_. only_worker_rows K s) (\<lambda>_ _. True) s1"
    proof (cases "order_by (\<lambda>q r. sql_before (t_created q) (t_created r)) (filter (\<lambda>r. t_state r = ''queued'') (tasks s1))")
      case (Cons q qs)
      have "q \<in> set (tasks s1)" "t_state q = ''queued''" using arg_cong [OF Cons, of set] by auto
      then have "t_id q \<notin> K" using free [OF o] by simp
      then have "wp (claim_next E ps q) (\<lambda>_. only_worker_rows K s) (\<lambda>_ _. True) s1"
        by (intro wp_mono [OF owr_claim_next]) (auto intro: owr_trans [OF o])
      then show ?thesis using Cons o by (simp add: wp_simps)
    qed (simp add: wp_simps o)
  qed
  then have "wp (claim E ps) (\<lambda>_. task_kept ps (Some ''worker'') s) (\<lambda>_. task_kept ps (Some ''worker'') s) s"
    by (rule wp_mono) (auto intro: kept same_db_kept)
  then show ?thesis by (simp add: wp_snd)
qed


section \<open>Actions\<close>

interpretation records: frame "\<lambda>s s'. evidence_rows s' = evidence_rows s \<and> synthetic_rows s' = synthetic_rows s"
  by unfold_locales simp_all

lemma evidence_reads: "snd (evidence v s) = s"
  by (auto simp: evidence_def eff_defs split: json.splits option.splits)

lemma fetch_reads: "snd (fetch_action k s) = s"
  by (auto simp: fetch_action_def eff_defs split: option.splits)

lemma transition_records: "evidence_rows (snd (action_transition E k st cs s)) = evidence_rows s \<and> synthetic_rows (snd (action_transition E k st cs s)) = synthetic_rows s"
  unfolding action_transition_def log_action_def
  by (intro records.keeps_bind) (auto simp: update_action_def check_def modify_def lift_def read_clock_def evidence_reads fetch_reads)

lemma cancel_kept:
  assumes inv: "action_inv E s"
  shows "action_kept (Some ''assistant'') s (snd (action_cancel E k s))"
proof (cases "action_cancel E k s")
  case (Pair out s')
  show ?thesis
  proof (cases out)
    case (Inl e)
    then show ?thesis using Action_Ledger.call_failed(4) same_tables_kept Pair by (metis snd_conv)
  next
    case (Inr d)
    then obtain r s3 where r: "find_by a_id (action_rows s) k = Some r" and st: "a_state r \<in> {''pending'', ''approved''}"
      and t: "action_transition E k ''cancelled'' [] s = (Inr (), s3)" and g: "get_action k s3 = (Inr d, s')"
      using Pair by (fastforce simp: action_cancel_def eff_iffs)
    from transition_Inr [OF inv r _ t] obtain u where u: "turned k (settled ''cancelled'' u [] r) s s3" by auto
    let ?r = "settled ''cancelled'' u [] r"
    have id: "a_id ?r = k" using action_inv_row(2) [OF inv r] by simp
    have s': "s' = s3" by (rule get_Inr [OF g])
    have "evidence_rows s' = evidence_rows s" "synthetic_rows s' = synthetic_rows s" using u by (simp_all add: turned_def s')
    moreover have f: "find_by a_id (action_rows s') j = (if j = k then Some ?r else find_by a_id (action_rows s) j)" for j
      using turned_find [OF u id, of j] r by (simp add: s')
    ultimately show ?thesis using r st unfolding action_kept_def Pair snd_conv by auto
  qed
qed

lemma propose_kept:
  assumes inv: "action_inv E s"
  shows "action_kept (Some ''assistant'') s (snd (action_propose E cfg C v s))"
proof (cases "action_propose E cfg C v s")
  case (Pair out s')
  show ?thesis
  proof (cases out)
    case (Inl e)
    then show ?thesis using Action_Ledger.call_failed(1) same_tables_kept Pair by (metis snd_conv)
  next
    case (Inr d)
    have ok: "action_propose E cfg C v s = (Inr d, s')" using Pair Inr by simp
    have rec': "evidence_rows s' = evidence_rows s \<and> synthetic_rows s' = synthetic_rows s"
      using propose_parts [OF ok]
    proof (elim disjE bexE exE conjE)
      fix p k now s1 s2 s3
      assume p: "preconditions E cfg C (str_of (get (dict_of v) ''action_id'')) (str_of (get (dict_of v) ''target'')) (str_of (get (dict_of v) ''incident_key'')) (get (dict_of v) ''evidence_id'') None s = (Inr p, s1)"
        and s2: "s2 = s1\<lparr>ids := Suc (ids s1), ticks := Suc (ticks s1)\<rparr>" and ins: "insert_action (new_action k (dict_of v) now (digest_of E (policy_doc cfg p)) (policy_doc cfg p)) s2 = (Inr (), s3)"
        and t: "action_transition E k ''pending'' [] s3 = (Inr (), s')"
      have "evidence_rows s1 = evidence_rows s \<and> synthetic_rows s1 = synthetic_rows s" using preconditions_Inr [OF p] by auto
      moreover have "evidence_rows s3 = evidence_rows s2 \<and> synthetic_rows s3 = synthetic_rows s2"
        using ins by (auto simp: insert_action_def eff_iffs split: if_splits)
      ultimately show ?thesis using transition_records [of E k "''pending''" "[]" s3] t s2 by simp
    qed simp
    from action_propose_spec [OF inv ok] have "action_rows s' = action_rows s \<or> (\<exists>r. action_rows s' = action_rows s @ [r] \<and> a_state r = ''pending'')" by blast
    then show ?thesis using rec' unfolding action_kept_def Pair snd_conv
      by (auto simp: find_by_append split: option.splits if_splits)
  qed
qed

section \<open>Requests\<close>

definition stays :: "('s, 'a) eff \<Rightarrow> bool" where
  "stays m \<longleftrightarrow> (\<forall>s. snd (m s) = s)"

lemma stays_simps [simp]:
  "stays (ret x)" "stays (raise e)" "stays (lift r)" "stays (check c e)" "stays (gets f)"
  by (simp_all add: stays_def eff_defs)

lemma stays_bind: "stays m \<Longrightarrow> (\<And>x. stays (k x)) \<Longrightarrow> stays (bindS m k)"
  by (auto simp: stays_def bindS_def split: prod.splits sum.splits) (metis snd_conv)+

lemma snd_on [simp]:
  "snd (on_tasks m g) = g\<lparr>task_db := snd (m (task_db g))\<rparr>" "snd (on_actions n g) = g\<lparr>action_db := snd (n (action_db g))\<rparr>"
  "snd (on_others o' g) = g\<lparr>other_db := snd (o' (other_db g))\<rparr>"
  by (simp_all add: on_tasks_def on_actions_def on_others_def split: prod.split)

definition gateway_kept :: "'x mcp_ledger \<Rightarrow> string option \<Rightarrow> 'x gateway \<Rightarrow> 'x gateway \<Rightarrow> bool" where
  "gateway_kept L role g g' \<longleftrightarrow> task_kept (task_projects L) role (task_db g) (task_db g') \<and> action_kept role (action_db g) (action_db g')
     \<and> (role \<noteq> Some ''assistant'' \<and> role \<noteq> Some ''worker'' \<longrightarrow> same_db (task_db g) (task_db g') \<and> same_tables (action_db g) (action_db g'))"

definition gateway_inv :: "'x mcp_ledger \<Rightarrow> string list \<Rightarrow> 'x gateway \<Rightarrow> bool" where
  "gateway_inv L T g \<longleftrightarrow> codex_inv (task_env L) (task_projects L) T (task_db g)
     \<and> (case actions L of None \<Rightarrow> True | Some (E, cfg, C) \<Rightarrow> action_inv E (action_db g))"

lemma kept_refl [simp]: "gateway_kept L role g g" and kept_others [simp]: "gateway_kept L role g (g\<lparr>other_db := x\<rparr>)"
  by (simp_all add: gateway_kept_def same_db_kept same_tables_kept)

lemma kept_tasks: "task_kept (task_projects L) role (task_db g) t \<Longrightarrow> role = Some ''assistant'' \<or> role = Some ''worker'' \<Longrightarrow> gateway_kept L role g (g\<lparr>task_db := t\<rparr>)"
  and kept_actions: "action_kept role (action_db g) a \<Longrightarrow> role = Some ''assistant'' \<or> role = Some ''worker'' \<Longrightarrow> gateway_kept L role g (g\<lparr>action_db := a\<rparr>)"
  by (auto simp: gateway_kept_def same_db_kept same_tables_kept)

lemma kept_reads: "same_db (task_db g) t \<Longrightarrow> gateway_kept L role g (g\<lparr>task_db := t\<rparr>)" and kept_action_reads: "gateway_kept L role g (g\<lparr>action_db := action_db g\<rparr>)"
  by (simp_all add: gateway_kept_def same_db_kept same_tables_kept)

lemma list_actions_reads: "snd (list_actions s) = s"
proof -
  have one: "snd (mapS (\<lambda>r. get_action (a_id r)) rs s) = s" for rs :: "action_row list" and s
    by (induction rs arbitrary: s) (auto simp: bindS_def ret_def get_action_reads split: prod.splits sum.splits, (metis get_action_reads snd_conv)+)
  then show ?thesis by (simp add: list_actions_def bindS_def gets_def)
qed


text \<open>An operation under a role, from a given state; only one part of it changes the state.\<close>

definition role_keeps :: "'x mcp_ledger \<Rightarrow> string \<Rightarrow> 'x gateway \<Rightarrow> ('x gateway, 'a) eff \<Rightarrow> bool" where
  "role_keeps L role g m \<longleftrightarrow> gateway_kept L (Some role) g (snd (m g))"

lemma role_stays: "stays m \<Longrightarrow> role_keeps L role g m"
  by (simp add: role_keeps_def stays_def)

lemma role_primitives [simp]:
  "role_keeps L role g (ret x)" "role_keeps L role g (raise e)" "role_keeps L role g (lift r)" "role_keeps L role g (check c e)"
  by (simp_all add: role_stays)

lemma role_then: "stays m \<Longrightarrow> (\<And>x. role_keeps L role g (k x)) \<Longrightarrow> role_keeps L role g (bindS m k)"
  by (auto simp: role_keeps_def stays_def bindS_def split: prod.splits sum.splits) (metis kept_refl snd_conv)+

lemma role_lift: "(\<And>x. role_keeps L role g (k x)) \<Longrightarrow> role_keeps L role g (bindS (lift r) k)"
  by (rule role_then) simp_all

lemma role_first: "role_keeps L role g m \<Longrightarrow> (\<And>x. stays (k x)) \<Longrightarrow> role_keeps L role g (bindS m k)"
  by (auto simp: role_keeps_def stays_def bindS_def split: prod.splits sum.splits)

lemma role_catch: "role_keeps L role g m \<Longrightarrow> (\<And>e. stays (h e)) \<Longrightarrow> role_keeps L role g (catch m p h)"
  by (auto simp: role_keeps_def stays_def catch_def split: prod.splits sum.splits)

lemma role_if: "(c \<Longrightarrow> role_keeps L role g m) \<Longrightarrow> (\<not> c \<Longrightarrow> role_keeps L role g n) \<Longrightarrow> role_keeps L role g (if c then m else n)"
  by simp

lemma role_check: "(c \<Longrightarrow> role_keeps L role g m) \<Longrightarrow> role_keeps L role g (bindS (check c e) (\<lambda>_. m))"
  by (simp add: role_keeps_def bindS_def check_def)

lemma role_on:
  "task_kept (task_projects L) (Some role) (task_db g) (snd (t (task_db g))) \<Longrightarrow> role \<in> {''assistant'', ''worker''} \<Longrightarrow> role_keeps L role g (on_tasks t)"
  "action_kept (Some role) (action_db g) (snd (a (action_db g))) \<Longrightarrow> role \<in> {''assistant'', ''worker''} \<Longrightarrow> role_keeps L role g (on_actions a)"
  "same_db (task_db g) (snd (t (task_db g))) \<Longrightarrow> role_keeps L role g (on_tasks t)" "snd (a (action_db g)) = action_db g \<Longrightarrow> role_keeps L role g (on_actions a)"
  "role_keeps L role g (on_others x)"
  by (auto simp: role_keeps_def kept_action_reads intro: kept_tasks kept_actions kept_reads)

lemma role_wrapped:
  "role_keeps L role g v \<Longrightarrow> role_keeps L role g (bounded L v)" "role_keeps L role g d \<Longrightarrow> role_keeps L role g (ok d)"
  "role_keeps L role g ds \<Longrightarrow> role_keeps L role g (ok_rows ds)"
  unfolding bounded_def ok_def ok_rows_def by (rule role_first, assumption, simp)+

lemma role_reads [simp]:
  "role_keeps L role g (on_tasks (get_public k))" "role_keeps L role g (on_tasks (list_tasks E))" "role_keeps L role g (on_tasks (task_events E a n))"
  "role_keeps L role g (on_actions (get_action k))" "role_keeps L role g (on_actions list_actions)"
  by (rule role_on(3,4), simp add: reads_get reads_rest get_action_reads list_actions_reads)+

lemma backend_kept: "role_keeps L role g (run_backend L name arguments)"
  unfolding run_backend_def Let_def
  by (intro role_if) (auto simp: role_on(5) stays_bind intro!: role_wrapped role_lift role_first split: option.split)

lemma task_inv: "gateway_inv L T g \<Longrightarrow> codex_inv (task_env L) (task_projects L) T (task_db g)"
  by (simp add: gateway_inv_def)

lemma task_mutations:
  assumes inv: "gateway_inv L T g"
  shows "role_keeps L ''assistant'' g (on_tasks (submit (task_env L) (task_projects L) body))"
  "role_keeps L ''assistant'' g (on_tasks (act (task_env L) (task_projects L) k ''cancel'' body))"
  "action \<in> {''result'', ''heartbeat''} \<Longrightarrow> role_keeps L ''worker'' g (on_tasks (act (task_env L) (task_projects L) k action body))"
  "role_keeps L ''worker'' g (on_tasks (claim (task_env L) (task_projects L)))"
  using submit_kept [OF task_inv [OF inv]] act_kept [OF task_inv [OF inv]] claim_kept [OF task_inv [OF inv]] by (auto intro!: role_on(1))

lemma action_mutations:
  assumes inv: "gateway_inv L T g" and "actions L = Some (E, cfg, C)"
  shows "role_keeps L ''assistant'' g (on_actions (action_propose E cfg C v))" "role_keeps L ''assistant'' g (on_actions (action_cancel E k))"
  using assms propose_kept cancel_kept by (auto simp: gateway_inv_def intro!: role_on(2))

lemma action_tool_kept:
  assumes inv: "gateway_inv L T g"
  shows "role_keeps L ''assistant'' g (run_action_tool L name d)"
proof (cases "actions L")
  case None
  then show ?thesis by (simp add: run_action_tool_def)
next
  case (Some a)
  then obtain E cfg C where a: "actions L = Some (E, cfg, C)" by (cases a) auto
  show ?thesis unfolding run_action_tool_def a option.case prod.case Let_def
    by (intro role_if) (auto intro!: role_wrapped role_lift role_first simp: action_mutations [OF inv a])
qed

lemma task_tool_kept:
  assumes inv: "gateway_inv L T g"
  shows "role_keeps L ''assistant'' g (run_task_tool L name d)"
  unfolding run_task_tool_def recent_tasks_def Let_def
  by (intro role_if) (auto intro!: role_wrapped role_lift role_first simp: task_mutations [OF inv] stays_bind)

lemma call_tool_kept:
  assumes inv: "gateway_inv L T g"
  shows "role_keeps L ''assistant'' g (call_tool L params)"
proof -
  have "role_keeps L ''assistant'' g (run_tool L name arguments)" for name arguments
    unfolding run_tool_def by (intro role_if) (simp_all add: backend_kept action_tool_kept [OF inv] task_tool_kept [OF inv])
  then show ?thesis unfolding call_tool_def Let_def
    by (intro role_check) (auto intro!: role_lift role_catch split: option.split)
qed

lemma dispatch_kept:
  assumes inv: "gateway_inv L T g"
  shows "role_keeps L ''assistant'' g (dispatch L message)"
proof -
  have "role_keeps L ''assistant'' g (call_method L name params)" for name params
    unfolding call_method_def by (intro role_if role_check) (simp_all add: call_tool_kept [OF inv])
  then show ?thesis unfolding dispatch_def answer_def Let_def
    by (intro role_catch role_check role_if role_first) simp_all
qed

lemma http_kept:
  assumes inv: "gateway_inv L T g"
  shows "role_keeps L role g (handle_http L ld r role)"
proof (cases "role = ''assistant''")
  case True
  show ?thesis unfolding handle_http_def Let_def True
    by (intro role_if) (auto simp: dispatch_kept [OF inv] split: list.split sum.split)
qed (simp add: handle_http_def)

lemma action_routes_kept:
  assumes inv: "gateway_inv L T g" and a: "actions L = Some (E, cfg, C)" and role: "role \<noteq> ''operator''"
  shows "role_keeps L role g (action_routes E cfg C r role parts body)"
  unfolding action_routes_def action_post_def forbidden_def unknown_route_def
  by (intro role_if) (use role in \<open>auto intro!: role_wrapped simp: action_mutations [OF inv a]\<close>)

lemma task_routes_kept:
  assumes inv: "gateway_inv (ledger B) T g" and role: "role \<noteq> ''operator''"
  shows "role_keeps (ledger B) role g (task_routes B r role parts body)"
proof -
  have post: "role_keeps (ledger B) role g (task_post B role k action body)" for k action
  proof (cases "role = ''assistant''")
    case True
    then show ?thesis
      by (cases "action = ''cancel''") (simp_all add: task_post_def ALLOWED_def forbidden_def role_wrapped task_mutations [OF inv])
  next
    case other: False
    show ?thesis
    proof (cases "role = ''worker''")
      case True
      then show ?thesis
        by (cases "action \<in> {''result'', ''heartbeat''}") (auto simp: task_post_def ALLOWED_def forbidden_def role_wrapped task_mutations [OF inv])
    qed (use other role in \<open>simp add: task_post_def ALLOWED_def\<close>)
  qed
  show ?thesis unfolding task_routes_def Let_def unknown_route_def
    by (intro role_if) (use role in \<open>auto intro!: role_wrapped role_first post simp: task_mutations [OF inv]\<close>)
qed

lemma authorized_kept:
  assumes inv: "gateway_inv (ledger B) T g" and role: "role \<noteq> ''operator''"
  shows "role_keeps (ledger B) role g (authorized B r role)"
proof -
  have "role_keeps (ledger B) role g (routes B r role)"
    unfolding routes_def Let_def
    by (rule role_lift) (auto simp: action_routes_kept [OF inv _ role] task_routes_kept [OF inv role] split: sum.split option.split)
  then show ?thesis unfolding authorized_def
    by (auto intro!: role_lift role_if role_wrapped simp: http_kept [OF inv])
qed


lemma catch_all: "snd (catch m (\<lambda>_. True) (\<lambda>e. ret (h e)) s) = snd (m s)" "\<exists>x s'. catch m (\<lambda>_. True) (\<lambda>e. ret (h e)) s = (Inr x, s')"
  by (cases "m s"; cases "fst (m s)"; simp add: catch_def ret_def)+

definition request_role :: "'x server \<Rightarrow> http_request \<Rightarrow> string option" where
  "request_role B r = (case find_role (credentials B) (header_or r ''Authorization'' []) of Inl e \<Rightarrow> None | Inr role \<Rightarrow> role)"

lemma request_kept:
  assumes inv: "gateway_inv (ledger B) T g" and role: "request_role B r \<noteq> Some ''operator''"
  shows "gateway_kept (ledger B) (request_role B r) g (snd (handle_request B r g))"
proof -
  let ?m = "if target r = ''/healthz'' \<and> command r = ''GET'' then ret (200, Some (JObj [(''ok'', JBool True)]))
      else bindS (lift (find_role (credentials B) (header_or r ''Authorization'' []))) (\<lambda>role.
        case role of None \<Rightarrow> ret (401, error_body ''unauthorized'') | Some name \<Rightarrow> authorized B r name)"
  have "gateway_kept (ledger B) (request_role B r) g (snd (?m g))"
  proof (cases "find_role (credentials B) (header_or r ''Authorization'' [])")
    case (Inr who)
    show ?thesis
    proof (cases who)
      case (Some name)
      then have "name \<noteq> ''operator''" "request_role B r = Some name" using role Inr by (simp_all add: request_role_def)
      then show ?thesis using authorized_kept [OF inv, of name r] Inr Some by (simp add: role_keeps_def bindS_def lift_def ret_def)
    qed (use Inr in \<open>simp add: bindS_def lift_def ret_def\<close>)
  qed (simp add: bindS_def lift_def ret_def)
  then show ?thesis unfolding handle_request_def by (simp only: catch_all(1))
qed

section \<open>Properties of the broker\<close>

text \<open>
  C35: only the operator's credential authorises anything. Whatever the request, over the broker's own routes or through
  the MCP tools, it is answered; and unless it carries the operator's token, no task is approved or published and
  no action is approved, refreshed or executed: evidence and synthetic targets are unchanged, an existing task changes only by
  an assistant's cancellation or by a worker that runs a queued or running task, a new task waits
  for approval unless its project's policy prepares it automatically, an existing action is at most cancelled by an assistant before
  it starts, and a new action is pending. A snapshot credential, an unknown token or none changes nothing.
\<close>

theorem operator_only:
  assumes inv: "gateway_inv (ledger B) T g" and role: "request_role B r \<noteq> Some ''operator''"
  shows "\<exists>response g'. handle_request B r g = (Inr response, g') \<and> task_kept (task_projects (ledger B)) (request_role B r) (task_db g) (task_db g')
    \<and> action_kept (request_role B r) (action_db g) (action_db g')
    \<and> (request_role B r \<notin> {Some ''assistant'', Some ''worker''} \<longrightarrow> same_db (task_db g) (task_db g') \<and> same_tables (action_db g) (action_db g'))"
proof -
  have "\<exists>response g'. handle_request B r g = (Inr response, g')" unfolding handle_request_def by (rule catch_all(2))
  then obtain response g' where h: "handle_request B r g = (Inr response, g')" by (elim exE)
  then show ?thesis using request_kept [OF assms] h by (auto simp: gateway_kept_def)
qed

definition demo_server :: "unit server" where
  "demo_server = \<lparr>credentials = [(''worker'', ''w''), (''operator'', ''o'')], ledger = demo_mcp,
     publishing = None, loads = (\<lambda>_. Inr (JObj [])), parse_query = (\<lambda>_. Inr [])\<rparr>"

definition demo_gateway :: "unit gateway" where
  "demo_gateway = \<lparr>task_db = review_db, action_db = small_ledger, other_db = ()\<rparr>"

definition demo_publish :: http_request where
  "demo_publish = \<lparr>command = ''POST'', target = ''/tasks/task-0/publish'', headers = [(''Authorization'', ''Bearer w'')], payload = []\<rparr>"

theorem operator_only_witness:
  "\<exists>g'. handle_request demo_server demo_publish demo_gateway = (Inr (403, error_body ''operator approval required''), g')
     \<and> task_kept codex_projects (Some ''worker'') review_db (task_db g')"
proof -
  have inv: "gateway_inv (ledger demo_server) [] demo_gateway"
    using review_inv small_inv by (simp add: gateway_inv_def demo_server_def demo_mcp_def demo_gateway_def)
  have role: "request_role demo_server demo_publish = Some ''worker''" by code_simp
  have "fst (handle_request demo_server demo_publish demo_gateway) = Inr (403, error_body ''operator approval required'')" by code_simp
  moreover have "task_projects (ledger demo_server) = codex_projects" "task_db demo_gateway = review_db" by (simp_all add: demo_server_def demo_mcp_def demo_gateway_def)
  ultimately show ?thesis using operator_only [OF inv, of demo_publish] role by (cases "handle_request demo_server demo_publish demo_gateway") auto
qed

end
