(* ===== verification/Py_Numbers.thy ===== *)
theory Py_Numbers
  imports Py_Values Py_Containers Ledger_Core
begin

text \<open>
  Arithmetic on JSON numbers as Python does it: an \<open>int\<close> is exact, a \<open>float\<close> rounds after every
  operation, and a mixed operation converts the \<open>int\<close> first (\<open>OverflowError\<close> when it is too large).
  Comparisons between the two are exact.
\<close>

section \<open>Floats\<close>

fun fmul :: "flt \<Rightarrow> flt \<Rightarrow> flt" where
  "fmul (Fin a) (Fin b) = fl (a * b)"
| "fmul NaN _ = NaN"
| "fmul _ NaN = NaN"
| "fmul (Fin a) y = (if a = 0 then NaN else if 0 < a then y else fneg y)"
| "fmul x (Fin b) = (if b = 0 then NaN else if 0 < b then x else fneg x)"
| "fmul PosInf y = y"
| "fmul NegInf y = fneg y"

text \<open>\<open>x / y\<close> of floats; the caller has excluded a zero divisor. A quotient of finite numbers is one rounding.\<close>

fun fdiv :: "flt \<Rightarrow> flt \<Rightarrow> flt" where
  "fdiv (Fin a) (Fin b) = fl (a / b)"
| "fdiv NaN _ = NaN"
| "fdiv _ NaN = NaN"
| "fdiv (Fin a) _ = Fin 0"
| "fdiv x (Fin b) = (if b < 0 then fneg x else x)"
| "fdiv _ _ = NaN"

text \<open>\<open>round(x, 6)\<close>: the decimal rounding of the exact value, half to even, as the nearest float.\<close>

fun round6 :: "flt \<Rightarrow> flt" where
  "round6 (Fin r) = fl (of_int (half_even (r * 1000000)) / 1000000)"
| "round6 x = x"

text \<open>\<open>statistics.median\<close> of a list that is not empty.\<close>

definition median :: "flt list \<Rightarrow> flt" where
  "median xs = (let ys = order_by flt_less xs; n = length ys in
     if odd n then ys ! (n div 2) else fdiv (fadd (ys ! (n div 2 - 1)) (ys ! (n div 2))) (Fin 2))"

text \<open>\<open>math.isclose(x, y, rel_tol=0, abs_tol=0.000001)\<close>.\<close>

definition flt_abs :: "flt \<Rightarrow> flt" where
  "flt_abs x = (if flt_less x (Fin 0) then fneg x else x)"

definition isclose6 :: "flt \<Rightarrow> flt \<Rightarrow> bool" where
  "isclose6 x y = (if flt_eq x y then True else if \<not> isfinite x \<or> \<not> isfinite y then False else flt_le (flt_abs (fsub y x)) (fl (1 / 1000000)))"

section \<open>Numbers\<close>

definition is_number :: "json \<Rightarrow> bool" where
  "is_number v = (case v of JInt _ \<Rightarrow> True | JFlt _ \<Rightarrow> True | _ \<Rightarrow> False)"

definition int_float :: "int \<Rightarrow> flt res" where
  "int_float i = (case fl (of_int i) of Fin r \<Rightarrow> Inr (Fin r) | _ \<Rightarrow> Inl OverflowError)"

definition py_float :: "json \<Rightarrow> flt res" where
  "py_float v = (case v of JInt i \<Rightarrow> int_float i | JFlt x \<Rightarrow> Inr x | JBool b \<Rightarrow> Inr (Fin (if b then 1 else 0)) | _ \<Rightarrow> Inl TypeError)"

definition num :: "json \<Rightarrow> flt" where
  "num v = (case v of JInt i \<Rightarrow> Fin (of_int i) | JFlt x \<Rightarrow> x | JBool b \<Rightarrow> Fin (if b then 1 else 0) | _ \<Rightarrow> NaN)"

abbreviation num_less :: "json \<Rightarrow> json \<Rightarrow> bool" where
  "num_less v w \<equiv> flt_less (num v) (num w)"

definition num_neg :: "json \<Rightarrow> json" where
  "num_neg v = (case v of JInt i \<Rightarrow> JInt (- i) | JFlt x \<Rightarrow> JFlt (fneg x) | JBool b \<Rightarrow> JInt (if b then - 1 else 0) | _ \<Rightarrow> v)"

definition hundred_times :: "json \<Rightarrow> json" where
  "hundred_times v = (case v of JInt i \<Rightarrow> JInt (100 * i) | JFlt x \<Rightarrow> JFlt (fmul (Fin 100) x) | _ \<Rightarrow> v)"

text \<open>\<open>v / w\<close>; the quotient of two \<open>int\<close>s is rounded once from the exact value.\<close>

definition true_div :: "json \<Rightarrow> json \<Rightarrow> flt res" where
  "true_div v w = (case (v, w) of
       (JInt a, JInt b) \<Rightarrow> (case fl (of_int a / of_int b) of Fin r \<Rightarrow> Inr (Fin r) | _ \<Rightarrow> Inl OverflowError)
     | _ \<Rightarrow> bindr (py_float v) (\<lambda>x. bindr (py_float w) (\<lambda>y. Inr (fdiv x y))))"

lemma num_number: "is_number v \<Longrightarrow> num_of v = Some (num v)"
  by (auto simp: is_number_def num_of_def num_def split: json.splits)

lemma py_less_numbers: "is_number v \<Longrightarrow> is_number w \<Longrightarrow> py_less v w = Inr (num_less v w)"
  using num_number [of w] by (cases v) (auto simp: is_number_def num_def)

lemma py_eq_numbers: "is_number v \<Longrightarrow> is_number w \<Longrightarrow> py_eq v w \<longleftrightarrow> flt_eq (num v) (num w)"
  by (cases v; cases w) (auto simp: is_number_def num_def num_of_def)

lemma num_neg_number: "is_number v \<Longrightarrow> is_number (num_neg v) \<and> num (num_neg v) = fneg (num v)"
  by (cases v) (auto simp: is_number_def num_neg_def num_def)

section \<open>Sorting with a total comparison\<close>

text \<open>
  A comparison that never raises on the keys of a set and is a strict weak order there sorts:
  no entry is followed by one with a smaller key.
\<close>

locale comparable_keys =
  fixes lt :: "'k \<Rightarrow> 'k \<Rightarrow> bool res" and ahead :: "'k \<Rightarrow> 'k \<Rightarrow> bool" and K :: "'k set"
  assumes compares: "a \<in> K \<Longrightarrow> b \<in> K \<Longrightarrow> lt a b = Inr (ahead a b)"
    and asym: "a \<in> K \<Longrightarrow> b \<in> K \<Longrightarrow> ahead a b \<Longrightarrow> \<not> ahead b a"
    and weak: "a \<in> K \<Longrightarrow> b \<in> K \<Longrightarrow> c \<in> K \<Longrightarrow> \<not> ahead a b \<Longrightarrow> \<not> ahead b c \<Longrightarrow> \<not> ahead a c"
begin

abbreviation ordered :: "('k \<times> 'a) list \<Rightarrow> bool" where
  "ordered \<equiv> sorted_wrt (\<lambda>x y. \<not> ahead (fst y) (fst x))"

lemma insert_ordered:
  assumes "insert_sorted lt e fs = Inr gs" "fst e \<in> K" "fst ` set fs \<subseteq> K" "ordered fs"
  shows "ordered gs"
  using assms
proof (induction fs arbitrary: gs)
  case (Cons f fs)
  have K: "fst f \<in> K" "fst e \<in> K" "\<And>g. g \<in> set fs \<Longrightarrow> fst g \<in> K" using Cons.prems(2,3) by auto
  show ?case
  proof (cases "ahead (fst f) (fst e)")
    case True
    with Cons.prems(1) compares [OF K(1,2)] obtain hs where hs: "insert_sorted lt e fs = Inr hs" "gs = f # hs" by (auto simp: bindr_Inr_iff)
    have "ordered hs" by (rule Cons.IH [OF hs(1)]) (use Cons.prems in auto)
    moreover have "\<not> ahead (fst g) (fst f)" if "g \<in> set hs" for g
      using that insert_sorted_set [OF hs(1)] asym [OF K(1,2) True] Cons.prems(4) by auto
    ultimately show ?thesis by (simp add: hs(2))
  next
    case False
    with Cons.prems(1) compares [OF K(1,2)] have gs: "gs = e # f # fs" by simp
    have "\<not> ahead (fst g) (fst e)" if g: "g \<in> set fs" for g
      by (rule weak [OF K(3) [OF g] K(1,2) _ False]) (use Cons.prems(4) g in auto)
    then show ?thesis using False Cons.prems(4) by (simp add: gs)
  qed
qed simp

lemma sort_ordered:
  assumes "sort_entries lt es = Inr fs" "fst ` set es \<subseteq> K"
  shows "ordered fs"
  using assms
proof (induction es arbitrary: fs)
  case (Cons e es)
  then obtain gs where gs: "sort_entries lt es = Inr gs" "insert_sorted lt e gs = Inr fs" by (auto simp: bindr_Inr_iff)
  have "ordered gs" by (rule Cons.IH [OF gs(1)]) (use Cons.prems in auto)
  then show ?case
    by (rule insert_ordered [OF gs(2), rotated -1]) (use Cons.prems(2) sort_entries_set [OF gs(1)] in auto)
qed simp

lemma sort_total:
  assumes "fst ` set es \<subseteq> K"
  shows "\<exists>fs. sort_entries lt es = Inr fs"
  by (rule sort_entries_total) (use assms compares in blast)

end

end
