(* ===== verification/Gpu_Host.thy ===== *)
theory Gpu_Host
  imports Py_Numbers
begin

text \<open>
  What the controller of the shared GPU (\<open>scripts/comfyui_lifecycle.py\<close>) sees and does: the class
  \<open>Host\<close>, the admission gate of \<open>scripts/llm_admission.py\<close> (\<open>IntakeGate\<close>) and the progress record of
  \<open>scripts/comfyui_progress.py\<close> (\<open>Transition\<close>).

  The state keeps the trace of everything that happened outside: docker commands with their answers,
  requests to the two services, readings of the clock, and what the gate did. The record \<open>host\<close> answers each of
  them from the trace so far, so an answer may depend on anything that happened before and a service may fail, hang or
  restart at any time. Between two of these events requests of clients may
  pass the gate or leave it (\<open>clients\<close>), as their threads run beside the controller.
\<close>

section \<open>Events\<close>

datatype event =
    Inspected string "string res"
  | Started string "unit res"
  | Stopped string "unit res"
  | Probed string "unit res"
  | Fetched string "json res"
  | Measured "(int \<times> int) option res"
  | Activity "json res"
  | Prompted string string "(int \<times> string \<times> string) res"
  | Read_Clock flt
  | Slept int
  | Saved json "unit res"
  | Admitted
  | Released
  | Opened
  | Closed

text \<open>A client asks to pass the gate (counted or not), or one that was counted is done.\<close>

datatype client = Arrive bool | Finish

text \<open>
  \<open>prompt_says\<close> is the answer to a prompt, an error answer included; \<open>metrics_says\<close> is what \<open>text_requests\<close> makes of the metrics page (running and waiting requests), and
  \<open>activity_says\<close> what \<open>WorkflowActivity.get\<close> returns, when an activity service is configured.
\<close>

record host =
  text_container :: string
  text_display_name :: string
  inspect_says :: "event list \<Rightarrow> string \<Rightarrow> string res"
  start_says :: "event list \<Rightarrow> string \<Rightarrow> unit res"
  stop_says :: "event list \<Rightarrow> string \<Rightarrow> unit res"
  probe_says :: "event list \<Rightarrow> string \<Rightarrow> unit res"
  fetch_says :: "event list \<Rightarrow> string \<Rightarrow> json res"
  metrics_says :: "event list \<Rightarrow> (int \<times> int) option res"
  activity_says :: "(event list \<Rightarrow> json res) option"
  prompt_says :: "event list \<Rightarrow> string \<Rightarrow> string \<Rightarrow> (int \<times> string \<times> string) res"
  time_says :: "event list \<Rightarrow> flt"
  save_says :: "event list \<Rightarrow> json \<Rightarrow> unit res"
  clients :: "event list \<Rightarrow> client list"
  digest_says :: "string \<Rightarrow> string"

record transition =
  tr_started :: flt
  tr_phase_started :: flt
  tr_action :: string
  tr_target :: string
  tr_phase :: string
  tr_workflows :: json
  tr_turns :: json
  tr_requests :: json
  tr_reason :: json

text \<open>
  The controller. \<open>worker\<close> is the action of the thread that carries out a switch, from its start until it ends.
\<close>

record ctl =
  events :: "event list"
  gate_available :: bool
  gate_state :: string
  gate_active :: int
  progress :: "transition option"
  mode :: string
  target_mode :: string
  text_running :: bool
  text_ready :: bool
  comfy_running :: bool
  comfy_ready :: bool
  queue_running :: "int option"
  queue_pending :: "int option"
  failure :: "string option"
  llm_available :: bool
  last_activity :: flt
  last_history :: json
  media_mode :: string
  startup_seconds :: "(string \<times> flt list) list"
  worker :: "(string \<times> string) option"

definition COMFY :: string where
  "COMFY = ''homecompute-qwen-image-edit-comfyui''"

section \<open>The gate\<close>

definition gate_close :: "string \<Rightarrow> (ctl, unit) eff" where
  "gate_close st = modify (\<lambda>s. s\<lparr>gate_available := False, gate_state := st, events := events s @ [Closed]\<rparr>)"

definition gate_open :: "(ctl, unit) eff" where
  "gate_open = modify (\<lambda>s. s\<lparr>gate_available := True, gate_state := ''ready'', events := events s @ [Opened]\<rparr>)"

definition gate_enter :: "bool \<Rightarrow> (ctl, bool) eff" where
  "gate_enter track = bindS (gets gate_available) (\<lambda>available.
     if \<not> available then ret False
     else if track then bindS (modify (\<lambda>s. s\<lparr>gate_active := gate_active s + 1, events := events s @ [Admitted]\<rparr>)) (\<lambda>_. ret True)
     else ret True)"

definition gate_leave :: "(ctl, unit) eff" where
  "gate_leave = modify (\<lambda>s. s\<lparr>gate_active := gate_active s - 1, events := events s @ [Released]\<rparr>)"

definition gate_status :: "ctl \<Rightarrow> dict" where
  "gate_status s = [(''available'', JBool (gate_available s)), (''state'', JStr (gate_state s)), (''active_requests'', JInt (gate_active s))]"

definition client_step :: "client \<Rightarrow> (ctl, unit) eff" where
  "client_step c = (case c of Arrive track \<Rightarrow> bindS (gate_enter track) (\<lambda>_. ret ())
     | Finish \<Rightarrow> bindS (gets gate_active) (\<lambda>n. if 0 < n then gate_leave else ret ()))"

text \<open>One event: clients come and go, then the host answers.\<close>

definition happen :: "host \<Rightarrow> (event list \<Rightarrow> 'a) \<Rightarrow> ('a \<Rightarrow> event) \<Rightarrow> (ctl, 'a) eff" where
  "happen H ask ev =
     bindS (gets (\<lambda>s. clients H (events s))) (\<lambda>cs. bindS (for_eachS client_step cs) (\<lambda>_.
     bindS (gets (\<lambda>s. ask (events s))) (\<lambda>a. bindS (modify (\<lambda>s. s\<lparr>events := events s @ [ev a]\<rparr>)) (\<lambda>_. ret a))))"

definition act :: "host \<Rightarrow> (event list \<Rightarrow> 'a res) \<Rightarrow> ('a res \<Rightarrow> event) \<Rightarrow> (ctl, 'a) eff" where
  "act H ask ev = bindS (happen H ask ev) lift"

section \<open>The host\<close>

definition read_time :: "host \<Rightarrow> (ctl, flt) eff" where
  "read_time H = happen H (time_says H) Read_Clock"

definition sleep :: "host \<Rightarrow> int \<Rightarrow> (ctl, unit) eff" where
  "sleep H n = happen H (\<lambda>_. ()) (\<lambda>_. Slept n)"

text \<open>The saved document replaces the old one as a whole, or the write raises.\<close>

definition saved_document :: "ctl \<Rightarrow> json" where
  "saved_document s = JObj [(''last_activity'', JFlt (last_activity s)), (''last_history'', last_history s), (''media_mode'', JStr (media_mode s)),
     (''startup_seconds'', JObj (map (\<lambda>(m, xs). (m, JArr (map JFlt xs))) (startup_seconds s)))]"

definition persist :: "host \<Rightarrow> (ctl, unit) eff" where
  "persist H = bindS (gets saved_document) (\<lambda>d. act H (\<lambda>h. save_says H h d) (Saved d))"

definition host_running :: "host \<Rightarrow> string \<Rightarrow> (ctl, bool) eff" where
  "host_running H name = bindS (act H (\<lambda>h. inspect_says H h name) (Inspected name)) (\<lambda>out. ret (py_strip out = ''true''))"

definition host_start :: "host \<Rightarrow> string \<Rightarrow> (ctl, unit) eff" where
  "host_start H name = act H (\<lambda>h. start_says H h name) (Started name)"

definition host_stop :: "host \<Rightarrow> string \<Rightarrow> (ctl, unit) eff" where
  "host_stop H name =
     bindS (act H (\<lambda>h. stop_says H h name) (Stopped name)) (\<lambda>_.
     bindS (host_running H name) (\<lambda>up. check (\<not> up) (RuntimeError ''Container did not stop'')))"

definition read_failure :: "exn \<Rightarrow> bool" where
  "read_failure e \<longleftrightarrow> e = OSError \<or> is_value_error e"

definition host_ready :: "host \<Rightarrow> string \<Rightarrow> (ctl, bool) eff" where
  "host_ready H name = catch (bindS (act H (\<lambda>h. probe_says H h name) (Probed name)) (\<lambda>_. ret True)) read_failure (\<lambda>_. ret False)"

definition host_queue :: "host \<Rightarrow> (ctl, int \<times> int) eff" where
  "host_queue H =
     bindS (act H (\<lambda>h. fetch_says H h ''/queue'') (Fetched ''/queue'')) (\<lambda>queue.
     let d = dict_of queue in
     bindS (check (is_dict queue \<and> is_list (get d ''queue_running'') \<and> is_list (get d ''queue_pending'')) (RuntimeError ''ComfyUI queue is unavailable'')) (\<lambda>_.
     ret (int (length (list_of (get d ''queue_running''))), int (length (list_of (get d ''queue_pending''))))))"

definition host_history :: "host \<Rightarrow> (ctl, json) eff" where
  "host_history H =
     bindS (act H (\<lambda>h. fetch_says H h ''/history?max_items=1'') (Fetched ''/history?max_items=1'')) (\<lambda>history.
     bindS (check (is_dict history) (RuntimeError ''ComfyUI history is unavailable'')) (\<lambda>_.
     ret (JStr (digest_says H (dumps (\<lambda>_. []) plain_style (JArr (map (JStr \<circ> fst) (sort_keys (dict_of history)))))))))"

definition host_text_requests :: "host \<Rightarrow> (ctl, (int \<times> int) option) eff" where
  "host_text_requests H = catch (act H (metrics_says H) Measured) read_failure (\<lambda>_. ret None)"

definition host_activity :: "host \<Rightarrow> (ctl, json) eff" where
  "host_activity H = (case activity_says H of None \<Rightarrow> raise (RuntimeError ''Workflow activity protection is not configured'')
     | Some says \<Rightarrow> act H says Activity)"

definition host_prompt :: "host \<Rightarrow> string \<Rightarrow> string \<Rightarrow> (ctl, int \<times> string \<times> string) eff" where
  "host_prompt H p body =
     bindS (act H (\<lambda>h. prompt_says H h p body) (Prompted p body)) (\<lambda>(code, content_type, result).
     bindS (check (int (length result) \<le> 8388608) (RuntimeError ''Unexpectedly large prompt response'')) (\<lambda>_. ret (code, content_type, result)))"

section \<open>Progress\<close>

definition first_phase :: "string \<Rightarrow> ctl \<Rightarrow> string" where
  "first_phase action s =
     (if action = ''start'' then (if text_running s then ''waiting_workflows'' else if comfy_running s then ''stopping_comfyui'' else ''starting_comfyui'')
      else if comfy_running s then ''stopping_comfyui'' else ''starting_text'')"

definition progress_begin :: "host \<Rightarrow> string \<Rightarrow> (ctl, unit) eff" where
  "progress_begin H action =
     bindS (gets (first_phase action)) (\<lambda>phase. bindS (read_time H) (\<lambda>now.
     modify (\<lambda>s. s\<lparr>progress := Some \<lparr>tr_started = now, tr_phase_started = now, tr_action = action, tr_target = target_mode s, tr_phase = phase,
       tr_workflows = JNull, tr_turns = JNull, tr_requests = JNull, tr_reason = JNull\<rparr>\<rparr>)))"

text \<open>\<open>counts\<close> is the update by the keyword arguments.\<close>

definition progress_phase :: "host \<Rightarrow> string \<Rightarrow> (transition \<Rightarrow> transition) \<Rightarrow> (ctl, unit) eff" where
  "progress_phase H phase counts = bindS (gets progress) (\<lambda>current. case current of None \<Rightarrow> ret ()
     | Some t \<Rightarrow>
         bindS (if phase \<noteq> tr_phase t
                then bindS (read_time H) (\<lambda>now. ret (t\<lparr>tr_phase_started := now, tr_phase := phase, tr_workflows := JNull, tr_turns := JNull, tr_requests := JNull\<rparr>))
                else ret t) (\<lambda>t'.
         modify (\<lambda>s. s\<lparr>progress := Some (counts t')\<rparr>)))"

definition progress_reason :: "string \<Rightarrow> (ctl, unit) eff" where
  "progress_reason reason = modify (\<lambda>s. s\<lparr>progress := map_option (\<lambda>t. t\<lparr>tr_reason := JStr reason\<rparr>) (progress s)\<rparr>)"

definition elapsed :: "flt \<Rightarrow> flt \<Rightarrow> json res" where
  "elapsed now since = bindr (int_of_flt (fsub now since)) (\<lambda>n. Inr (JInt (max 0 n)))"

definition progress_snapshot :: "host \<Rightarrow> (ctl, json) eff" where
  "progress_snapshot H = bindS (gets progress) (\<lambda>current. case current of None \<Rightarrow> ret JNull
     | Some t \<Rightarrow>
         bindS (read_time H) (\<lambda>now. bindS (lift (elapsed now (tr_started t))) (\<lambda>total. bindS (lift (elapsed now (tr_phase_started t))) (\<lambda>phase_total.
         ret (JObj [(''action'', JStr (tr_action t)), (''target_mode'', JStr (tr_target t)), (''phase'', JStr (tr_phase t)), (''workflows'', tr_workflows t),
           (''agent_turns'', tr_turns t), (''text_requests'', tr_requests t), (''reason'', tr_reason t), (''elapsed_seconds'', total), (''phase_elapsed_seconds'', phase_total)])))))"

end
