(* ===== verification/Gpu_Controller.thy ===== *)
theory Gpu_Controller
  imports Gpu_Host
begin

text \<open>
  The controller of \<open>scripts/comfyui_lifecycle.py\<close>: one GPU carries either the text model or a media service, and the controller
  switches between them. \<open>admission\<close> admits one of \<open>recover\<close>, \<open>tick\<close>, \<open>prompt\<close> and \<open>switch\<close> at a time, so each of them is one operation here;
  \<open>submit\<close> and \<open>status\<close> hold the other lock and come between them, and the clients of the gate come between any two events.

  A loop of the source may wait for ever. The loops here take a bound on their turns and answer
  \<open>None\<close> when it is used up, with the state they have reached by then; no handler runs then. A statement for
  every bound covers the runs that never end, event by event.
\<close>

section \<open>Loops\<close>

type_synonym 'a job = "(ctl, 'a option) eff"

definition bindJ :: "'a job \<Rightarrow> ('a \<Rightarrow> 'b job) \<Rightarrow> 'b job" where
  "bindJ m k = bindS m (\<lambda>r. case r of None \<Rightarrow> ret None | Some x \<Rightarrow> k x)"

definition whole :: "(ctl, 'a) eff \<Rightarrow> 'a job" where
  "whole m = bindS m (\<lambda>x. ret (Some x))"

text \<open>A turn of a loop continues with new values of its variables (\<open>Inl\<close>) or leaves it (\<open>Inr\<close>).\<close>

fun loop_job :: "nat \<Rightarrow> ('v \<Rightarrow> (ctl, 'v + 'a) eff) \<Rightarrow> 'v \<Rightarrow> 'a job" where
  "loop_job 0 turn v = ret None"
| "loop_job (Suc n) turn v = bindS (turn v) (\<lambda>r. case r of Inl v' \<Rightarrow> loop_job n turn v' | Inr x \<Rightarrow> ret (Some x))"

definition any_exception :: "exn \<Rightarrow> bool" where
  "any_exception e = True"

section \<open>Reports\<close>

definition llm_status :: "ctl \<Rightarrow> dict" where
  "llm_status s = (let r = put (gate_status s) ''available'' (JBool (llm_available s \<and> gate_available s)) in
     if llm_available s then r
     else put r ''state'' (JStr (if mode s = ''error'' then ''error'' else if mode s \<in> {''image'', ''video''} then ''offline''
       else if mode s = ''starting'' \<and> text_running s then ''draining'' else ''starting'')))"

definition opt_int :: "int option \<Rightarrow> json" where
  "opt_int v = (case v of None \<Rightarrow> JNull | Some i \<Rightarrow> JInt i)"

definition state_report :: "host \<Rightarrow> ctl \<Rightarrow> dict" where
  "state_report H s =
     [(''mode'', JStr (mode s)), (''target_mode'', JStr (target_mode s)), (''text_running'', JBool (text_running s)), (''text_ready'', JBool (text_ready s)),
      (''text_display_name'', JStr (text_display_name H)), (''image_display_name'', JStr ''Qwen Image 2.1''), (''video_display_name'', JStr ''LTX-2.5''),
      (''comfy_running'', JBool (comfy_running s)), (''comfy_ready'', JBool (comfy_ready s)), (''queue_running'', opt_int (queue_running s)),
      (''queue_pending'', opt_int (queue_pending s)), (''idle_seconds'', JInt 0), (''idle_timeout_seconds'', JInt 1800),
      (''error'', case failure s of None \<Rightarrow> JNull | Some m \<Rightarrow> JStr m)]"

text \<open>\<open>round(x, 3)\<close>.\<close>

fun round3 :: "flt \<Rightarrow> flt" where
  "round3 (Fin r) = fl (of_int (half_even (r * 1000)) / 1000)"
| "round3 x = x"

definition timing :: "flt list \<Rightarrow> json" where
  "timing xs = JObj (if xs = [] then [(''seconds'', JNull), (''samples'', JInt 0), (''min_seconds'', JNull), (''max_seconds'', JNull)]
     else [(''seconds'', JFlt (round3 (median xs))), (''samples'', JInt (int (length xs))),
       (''min_seconds'', JFlt (fold (\<lambda>x m. if flt_less x m then x else m) (tl xs) (hd xs))),
       (''max_seconds'', JFlt (fold (\<lambda>x m. if flt_less m x then x else m) (tl xs) (hd xs)))])"

definition status :: "host \<Rightarrow> (ctl, dict) eff" where
  "status H =
     bindS (gets (\<lambda>s. state_report H s @ [(''llm'', JObj (llm_status s))])) (\<lambda>report.
     bindS (progress_snapshot H) (\<lambda>transition.
     bindS (gets (\<lambda>s. JObj (map (\<lambda>(m, xs). (m, timing xs)) (startup_seconds s)))) (\<lambda>timings.
     bindS (if get report ''comfy_running'' = JBool True
            then bindS (read_time H) (\<lambda>now. bindS (gets last_activity) (\<lambda>last. lift (elapsed now last))) else ret (JInt 0)) (\<lambda>idle.
     ret (put (report @ [(''transition'', transition), (''startup_timings'', timings)]) ''idle_seconds'' idle)))))"

section \<open>State\<close>

definition record_startup :: "host \<Rightarrow> string \<Rightarrow> flt \<Rightarrow> (ctl, unit) eff" where
  "record_startup H m seconds =
     (if isfinite seconds \<and> flt_le (Fin 0) seconds \<and> flt_le seconds (flt_int 86400)
      then bindS (modify (\<lambda>s. s\<lparr>startup_seconds := map (\<lambda>(k, xs). (k, if k = m then drop (length xs - 4) (xs @ [round3 seconds]) else xs)) (startup_seconds s)\<rparr>))
        (\<lambda>_. persist H)
      else ret ())"

definition advertise_text :: "bool \<Rightarrow> (ctl, unit) eff" where
  "advertise_text available = modify (\<lambda>s. s\<lparr>llm_available := available\<rparr>)"

text \<open>\<open>update\<close> with a mode, and \<open>f\<close> for the other values; without a mode it is \<open>modify\<close>.\<close>

definition update_mode :: "string \<Rightarrow> (ctl \<Rightarrow> ctl) \<Rightarrow> (ctl, unit) eff" where
  "update_mode m f = modify (\<lambda>s. let s' = f (s\<lparr>mode := m\<rparr>) in
     if m \<in> {''text'', ''image'', ''video'', ''error''}
     then s'\<lparr>target_mode := if m = ''error'' then target_mode s' else m, progress := None\<rparr> else s')"

definition sample_failure :: "exn \<Rightarrow> bool" where
  "sample_failure e \<longleftrightarrow> read_failure e \<or> (case e of RuntimeError m \<Rightarrow> True | _ \<Rightarrow> False)"

definition sample_media :: "host \<Rightarrow> (ctl, (int \<times> int) option \<times> json option) eff" where
  "sample_media H = catch
     (bindS (host_queue H) (\<lambda>q. catch (bindS (host_history H) (\<lambda>h. ret (Some q, Some h))) sample_failure (\<lambda>_. ret (Some q, None))))
     sample_failure (\<lambda>_. ret (None, None))"

definition sample :: "host \<Rightarrow> (ctl, bool) eff" where
  "sample H =
     bindS (host_running H (text_container H)) (\<lambda>text. bindS (host_running H COMFY) (\<lambda>comfy.
     bindS (if comfy then host_ready H COMFY else ret False) (\<lambda>ready.
     bindS (if ready then sample_media H else ret (None, None)) (\<lambda>(queue, history).
     bindS (case history of None \<Rightarrow> ret () | Some h \<Rightarrow> bindS (gets last_history) (\<lambda>previous.
       if queue \<noteq> Some (0, 0) \<or> h \<noteq> previous
       then bindS (read_time H) (\<lambda>now. bindS (modify (\<lambda>s. s\<lparr>last_activity := now, last_history := h\<rparr>)) (\<lambda>_. persist H))
       else ret ())) (\<lambda>_.
     bindS (if text then host_ready H (text_container H) else ret False) (\<lambda>text_ok.
     bindS (modify (\<lambda>s. s\<lparr>text_running := text, text_ready := text_ok, comfy_running := comfy, comfy_ready := ready,
       queue_running := map_option fst queue, queue_pending := map_option snd queue\<rparr>)) (\<lambda>_. ret (history \<noteq> None))))))))"

definition busy :: "ctl \<Rightarrow> bool" where
  "busy s \<longleftrightarrow> mode s \<in> {''starting'', ''stopping''} \<or> worker s \<noteq> None"

definition queue_blocked :: "ctl \<Rightarrow> bool" where
  "queue_blocked s \<longleftrightarrow> comfy_running s \<and> (queue_running s \<noteq> Some 0 \<or> queue_pending s \<noteq> Some 0)"

definition submit :: "host \<Rightarrow> string \<Rightarrow> string \<Rightarrow> (ctl, dict) eff" where
  "submit H action0 target0 =
     bindS (check (action0 \<in> {''start'', ''stop''} \<and> target0 \<in> {''text'', ''image'', ''video''}) (ValueError ''Unknown action'')) (\<lambda>_.
     let (action, target) = (if action0 = ''stop'' \<or> target0 = ''text'' then (''stop'', ''text'') else (action0, target0)) in
     bindS (gets busy) (\<lambda>b. bindS (check (\<not> b) (ValueError ''A service switch is already in progress'')) (\<lambda>_.
     bindS (gets (\<lambda>s. action = ''start'' \<and> mode s = target \<and> comfy_ready s)) (\<lambda>there.
     if there then status H
     else bindS (gets queue_blocked) (\<lambda>blocked. bindS (check (\<not> blocked) (ValueError ''ComfyUI has active or queued work, or its queue cannot be checked'')) (\<lambda>_.
       bindS (advertise_text False) (\<lambda>_. bindS (if action = ''stop'' then gate_close ''starting'' else ret ()) (\<lambda>_.
       bindS (modify (\<lambda>s. s\<lparr>mode := if action = ''start'' then ''starting'' else ''stopping'', target_mode := target, failure := None\<rparr>)) (\<lambda>_.
       bindS (progress_begin H action) (\<lambda>_.
       bindS (modify (\<lambda>s. s\<lparr>worker := Some (action, target)\<rparr>)) (\<lambda>_. status H)))))))))))"

section \<open>Waiting\<close>

definition wait_turn :: "host \<Rightarrow> string \<Rightarrow> flt \<Rightarrow> unit \<Rightarrow> (ctl, unit + unit) eff" where
  "wait_turn H name deadline = (\<lambda>_.
     bindS (read_time H) (\<lambda>now.
     bindS (check (flt_less now deadline) (RuntimeError ((if name = COMFY then ''ComfyUI'' else text_display_name H) @ '' did not become ready''))) (\<lambda>_.
     bindS (host_running H name) (\<lambda>running. bindS (if running then host_ready H name else ret False) (\<lambda>ready.
     bindS (modify (\<lambda>s. if name = COMFY then s\<lparr>comfy_running := running, comfy_ready := ready\<rparr> else s\<lparr>text_running := running, text_ready := ready\<rparr>)) (\<lambda>_.
     if ready then ret (Inr ()) else bindS (sleep H 5) (\<lambda>_. ret (Inl ()))))))))"

definition wait_ready :: "host \<Rightarrow> nat \<Rightarrow> string \<Rightarrow> unit job" where
  "wait_ready H n name =
     bindS (progress_phase H (if name = COMFY then ''waiting_comfyui'' else ''waiting_text'') id) (\<lambda>_.
     bindS (read_time H) (\<lambda>now. loop_job n (wait_turn H name (fadd now (flt_int (if name = COMFY then 600 else 1800)))) ()))"

text \<open>The deadline of a drain; without a timeout the clock is not read.\<close>

definition deadline_of :: "host \<Rightarrow> flt option \<Rightarrow> (ctl, flt option) eff" where
  "deadline_of H timeout = (case timeout of None \<Rightarrow> ret None | Some t \<Rightarrow> bindS (read_time H) (\<lambda>now. ret (Some (fadd now t))))"

definition before :: "host \<Rightarrow> flt option \<Rightarrow> exn \<Rightarrow> (ctl, unit) eff" where
  "before H deadline e = (case deadline of None \<Rightarrow> ret () | Some d \<Rightarrow> bindS (read_time H) (\<lambda>now. check (flt_less now d) e))"

text \<open>The counts of an activity report that is valid and at most 15 seconds old, and when it was observed.\<close>

definition fresh_activity :: "host \<Rightarrow> (ctl, int \<times> int \<times> json) eff" where
  "fresh_activity H = catch
     (bindS (host_activity H) (\<lambda>activity.
      bindS (lift (attr_get activity ''active_workflows'' JNull)) (\<lambda>workflows. bindS (lift (attr_get activity ''active_turns'' JNull)) (\<lambda>turns.
      bindS (lift (attr_get activity ''observed_at'' JNull)) (\<lambda>observed.
      bindS (check (type_is_int workflows \<and> 0 \<le> int_of workflows \<and> type_is_int turns \<and> 0 \<le> int_of turns \<and> is_number observed) (ValueError ''Invalid or stale activity'')) (\<lambda>_.
      bindS (lift (py_float observed)) (\<lambda>seen. bindS (check (isfinite seen) (ValueError ''Invalid or stale activity'')) (\<lambda>_.
      bindS (read_time H) (\<lambda>now.
      bindS (check (flt_le (flt_int (- 5)) (fsub now seen) \<and> flt_le (fsub now seen) (flt_int 15)) (ValueError ''Invalid or stale activity'')) (\<lambda>_.
      ret (int_of workflows, int_of turns, observed)))))))))))
     any_exception (\<lambda>_. raise (RuntimeError ''Cannot verify active workflows; text model was left running''))"

text \<open>No workflow is active: \<open>idle\<close> is when that was first seen since the last activity, with the time of that report.\<close>

definition note_idle :: "host \<Rightarrow> (flt \<times> json) option \<Rightarrow> json \<Rightarrow> (ctl, (flt \<times> json) option + unit) eff" where
  "note_idle H idle observed = bindS (read_time H) (\<lambda>now.
     case idle of None \<Rightarrow> ret (Inl (Some (now, observed)))
     | Some (zero_since, first_observed) \<Rightarrow>
         if flt_le (flt_int 5) (fsub now zero_since) \<and> num_less first_observed observed then bindS (gate_close ''draining'') (\<lambda>_. ret (Inr ()))
         else ret (Inl idle))"

definition drain_turn :: "host \<Rightarrow> flt option \<Rightarrow> (flt \<times> json) option \<Rightarrow> (ctl, (flt \<times> json) option + unit) eff" where
  "drain_turn H deadline idle =
     bindS (before H deadline (RuntimeError ''Workflows did not finish; text model was left running'')) (\<lambda>_.
     bindS (fresh_activity H) (\<lambda>(workflows, turns, observed).
     bindS (progress_phase H ''waiting_workflows'' (\<lambda>t. t\<lparr>tr_workflows := JInt workflows, tr_turns := JInt turns\<rparr>)) (\<lambda>_.
     bindS (if workflows = 0 \<and> turns = 0 then note_idle H idle observed else ret (Inl None)) (\<lambda>r.
     case r of Inr _ \<Rightarrow> ret (Inr ()) | Inl idle' \<Rightarrow> bindS (sleep H 5) (\<lambda>_. ret (Inl idle'))))))"

definition drain_workflows :: "host \<Rightarrow> nat \<Rightarrow> flt option \<Rightarrow> unit job" where
  "drain_workflows H n timeout =
     bindS (progress_phase H ''waiting_workflows'' id) (\<lambda>_. bindS (deadline_of H timeout) (\<lambda>deadline. loop_job n (drain_turn H deadline) None))"

definition requests_json :: "(int \<times> int) option \<Rightarrow> json" where
  "requests_json r = (case r of None \<Rightarrow> JNull | Some (running, waiting) \<Rightarrow> JObj [(''running'', JInt running), (''waiting'', JInt waiting)])"

definition text_turn :: "host \<Rightarrow> flt option \<Rightarrow> unit \<Rightarrow> (ctl, unit + unit) eff" where
  "text_turn H deadline = (\<lambda>_.
     bindS (before H deadline (RuntimeError ''Text model did not become idle; it was left running'')) (\<lambda>_.
     bindS (host_text_requests H) (\<lambda>requests.
     bindS (progress_phase H ''draining_text'' (\<lambda>t. t\<lparr>tr_requests := requests_json requests\<rparr>)) (\<lambda>_.
     bindS (gets gate_active) (\<lambda>active.
     if active = 0 \<and> requests = Some (0, 0) then ret (Inr ()) else bindS (sleep H 2) (\<lambda>_. ret (Inl ())))))))"

definition drain_text :: "host \<Rightarrow> nat \<Rightarrow> flt option \<Rightarrow> unit job" where
  "drain_text H n timeout =
     bindS (progress_phase H ''draining_text'' id) (\<lambda>_. bindS (deadline_of H timeout) (\<lambda>deadline. loop_job n (text_turn H deadline) ()))"

section \<open>Switching\<close>

definition queue_idle :: "host \<Rightarrow> string \<Rightarrow> (ctl, unit) eff" where
  "queue_idle H message = bindS (host_queue H) (\<lambda>q. check (q = (0, 0)) (RuntimeError message))"

definition to_text :: "host \<Rightarrow> nat \<Rightarrow> flt option \<Rightarrow> unit job" where
  "to_text H n began0 =
     bindS (case began0 of Some t \<Rightarrow> ret t | None \<Rightarrow> read_time H) (\<lambda>began.
     bindS (host_running H (text_container H)) (\<lambda>up0. bindS (host_running H COMFY) (\<lambda>media.
     bindS (if media then
              bindS (queue_idle H ''ComfyUI has active or queued work; it was left running'') (\<lambda>_.
              bindS (progress_phase H ''stopping_comfyui'' id) (\<lambda>_. host_stop H COMFY))
            else ret ()) (\<lambda>_.
     bindS (modify (\<lambda>s. s\<lparr>comfy_running := False, comfy_ready := False, queue_running := None, queue_pending := None\<rparr>)) (\<lambda>_.
     bindS (host_running H (text_container H)) (\<lambda>up.
     bindS (if up then ret () else bindS (progress_phase H ''starting_text'' id) (\<lambda>_. host_start H (text_container H))) (\<lambda>_.
     bindJ (wait_ready H n (text_container H)) (\<lambda>_. whole
       (bindS (if up0 then ret () else bindS (read_time H) (\<lambda>now. record_startup H ''text'' (fsub now began))) (\<lambda>_.
        bindS (update_mode ''text'' (\<lambda>s. s\<lparr>failure := None\<rparr>)) (\<lambda>_.
        bindS gate_open (\<lambda>_. advertise_text True))))))))))))"

text \<open>The way back after a media service did not start. \<open>fresh\<close>: it was started, if at all, by this switch.\<close>

definition rollback :: "host \<Rightarrow> nat \<Rightarrow> string \<Rightarrow> bool \<Rightarrow> unit job" where
  "rollback H n target fresh =
     bindS (progress_reason (target @ ''_start_failed'')) (\<lambda>_.
     bindS (read_time H) (\<lambda>began. bindS (host_running H COMFY) (\<lambda>media.
     bindS (if media then
              bindS (if fresh then ret () else queue_idle H ''Media activation failed with active work; it was left running'') (\<lambda>_.
              bindS (progress_phase H ''stopping_comfyui'' id) (\<lambda>_. host_stop H COMFY))
            else ret ()) (\<lambda>_.
     bindJ (to_text H n (Some began)) (\<lambda>_. raise (RuntimeError ''ComfyUI failed to start; the text model was restored''))))))"

text \<open>The body of the inner \<open>try\<close>: the old services down, then the new one up. They are apart because \<open>fresh_media\<close> is set between them.\<close>

definition stop_media :: "host \<Rightarrow> bool \<Rightarrow> (ctl, unit) eff" where
  "stop_media H media_was_running =
     (if media_was_running then bindS (progress_phase H ''stopping_comfyui'' id) (\<lambda>_. bindS (host_stop H COMFY) (\<lambda>_.
        modify (\<lambda>s. s\<lparr>comfy_running := False, comfy_ready := False\<rparr>)))
      else ret ())"

definition start_media :: "host \<Rightarrow> nat \<Rightarrow> string \<Rightarrow> flt \<Rightarrow> bool \<Rightarrow> unit job" where
  "start_media H n target began text_was_running =
     bindS (if text_was_running then bindS (progress_phase H ''stopping_text'' id) (\<lambda>_. bindS (host_stop H (text_container H)) (\<lambda>_.
              modify (\<lambda>s. s\<lparr>text_running := False, text_ready := False\<rparr>)))
            else ret ()) (\<lambda>_.
     bindS (progress_phase H ''starting_comfyui'' id) (\<lambda>_. bindS (host_start H COMFY) (\<lambda>_.
     bindJ (wait_ready H n COMFY) (\<lambda>_. whole
       (bindS (read_time H) (\<lambda>ready_at. bindS (read_time H) (\<lambda>now. bindS (host_history H) (\<lambda>h.
        bindS (modify (\<lambda>s. s\<lparr>last_activity := now, last_history := h, media_mode := target\<rparr>)) (\<lambda>_.
        bindS (record_startup H target (fsub ready_at began)) (\<lambda>_.
        update_mode target (\<lambda>s. s\<lparr>failure := None\<rparr>)))))))))))"

definition activate :: "host \<Rightarrow> nat \<Rightarrow> string \<Rightarrow> unit job" where
  "activate H n target =
     bindS (host_running H COMFY) (\<lambda>media_was_running. bindS (host_running H (text_container H)) (\<lambda>text_was_running.
     bindS (if media_was_running then queue_idle H ''ComfyUI has active or queued work; it was left running'' else ret ()) (\<lambda>_.
     bindJ (if text_was_running then bindJ (drain_workflows H n None) (\<lambda>_. drain_text H n None) else ret (Some ())) (\<lambda>_.
     bindS (read_time H) (\<lambda>began.
     bindJ (catch (whole (stop_media H media_was_running)) any_exception (\<lambda>_. rollback H n target (\<not> media_was_running))) (\<lambda>_.
     catch (start_media H n target began text_was_running) any_exception (\<lambda>_. rollback H n target True)))))))"

definition switch_failed :: "host \<Rightarrow> exn \<Rightarrow> (ctl, unit) eff" where
  "switch_failed H e =
     bindS (catch (bindS (sample H) (\<lambda>_. gets (\<lambda>s.
         if comfy_running s \<and> \<not> text_running s then media_mode s else if text_running s \<and> \<not> comfy_running s then ''text'' else ''error'')))
       any_exception (\<lambda>_. ret ''error'')) (\<lambda>m.
     update_mode m (\<lambda>s. s\<lparr>failure := Some (case e of RuntimeError text \<Rightarrow> text | _ \<Rightarrow> ''Service switch failed; inspect the controller log'')\<rparr>))"

definition switch_settled :: "host \<Rightarrow> (ctl, unit) eff" where
  "switch_settled H =
     bindS (catch (bindS (sample H) (\<lambda>_. ret ())) any_exception
       (\<lambda>_. update_mode ''error'' (\<lambda>s. s\<lparr>failure := Some ''Could not verify the service state''\<rparr>))) (\<lambda>_.
     bindS (status H) (\<lambda>_.
     bindS (gets (\<lambda>s. mode s = ''text'' \<and> text_ready s \<and> \<not> comfy_running s)) (\<lambda>text.
     if text then bindS gate_open (\<lambda>_. advertise_text True)
     else bindS (gets mode) (\<lambda>m. bindS (gate_close m) (\<lambda>_. advertise_text False)))))"

definition switch :: "host \<Rightarrow> nat \<Rightarrow> string \<Rightarrow> string \<Rightarrow> unit job" where
  "switch H n action target =
     bindJ (catch (if action = ''stop'' then to_text H n None else activate H n target) any_exception (\<lambda>e. whole (switch_failed H e)))
       (\<lambda>_. whole (switch_settled H))"

text \<open>The thread of a switch: it is alive until the switch returns or raises.\<close>

definition run_worker :: "host \<Rightarrow> nat \<Rightarrow> string \<Rightarrow> string \<Rightarrow> unit job" where
  "run_worker H n action target =
     bindJ (catch (switch H n action target) any_exception (\<lambda>_. ret (Some ()))) (\<lambda>_. whole (modify (\<lambda>s. s\<lparr>worker := None\<rparr>)))"

section \<open>Recovery, prompts and the monitor\<close>

definition recover :: "host \<Rightarrow> (ctl, unit) eff" where
  "recover H = catch
     (bindS (sample H) (\<lambda>_. bindS (status H) (\<lambda>_. bindS (gets id) (\<lambda>s.
      if text_running s \<and> comfy_running s then update_mode ''error'' (\<lambda>s. s\<lparr>failure := Some ''Both services are running; operator intervention required''\<rparr>)
      else if comfy_running s then update_mode (media_mode s) id
      else if text_running s \<and> text_ready s then bindS (update_mode ''text'' id) (\<lambda>_. bindS gate_open (\<lambda>_. advertise_text True))
      else bindS (submit H ''stop'' ''image'') (\<lambda>_. ret ())))))
     any_exception (\<lambda>_. update_mode ''error'' (\<lambda>s. s\<lparr>failure := Some ''Could not inspect the configured services''\<rparr>))"

definition idle_too_long :: "host \<Rightarrow> bool \<Rightarrow> (ctl, bool) eff" where
  "idle_too_long H known = bindS (gets (\<lambda>s. mode s \<in> {''image'', ''video''} \<and> comfy_running s \<and> known \<and> queue_running s = Some 0 \<and> queue_pending s = Some 0)) (\<lambda>candidate.
     if candidate then bindS (read_time H) (\<lambda>now. gets (\<lambda>s. flt_le (flt_int 1800) (fsub now (last_activity s)))) else ret False)"

definition tick :: "host \<Rightarrow> (ctl, unit) eff" where
  "tick H = catch
     (bindS (status H) (\<lambda>_. bindS (gets (\<lambda>s. mode s \<in> {''starting'', ''stopping''})) (\<lambda>switching.
      if switching then ret ()
      else bindS (sample H) (\<lambda>known. bindS (gets busy) (\<lambda>b.
        if b then ret ()
        else bindS (status H) (\<lambda>_. bindS (gets id) (\<lambda>s.
          if text_running s \<and> comfy_running s then
            bindS (gate_close ''error'') (\<lambda>_. bindS (advertise_text False) (\<lambda>_.
            update_mode ''error'' (\<lambda>s. s\<lparr>failure := Some ''Both services are running; operator intervention required''\<rparr>)))
          else if \<not> comfy_running s then
            (if text_running s \<and> text_ready s then bindS (update_mode ''text'' id) (\<lambda>_. bindS gate_open (\<lambda>_. advertise_text True))
             else if text_running s then gate_close ''starting''
             else if mode s \<noteq> ''error'' then bindS (submit H ''stop'' ''image'') (\<lambda>_. ret ()) else ret ())
          else bindS (idle_too_long H known) (\<lambda>stop. if stop then bindS (submit H ''stop'' ''image'') (\<lambda>_. ret ()) else ret ()))))))))
     any_exception (\<lambda>_. bindS (gate_close ''unavailable'') (\<lambda>_. bindS (advertise_text False) (\<lambda>_.
       modify (\<lambda>s. s\<lparr>failure := Some ''Could not check service activity; automatic stop postponed''\<rparr>))))"

text \<open>
  \<open>prompt_mode\<close>: which service a workflow needs. \<open>fr\<close> is the decimal text of a float.
\<close>

definition node_ok :: "json \<Rightarrow> bool" where
  "node_ok v = (let d = dict_of v in is_dict v \<and> is_str (get d ''class_type'') \<and> truthy (get d ''class_type'') \<and> is_dict (get d ''inputs''))"

definition unet_starts :: "(flt \<Rightarrow> string) \<Rightarrow> string \<Rightarrow> json \<Rightarrow> bool" where
  "unet_starts fr p v = starts p (py_lower (py_text fr (get_or (dict_of (get (dict_of v) ''inputs'')) ''unet_name'' (JStr []))))"

definition video_node :: "(flt \<Rightarrow> string) \<Rightarrow> json \<Rightarrow> bool" where
  "video_node fr v = (let kind = str_of (get (dict_of v) ''class_type'') in
     starts ''LTX'' kind \<or> kind \<in> {''SaveVideo'', ''CreateVideo''} \<or> unet_starts fr ''ltx'' v)"

definition image_node :: "(flt \<Rightarrow> string) \<Rightarrow> json \<Rightarrow> bool" where
  "image_node fr v = (let kind = str_of (get (dict_of v) ''class_type'') in
     contains ''Qwen'' kind \<or> kind = ''SaveImage'' \<or> get (dict_of (get (dict_of v) ''inputs'')) ''type'' = JStr ''qwen_image'' \<or> unet_starts fr ''qwen'' v)"

definition prompt_mode :: "(flt \<Rightarrow> string) \<Rightarrow> dict \<Rightarrow> string res" where
  "prompt_mode fr d =
     (let graph = get d ''prompt''; nodes = map snd (dict_of graph) in
      bindr (require (is_dict graph \<and> nodes \<noteq> []) (ValueError ''A nonempty API workflow is required in prompt'')) (\<lambda>_.
      bindr (for_each (\<lambda>v. require (node_ok v) (ValueError ''Workflow nodes require class_type and inputs'')) nodes) (\<lambda>_.
      if list_ex (video_node fr) nodes then Inr ''video''
      else if list_ex (image_node fr) nodes then Inr ''image''
      else Inl (ValueError ''Workflow must identify an image or video generation graph''))))"

definition media_refused :: "int \<times> string \<times> string" where
  "media_refused = (503, ''application/json'', [CHR 0x7B] @ str_text True ''error'' @ '':'' @ str_text True ''ComfyUI is not accepting media jobs'' @ [CHR 0x7D])"

definition wrong_mode :: "(flt \<Rightarrow> string) \<Rightarrow> string \<Rightarrow> string \<Rightarrow> int \<times> string \<times> string" where
  "wrong_mode fr m requested = (409, ''application/json'', dumps fr plain_style (JObj
     [(''error'', JStr (''Start '' @ requested @ '' mode before submitting this '' @ requested @ '' workflow'')), (''mode'', JStr m), (''required_mode'', JStr requested)]))"

definition prompt :: "host \<Rightarrow> (flt \<Rightarrow> string) \<Rightarrow> (string \<Rightarrow> json res) \<Rightarrow> string \<Rightarrow> string \<Rightarrow> (ctl, int \<times> string \<times> string) eff" where
  "prompt H fr loads p body =
     bindS (gets id) (\<lambda>s.
     if mode s \<notin> {''image'', ''video''} \<or> \<not> comfy_ready s then ret media_refused
     else bindS (lift (loads body)) (\<lambda>v.
       bindS (check (is_dict v) (ValueError ''Prompt must be a JSON object'')) (\<lambda>_.
       bindS (lift (prompt_mode fr (dict_of v))) (\<lambda>requested.
       if requested \<noteq> mode s then ret (wrong_mode fr (mode s) requested)
       else bindS (host_prompt H p body) (\<lambda>answer.
         bindS (if 200 \<le> fst answer \<and> fst answer < 300
                then bindS (read_time H) (\<lambda>now. bindS (modify (\<lambda>s. s\<lparr>last_activity := now\<rparr>)) (\<lambda>_. persist H)) else ret ()) (\<lambda>_.
         ret answer))))))"

section \<open>Start\<close>

definition blank :: ctl where
  "blank = \<lparr>events = [], gate_available = False, gate_state = ''starting'', gate_active = 0, progress = None, mode = ''text'', target_mode = ''text'',
     text_running = False, text_ready = False, comfy_running = False, comfy_ready = False, queue_running = None, queue_pending = None, failure = None,
     llm_available = False, last_activity = Fin 0, last_history = JNull, media_mode = ''image'',
     startup_seconds = [(''text'', []), (''image'', []), (''video'', [])], worker = None\<rparr>"

text \<open>
  Numbers of the saved state as floats: rounding is monotone and the clock is a float, so the conversion may come before the
  comparison with the clock.
\<close>

fun saved_timings :: "json list \<Rightarrow> flt list res" where
  "saved_timings [] = Inr []"
| "saved_timings (v # vs) =
     (if \<not> is_number v then saved_timings vs
      else bindr (py_float v) (\<lambda>x. bindr (saved_timings vs) (\<lambda>xs.
        Inr (if isfinite x \<and> flt_le (Fin 0) x \<and> flt_le x (flt_int 86400) then x # xs else xs))))"

definition restore_timing :: "json \<Rightarrow> string \<times> flt list \<Rightarrow> (string \<times> flt list) res" where
  "restore_timing timings = (\<lambda>(m, old).
     let v = get_or (dict_of timings) m (JArr []) in
     if is_dict timings \<and> is_list v then bindr (saved_timings (list_of v)) (\<lambda>xs. Inr (m, drop (length xs - 5) xs)) else Inr (m, old))"

definition restore_saved :: "host \<Rightarrow> json res \<Rightarrow> (ctl, unit) eff" where
  "restore_saved H saved =
     bindS (lift saved) (\<lambda>v. bindS (check (is_dict v) (ValueError ''Invalid saved state'')) (\<lambda>_.
     let d = dict_of v; activity = get d ''last_activity'' in
     bindS (if is_number activity
            then bindS (lift (py_float activity)) (\<lambda>x. if isfinite x
              then bindS (read_time H) (\<lambda>now. modify (\<lambda>s. s\<lparr>last_activity := if flt_less now x then now else x\<rparr>)) else ret ())
            else ret ()) (\<lambda>_.
     bindS (modify (\<lambda>s. s\<lparr>last_history := get d ''last_history''\<rparr>)) (\<lambda>_.
     bindS (lift (in_strs (get d ''media_mode'') [''image'', ''video''])) (\<lambda>known.
     bindS (if known then modify (\<lambda>s. s\<lparr>media_mode := str_of (get d ''media_mode'')\<rparr>) else ret ()) (\<lambda>_.
     bindS (gets startup_seconds) (\<lambda>old.
     bindS (lift (map_res (restore_timing (get_or d ''startup_seconds'' (JObj []))) old)) (\<lambda>timings.
     modify (\<lambda>s. s\<lparr>startup_seconds := timings\<rparr>)))))))))"

definition init :: "host \<Rightarrow> json res \<Rightarrow> (ctl, unit) eff" where
  "init H saved =
     bindS (read_time H) (\<lambda>now. bindS (modify (\<lambda>s. s\<lparr>last_activity := now\<rparr>)) (\<lambda>_.
     catch (restore_saved H saved) (\<lambda>e. read_failure e \<or> e = TypeError) (\<lambda>_. ret ())))"

text \<open>
  The states between operations. A worker is a step once it has ended; \<open>glimpse\<close> adds what is seen while it is still
  at work, after any number of turns of its loops.
\<close>

inductive reachable :: "host \<Rightarrow> ctl \<Rightarrow> bool" for H where
  started: "init H saved blank = (Inr (), s) \<Longrightarrow> reachable H (snd (recover H s))"
| served: "reachable H s \<Longrightarrow> reachable H (snd (for_eachS client_step cs s))"
| reported: "reachable H s \<Longrightarrow> reachable H (snd (status H s))"
| submitted: "reachable H s \<Longrightarrow> reachable H (snd (submit H action target s))"
| ticked: "reachable H s \<Longrightarrow> reachable H (snd (tick H s))"
| prompted: "reachable H s \<Longrightarrow> reachable H (snd (prompt H fr loads p body s))"
| switched: "reachable H s \<Longrightarrow> worker s = Some (action, target) \<Longrightarrow> fst (run_worker H n action target s) \<noteq> Inr None
    \<Longrightarrow> reachable H (snd (run_worker H n action target s))"

inductive glimpse :: "host \<Rightarrow> ctl \<Rightarrow> bool" for H where
  between: "reachable H s \<Longrightarrow> glimpse H s"
| working: "reachable H s \<Longrightarrow> worker s = Some (action, target) \<Longrightarrow> glimpse H (snd (run_worker H n action target s))"

end
