(* ===== verification/Gpu_Safety.thy ===== *)
theory Gpu_Safety
  imports Gpu_Controller
begin

text \<open>
  What every trace of the GPU controller satisfies. \<open>lawful\<close> says when an event may come after a given trace: a
  client is admitted only while the gate is open, the text model is stopped only after it was drained, and a service is
  started only after the other one was seen down. The operations are taken in two groups:
  most only add events that need nothing (\<open>grows\<close>), and the switch is followed step by step with \<open>wp\<close>. The last part
  shows that a switch to text returns on a cooperative host, with rules for runs that neither raise nor hang
  (\<open>returns\<close>).
\<close>

section \<open>Traces\<close>

definition open_after :: "event list \<Rightarrow> bool" where
  "open_after l = foldl (\<lambda>b e. if e = Opened then True else if e = Closed then False else b) False l"

definition inside :: "event list \<Rightarrow> int" where
  "inside l = foldl (\<lambda>n e. if e = Admitted then n + 1 else if e = Released then n - 1 else n) 0 l"

text \<open>What was last seen of a container; starting it makes it up, whatever the command answered.\<close>

fun sighting :: "string \<Rightarrow> event \<Rightarrow> bool option \<Rightarrow> bool option" where
  "sighting n (Inspected m (Inr out)) b = (if m = n then Some (py_strip out = ''true'') else b)"
| "sighting n (Started m r) b = (if m = n then Some True else b)"
| "sighting n _ b = b"

definition last_seen :: "string \<Rightarrow> event list \<Rightarrow> bool option" where
  "last_seen n l = foldl (\<lambda>b e. sighting n e b) None l"

lemma trace_snoc [simp]:
  "open_after (l @ [e]) = (if e = Opened then True else if e = Closed then False else open_after l)"
  "inside (l @ [e]) = (if e = Admitted then inside l + 1 else if e = Released then inside l - 1 else inside l)"
  "last_seen n (l @ [e]) = sighting n e (last_seen n l)"
  by (simp_all add: open_after_def inside_def last_seen_def)

definition idle_report :: "json \<Rightarrow> bool" where
  "idle_report v \<longleftrightarrow> is_dict v \<and> get (dict_of v) ''active_workflows'' = JInt 0 \<and> get (dict_of v) ''active_turns'' = JInt 0"

definition observed_at :: "json \<Rightarrow> json" where
  "observed_at v = get (dict_of v) ''observed_at''"

definition idle_only :: "event list \<Rightarrow> bool" where
  "idle_only l \<longleftrightarrow> (\<forall>r. Activity r \<in> set l \<longrightarrow> (\<exists>v. r = Inr v \<and> idle_report v))"

text \<open>An idle report followed, five seconds of the clock later, by a newer one, with none but idle ones between.\<close>

definition settled :: "event list \<Rightarrow> bool" where
  "settled l \<longleftrightarrow> (\<exists>x v y w z t u. l = x @ Activity (Inr v) # y @ Activity (Inr w) # z \<and> idle_report v \<and> idle_only y \<and> idle_report w
     \<and> num_less (observed_at v) (observed_at w) \<and> Read_Clock t \<in> set y \<and> Read_Clock u \<in> set z \<and> flt_le (flt_int 5) (fsub u t))"

text \<open>Workflows have settled, then the gate closed for good, nobody is inside, and the engine has reported no request since.\<close>

definition drained :: "event list \<Rightarrow> bool" where
  "drained l \<longleftrightarrow> (\<exists>a b. l = a @ Closed # b \<and> settled a \<and> Opened \<notin> set b \<and> Admitted \<notin> set b
     \<and> Measured (Inr (Some (0, 0))) \<in> set b \<and> inside l = 0)"

fun lawful :: "host \<Rightarrow> event list \<Rightarrow> event \<Rightarrow> bool" where
  "lawful H l Admitted = open_after l"
| "lawful H l Released = (0 < inside l)"
| "lawful H l (Stopped n r) = (n = text_container H \<longrightarrow> drained l)"
| "lawful H l (Started n r) = (n \<in> {COMFY, text_container H} \<and> last_seen (if n = COMFY then text_container H else COMFY) l = Some False)"
| "lawful H l _ = True"

definition always :: "(event list \<Rightarrow> event \<Rightarrow> bool) \<Rightarrow> event list \<Rightarrow> bool" where
  "always P l \<longleftrightarrow> (\<forall>a e b. l = a @ e # b \<longrightarrow> P a e)"

lemma always_Nil [simp]: "always P []"
  by (simp add: always_def)

lemma always_snoc [simp]: "always P (l @ [e]) \<longleftrightarrow> always P l \<and> P l e"
proof
  assume a: "always P (l @ [e])"
  have "P a e'" if "l = a @ e' # b" for a e' b using a that unfolding always_def by (metis append.assoc append_Cons)
  moreover have "P l e" using a unfolding always_def by simp
  ultimately show "always P l \<and> P l e" unfolding always_def by blast
next
  assume l: "always P l \<and> P l e"
  show "always P (l @ [e])" unfolding always_def
  proof (intro allI impI)
    fix a e' b assume "l @ [e] = a @ e' # b"
    then show "P a e'" using l unfolding always_def by (cases b rule: rev_cases) auto
  qed
qed

lemma always_prefix: "always P (l @ w) \<Longrightarrow> always P l"
  by (induction w rule: rev_induct) (simp_all add: append_assoc [symmetric] del: append_assoc)

definition sound :: "host \<Rightarrow> ctl \<Rightarrow> bool" where
  "sound H s \<longleftrightarrow> always (lawful H) (events s) \<and> gate_available s = open_after (events s) \<and> gate_active s = inside (events s)"

section \<open>Operations that need nothing\<close>

definition grows :: "host \<Rightarrow> (event \<Rightarrow> bool) \<Rightarrow> ctl \<Rightarrow> ctl \<Rightarrow> bool" where
  "grows H Q s s' \<longleftrightarrow> (\<exists>w. events s' = events s @ w \<and> list_all Q w) \<and> (sound H s \<longrightarrow> sound H s')"

interpretation grows: frame "grows H Q"
  by unfold_locales (auto simp: grows_def)

lemma grows_mono: "grows H Q s s' \<Longrightarrow> (\<And>e. Q e \<Longrightarrow> P e) \<Longrightarrow> grows H P s s'"
  unfolding grows_def list_all_iff by blast

lemma grows_sound: "grows H Q s s' \<Longrightarrow> sound H s \<Longrightarrow> sound H s'"
  by (simp add: grows_def)

fun harmless :: "event \<Rightarrow> bool" where
  "harmless (Started n r) = False"
| "harmless (Stopped n r) = False"
| "harmless e = True"

text \<open>Harmless, and neither a look at a container or the workflows nor a move of the gate.\<close>

fun calm :: "event \<Rightarrow> bool" where
  "calm (Inspected n r) = False"
| "calm (Activity r) = False"
| "calm Opened = False"
| "calm Closed = False"
| "calm e = harmless e"

lemma calm_harmless: "calm e \<Longrightarrow> harmless e"
  by (cases e) auto

lemma grows_same: "events s' = events s \<Longrightarrow> gate_available s' = gate_available s \<Longrightarrow> gate_active s' = gate_active s \<Longrightarrow> grows H Q s s'"
  by (simp add: grows_def sound_def)

lemma client_step_run:
  "client_step c s = (Inr (), case c of
       Arrive track \<Rightarrow> if gate_available s \<and> track then s\<lparr>gate_active := gate_active s + 1, events := events s @ [Admitted]\<rparr> else s
     | Finish \<Rightarrow> if 0 < gate_active s then s\<lparr>gate_active := gate_active s - 1, events := events s @ [Released]\<rparr> else s)"
  by (simp add: client_step_def gate_enter_def gate_leave_def eff_defs split: client.split)

lemma clients_run: "fst (for_eachS client_step cs s) = Inr ()"
  by (induction cs arbitrary: s) (simp_all add: ret_def bindS_def client_step_run)

lemma grows_clients:
  assumes "Q Admitted" "Q Released"
  shows "grows H Q s (snd (for_eachS client_step cs s))"
proof (rule grows.keeps_for_each)
  fix c s show "grows H Q s (snd (client_step c s))"
  proof (cases c)
    case (Arrive track)
    then show ?thesis using assms by (simp add: client_step_run grows_def sound_def)
  next
    case Finish
    then show ?thesis using assms by (simp add: client_step_run grows_def sound_def)
  qed
qed

lemma happen_run:
  "\<exists>w t. list_all calm w \<and> events t = events s @ w \<and> (sound H s \<longrightarrow> sound H t)
    \<and> happen H ask ev s = (Inr (ask (events t)), t\<lparr>events := events t @ [ev (ask (events t))]\<rparr>)"
proof -
  obtain t where t: "for_eachS client_step (clients H (events s)) s = (Inr (), t)" using clients_run by (metis prod.collapse)
  then have "happen H ask ev s = (Inr (ask (events t)), t\<lparr>events := events t @ [ev (ask (events t))]\<rparr>)"
    by (simp add: happen_def bindS_def gets_def modify_def ret_def)
  moreover have "grows H calm s t" using grows_clients [of calm H s "clients H (events s)"] by (simp add: t)
  ultimately show ?thesis unfolding grows_def by blast
qed

text \<open>The rule for one event.\<close>

lemma wp_happen:
  assumes "\<And>w t a. list_all calm w \<Longrightarrow> events t = events s @ w \<Longrightarrow> (sound H s \<Longrightarrow> sound H t) \<Longrightarrow> a = ask (events t)
      \<Longrightarrow> Q a (t\<lparr>events := events t @ [ev a]\<rparr>)"
  shows "wp (happen H ask ev) Q X s"
proof -
  obtain w t where t: "list_all calm w" "events t = events s @ w" "sound H s \<longrightarrow> sound H t"
    and run: "happen H ask ev s = (Inr (ask (events t)), t\<lparr>events := events t @ [ev (ask (events t))]\<rparr>)"
    using happen_run by blast
  show ?thesis using assms [OF t(1,2) _ refl] t(3) by (simp add: wp_def run)
qed

text \<open>Events that need nothing.\<close>

fun free :: "event \<Rightarrow> bool" where
  "free Opened = False"
| "free Closed = False"
| "free Admitted = False"
| "free Released = False"
| "free e = harmless e"

lemma free_lawful: "free e \<Longrightarrow> lawful H l e \<and> open_after (l @ [e]) = open_after l \<and> inside (l @ [e]) = inside l"
  by (cases e) simp_all

lemma sound_event: "sound H t \<Longrightarrow> free e \<Longrightarrow> sound H (t\<lparr>events := events t @ [e]\<rparr>)"
  using free_lawful [of e H "events t"] by (simp add: sound_def del: trace_snoc)

lemma grows_happen:
  assumes "\<And>a. free (ev a) \<and> Q (ev a)" and "\<And>e. calm e \<Longrightarrow> Q e"
  shows "grows H Q s (snd (happen H ask ev s))"
proof -
  obtain w t where t: "list_all calm w" "events t = events s @ w" "sound H s \<longrightarrow> sound H t"
    and run: "happen H ask ev s = (Inr (ask (events t)), t\<lparr>events := events t @ [ev (ask (events t))]\<rparr>)"
    using happen_run by blast
  have "list_all Q w" using t(1) assms(2) by (simp add: list_all_iff)
  moreover have "sound H s \<longrightarrow> sound H (t\<lparr>events := events t @ [ev (ask (events t))]\<rparr>)" using t(3) assms(1) sound_event by blast
  ultimately show ?thesis using t(2) assms(1) by (simp add: run grows_def)
qed

lemma grows_bind:
  assumes "grows H Q s (snd (m s))" and "\<And>x s1. m s = (Inr x, s1) \<Longrightarrow> grows H Q s1 (snd (k x s1))"
  shows "grows H Q s (snd (bindS m k s))"
  using assms by (rule grows.keeps_bind)

lemma grows_catch:
  assumes "\<And>s. grows H Q s (snd (m s))" and "\<And>e s. grows H Q s (snd (h e s))"
  shows "grows H Q s (snd (catch m p h s))"
proof -
  have m: "grows H Q s (snd (m s))" by (rule assms(1))
  show ?thesis
  proof (cases "m s")
    case (Pair r t)
    show ?thesis
    proof (cases r)
      case (Inl e)
      have "grows H Q t (snd (h e t))" by (rule assms(2))
      then show ?thesis using m Pair Inl grows.trans by (simp add: catch_def)
    next
      case (Inr x)
      then show ?thesis using m Pair by (simp add: catch_def)
    qed
  qed
qed

lemma grows_pure:
  "grows H Q s (snd (ret x s))" "grows H Q s (snd (raise e s))" "grows H Q s (snd (gets f s))" "grows H Q s (snd (lift r s))" "grows H Q s (snd (check c e s))"
  by (simp_all add: eff_defs grows.refl)

lemma grows_modify: "(\<And>s. events (f s) = events s \<and> gate_available (f s) = gate_available s \<and> gate_active (f s) = gate_active s) \<Longrightarrow> grows H Q s (snd (modify f s))"
  by (simp add: modify_def grows_same)

lemma grows_if: "(c \<Longrightarrow> grows H Q s (snd (m s))) \<Longrightarrow> (\<not> c \<Longrightarrow> grows H Q s (snd (n s))) \<Longrightarrow> grows H Q s (snd ((if c then m else n) s))"
  by simp

lemma grows_option: "(v = None \<Longrightarrow> grows H Q s (snd (m s))) \<Longrightarrow> (\<And>x. v = Some x \<Longrightarrow> grows H Q s (snd (k x s))) \<Longrightarrow> grows H Q s (snd ((case v of None \<Rightarrow> m | Some x \<Rightarrow> k x) s))"
  by (cases v) simp_all

lemma grows_pair: "(\<And>x y. v = (x, y) \<Longrightarrow> grows H Q s (snd (k x y s))) \<Longrightarrow> grows H Q s (snd ((case v of (x, y) \<Rightarrow> k x y) s))"
  by (cases v) simp

lemmas grows_parts = grows_bind grows_catch grows_pure grows_if grows_option grows_pair

lemma grows_act:
  assumes "\<And>a. free (ev a) \<and> Q (ev a)" and "\<And>e. calm e \<Longrightarrow> Q e"
  shows "grows H Q s (snd (act H ask ev s))"
  unfolding act_def by (intro grows_bind grows_happen assms grows_pure)

lemma calm_read_time: "grows H calm s (snd (read_time H s))"
  unfolding read_time_def by (rule grows_happen) simp_all

lemma calm_sleep: "grows H calm s (snd (sleep H n s))"
  unfolding sleep_def by (rule grows_happen) simp_all

lemma calm_persist: "grows H calm s (snd (persist H s))"
  unfolding persist_def by (intro grows_parts grows_act) simp_all

lemma calm_ready: "grows H calm s (snd (host_ready H name s))"
  unfolding host_ready_def by (intro grows_parts grows_act) simp_all

lemma calm_queue: "grows H calm s (snd (host_queue H s))"
  unfolding host_queue_def Let_def by (intro grows_parts grows_act) simp_all

lemma calm_history: "grows H calm s (snd (host_history H s))"
  unfolding host_history_def by (intro grows_parts grows_act) simp_all

lemma calm_text_requests: "grows H calm s (snd (host_text_requests H s))"
  unfolding host_text_requests_def by (intro grows_parts grows_act) simp_all

lemma calm_prompt: "grows H calm s (snd (host_prompt H p body s))"
  unfolding host_prompt_def by (intro grows_parts grows_act) simp_all

lemmas calm_host = calm_read_time calm_sleep calm_persist calm_ready calm_queue calm_history calm_text_requests calm_prompt

lemma calm_progress_begin: "grows H calm s (snd (progress_begin H action s))"
  unfolding progress_begin_def by (intro grows_parts calm_host grows_modify) simp_all

lemma calm_progress_phase: "grows H calm s (snd (progress_phase H phase counts s))"
  unfolding progress_phase_def by (intro grows_parts calm_host grows_modify) simp_all

lemma calm_progress_reason: "grows H calm s (snd (progress_reason reason s))"
  unfolding progress_reason_def by (rule grows_modify) simp

lemma calm_snapshot: "grows H calm s (snd (progress_snapshot H s))"
  unfolding progress_snapshot_def by (intro grows_parts calm_host)

lemma calm_status: "grows H calm s (snd (status H s))"
  unfolding status_def by (intro grows_parts calm_host calm_snapshot)

lemma calm_record_startup: "grows H calm s (snd (record_startup H m x s))"
  unfolding record_startup_def by (intro grows_parts calm_host grows_modify) simp_all

lemma calm_advertise: "grows H calm s (snd (advertise_text b s))"
  unfolding advertise_text_def by (rule grows_modify) simp

lemma calm_update_mode:
  "(\<And>s. events (f s) = events s \<and> gate_available (f s) = gate_available s \<and> gate_active (f s) = gate_active s) \<Longrightarrow> grows H calm s (snd (update_mode m f s))"
  unfolding update_mode_def by (rule grows_modify) (simp add: Let_def)

lemma calm_sample_media: "grows H calm s (snd (sample_media H s))"
  unfolding sample_media_def by (intro grows_parts calm_host)

lemma calm_queue_idle: "grows H calm s (snd (queue_idle H m s))"
  unfolding queue_idle_def by (intro grows_parts calm_host)

lemma calm_deadline: "grows H calm s (snd (deadline_of H timeout s))" "grows H calm s (snd (before H deadline e s))"
  unfolding deadline_of_def before_def by (intro grows_parts calm_host)+

lemmas calm_ops = calm_host calm_progress_begin calm_progress_phase calm_progress_reason calm_status calm_record_startup calm_advertise calm_update_mode
  calm_sample_media calm_queue_idle calm_deadline

text \<open>The same for operations that also look at containers or move the gate.\<close>

lemmas harmless_ops = calm_ops [THEN grows_mono]

lemma harmless_running: "grows H harmless s (snd (host_running H name s))"
  unfolding host_running_def by (intro grows_parts grows_act) (simp_all add: calm_harmless)

lemma grows_gate_close: "Q Closed \<Longrightarrow> grows H Q s (snd (gate_close st s))"
  by (simp add: gate_close_def modify_def grows_def sound_def)

lemma grows_gate_open: "Q Opened \<Longrightarrow> grows H Q s (snd (gate_open s))"
  by (simp add: gate_open_def modify_def grows_def sound_def)

lemmas harmless_gate = grows_gate_close [of harmless, simplified] grows_gate_open [of harmless, simplified]

lemma harmless_sample: "grows H harmless s (snd (sample H s))"
  unfolding sample_def by (intro grows_parts harmless_ops harmless_running grows_modify calm_harmless) simp_all

lemma harmless_submit: "grows H harmless s (snd (submit H action target s))"
  unfolding submit_def Let_def by (intro grows_parts harmless_ops harmless_gate grows_modify calm_harmless) simp_all

lemma harmless_recover: "grows H harmless s (snd (recover H s))"
  unfolding recover_def by (intro grows_parts harmless_ops harmless_gate harmless_sample harmless_submit calm_harmless) simp_all

lemma harmless_tick: "grows H harmless s (snd (tick H s))"
  unfolding tick_def idle_too_long_def by (intro grows_parts harmless_ops harmless_gate harmless_sample harmless_submit grows_modify calm_harmless) simp_all

lemma harmless_prompt: "grows H harmless s (snd (prompt H fr loads p body s))"
  unfolding prompt_def by (intro grows_parts harmless_ops grows_modify calm_harmless) simp_all

lemma harmless_init: "grows H harmless s (snd (init H saved s))"
  unfolding init_def restore_saved_def Let_def by (intro grows_parts harmless_ops grows_modify calm_harmless) simp_all

lemma harmless_settled: "grows H harmless s (snd (switch_settled H s))" "grows H harmless s (snd (switch_failed H e s))"
  unfolding switch_settled_def switch_failed_def by (intro grows_parts harmless_ops harmless_gate harmless_sample calm_harmless; simp)+

section \<open>Assertions about the trace\<close>

text \<open>
  \<open>triple H A m B\<close>: from a sound state whose trace satisfies \<open>A\<close> the operation leaves a sound state, also when it raises, and
  when it returns \<open>x\<close> the trace satisfies \<open>B x\<close>.
\<close>

definition triple :: "host \<Rightarrow> (event list \<Rightarrow> bool) \<Rightarrow> (ctl, 'a) eff \<Rightarrow> ('a \<Rightarrow> event list \<Rightarrow> bool) \<Rightarrow> bool" where
  "triple H A m B \<longleftrightarrow> (\<forall>s. sound H s \<and> A (events s) \<longrightarrow> wp m (\<lambda>x s'. sound H s' \<and> B x (events s')) (\<lambda>_ s'. sound H s') s)"

definition stable :: "host \<Rightarrow> (event \<Rightarrow> bool) \<Rightarrow> (event list \<Rightarrow> bool) \<Rightarrow> bool" where
  "stable H Q A \<longleftrightarrow> (\<forall>l w. A l \<and> list_all Q w \<and> always (lawful H) (l @ w) \<longrightarrow> A (l @ w))"

lemma tripleI: "(\<And>s. sound H s \<Longrightarrow> A (events s) \<Longrightarrow> wp m (\<lambda>x s'. sound H s' \<and> B x (events s')) (\<lambda>_. sound H) s) \<Longrightarrow> triple H A m B"
  by (simp add: triple_def)

lemma tripleD: "triple H A m B \<Longrightarrow> sound H s \<Longrightarrow> A (events s) \<Longrightarrow> wp m (\<lambda>x s'. sound H s' \<and> B x (events s')) (\<lambda>_. sound H) s"
  by (simp add: triple_def)

lemma t_bind:
  assumes "triple H A m B" and "\<And>x. triple H (B x) (k x) C"
  shows "triple H A (bindS m k) C"
proof (rule tripleI)
  fix s assume s: "sound H s" "A (events s)"
  show "wp (bindS m k) (\<lambda>x s'. sound H s' \<and> C x (events s')) (\<lambda>_. sound H) s"
    unfolding wp_bindS by (rule wp_mono [OF tripleD [OF assms(1) s]]) (auto intro: tripleD [OF assms(2)])
qed

lemma t_conseq:
  assumes "triple H A m B" and "\<And>l. A' l \<Longrightarrow> A l" and "\<And>x l. B x l \<Longrightarrow> B' x l"
  shows "triple H A' m B'"
proof (rule tripleI)
  fix s assume s: "sound H s" "A' (events s)"
  show "wp m (\<lambda>x s'. sound H s' \<and> B' x (events s')) (\<lambda>_. sound H) s"
    by (rule wp_mono [OF tripleD [OF assms(1) s(1)]]) (use s assms(2,3) in auto)
qed

lemma t_ret: "(\<And>l. A l \<Longrightarrow> B x l) \<Longrightarrow> triple H A (ret x) B"
  by (simp add: triple_def wp_ret)

lemma t_raise: "triple H A (raise e) B"
  by (simp add: triple_def wp_raise)

lemma t_lift: "(\<And>x. r = Inr x \<Longrightarrow> triple H A (k x) C) \<Longrightarrow> triple H A (bindS (lift r) k) C"
  by (cases r) (simp_all add: triple_def wp_simps)

lemma t_check: "(c \<Longrightarrow> triple H A (k ()) C) \<Longrightarrow> triple H A (bindS (check c e) k) C"
  by (simp add: triple_def wp_simps)

lemma t_if: "(c \<Longrightarrow> triple H A m B) \<Longrightarrow> (\<not> c \<Longrightarrow> triple H A n B) \<Longrightarrow> triple H A (if c then m else n) B"
  by simp

lemma t_catch:
  assumes "triple H A m B" and "\<And>e. triple H (\<lambda>_. True) (h e) B"
  shows "triple H A (catch m p h) B"
proof (rule tripleI)
  fix s assume s: "sound H s" "A (events s)"
  show "wp (catch m p h) (\<lambda>x s'. sound H s' \<and> B x (events s')) (\<lambda>_. sound H) s"
    unfolding wp_catch by (rule wp_mono [OF tripleD [OF assms(1) s]]) (auto intro: tripleD [OF assms(2)])
qed

lemma t_keep:
  assumes "\<And>s. grows H Q s (snd (m s))" and "stable H Q A"
  shows "triple H A m (\<lambda>_. A)"
  unfolding triple_def
proof (intro allI impI, elim conjE)
  fix s assume s: "sound H s" "A (events s)"
  have "sound H (snd (m s)) \<and> A (events (snd (m s)))"
    using assms(1) [of s] assms(2) s unfolding grows_def stable_def sound_def by metis
  then show "wp m (\<lambda>x s'. sound H s' \<and> A (events s')) (\<lambda>_ s'. sound H s') s" by (auto simp: wp_def split: prod.splits sum.splits)
qed

lemma t_true: "(\<And>s. grows H Q s (snd (m s))) \<Longrightarrow> triple H A m (\<lambda>_ _. True)"
  by (rule t_conseq [OF t_keep [where A = "\<lambda>_. True"]]) (simp_all add: stable_def)

lemma t_modify:
  "(\<And>s. events (f s) = events s \<and> gate_available (f s) = gate_available s \<and> gate_active (f s) = gate_active s) \<Longrightarrow> triple H A (modify f) (\<lambda>_. A)"
  by (simp add: triple_def wp_simps sound_def)

lemma t_bindJ:
  assumes "triple H A m (\<lambda>r l. \<forall>x. r = Some x \<longrightarrow> B x l)" and "\<And>x. triple H (B x) (k x) C" and "\<And>l. C None l"
  shows "triple H A (bindJ m k) C"
  unfolding bindJ_def
proof (rule t_bind [OF assms(1)])
  fix r show "triple H (\<lambda>l. \<forall>x. r = Some x \<longrightarrow> B x l) (case r of None \<Rightarrow> ret None | Some x \<Rightarrow> k x) C"
    using assms(2,3) by (cases r) (auto intro: t_ret)
qed

lemma t_thenJ:
  assumes "triple H A m (\<lambda>_ _. True)" and "\<And>x. triple H (\<lambda>_. True) (k x) C" and "\<And>l. C None l"
  shows "triple H A (bindJ m k) C"
  by (rule t_bindJ [OF t_conseq [OF assms(1)] assms(2,3)]) simp_all

lemma t_whole: "triple H A m (\<lambda>x l. B (Some x) l) \<Longrightarrow> triple H A (whole m) B"
  unfolding whole_def by (rule t_bind, assumption, rule t_ret)

lemma t_loop:
  assumes "\<And>v. triple H (J v) (turn v) (\<lambda>r l. case r of Inl v' \<Rightarrow> J v' l | Inr x \<Rightarrow> B (Some x) l)" and "\<And>l. B None l"
  shows "triple H (J v) (loop_job n turn v) B"
proof (induction n arbitrary: v)
  case (Suc n)
  have "triple H (\<lambda>l. case r of Inl v' \<Rightarrow> J v' l | Inr x \<Rightarrow> B (Some x) l) (case r of Inl v' \<Rightarrow> loop_job n turn v' | Inr x \<Rightarrow> ret (Some x)) B" for r
    using Suc by (cases r) (auto intro: t_ret)
  then show ?case unfolding loop_job.simps by (rule t_bind [OF assms(1)])
qed (simp add: t_ret assms(2))

text \<open>One event of the host: the clients first, then the event.\<close>

lemma t_event:
  assumes "\<And>l a. A l \<Longrightarrow> lawful H l (ev a)" and "\<And>a. ev a \<notin> {Opened, Closed, Admitted, Released}" and "stable H calm A"
  shows "triple H A (act H ask ev) (\<lambda>x l. \<exists>l0. l = l0 @ [ev (Inr x)] \<and> A l0)"
  unfolding act_def
proof (rule tripleI, rule wp_bindI)
  fix s assume s: "sound H s" "A (events s)"
  show "wp (happen H ask ev) (\<lambda>r. wp (lift r) (\<lambda>x s'. sound H s' \<and> (\<exists>l0. events s' = l0 @ [ev (Inr x)] \<and> A l0)) (\<lambda>_. sound H)) (\<lambda>_. sound H) s"
  proof (rule wp_happen)
    fix w t r assume t: "list_all calm w" "events t = events s @ w" "sound H s \<Longrightarrow> sound H t"
    have A: "A (events t)" using s t assms(3) unfolding stable_def sound_def by metis
    moreover have "sound H (t\<lparr>events := events t @ [ev r]\<rparr>)"
      using t(3) [OF s(1)] assms(1) [OF A, of r] assms(2) [of r] by (simp add: sound_def)
    ultimately show "wp (lift r) (\<lambda>x s'. sound H s' \<and> (\<exists>l0. events s' = l0 @ [ev (Inr x)] \<and> A l0)) (\<lambda>_. sound H) (t\<lparr>events := events t @ [ev r]\<rparr>)"
      by (auto simp: wp_lift split: sum.splits)
  qed
qed

lemma t_act:
  assumes "\<And>a. free (ev a)" and "stable H calm A"
  shows "triple H A (act H ask ev) (\<lambda>x l. \<exists>l0. l = l0 @ [ev (Inr x)] \<and> A l0)"
proof (rule t_event [OF _ _ assms(2)])
  show "lawful H l (ev a)" for l a using free_lawful [OF assms(1)] by blast
  show "ev a \<notin> {Opened, Closed, Admitted, Released}" for a using assms(1) [of a] by auto
qed

lemma t_read_time:
  assumes "stable H calm A"
  shows "triple H A (read_time H) (\<lambda>x l. \<exists>l0. l = l0 @ [Read_Clock x] \<and> A l0)"
  unfolding triple_def read_time_def
proof (intro allI impI, elim conjE)
  fix s assume s: "sound H s" "A (events s)"
  show "wp (happen H (time_says H) Read_Clock) (\<lambda>x s'. sound H s' \<and> (\<exists>l0. events s' = l0 @ [Read_Clock x] \<and> A l0)) (\<lambda>_ s'. sound H s') s"
  proof (rule wp_happen)
    fix w t a assume t: "list_all calm w" "events t = events s @ w" "sound H s \<Longrightarrow> sound H t"
    have "A (events t)" using s t assms unfolding stable_def sound_def by metis
    then show "sound H (t\<lparr>events := events t @ [Read_Clock a]\<rparr>) \<and> (\<exists>l0. events (t\<lparr>events := events t @ [Read_Clock a]\<rparr>) = l0 @ [Read_Clock a] \<and> A l0)"
      using t(3) s(1) sound_event by auto
  qed
qed

section \<open>Draining\<close>

lemma calm_last_seen: "list_all calm w \<Longrightarrow> last_seen n (l @ w) = last_seen n l"
proof (induction w rule: rev_induct)
  case (snoc e w)
  then have "sighting n e b = b" for b by (cases e) auto
  with snoc show ?case by (simp add: append_assoc [symmetric] del: append_assoc)
qed simp

text \<open>While the gate stays closed nobody enters, and nobody can leave when nobody is inside.\<close>

lemma shut:
  assumes "always (lawful H) (l @ w)" "\<not> open_after l" "Opened \<notin> set w"
  shows "\<not> open_after (l @ w) \<and> Admitted \<notin> set w \<and> (inside l = 0 \<longrightarrow> inside (l @ w) = 0)"
  using assms
proof (induction w rule: rev_induct)
  case (snoc e w)
  then have ih: "\<not> open_after (l @ w)" "Admitted \<notin> set w" "inside l = 0 \<longrightarrow> inside (l @ w) = 0" and e: "lawful H (l @ w) e" "e \<noteq> Opened"
    by (auto simp: append_assoc [symmetric] simp del: append_assoc)
  have "e \<noteq> Admitted" using ih(1) e(1) by auto
  moreover have "inside l = 0 \<longrightarrow> e \<noteq> Released" using ih(3) e(1) by auto
  ultimately show ?case using ih e(2) by (auto simp: append_assoc [symmetric] simp del: append_assoc)
qed simp

definition closed_since :: "(event list \<Rightarrow> bool) \<Rightarrow> event list \<Rightarrow> bool" where
  "closed_since P l \<longleftrightarrow> (\<exists>a b. l = a @ Closed # b \<and> settled a \<and> Opened \<notin> set b \<and> P b)"

lemma closed_since_drained:
  assumes "closed_since (\<lambda>b. Measured (Inr (Some (0, 0))) \<in> set b) l" "always (lawful H) l" "inside l = 0"
  shows "drained l"
proof -
  obtain a b where l: "l = a @ Closed # b" "settled a" "Opened \<notin> set b" "Measured (Inr (Some (0, 0))) \<in> set b"
    using assms(1) unfolding closed_since_def by blast
  have "Admitted \<notin> set b" using shut [of H "a @ [Closed]" b] l assms(2) by simp
  then show ?thesis using l assms(3) unfolding drained_def by blast
qed

lemma drained_stable: "(\<And>e. Q e \<Longrightarrow> e \<noteq> Opened) \<Longrightarrow> stable H Q drained"
  unfolding stable_def
proof (intro allI impI, elim conjE)
  fix l w assume Q: "\<And>e. Q e \<Longrightarrow> e \<noteq> Opened" and l: "drained l" and w: "list_all Q w" "always (lawful H) (l @ w)"
  obtain a b where ab: "l = a @ Closed # b" "settled a" "Opened \<notin> set b" "Admitted \<notin> set b" "Measured (Inr (Some (0, 0))) \<in> set b" "inside l = 0"
    using l unfolding drained_def by blast
  have o: "Opened \<notin> set w" using Q w(1) by (auto simp: list_all_iff)
  have "always (lawful H) ((a @ [Closed]) @ b)" using always_prefix [OF w(2)] ab(1) by simp
  then have "\<not> open_after l" using shut [of H "a @ [Closed]" b] ab(1,3) by simp
  then have "Admitted \<notin> set w" "inside (l @ w) = 0" using shut [OF w(2) _ o] ab(6) by simp_all
  then show "drained (l @ w)" unfolding drained_def using ab o by (intro exI [of _ a] exI [of _ "b @ w"]) auto
qed

lemma closed_since_stable:
  assumes "\<And>e. Q e \<Longrightarrow> e \<noteq> Opened" and "\<And>b w. P b \<Longrightarrow> P (b @ w)"
  shows "stable H Q (closed_since P)"
  unfolding stable_def
proof (intro allI impI, elim conjE)
  fix l w assume l: "closed_since P l" "list_all Q w"
  then obtain a b where "l = a @ Closed # b" "settled a" "Opened \<notin> set b" "P b" unfolding closed_since_def by blast
  then show "closed_since P (l @ w)" unfolding closed_since_def using assms l(2)
    by (intro exI [of _ a] exI [of _ "b @ w"]) (auto simp: list_all_iff)
qed

text \<open>An idle report that opened the current run of idle ones, with the clock \<open>t\<close> read after it.\<close>

definition idle_since :: "flt \<Rightarrow> json \<Rightarrow> event list \<Rightarrow> bool" where
  "idle_since t ob l \<longleftrightarrow> (\<exists>x v y. l = x @ Activity (Inr v) # y \<and> idle_report v \<and> idle_only y \<and> ob = observed_at v \<and> Read_Clock t \<in> set y)"

definition idle_state :: "(flt \<times> json) option \<Rightarrow> event list \<Rightarrow> bool" where
  "idle_state idle l = (case idle of None \<Rightarrow> True | Some (t, ob) \<Rightarrow> idle_since t ob l)"

lemma calm_idle_only: "list_all calm w \<Longrightarrow> idle_only w"
  unfolding idle_only_def list_all_iff by (metis calm.simps(2))

lemma idle_state_stable: "stable H calm (idle_state idle)"
  unfolding stable_def
proof (intro allI impI, elim conjE)
  fix l w assume l: "idle_state idle l" and w: "list_all calm w"
  show "idle_state idle (l @ w)"
  proof (cases idle)
    case (Some p)
    obtain t ob where p: "p = (t, ob)" by fastforce
    obtain x v y where "l = x @ Activity (Inr v) # y" "idle_report v" "idle_only y" "ob = observed_at v" "Read_Clock t \<in> set y"
      using l unfolding Some p idle_state_def idle_since_def by auto
    then show ?thesis unfolding Some p idle_state_def idle_since_def using calm_idle_only [OF w]
      by (simp, intro exI [of _ x] exI [of _ v] exI [of _ "y @ w"]) (auto simp: idle_only_def)
  qed (simp add: idle_state_def)
qed

text \<open>The last report, and what \<open>A\<close> says of the trace before it.\<close>

definition reported :: "(event list \<Rightarrow> bool) \<Rightarrow> (event list \<Rightarrow> bool) \<Rightarrow> json \<Rightarrow> event list \<Rightarrow> bool" where
  "reported A C v l \<longleftrightarrow> (\<exists>a c. l = a @ Activity (Inr v) # c \<and> A a \<and> list_all calm c \<and> C c)"

lemma reported_now: "A l \<Longrightarrow> C [] \<Longrightarrow> reported A C v (l @ [Activity (Inr v)])"
  unfolding reported_def by (intro exI [of _ l] exI [of _ "[]"]) simp

lemma reported_stable: "(\<And>c w. C c \<Longrightarrow> C (c @ w)) \<Longrightarrow> stable H calm (reported A C v)"
  unfolding stable_def
proof (intro allI impI, elim conjE)
  fix l w assume C: "\<And>c w. C c \<Longrightarrow> C (c @ w)" and "reported A C v l" "list_all calm w"
  then obtain a c where "l = a @ Activity (Inr v) # c" "A a" "list_all calm (c @ w)" "C (c @ w)" unfolding reported_def by auto
  then show "reported A C v (l @ w)" unfolding reported_def by (intro exI [of _ a] exI [of _ "c @ w"]) simp
qed

definition counted :: "(event list \<Rightarrow> bool) \<Rightarrow> int \<times> int \<times> json \<Rightarrow> event list \<Rightarrow> bool" where
  "counted A r l \<longleftrightarrow> (\<exists>v. reported A (\<lambda>_. True) v l \<and> is_dict v \<and> get (dict_of v) ''active_workflows'' = JInt (fst r)
     \<and> get (dict_of v) ''active_turns'' = JInt (fst (snd r)) \<and> snd (snd r) = observed_at v)"

lemma counted_stable: "stable H calm (counted A r)"
  using reported_stable [of "\<lambda>_. True" H A] unfolding stable_def counted_def by blast

lemma t_fresh_activity:
  assumes "stable H calm A"
  shows "triple H A (fresh_activity H) (counted A)" (is "triple H A _ ?B")
proof -
  have activity: "triple H A (host_activity H) (reported A (\<lambda>_. True))"
  proof (cases "activity_says H")
    case (Some says)
    have "triple H A (act H says Activity) (\<lambda>x l. \<exists>l0. l = l0 @ [Activity (Inr x)] \<and> A l0)" by (rule t_act) (simp_all add: assms)
    then show ?thesis unfolding host_activity_def Some by (simp, elim t_conseq) (auto intro: reported_now)
  qed (simp add: host_activity_def t_raise)
  have field: "get d k = JInt (int_of w)" if "attr_get (JObj d) k JNull = Inr w" "type_is_int w" for d k w
    using that by (auto simp: get_def type_is_int_iff)
  have last: "triple H (reported A (\<lambda>_. True) v) (ret (int_of w, int_of t, ob)) ?B"
    if "attr_get v ''active_workflows'' JNull = Inr w" "attr_get v ''active_turns'' JNull = Inr t" "attr_get v ''observed_at'' JNull = Inr ob"
      "type_is_int w \<and> 0 \<le> int_of w \<and> type_is_int t \<and> 0 \<le> int_of t \<and> is_number ob" for v w t ob
  proof -
    have "\<exists>d. v = JObj d" using that(1) by (cases v) (simp_all add: attr_get_def)
    then obtain d where v: "v = JObj d" by blast
    have "get d ''active_workflows'' = JInt (int_of w)" "get d ''active_turns'' = JInt (int_of t)" "ob = observed_at v"
      using that field by (auto simp: v get_def observed_at_def)
    then show ?thesis by (intro t_ret) (auto simp: v counted_def)
  qed
  have keep: "triple H (reported A (\<lambda>_. True) v) (read_time H) (\<lambda>_. reported A (\<lambda>_. True) v)" for v
    by (rule t_keep [OF calm_read_time reported_stable])
  show ?thesis unfolding fresh_activity_def
    by (intro t_catch t_bind [OF activity] t_raise t_lift t_check t_bind [OF keep] last) assumption+
qed

lemma t_note_idle:
  assumes "idle_report v"
  shows "triple H (reported (idle_state idle) (\<lambda>_. True) v) (note_idle H idle (observed_at v))
    (\<lambda>r l. case r of Inl idle' \<Rightarrow> idle_state idle' l | Inr _ \<Rightarrow> closed_since (\<lambda>_. True) l)" (is "triple H ?A _ ?B")
  unfolding note_idle_def
proof (rule t_bind)
  show "triple H ?A (read_time H) (\<lambda>x l. \<exists>l0. l = l0 @ [Read_Clock x] \<and> ?A l0)" by (rule t_read_time [OF reported_stable])
next
  fix now
  let ?R = "reported (idle_state idle) (\<lambda>c. Read_Clock now \<in> set c) v"
  have fresh: "?R l" if "\<exists>l0. l = l0 @ [Read_Clock now] \<and> ?A l0" for l
    using that unfolding reported_def by force
  have first: "idle_since now (observed_at v) l" if "?R l" for l
    using that assms calm_idle_only unfolding reported_def idle_since_def by blast
  have more: "idle_since t ob l" if "?R l" "idle = Some (t, ob)" for t ob l
  proof -
    note given = that
    obtain x u y c where l: "l = (x @ Activity (Inr u) # y) @ Activity (Inr v) # c" "idle_report u" "idle_only y" "ob = observed_at u" "Read_Clock t \<in> set y" "list_all calm c"
      using given(1,2) unfolding reported_def idle_state_def idle_since_def by auto
    then have "idle_only (y @ Activity (Inr v) # c)" using assms calm_idle_only [OF l(6)] by (auto simp: idle_only_def)
    then show ?thesis unfolding idle_since_def using l by (intro exI [of _ x] exI [of _ u] exI [of _ "y @ Activity (Inr v) # c"]) simp
  qed
  have close: "settled l" if "?R l" "idle = Some (t, ob)" "flt_le (flt_int 5) (fsub now t)" "num_less ob (observed_at v)" for t ob l
  proof -
    note given = that
    obtain x u y c where l: "l = (x @ Activity (Inr u) # y) @ Activity (Inr v) # c" "idle_report u" "idle_only y" "ob = observed_at u" "Read_Clock t \<in> set y" "Read_Clock now \<in> set c"
      using given(1,2) unfolding reported_def idle_state_def idle_since_def by auto
    show ?thesis unfolding settled_def
      by (rule exI [of _ x], rule exI [of _ u], rule exI [of _ y], rule exI [of _ v], rule exI [of _ c], rule exI [of _ t], rule exI [of _ now])
        (use l assms that(3,4) in simp)
  qed
  have shutting: "triple H settled (bindS (gate_close ''draining'') (\<lambda>_. ret (Inr ()))) ?B"
    by (rule tripleI) (simp add: wp_simps gate_close_def sound_def closed_since_def, metis append_is_Nil_conv list.set(1) empty_iff)
  show "triple H (\<lambda>l. \<exists>l0. l = l0 @ [Read_Clock now] \<and> ?A l0) (case idle of None \<Rightarrow> ret (Inl (Some (now, observed_at v)))
       | Some (zero_since, first_observed) \<Rightarrow>
           if flt_le (flt_int 5) (fsub now zero_since) \<and> num_less first_observed (observed_at v) then bindS (gate_close ''draining'') (\<lambda>_. ret (Inr ()))
           else ret (Inl idle)) ?B"
  proof (cases idle)
    case None
    then show ?thesis using fresh first by (auto intro!: t_ret simp: idle_state_def)
  next
    case (Some p)
    obtain t ob where p: "idle = Some (t, ob)" using Some by (cases p) simp
    show ?thesis unfolding p option.case prod.case
    proof (rule t_if)
      assume c: "flt_le (flt_int 5) (fsub now t) \<and> num_less ob (observed_at v)"
      show "triple H (\<lambda>l. \<exists>l0. l = l0 @ [Read_Clock now] \<and> reported (idle_state (Some (t, ob))) (\<lambda>_. True) v l0) (bindS (gate_close ''draining'') (\<lambda>_. ret (Inr ()))) ?B"
        by (rule t_conseq [OF shutting]) (use close [OF fresh p] c in \<open>auto simp: p\<close>)
    next
      show "triple H (\<lambda>l. \<exists>l0. l = l0 @ [Read_Clock now] \<and> reported (idle_state (Some (t, ob))) (\<lambda>_. True) v l0) (ret (Inl (Some (t, ob)))) ?B"
        by (rule t_ret) (use more [OF fresh p] in \<open>auto simp: p idle_state_def\<close>)
    qed
  qed
qed

lemmas t_calm = t_keep [where Q = calm]

lemma t_pure: "triple H A (deadline_of H None) (\<lambda>d l. d = None \<and> A l)" "triple H A (before H None e) (\<lambda>_. A)"
  by (simp_all add: deadline_of_def before_def t_ret)

lemma t_counted_idle:
  "triple H (counted (idle_state idle) (0, 0, ob)) (note_idle H idle ob) (\<lambda>r l. case r of Inl idle' \<Rightarrow> idle_state idle' l | Inr _ \<Rightarrow> closed_since (\<lambda>_. True) l)"
  (is "triple H _ ?m ?B")
proof (rule tripleI)
  fix s assume s: "sound H s" "counted (idle_state idle) (0, 0, ob) (events s)"
  then obtain v where v: "reported (idle_state idle) (\<lambda>_. True) v (events s)" "idle_report v" "ob = observed_at v"
    by (auto simp: counted_def idle_report_def)
  show "wp ?m (\<lambda>x s'. sound H s' \<and> ?B x (events s')) (\<lambda>_. sound H) s" unfolding v(3) by (rule tripleD [OF t_note_idle [OF v(2)] s(1) v(1)])
qed

lemma t_drain_turn:
  "triple H (idle_state idle) (drain_turn H None idle) (\<lambda>r l. case r of Inl idle' \<Rightarrow> idle_state idle' l | Inr _ \<Rightarrow> closed_since (\<lambda>_. True) l)" (is "triple H _ _ ?B")
proof -
  let ?A = "counted (idle_state idle)"
  have rest: "triple H (?A (workflows, turns, ob)) (if workflows = 0 \<and> turns = 0 then note_idle H idle ob else ret (Inl None)) ?B" for workflows turns ob
    by (rule t_if) (use t_counted_idle in \<open>auto intro: t_ret simp: idle_state_def\<close>)
  have last: "triple H (?B r) (case r of Inr _ \<Rightarrow> ret (Inr ()) | Inl idle' \<Rightarrow> bindS (sleep H 5) (\<lambda>_. ret (Inl idle'))) ?B" for r
    by (cases r) (auto intro!: t_ret t_bind [OF t_calm [OF calm_sleep idle_state_stable]])
  have each: "triple H (?A p) (case p of (workflows, turns, ob) \<Rightarrow> k workflows turns ob) ?B"
    if "\<And>workflows turns ob. triple H (?A (workflows, turns, ob)) (k workflows turns ob) ?B" for p k
    using that by (cases p) simp
  show ?thesis unfolding drain_turn_def
    by (rule t_bind [OF t_pure(2)], rule t_bind [OF t_fresh_activity [OF idle_state_stable]], rule each,
      rule t_bind [OF t_calm [OF calm_progress_phase counted_stable]], rule t_bind [OF rest], rule last)
qed

lemma t_drain_workflows: "triple H A (drain_workflows H n None) (\<lambda>r l. \<forall>x. r = Some x \<longrightarrow> closed_since (\<lambda>_. True) l)"
proof -
  have loop: "triple H (idle_state None) (loop_job n (drain_turn H None) None) (\<lambda>r l. \<forall>x. r = Some x \<longrightarrow> closed_since (\<lambda>_. True) l)"
    by (rule t_loop [where J = idle_state]) (use t_drain_turn in \<open>auto simp: sum.case_distrib cong: sum.case_cong\<close>)
  have all: "triple H (\<lambda>l. d = None \<and> idle_state None l) (loop_job n (drain_turn H d) None) (\<lambda>r l. \<forall>x. r = Some x \<longrightarrow> closed_since (\<lambda>_. True) l)" for d
    using loop by (cases d) (simp_all add: triple_def)
  show ?thesis unfolding drain_workflows_def
    by (rule t_bind [OF t_true [where Q = calm]], rule calm_progress_phase, rule t_bind [OF t_conseq [OF t_pure(1)]], assumption, assumption, rule t_conseq [OF all])
      (simp_all add: idle_state_def)
qed

lemma t_gate_active:
  assumes "\<And>l. A l \<Longrightarrow> always (lawful H) l \<Longrightarrow> inside l = 0 \<Longrightarrow> B l"
  shows "triple H A (gets gate_active) (\<lambda>x l. A l \<and> (x = 0 \<longrightarrow> B l))"
  by (rule tripleI) (use assms in \<open>auto simp: wp_simps sound_def\<close>)

lemma t_text_requests:
  "triple H (closed_since (\<lambda>_. True)) (host_text_requests H) (\<lambda>r. closed_since (\<lambda>b. r = Some (0, 0) \<longrightarrow> Measured (Inr (Some (0, 0))) \<in> set b))"
  (is "triple H ?A _ ?B")
proof (rule tripleI)
  fix s assume s: "sound H s" "?A (events s)"
  have st: "stable H calm ?A" by (rule closed_since_stable) auto
  have seen: "?B x (l0 @ [Measured (Inr x)])" if "?A l0" for x l0
    using that unfolding closed_since_def by force
  have none: "?B None l" if "?A l" for l using that by (auto simp: closed_since_def)
  have grown: "closed_since (\<lambda>_. True) (events t)" if "grows H calm s t" "sound H t" for t
    using st s(2) that unfolding stable_def grows_def sound_def by metis
  have m: "wp (act H (metrics_says H) Measured) (\<lambda>x s'. sound H s' \<and> ?B x (events s')) (\<lambda>_ s'. sound H s' \<and> ?A (events s')) s"
  proof -
    have "grows H calm s (snd (act H (metrics_says H) Measured s))" by (rule grows_act) simp_all
    then have "wp (act H (metrics_says H) Measured) (\<lambda>_. grows H calm s) (\<lambda>_. grows H calm s) s" by (simp add: wp_snd)
    moreover have "wp (act H (metrics_says H) Measured) (\<lambda>x s'. sound H s' \<and> (\<exists>l0. events s' = l0 @ [Measured (Inr x)] \<and> ?A l0)) (\<lambda>_. sound H) s"
      by (rule tripleD [OF t_act [where A = ?A]]) (simp_all add: st s)
    ultimately show ?thesis
      by (rule wp_mono [OF wp_conj]) (use seen grown in auto)
  qed
  show "wp (host_text_requests H) (\<lambda>x s'. sound H s' \<and> ?B x (events s')) (\<lambda>_. sound H) s"
    unfolding host_text_requests_def wp_catch by (rule wp_mono [OF m]) (use none in \<open>auto simp: wp_ret\<close>)
qed

lemma t_drain_text: "triple H (closed_since (\<lambda>_. True)) (drain_text H n None) (\<lambda>r l. \<forall>x. r = Some x \<longrightarrow> drained l)"
proof -
  let ?A = "closed_since (\<lambda>_. True)" and ?B = "\<lambda>r. closed_since (\<lambda>b. r = Some (0, 0) \<longrightarrow> Measured (Inr (Some (0, 0))) \<in> set b)"
  have st: "stable H calm ?A" "stable H calm (?B r)" for r by (rule closed_since_stable; auto)+
  have weak: "?A l" if "?B r l" for r l using that by (auto simp: closed_since_def)
  have finish: "drained l" if "?B r l" "r = Some (0, 0)" "always (lawful H) l" "inside l = 0" for r l
    by (rule closed_since_drained) (use that in \<open>auto simp: closed_since_def\<close>)
  have turn: "triple H ?A (text_turn H None u) (\<lambda>r l. case r of Inl _ \<Rightarrow> ?A l | Inr _ \<Rightarrow> drained l)" for u
    unfolding text_turn_def
  proof (rule t_bind [OF t_pure(2)], rule t_bind [OF t_text_requests], rule t_bind [OF t_calm [OF calm_progress_phase st(2)]])
    fix r
    show "triple H (?B r) (bindS (gets gate_active) (\<lambda>active. if active = 0 \<and> r = Some (0, 0) then ret (Inr ()) else bindS (sleep H 2) (\<lambda>_. ret (Inl ()))))
       (\<lambda>r l. case r of Inl _ \<Rightarrow> ?A l | Inr _ \<Rightarrow> drained l)"
    proof (rule t_bind [OF t_gate_active [where B = "\<lambda>l. r = Some (0, 0) \<longrightarrow> drained l"]])
      fix active
      show "triple H (\<lambda>l. ?B r l \<and> (active = 0 \<longrightarrow> r = Some (0, 0) \<longrightarrow> drained l)) (if active = 0 \<and> r = Some (0, 0) then ret (Inr ()) else bindS (sleep H 2) (\<lambda>_. ret (Inl ())))
         (\<lambda>r l. case r of Inl _ \<Rightarrow> ?A l | Inr _ \<Rightarrow> drained l)"
        by (intro t_if t_ret t_bind [OF t_conseq [OF t_calm [OF calm_sleep st(1)]]]) (auto dest: weak)
    qed (use finish in blast)
  qed
  have loop: "triple H ?A (loop_job n (text_turn H None) ()) (\<lambda>r l. \<forall>x. r = Some x \<longrightarrow> drained l)"
    by (rule t_loop [where J = "\<lambda>_. ?A"]) (use turn in \<open>auto simp: sum.case_distrib cong: sum.case_cong\<close>)
  have all: "triple H (\<lambda>l. d = None \<and> ?A l) (loop_job n (text_turn H d) ()) (\<lambda>r l. \<forall>x. r = Some x \<longrightarrow> drained l)" for d
    using loop by (cases d) (simp_all add: triple_def)
  show ?thesis unfolding drain_text_def
    by (rule t_bind [OF t_calm [OF calm_progress_phase st(1)]], rule t_bind [OF t_pure(1)], rule all)
qed

section \<open>Containers\<close>

text \<open>Events that leave what was seen of container \<open>n\<close> and the state of the gate.\<close>

fun quiet :: "string \<Rightarrow> event \<Rightarrow> bool" where
  "quiet n Opened = False"
| "quiet n (Started m r) = False"
| "quiet n (Inspected m r) = (m \<noteq> n)"
| "quiet n e = True"

lemma calm_quiet: "calm e \<Longrightarrow> quiet n e"
  by (cases e) auto

lemma quiet_open: "quiet n e \<Longrightarrow> e \<noteq> Opened"
  by (cases e) auto

definition seen_down :: "string \<Rightarrow> event list \<Rightarrow> bool" where
  "seen_down n l \<longleftrightarrow> last_seen n l = Some False"

lemma seen_stable: "stable H (quiet n) (\<lambda>l. last_seen n l = b)"
  unfolding stable_def
proof (intro allI impI, elim conjE)
  fix l w assume "last_seen n l = b" "list_all (quiet n) w"
  then show "last_seen n (l @ w) = b"
  proof (induction w rule: rev_induct)
    case (snoc e w)
    then have "sighting n e c = c" for c by (cases "(n, e, c)" rule: sighting.cases) auto
    with snoc show ?case by (simp add: append_assoc [symmetric] del: append_assoc)
  qed simp
qed

definition about :: "string \<Rightarrow> event \<Rightarrow> bool" where
  "about n e \<longleftrightarrow> calm e \<or> (\<exists>r. e = Inspected n r) \<or> (\<exists>r. e = Stopped n r)"

lemma about_quiet: "about n e \<Longrightarrow> m \<noteq> n \<Longrightarrow> quiet m e"
  unfolding about_def using calm_quiet by auto

lemma about_drained: "stable H (about n) drained"
  by (rule drained_stable) (auto simp: about_def)

lemma stable_mono: "stable H Q A \<Longrightarrow> (\<And>e. P e \<Longrightarrow> Q e) \<Longrightarrow> stable H P A"
  unfolding stable_def list_all_iff by blast

lemma stable_conj: "stable H Q A \<Longrightarrow> stable H Q B \<Longrightarrow> stable H Q (\<lambda>l. A l \<and> B l)"
  unfolding stable_def by blast

lemma stable_imp: "(c \<Longrightarrow> stable H Q A) \<Longrightarrow> stable H Q (\<lambda>l. c \<longrightarrow> A l)"
  unfolding stable_def by blast

lemma stable_true: "stable H Q (\<lambda>_. True)"
  by (simp add: stable_def)

lemma t_sound: "triple H A m B \<Longrightarrow> triple H A m (\<lambda>x l. B x l \<and> always (lawful H) l)"
  by (rule tripleI, drule (2) tripleD, erule wp_mono) (auto simp: sound_def)

lemma stable_event: "stable H Q A \<Longrightarrow> A l \<Longrightarrow> always (lawful H) (l @ [e]) \<Longrightarrow> Q e \<Longrightarrow> A (l @ [e])"
  unfolding stable_def by (drule spec [of _ l], drule spec [of _ "[e]"]) simp

lemma t_running:
  assumes "stable H (about n) A"
  shows "triple H A (host_running H n) (\<lambda>up l. A l \<and> last_seen n l = Some up)"
  unfolding host_running_def
proof (rule t_bind [OF t_sound [OF t_act]])
  show "stable H calm A" by (rule stable_mono [OF assms]) (simp add: about_def)
  fix out
  have "A (l @ [Inspected n (Inr out)])" if "A l" "always (lawful H) (l @ [Inspected n (Inr out)])" for l
    by (rule stable_event [OF assms that]) (simp add: about_def)
  then show "triple H (\<lambda>l. (\<exists>l0. l = l0 @ [Inspected n (Inr out)] \<and> A l0) \<and> always (lawful H) l) (ret (py_strip out = ''true'')) (\<lambda>up l. A l \<and> last_seen n l = Some up)"
    by (intro t_ret) auto
qed simp

lemma t_stop:
  assumes "stable H (about n) A" and "\<And>l. A l \<Longrightarrow> n = text_container H \<Longrightarrow> drained l"
  shows "triple H A (host_stop H n) (\<lambda>_ l. A l \<and> seen_down n l)"
  unfolding host_stop_def
proof (rule t_bind [OF t_sound [OF t_event]])
  show "stable H calm A" by (rule stable_mono [OF assms(1)]) (simp add: about_def)
  fix u :: unit
  have keep: "A (l @ [Stopped n (Inr u)])" if "A l" "always (lawful H) (l @ [Stopped n (Inr u)])" for l
    by (rule stable_event [OF assms(1) that]) (simp add: about_def)
  have look: "triple H (\<lambda>l. (\<exists>l0. l = l0 @ [Stopped n (Inr u)] \<and> A l0) \<and> always (lawful H) l) (host_running H n) (\<lambda>up l. A l \<and> last_seen n l = Some up)"
    by (rule t_conseq [OF t_running [OF assms(1)]]) (use keep in auto)
  have verdict: "triple H (\<lambda>l. A l \<and> last_seen n l = Some up) (check (\<not> up) (RuntimeError ''Container did not stop'')) (\<lambda>_ l. A l \<and> seen_down n l)" for up
    by (rule tripleI) (simp add: wp_simps seen_down_def)
  show "triple H (\<lambda>l. (\<exists>l0. l = l0 @ [Stopped n (Inr u)] \<and> A l0) \<and> always (lawful H) l)
      (bindS (host_running H n) (\<lambda>up. check (\<not> up) (RuntimeError ''Container did not stop''))) (\<lambda>_ l. A l \<and> seen_down n l)"
    by (rule t_bind [OF look verdict])
qed (use assms(2) in auto)

lemma t_start:
  assumes "n \<in> {COMFY, text_container H}" and "\<And>l. A l \<Longrightarrow> seen_down (if n = COMFY then text_container H else COMFY) l" and "stable H calm A"
  shows "triple H A (host_start H n) (\<lambda>_ _. True)"
  unfolding host_start_def by (rule t_conseq [OF t_event [OF _ _ assms(3)]]) (use assms(1,2) in \<open>auto simp: seen_down_def\<close>)

section \<open>The switch\<close>

lemma seen_down_stable: "stable H (quiet n) (seen_down n)"
  unfolding seen_down_def by (rule seen_stable)

lemma seen_down_about: "m \<noteq> n \<Longrightarrow> stable H (about m) (seen_down n)"
  by (rule stable_mono [OF seen_down_stable about_quiet]) auto

lemma calm_about: "stable H (about n) A \<Longrightarrow> stable H calm A"
  by (erule stable_mono) (simp add: about_def)

lemma grows_loop: "(\<And>v s. grows H Q s (snd (turn v s))) \<Longrightarrow> grows H Q s (snd (loop_job n turn v s))"
proof (induction n arbitrary: v s)
  case (Suc n)
  have "grows H Q s1 (snd ((case r of Inl v' \<Rightarrow> loop_job n turn v' | Inr x \<Rightarrow> ret (Some x)) s1))" for r s1
    using Suc by (cases r) (simp_all add: grows_pure)
  with Suc.prems show ?case unfolding loop_job.simps by (intro grows_bind)
qed (simp add: grows_pure)

lemma harmless_wait: "grows H harmless s (snd (wait_ready H n name s))"
  unfolding wait_ready_def wait_turn_def
  by (intro grows_parts harmless_ops harmless_running grows_loop grows_modify) (simp_all add: calm_harmless)

lemma grows_bindJ:
  assumes "\<And>s. grows H Q s (snd (m s))" and "\<And>x s. grows H Q s (snd (k x s))"
  shows "grows H Q s (snd (bindJ m k s))"
  unfolding bindJ_def by (intro grows_bind assms grows_option grows_pure)

lemma grows_whole: "(\<And>s. grows H Q s (snd (m s))) \<Longrightarrow> grows H Q s (snd (whole m s))"
  unfolding whole_def by (intro grows_bind grows_pure)

lemma t_harmless: "(\<And>s. grows H harmless s (snd (m s))) \<Longrightarrow> triple H A m (\<lambda>_ _. True)"
  by (rule t_true)

lemma t_stop_if:
  assumes "text_container H \<noteq> COMFY" and "triple H A m (\<lambda>_. A)" and "stable H (about COMFY) A"
  shows "triple H (\<lambda>l. A l \<and> last_seen COMFY l = Some up)
    (if up then bindS m (\<lambda>_. bindS (progress_phase H ''stopping_comfyui'' id) (\<lambda>_. host_stop H COMFY)) else ret ()) (\<lambda>_ l. A l \<and> seen_down COMFY l)"
proof (rule t_if)
  have go: "triple H A (bindS m (\<lambda>_. bindS (progress_phase H ''stopping_comfyui'' id) (\<lambda>_. host_stop H COMFY))) (\<lambda>_ l. A l \<and> seen_down COMFY l)"
    by (rule t_bind [OF assms(2)], rule t_bind [OF t_calm [OF calm_progress_phase calm_about [OF assms(3)]]], rule t_stop [OF assms(3)]) (use assms(1) in simp)
  show "triple H (\<lambda>l. A l \<and> last_seen COMFY l = Some up) (bindS m (\<lambda>_. bindS (progress_phase H ''stopping_comfyui'' id) (\<lambda>_. host_stop H COMFY))) (\<lambda>_ l. A l \<and> seen_down COMFY l)"
    by (rule t_conseq [OF go]) auto
qed (auto intro: t_ret simp: seen_down_def)

lemma t_to_text:
  assumes "text_container H \<noteq> COMFY"
  shows "triple H A (to_text H n began) (\<lambda>_ _. True)"
proof -
  let ?T = "\<lambda>_. True" and ?down = "seen_down COMFY"
  have st: "stable H calm ?down" "stable H (about (text_container H)) ?down"
    using seen_down_about [OF assms] calm_about by blast+
  have tail: "triple H ?T (bindJ (wait_ready H n (text_container H)) (\<lambda>_. whole
       (bindS (if up0 then ret () else bindS (read_time H) (\<lambda>now. record_startup H ''text'' (fsub now b))) (\<lambda>_.
        bindS (update_mode ''text'' (\<lambda>s. s\<lparr>failure := None\<rparr>)) (\<lambda>_. bindS gate_open (\<lambda>_. advertise_text True)))))) (\<lambda>_ _. True)" for up0 b
    by (rule t_harmless, intro grows_bindJ grows_whole grows_parts harmless_wait harmless_ops harmless_gate) (simp_all add: calm_harmless)
  have launch: "triple H ?down (if up then ret () else bindS (progress_phase H ''starting_text'' id) (\<lambda>_. host_start H (text_container H))) (\<lambda>_ _. True)" for up
    by (rule t_if [OF t_ret], simp, rule t_bind [OF t_calm [OF calm_progress_phase st(1)]], rule t_start) (use assms st in simp_all)
  have idle: "triple H ?T (queue_idle H m) (\<lambda>_. ?T)" for m by (rule t_true [OF calm_queue_idle])
  have off: "triple H (\<lambda>l. last_seen COMFY l = Some media) (if media then
              bindS (queue_idle H ''ComfyUI has active or queued work; it was left running'') (\<lambda>_.
              bindS (progress_phase H ''stopping_comfyui'' id) (\<lambda>_. host_stop H COMFY)) else ret ()) (\<lambda>_. ?down)" for media
    by (rule t_conseq [OF t_stop_if [OF assms idle stable_true]]) simp_all
  have look: "triple H A (host_running H COMFY) (\<lambda>up l. last_seen COMFY l = Some up)" for A
    by (rule t_conseq [OF t_running [OF stable_true]]) simp_all
  have began: "triple H A (case began of Some t \<Rightarrow> ret t | None \<Rightarrow> read_time H) (\<lambda>_. ?T)"
    by (cases began) (auto intro: t_ret t_true [OF calm_read_time])
  show ?thesis unfolding to_text_def
    by (rule t_bind [OF began], rule t_bind [OF t_harmless [OF harmless_running]], rule t_bind [OF look], rule t_bind [OF off], rule t_bind [OF t_modify], simp,
      rule t_bind [OF t_conseq [OF t_running [OF st(2)]]], assumption, erule conjunct1, rule t_bind [OF launch], rule tail)
qed

lemma t_rollback:
  assumes "text_container H \<noteq> COMFY"
  shows "triple H A (rollback H n target fresh) (\<lambda>r _. r = None)"
proof -
  let ?T = "\<lambda>_. True"
  have idle: "triple H ?T (if fresh then ret () else queue_idle H m) (\<lambda>_. ?T)" for m
    by (intro t_if t_ret t_true [OF calm_queue_idle]) simp
  have look: "triple H A (host_running H COMFY) (\<lambda>up l. True \<and> last_seen COMFY l = Some up)" for A
    by (rule t_conseq [OF t_running [OF stable_true]]) simp_all
  have home: "triple H A (bindJ (to_text H n (Some t)) (\<lambda>_. raise e)) (\<lambda>r _. r = None)" for A t e
    by (rule t_bindJ [OF t_conseq [OF t_to_text [OF assms]], where B = "\<lambda>_. ?T"]) (auto intro: t_raise)
  show ?thesis unfolding rollback_def
    by (rule t_bind [OF t_true [OF calm_progress_reason]], rule t_bind [OF t_true [OF calm_read_time]], rule t_bind [OF look],
      rule t_bind [OF t_stop_if [OF assms idle stable_true]], rule home)
qed

text \<open>Ready for the media service: the text model was drained when it was up, or it was seen down.\<close>

definition may_start :: "host \<Rightarrow> bool \<Rightarrow> event list \<Rightarrow> bool" where
  "may_start H text_up l \<longleftrightarrow> (if text_up then drained l else seen_down (text_container H) l)"

lemma may_start_stable: "(\<And>e. Q e \<Longrightarrow> quiet (text_container H) e) \<Longrightarrow> stable H Q (may_start H text_up)"
  unfolding may_start_def using drained_stable [of Q H] stable_mono [OF seen_down_stable [of H "text_container H"], of Q] quiet_open
  by (cases text_up) auto

lemma t_stop_media:
  assumes "text_container H \<noteq> COMFY"
  shows "triple H (may_start H up) (stop_media H media) (\<lambda>_. may_start H up)"
proof -
  have st: "stable H calm (may_start H up)" "stable H (about COMFY) (may_start H up)"
    by (rule may_start_stable; use assms in \<open>simp add: calm_quiet about_quiet\<close>)+
  have stop: "triple H (may_start H up) (host_stop H COMFY) (\<lambda>_. may_start H up)"
    by (rule t_conseq [OF t_stop [OF st(2)]]) (use assms in auto)
  show ?thesis unfolding stop_media_def
    by (rule t_if, rule t_bind [OF t_calm [OF calm_progress_phase st(1)]], rule t_bind [OF stop], rule t_modify) (auto intro: t_ret)
qed

lemma t_start_media:
  assumes "text_container H \<noteq> COMFY"
  shows "triple H (may_start H up) (start_media H n target began up) (\<lambda>_ _. True)"
proof -
  let ?down = "seen_down (text_container H)"
  have st: "stable H calm ?down" "stable H calm drained" "stable H (about (text_container H)) drained"
    by (rule stable_mono [OF seen_down_stable], simp add: calm_quiet, rule drained_stable, auto intro: drained_stable about_drained)
  have off: "triple H (may_start H up) (if up then bindS (progress_phase H ''stopping_text'' id) (\<lambda>_. bindS (host_stop H (text_container H)) (\<lambda>_.
              modify (\<lambda>s. s\<lparr>text_running := False, text_ready := False\<rparr>))) else ret ()) (\<lambda>_. ?down)"
  proof (rule t_if)
    assume up
    then show "triple H (may_start H up) (bindS (progress_phase H ''stopping_text'' id) (\<lambda>_. bindS (host_stop H (text_container H)) (\<lambda>_.
              modify (\<lambda>s. s\<lparr>text_running := False, text_ready := False\<rparr>)))) (\<lambda>_. ?down)"
      by (intro t_conseq [OF t_bind [OF t_calm [OF calm_progress_phase st(2)] t_bind [OF t_stop [OF st(3)] t_conseq [OF t_modify]]]])
        (auto simp: may_start_def)
  qed (auto intro: t_ret simp: may_start_def)
  have tail: "triple H A (bindJ (wait_ready H n COMFY) (\<lambda>_. whole
       (bindS (read_time H) (\<lambda>ready_at. bindS (read_time H) (\<lambda>now. bindS (host_history H) (\<lambda>h.
        bindS (modify (\<lambda>s. s\<lparr>last_activity := now, last_history := h, media_mode := target\<rparr>)) (\<lambda>_.
        bindS (record_startup H target (fsub ready_at began)) (\<lambda>_. update_mode target (\<lambda>s. s\<lparr>failure := None\<rparr>)))))))))  (\<lambda>_ _. True)" for A
    by (rule t_harmless, intro grows_bindJ grows_whole grows_parts harmless_wait harmless_ops grows_modify) (simp_all add: calm_harmless)
  show ?thesis unfolding start_media_def
    by (rule t_bind [OF off], rule t_bind [OF t_calm [OF calm_progress_phase st(1)]], rule t_bind [OF t_start [OF _ _ st(1)]], simp, simp, rule tail)
qed

lemma t_activate:
  assumes "text_container H \<noteq> COMFY"
  shows "triple H A (activate H n target) (\<lambda>_ _. True)"
proof -
  let ?seen = "\<lambda>b l. last_seen (text_container H) l = Some b"
  have st: "stable H calm (?seen b)" "stable H calm (may_start H b)" for b
    by (rule stable_mono [OF seen_stable], simp add: calm_quiet, rule may_start_stable, simp add: calm_quiet)
  have look: "triple H A (host_running H (text_container H)) (\<lambda>b. ?seen b)" for A
    by (rule t_conseq [OF t_running [OF stable_true]]) simp_all
  have idle: "triple H (?seen b) (if c then queue_idle H m else ret ()) (\<lambda>_. ?seen b)" for b c m
    by (intro t_if t_ret t_calm [OF calm_queue_idle st(1)])
  have drain: "triple H (?seen b) (if b then bindJ (drain_workflows H n None) (\<lambda>_. drain_text H n None) else ret (Some ())) (\<lambda>r l. \<forall>x. r = Some x \<longrightarrow> may_start H b l)" for b
    by (rule t_if, rule t_conseq [OF t_bindJ [OF t_drain_workflows t_drain_text]]) (auto intro: t_ret simp: may_start_def seen_down_def)
  have down: "triple H (may_start H b) (catch (whole (stop_media H c)) any_exception (\<lambda>_. rollback H n target (\<not> c))) (\<lambda>r l. \<forall>x. r = Some x \<longrightarrow> may_start H b l)" for b c
    by (rule t_catch [OF t_whole t_conseq [OF t_rollback [OF assms]]], rule t_conseq [OF t_stop_media [OF assms]]) auto
  have up: "triple H (may_start H b) (catch (start_media H n target began b) any_exception (\<lambda>_. rollback H n target True)) (\<lambda>_ _. True)" for b began
    by (rule t_catch [OF t_start_media [OF assms] t_conseq [OF t_rollback [OF assms]]]) auto
  show ?thesis unfolding activate_def
    by (rule t_bind [OF t_harmless [OF harmless_running]], rule t_bind [OF look], rule t_bind [OF idle], rule t_bindJ [OF drain], rule t_bind [OF t_calm [OF calm_read_time st(2)]],
      rule t_bindJ [OF down up]) simp_all
qed

lemma t_switch:
  assumes "text_container H \<noteq> COMFY"
  shows "triple H A (switch H n action target) (\<lambda>_ _. True)"
proof -
  have settle: "triple H A (whole (switch_settled H)) (\<lambda>_ _. True)" "triple H A (whole (switch_failed H e)) (\<lambda>_ _. True)" for A e
    by (rule t_whole, rule t_harmless, rule harmless_settled)+
  have body: "triple H A (if action = ''stop'' then to_text H n None else activate H n target) (\<lambda>_ _. True)"
    by (intro t_if t_to_text t_activate assms)
  show ?thesis unfolding switch_def
    by (rule t_thenJ [OF t_catch [OF body settle(2)] settle(1)]) simp
qed

lemma t_run_worker:
  assumes "text_container H \<noteq> COMFY"
  shows "triple H A (run_worker H n action target) (\<lambda>_ _. True)"
  unfolding run_worker_def
  by (rule t_thenJ [OF t_catch [OF t_switch [OF assms] t_ret] t_whole [OF t_conseq [OF t_modify [where A = "\<lambda>_. True"]]]]) simp_all

lemma run_worker_sound: "text_container H \<noteq> COMFY \<Longrightarrow> sound H s \<Longrightarrow> sound H (snd (run_worker H n action target s))"
  using tripleD [OF t_run_worker, of H s "\<lambda>_. True" n action target] wp_mono [where Q' = "\<lambda>_. sound H" and E' = "\<lambda>_. sound H"] wp_snd [of _ "sound H"] by blast

lemma reachable_sound:
  assumes "reachable H s" and t: "text_container H \<noteq> COMFY"
  shows "sound H s"
  using assms(1)
proof (induction rule: reachable.induct)
  case (started saved s)
  have "sound H blank" by (simp add: sound_def blank_def open_after_def inside_def)
  moreover have "grows H harmless blank s" using harmless_init [of H blank saved] started by simp
  ultimately show ?case by (meson grows_sound harmless_recover)
next
  case (served s cs)
  have "grows H harmless s (snd (for_eachS client_step cs s))" by (rule grows_clients) simp_all
  then show ?case using served.IH grows_sound by blast
next
  case (reported s)
  then show ?case using grows_sound calm_status by blast
next
  case (submitted s action target)
  then show ?case using grows_sound harmless_submit by blast
next
  case (ticked s)
  then show ?case using grows_sound harmless_tick by blast
next
  case (prompted s fr loads p body)
  then show ?case using grows_sound harmless_prompt by blast
next
  case (switched s action target n)
  then show ?case using run_worker_sound t by blast
qed

lemma glimpse_sound: "glimpse H s \<Longrightarrow> text_container H \<noteq> COMFY \<Longrightarrow> sound H s"
  by (erule glimpse.cases) (auto intro: reachable_sound run_worker_sound)

section \<open>Properties of the controller\<close>

text \<open>
  C38: at every moment of every history, whatever the services, the clients and the clock do: a client is admitted only while the
  gate is open; the text model is stopped only after its drain is complete (two reports of no active workflow, at least five
  seconds apart by the clock with none but idle reports between, then the gate closed and never reopened, nobody inside, and the engine reporting no request after
  that); a container is started only when the other one was last seen down and not started since; and the gate's counter
  is the number of clients inside. The moments include those of a switch that hangs.
\<close>

theorem switch_safe:
  assumes "glimpse H s" and "text_container H \<noteq> COMFY"
  shows "gate_active s = inside (events s) \<and> (\<forall>l e rest. events s = l @ e # rest \<longrightarrow>
      (e = Admitted \<longrightarrow> open_after l)
    \<and> (\<forall>r. e = Stopped (text_container H) r \<longrightarrow> drained l)
    \<and> (\<forall>n r. e = Started n r \<longrightarrow> n \<in> {COMFY, text_container H} \<and> last_seen (if n = COMFY then text_container H else COMFY) l = Some False))"
proof -
  have s: "gate_active s = inside (events s)" "always (lawful H) (events s)" using glimpse_sound [OF assms] by (simp_all add: sound_def)
  have "lawful H l e" if "events s = l @ e # rest" for l e rest using s(2) that unfolding always_def by blast
  then show ?thesis using s(1) by fastforce
qed

text \<open>Whether a container is up after a history: as it was, or as the last command to it said.\<close>

definition up_after :: "bool \<Rightarrow> string \<Rightarrow> event list \<Rightarrow> bool" where
  "up_after b n h = foldl (\<lambda>b e. case e of Started m _ \<Rightarrow> if m = n then True else b | Stopped m _ \<Rightarrow> if m = n then False else b | _ \<Rightarrow> b) b h"

lemma up_after_snoc [simp]:
  "up_after b n (h @ [Started m r]) = (if m = n then True else up_after b n h)" "up_after b n (h @ [Stopped m r']) = (if m = n then False else up_after b n h)"
  by (simp_all add: up_after_def)

lemma up_after_harmless: "list_all harmless w \<Longrightarrow> up_after b n (h @ w) = up_after b n h"
proof (induction w rule: rev_induct)
  case (snoc e w)
  then show ?case by (cases e) (simp_all add: up_after_def)
qed simp

text \<open>A host whose containers do what they are told and whose clock counts the events.\<close>

definition toy_time :: "event list \<Rightarrow> flt" where
  "toy_time h = flt_int (int (length h))"

definition toy_host :: host where
  "toy_host = \<lparr>text_container = ''text'', text_display_name = ''Text'', inspect_says = (\<lambda>h n. Inr (if up_after (n = ''text'') n h then ''true'' else ''false'')),
     start_says = (\<lambda>_ _. Inr ()), stop_says = (\<lambda>_ _. Inr ()), probe_says = (\<lambda>_ _. Inr ()), fetch_says = (\<lambda>_ _. Inr (JObj [(''queue_running'', JArr []), (''queue_pending'', JArr [])])),
     metrics_says = (\<lambda>_. Inr (Some (0, 0))),
     activity_says = Some (\<lambda>h. Inr (JObj [(''active_workflows'', JInt 0), (''active_turns'', JInt 0), (''observed_at'', JInt (int (length h)))])),
     prompt_says = (\<lambda>_ _ _. Inl OSError), time_says = toy_time, save_says = (\<lambda>_ _. Inr ()), clients = (\<lambda>_. []), digest_says = id\<rparr>"

definition toy_submitted :: ctl where
  "toy_submitted = snd (submit toy_host ''start'' ''image'' (snd (recover toy_host (snd (init toy_host (Inl OSError) blank)))))"

definition toy_switched :: ctl where
  "toy_switched = snd (run_worker toy_host 3 ''start'' ''image'' toy_submitted)"

lemma toy_runs:
  "worker toy_submitted = Some (''start'', ''image'')" "mode toy_switched = ''image''" "list_ex (\<lambda>e. e = Stopped ''text'' (Inr ())) (events toy_switched)"
  by code_simp+

lemma toy_glimpse: "glimpse toy_host toy_switched"
proof -
  have "init toy_host (Inl OSError) blank = (Inr (), snd (init toy_host (Inl OSError) blank))"
    by (rule prod_eqI) (simp_all, code_simp)
  then have "reachable toy_host toy_submitted" unfolding toy_submitted_def by (intro reachable.submitted reachable.started)
  then show ?thesis unfolding toy_switched_def by (rule glimpse.working [OF _ toy_runs(1)])
qed

theorem switch_safe_witness: "mode toy_switched = ''image'' \<and> (\<exists>l r rest. events toy_switched = l @ Stopped ''text'' r # rest \<and> drained l)"
proof -
  have "Stopped ''text'' (Inr ()) \<in> set (events toy_switched)" using toy_runs(3) by (simp add: list_ex_iff)
  then obtain l rest where e: "events toy_switched = l @ Stopped ''text'' (Inr ()) # rest" by (meson split_list)
  have t: "text_container toy_host = ''text''" "text_container toy_host \<noteq> COMFY" by (simp_all add: toy_host_def COMFY_def)
  have "drained l" using switch_safe [OF toy_glimpse t(2)] e unfolding t(1) by blast
  then show ?thesis using e toy_runs(2) by blast
qed

text \<open>In step: what is offered to clients agrees with what was last seen of the services.\<close>

definition in_step :: "ctl \<Rightarrow> bool" where
  "in_step s \<longleftrightarrow> (gate_available s \<longleftrightarrow> mode s = ''text'' \<and> text_ready s \<and> \<not> comfy_running s)
     \<and> llm_available s = gate_available s \<and> gate_state s = (if gate_available s then ''ready'' else mode s)"

lemma returned_in_step:
  assumes "switch H n action target s = (Inr (Some ()), s')"
  shows "in_step s'"
proof -
  obtain t where "switch_settled H t = (Inr (), s')"
    using assms by (auto simp: switch_def bindJ_def whole_def eff_iffs split: option.splits)
  then obtain u where "(if mode u = ''text'' \<and> text_ready u \<and> \<not> comfy_running u then bindS gate_open (\<lambda>_. advertise_text True)
     else bindS (gets mode) (\<lambda>m. bindS (gate_close m) (\<lambda>_. advertise_text False))) u = (Inr (), s')"
    unfolding switch_settled_def by (auto simp: eff_iffs)
  then have "s' = (if mode u = ''text'' \<and> text_ready u \<and> \<not> comfy_running u
      then u\<lparr>gate_available := True, gate_state := ''ready'', events := events u @ [Opened], llm_available := True\<rparr>
      else u\<lparr>gate_available := False, gate_state := mode u, events := events u @ [Closed], llm_available := False\<rparr>)"
    by (auto simp: eff_iffs gate_open_def gate_close_def advertise_text_def split: if_splits)
  then show ?thesis by (auto simp: in_step_def split: if_splits)
qed

text \<open>
  A cooperative host: the containers obey docker (\<open>a\<close> and \<open>b\<close> tell whether the text model and the media service were up
  before the first event), the text model answers its health check, the queue of the media service
  is idle, the state can be saved, and two readings of the clock with nothing of the controller
  between them are less than half an hour apart.
\<close>

definition idle_queue :: "json \<Rightarrow> bool" where
  "idle_queue v \<longleftrightarrow> is_dict v \<and> get (dict_of v) ''queue_running'' = JArr [] \<and> get (dict_of v) ''queue_pending'' = JArr []"

definition cooperative :: "host \<Rightarrow> bool \<Rightarrow> bool \<Rightarrow> bool" where
  "cooperative H a b \<longleftrightarrow> text_container H \<noteq> COMFY
     \<and> (\<forall>h. inspect_says H h (text_container H) = Inr (if up_after a (text_container H) h then ''true'' else ''false'')
          \<and> inspect_says H h COMFY = Inr (if up_after b COMFY h then ''true'' else ''false'')
          \<and> start_says H h (text_container H) = Inr () \<and> stop_says H h COMFY = Inr () \<and> probe_says H h (text_container H) = Inr ()
          \<and> (\<exists>v. fetch_says H h ''/queue'' = Inr v \<and> idle_queue v) \<and> (\<forall>d. save_says H h d = Inr ()))
     \<and> (\<forall>h w x. list_all calm w \<longrightarrow> flt_less (time_says H (h @ Read_Clock x # w)) (fadd (time_says H h) (flt_int 1800)))"

definition same_service :: "ctl \<Rightarrow> ctl \<Rightarrow> bool" where
  "same_service s s' \<longleftrightarrow> mode s' = mode s \<and> progress s' = progress s \<and> text_ready s' = text_ready s \<and> comfy_running s' = comfy_running s"

lemma clients_same: "same_service s (snd (for_eachS client_step cs s))"
proof (induction cs arbitrary: s)
  case (Cons c cs)
  have "same_service s (snd (client_step c s))" by (cases c) (simp_all add: client_step_run same_service_def)
  with Cons [of "snd (client_step c s)"] show ?case by (simp add: bindS_def client_step_run same_service_def)
qed (simp add: ret_def same_service_def)

lemma healthy_event:
  assumes "\<And>t w. list_all calm w \<Longrightarrow> events t = events s @ w \<Longrightarrow> same_service s t \<Longrightarrow> Q (ask (events t)) (t\<lparr>events := events t @ [ev (ask (events t))]\<rparr>)"
  shows "wp (happen H ask ev) Q X s"
proof -
  obtain t where t: "for_eachS client_step (clients H (events s)) s = (Inr (), t)" using clients_run by (metis prod.collapse)
  have "happen H ask ev s = (Inr (ask (events t)), t\<lparr>events := events t @ [ev (ask (events t))]\<rparr>)"
    by (simp add: happen_def bindS_def gets_def modify_def ret_def t)
  moreover have "\<exists>w. list_all calm w \<and> events t = events s @ w" using grows_clients [of calm H s "clients H (events s)"] by (auto simp: t grows_def)
  moreover have "same_service s t" using clients_same [of s "clients H (events s)"] by (simp add: t)
  ultimately show ?thesis using assms by (auto simp: wp_def)
qed

definition returns :: "(ctl, 'a) eff \<Rightarrow> ctl \<Rightarrow> ('a \<Rightarrow> ctl \<Rightarrow> bool) \<Rightarrow> bool" where
  "returns m s Q \<longleftrightarrow> wp m Q (\<lambda>_ _. False) s"

lemma r_bind: "returns m s P \<Longrightarrow> (\<And>x t. P x t \<Longrightarrow> returns (k x) t Q) \<Longrightarrow> returns (bindS m k) s Q"
  unfolding returns_def wp_bindS by (rule wp_mono)

lemma r_bindJ: "returns m s (\<lambda>r t. \<exists>x. r = Some x \<and> P x t) \<Longrightarrow> (\<And>x t. P x t \<Longrightarrow> returns (k x) t Q) \<Longrightarrow> returns (bindJ m k) s Q"
  unfolding bindJ_def by (erule r_bind) auto

lemma r_simps:
  "returns (ret x) s Q \<longleftrightarrow> Q x s" "returns (modify f) s Q' \<longleftrightarrow> Q' () (f s)" "returns (gets g) s R \<longleftrightarrow> R (g s) s"
  "returns (bindS (ret x) k) s R' \<longleftrightarrow> returns (k x) s R'" "returns (bindS (modify f) h) s R' \<longleftrightarrow> returns (h ()) (f s) R'" "returns (bindS (gets g) j) s R' \<longleftrightarrow> returns (j (g s)) s R'"
  by (simp_all add: returns_def wp_simps)

lemma r_catch: "returns m s Q \<Longrightarrow> returns (catch m p h) s Q"
  unfolding returns_def wp_catch by (erule wp_mono) simp_all

lemma r_more: "returns m s P \<Longrightarrow> (\<And>x t. P x t \<Longrightarrow> Q x t) \<Longrightarrow> returns m s Q"
  unfolding returns_def by (erule wp_mono) simp_all

lemma r_time: "returns (read_time H) s (\<lambda>x t. \<exists>l w. list_all calm w \<and> l = events s @ w \<and> events t = l @ [Read_Clock x] \<and> x = time_says H l \<and> same_service s t)"
  unfolding returns_def read_time_def by (rule healthy_event) (auto simp: same_service_def)

lemma bindS_assoc: "bindS (bindS m k) h = bindS m (\<lambda>x. bindS (k x) h)"
  by (auto simp: bindS_def fun_eq_iff split: prod.splits sum.splits)

text \<open>The trace grows by events that move no container.\<close>

definition grown :: "ctl \<Rightarrow> ctl \<Rightarrow> bool" where
  "grown s t \<longleftrightarrow> (\<exists>w. events t = events s @ w \<and> list_all harmless w)"

lemma grownI [intro]: "events t = events s \<Longrightarrow> grown s t" "events t = events s @ [e] \<Longrightarrow> harmless e \<Longrightarrow> grown s t"
  by (auto simp: grown_def)

lemma grown_trans: "grown s t \<Longrightarrow> grown t u \<Longrightarrow> grown s u"
  by (auto simp: grown_def)

lemma grown_up: "grown s t \<Longrightarrow> up_after b n (events t) = up_after b n (events s)"
  by (auto simp: grown_def up_after_harmless)

lemma calm_all: "list_all calm w \<Longrightarrow> list_all harmless w"
  using calm_harmless by (auto simp: list_all_iff)

lemma r_event:
  assumes "\<And>t. grown s t \<Longrightarrow> same_service s t \<Longrightarrow> Q (ask (events t)) (t\<lparr>events := events t @ [ev (ask (events t))]\<rparr>)"
  shows "returns (happen H ask ev) s Q"
  unfolding returns_def
proof (rule healthy_event)
  fix t w assume "list_all calm w" "events t = events s @ w" "same_service s t"
  then show "Q (ask (events t)) (t\<lparr>events := events t @ [ev (ask (events t))]\<rparr>)" by (intro assms) (auto simp: grown_def calm_all)
qed

lemma grown_snoc [intro]: "grown s t \<Longrightarrow> harmless e \<Longrightarrow> grown s (t\<lparr>events := events t @ [e]\<rparr>)"
  by (erule grown_trans) auto

lemma r_act:
  fixes ask :: "event list \<Rightarrow> 'a res"
  assumes "\<And>t. grown s t \<Longrightarrow> same_service s t \<Longrightarrow> \<exists>x. ask (events t) = Inr x \<and> Q x (t\<lparr>events := events t @ [ev (Inr x)]\<rparr>)"
  shows "returns (act H ask ev) s Q"
  unfolding act_def
proof (rule r_bind [OF r_event])
  fix t assume "grown s t" "same_service s t"
  from assms [OF this] show "\<exists>x. ask (events t) = Inr x \<and> Q x (t\<lparr>events := events t @ [ev (ask (events t))]\<rparr>)" by auto
next
  fix r :: "'a res" and t assume "\<exists>x. r = Inr x \<and> Q x t"
  then show "returns (lift r) t Q" by (auto simp: returns_def wp_lift)
qed

lemma r_clock: "returns (read_time H) s (\<lambda>_ t. grown s t \<and> same_service s t)"
  by (rule r_more [OF r_time]) (auto simp: grown_def dest: calm_all)

lemma r_progress_phase: "returns (progress_phase H phase counts) s (\<lambda>_. grown s)"
proof (cases "progress s")
  case (Some tr)
  have timed: "returns (bindS (read_time H) k) s (\<lambda>_. grown s)" if "\<And>x t. returns (k x) t (\<lambda>_. grown t)" for k :: "flt \<Rightarrow> (ctl, unit) eff" and s
    by (rule r_bind [OF r_clock], rule r_more [OF that]) (auto intro: grown_trans)
  show ?thesis by (auto simp: progress_phase_def r_simps Some bindS_assoc intro!: timed grownI(1))
qed (auto simp: progress_phase_def r_simps)

lemma strip_true: "py_strip ''true'' = ''true''" "py_strip ''false'' \<noteq> ''true''"
  by code_simp+

lemma r_inspect:
  assumes "\<And>h. inspect_says H h n = Inr (if up_after c n h then ''true'' else ''false'')"
  shows "returns (host_running H n) s (\<lambda>up t. up = up_after c n (events s) \<and> grown s t \<and> same_service s t)"
  unfolding host_running_def
proof (rule r_bind [OF r_act])
  fix t assume t: "grown s t" "same_service s t"
  let ?x = "if up_after c n (events s) then ''true'' else ''false''" and ?u = "\<lambda>x. t\<lparr>events := events t @ [Inspected n (Inr x)]\<rparr>"
  have "grown s (?u ?x)" "same_service s (?u ?x)" using t by (auto simp: grown_def same_service_def)
  then show "\<exists>x. inspect_says H (events t) n = Inr x \<and> (x = ?x \<and> grown s (?u x) \<and> same_service s (?u x))"
    using assms grown_up [OF t(1)] by auto
next
  fix x t assume "x = (if up_after c n (events s) then ''true'' else ''false'') \<and> grown s t \<and> same_service s t"
  then show "returns (ret (py_strip x = ''true'')) t (\<lambda>up t. up = up_after c n (events s) \<and> grown s t \<and> same_service s t)"
    using strip_true by (simp add: r_simps)
qed

lemma coop_inspect:
  assumes "cooperative H a b"
  shows "returns (host_running H (text_container H)) s (\<lambda>up t. up = up_after a (text_container H) (events s) \<and> grown s t \<and> same_service s t)"
    and "returns (host_running H COMFY) s (\<lambda>up t. up = up_after b COMFY (events s) \<and> grown s t \<and> same_service s t)"
  by (rule r_inspect; use assms in \<open>simp add: cooperative_def\<close>)+

text \<open>Whether the two services are up in a state.\<close>

abbreviation text_up :: "host \<Rightarrow> bool \<Rightarrow> ctl \<Rightarrow> bool" where
  "text_up H a s \<equiv> up_after a (text_container H) (events s)"

abbreviation media_up :: "bool \<Rightarrow> ctl \<Rightarrow> bool" where
  "media_up b s \<equiv> up_after b COMFY (events s)"

lemma r_stop_media:
  assumes h: "cooperative H a b"
  shows "returns (host_stop H COMFY) s (\<lambda>_ t. \<not> media_up b t \<and> text_up H a t = text_up H a s)"
  unfolding host_stop_def
proof (rule r_bind [OF r_act])
  fix t assume t: "grown s t" "same_service s t"
  let ?u = "t\<lparr>events := events t @ [Stopped COMFY (Inr ())]\<rparr>"
  have "\<not> media_up b ?u \<and> text_up H a ?u = text_up H a s" using h grown_up [OF t(1)] by (auto simp: cooperative_def)
  then show "\<exists>x. stop_says H (events t) COMFY = Inr x \<and> \<not> media_up b (t\<lparr>events := events t @ [Stopped COMFY (Inr x)]\<rparr>)
      \<and> text_up H a (t\<lparr>events := events t @ [Stopped COMFY (Inr x)]\<rparr>) = text_up H a s"
    using h by (auto simp: cooperative_def)
next
  fix x t assume t: "\<not> media_up b t \<and> text_up H a t = text_up H a s"
  show "returns (bindS (host_running H COMFY) (\<lambda>up. check (\<not> up) (RuntimeError ''Container did not stop''))) t
      (\<lambda>_ t. \<not> media_up b t \<and> text_up H a t = text_up H a s)"
    by (rule r_bind [OF coop_inspect(2) [OF h]]) (use t grown_up in \<open>auto simp: returns_def wp_simps\<close>)
qed

lemma r_start_text:
  assumes h: "cooperative H a b"
  shows "returns (host_start H (text_container H)) s (\<lambda>_ t. text_up H a t \<and> media_up b t = media_up b s)"
  unfolding host_start_def by (rule r_act) (use h grown_up in \<open>auto simp: cooperative_def\<close>)

lemma r_queue_idle:
  assumes h: "cooperative H a b"
  shows "returns (queue_idle H m) s (\<lambda>_. grown s)"
proof -
  have fetch: "returns (act H (\<lambda>h. fetch_says H h ''/queue'') (Fetched ''/queue'')) s (\<lambda>v t. idle_queue v \<and> grown s t)"
  proof (rule r_act)
    fix t assume t: "grown s t" "same_service s t"
    obtain v where v: "fetch_says H (events t) ''/queue'' = Inr v" "idle_queue v" using h unfolding cooperative_def by blast
    have "grown s (t\<lparr>events := events t @ [Fetched ''/queue'' (Inr v)]\<rparr>)" by (rule grown_trans [OF t(1)]) auto
    with v show "\<exists>x. fetch_says H (events t) ''/queue'' = Inr x \<and> idle_queue x \<and> grown s (t\<lparr>events := events t @ [Fetched ''/queue'' (Inr x)]\<rparr>)" by blast
  qed
  have "returns (host_queue H) s (\<lambda>q t. q = (0, 0) \<and> grown s t)"
    unfolding host_queue_def by (rule r_bind [OF fetch]) (auto simp: idle_queue_def returns_def wp_simps Let_def)
  then show ?thesis unfolding queue_idle_def by (rule r_bind) (auto simp: returns_def wp_simps)
qed

lemma r_ready: "cooperative H a b \<Longrightarrow> returns (host_ready H (text_container H)) s (\<lambda>ok t. ok \<and> grown s t \<and> same_service s t)"
  unfolding host_ready_def
  by (rule r_catch, rule r_bind [OF r_act [where Q = "\<lambda>_ t. grown s t \<and> same_service s t"]])
    (auto simp: cooperative_def r_simps same_service_def)

lemma r_wait_ready:
  assumes h: "cooperative H a b" and n: "0 < n" and up: "text_up H a s"
  shows "returns (wait_ready H n (text_container H)) s (\<lambda>r t. r = Some () \<and> grown s t)"
proof -
  obtain m where n: "n = Suc m" using n by (cases n) auto
  have name: "text_container H \<noteq> COMFY" using h by (simp add: cooperative_def)
  have rest: "returns (bindS (host_running H (text_container H)) (\<lambda>running. bindS (if running then host_ready H (text_container H) else ret False) (\<lambda>ready.
       bindS (modify (\<lambda>s. s\<lparr>text_running := running, text_ready := ready\<rparr>)) (\<lambda>_. if ready then ret (Inr ()) else bindS (sleep H 5) (\<lambda>_. ret (Inl ())))))) u
       (\<lambda>r t. r = Inr () \<and> grown s t)" if u: "grown s u" for u
  proof (rule r_bind [OF coop_inspect(1) [OF h]])
    fix x t assume x: "x = text_up H a u \<and> grown u t \<and> same_service u t"
    then have "x" and t: "grown s t" using up grown_up [OF u] grown_trans [OF u] by simp_all
    then show "returns (bindS (if x then host_ready H (text_container H) else ret False) (\<lambda>ready.
       bindS (modify (\<lambda>s. s\<lparr>text_running := x, text_ready := ready\<rparr>)) (\<lambda>_. if ready then ret (Inr ()) else bindS (sleep H 5) (\<lambda>_. ret (Inl ()))))) t
       (\<lambda>r t. r = Inr () \<and> grown s t)"
      by (simp, intro r_bind [OF r_ready [OF h]]) (auto simp: r_simps grown_def)
  qed
  have turn: "returns (wait_turn H (text_container H) (fadd now (flt_int 1800)) ()) t (\<lambda>r u. r = Inr () \<and> grown s u)"
    if t: "\<exists>l. events t = l @ [Read_Clock now] \<and> now = time_says H l" "grown s t" for now t
  proof -
    have less: "flt_less x (fadd now (flt_int 1800)) \<and> grown s u"
      if "\<exists>l w. list_all calm w \<and> l = events t @ w \<and> events u = l @ [Read_Clock x] \<and> x = time_says H l \<and> same_service t u" for x u
    proof -
      from that have "grown t u" by (auto simp: grown_def dest: calm_all)
      moreover have "flt_less x (fadd now (flt_int 1800))" using that t(1) h unfolding cooperative_def by auto
      ultimately show ?thesis using grown_trans [OF t(2)] by blast
    qed
    have checked: "returns (bindS (check c e) k) u Q" if c "returns (k ()) u Q" for c e k u and Q :: "unit + unit \<Rightarrow> ctl \<Rightarrow> bool"
      using that by (simp add: returns_def wp_simps)
    show ?thesis unfolding wait_turn_def
      by (rule r_bind [OF r_time], drule less, erule conjE, rule checked, assumption, simp only: name if_False, erule rest)
  qed
  have loop: "returns (loop_job n (wait_turn H (text_container H) (fadd now (flt_int 1800))) ()) t (\<lambda>r u. r = Some () \<and> grown s u)"
    if "\<exists>l. events t = l @ [Read_Clock now] \<and> now = time_says H l" "grown s t" for now t
    unfolding n loop_job.simps by (rule r_bind [OF turn [OF that]]) (auto simp: r_simps)
  have clock: "returns (read_time H) t (\<lambda>now u. (\<exists>l. events u = l @ [Read_Clock now] \<and> now = time_says H l) \<and> grown s u)" if "grown s t" for t
    by (rule r_more [OF r_time]) (use that in \<open>auto simp: grown_def dest: calm_all\<close>)
  show ?thesis unfolding wait_ready_def
    by (rule r_bind [OF r_progress_phase], rule r_bind [OF clock], assumption, simp only: name if_False, erule conjE, rule loop)
qed

text \<open>The end of the switch to text: in text mode with nothing in transition, the text model up and the media service down.\<close>

definition in_text :: "host \<Rightarrow> bool \<Rightarrow> bool \<Rightarrow> ctl \<Rightarrow> bool" where
  "in_text H a b s \<longleftrightarrow> mode s = ''text'' \<and> progress s = None \<and> text_up H a s \<and> \<not> media_up b s"

lemma r_record_startup:
  assumes "cooperative H a b"
  shows "returns (record_startup H m x) s (\<lambda>_. grown s)"
proof -
  have "returns (persist H) t (\<lambda>_. grown t)" for t
    unfolding persist_def r_simps by (rule r_act) (use assms in \<open>auto simp: cooperative_def\<close>)
  then have "returns (persist H) (s\<lparr>startup_seconds := xs\<rparr>) (\<lambda>_. grown s)" for xs
    by (rule r_more) (auto simp: grown_def)
  then show ?thesis by (auto simp: record_startup_def r_simps)
qed

lemma r_to_text:
  assumes h: "cooperative H a b" and n: "0 < n"
  shows "returns (to_text H n None) s (\<lambda>r t. r = Some () \<and> in_text H a b t)"
proof -
  let ?settled = "\<lambda>t. text_up H a t \<and> \<not> media_up b t"
  have open': "returns (bindS (update_mode ''text'' (\<lambda>s. s\<lparr>failure := None\<rparr>)) (\<lambda>_. bindS gate_open (\<lambda>_. advertise_text True))) t (\<lambda>_. in_text H a b)" if "?settled t" for t
    using that by (simp add: r_simps update_mode_def gate_open_def advertise_text_def in_text_def Let_def up_after_harmless [of "[Opened]"])
  have noted: "returns (if up0 then ret () else bindS (read_time H) (\<lambda>now. record_startup H ''text'' (fsub now began))) t (\<lambda>_. ?settled)" if t: "?settled t" for up0 began t
  proof (cases up0)
    case False
    have "returns (bindS (read_time H) (\<lambda>now. record_startup H ''text'' (fsub now began))) t (\<lambda>_. grown t)"
      by (rule r_bind [OF r_clock], rule r_more [OF r_record_startup [OF h]]) (auto intro: grown_trans)
    with False t show ?thesis by (auto elim!: r_more simp: grown_up)
  qed (use t in \<open>simp add: r_simps\<close>)
  have tail: "returns (whole (bindS (if up0 then ret () else bindS (read_time H) (\<lambda>now. record_startup H ''text'' (fsub now began)))
      (\<lambda>_. bindS (update_mode ''text'' (\<lambda>s. s\<lparr>failure := None\<rparr>)) (\<lambda>_. bindS gate_open (\<lambda>_. advertise_text True))))) t
      (\<lambda>r u. r = Some () \<and> in_text H a b u)" if "?settled t" for up0 began t
    unfolding whole_def by (rule r_bind [OF r_bind [OF noted [OF that] open']]) (auto simp: r_simps)
  have wait: "returns (wait_ready H n (text_container H)) t (\<lambda>r u. \<exists>x. r = Some x \<and> ?settled u)" if "?settled t" for t
    by (rule r_more [OF r_wait_ready [OF h n]]) (use that in \<open>auto simp: grown_up\<close>)
  have start: "returns (if up then ret () else bindS (progress_phase H ''starting_text'' id) (\<lambda>_. host_start H (text_container H))) t (\<lambda>_. ?settled)"
    if "up = text_up H a t" "\<not> media_up b t" for up t
  proof (cases up)
    case False
    then show ?thesis
      by (simp, intro r_bind [OF r_progress_phase] r_more [OF r_start_text [OF h]]) (use that in \<open>auto simp: grown_up\<close>)
  qed (use that in \<open>simp add: r_simps\<close>)
  have stop: "returns (if media then bindS (queue_idle H m) (\<lambda>_. bindS (progress_phase H ''stopping_comfyui'' id) (\<lambda>_. host_stop H COMFY)) else ret ()) t
      (\<lambda>_ u. \<not> media_up b u)" if "media = media_up b t" for media m t
  proof (cases media)
    case True
    then show ?thesis
      by (simp, intro r_bind [OF r_queue_idle [OF h]] r_bind [OF r_progress_phase] r_more [OF r_stop_media [OF h]]) simp
  qed (use that in \<open>simp add: r_simps\<close>)
  show ?thesis unfolding to_text_def option.case
  proof (rule r_bind [OF r_clock], rule r_bind [OF coop_inspect(1) [OF h]], rule r_bind [OF coop_inspect(2) [OF h]], rule r_bind [OF stop], goal_cases)
    case (1 began t up0 u media v)
    then show ?case using grown_up [of u v b COMFY] by simp
  next
    case (2 began t up0 u media v x w)
    let ?w = "w\<lparr>comfy_running := False, comfy_ready := False, queue_running := None, queue_pending := None\<rparr>"
    have down: "\<not> media_up b ?w" using 2 by simp
    show ?case unfolding r_simps
    proof (rule r_bind [OF coop_inspect(1) [OF h]], rule r_bind [OF start], goal_cases)
      case (1 up y)
      then show ?case using grown_up [of ?w y a "text_container H"] by simp
    next
      case (2 up y)
      then show ?case using down grown_up [of ?w y b COMFY] by simp
    next
      case (3 up y z v')
      then show ?case by - (rule r_bindJ [OF wait], assumption, rule tail)
    qed
  qed
qed

lemma r_sample:
  assumes h: "cooperative H a b" and s: "text_up H a s" "\<not> media_up b s"
  shows "returns (sample H) s (\<lambda>_ t. mode t = mode s \<and> progress t = progress s \<and> text_ready t \<and> \<not> comfy_running t \<and> grown s t)"
  unfolding sample_def
proof (rule r_bind [OF coop_inspect(1) [OF h]], rule r_bind [OF coop_inspect(2) [OF h]], goal_cases)
  case (1 up t comfy u)
  then have f: "up" "\<not> comfy" "grown s u" "same_service s u" using s grown_up [of s t] grown_trans [of s t u] by (auto simp: same_service_def)
  show ?case
    using f(1,2) by (simp add: r_simps, intro r_bind [OF r_ready [OF h]]) (use f(3,4) in \<open>auto simp: r_simps same_service_def grown_def\<close>)
qed

lemma r_settled:
  assumes h: "cooperative H a b" and s: "in_text H a b s"
  shows "returns (switch_settled H) s (\<lambda>_ t. mode t = ''text'' \<and> gate_available t \<and> llm_available t \<and> text_up H a t \<and> \<not> media_up b t)"
proof -
  let ?P = "\<lambda>t. in_text H a b t \<and> text_ready t \<and> \<not> comfy_running t"
  have sampled: "returns (catch (bindS (sample H) (\<lambda>_. ret ())) p f) s (\<lambda>_. ?P)" for p f
    by (rule r_catch, rule r_bind [OF r_sample [OF h]]) (use s in \<open>auto simp: r_simps in_text_def grown_up\<close>)
  have reported: "returns (status H) t (\<lambda>_ u. u = t)" if "?P t" for t
    using that by (simp add: status_def progress_snapshot_def bindS_assoc r_simps in_text_def state_report_def get_def get_or_def)
  show ?thesis unfolding switch_settled_def
    by (rule r_bind [OF sampled], rule r_bind [OF reported], assumption)
      (simp add: r_simps gate_open_def advertise_text_def in_text_def up_after_harmless [of "[Opened]"])
qed

text \<open>
  C39: a switch that returns leaves what is offered in step with what was last seen of the services: the gate is open and the text model
  advertised exactly when the controller is in text mode, the text model answered its health check and the media service is
  down; otherwise the gate is closed in the state of the mode. And on a cooperative host (the containers obey docker,
  whichever of the two services was up at first, the text model answers its health check, the media queue is
  idle, the state can be saved and the clock does not jump by half an hour) a switch to text does
  return, from every state and with one turn of its loop: in text mode, with the gate open, the text model up and the media
  service down.
\<close>

theorem switch_settles:
  "(\<forall>s'. switch H n action target s = (Inr (Some ()), s') \<longrightarrow> in_step s')
   \<and> (cooperative H a b \<and> 0 < n \<longrightarrow> (\<exists>s'. switch H n ''stop'' target s = (Inr (Some ()), s') \<and> mode s' = ''text'' \<and> gate_available s' \<and> llm_available s'
        \<and> up_after a (text_container H) (events s') \<and> \<not> up_after b COMFY (events s')))"
proof (intro conjI allI impI)
  show "in_step s'" if "switch H n action target s = (Inr (Some ()), s')" for s' using returned_in_step [OF that] .
  assume h: "cooperative H a b \<and> 0 < n"
  let ?Q = "\<lambda>u. mode u = ''text'' \<and> gate_available u \<and> llm_available u \<and> text_up H a u \<and> \<not> media_up b u"
  have arrive: "returns (catch (to_text H n None) p f) s (\<lambda>r t. \<exists>x. r = Some x \<and> in_text H a b t)" for p f
    by (rule r_catch, rule r_more [OF r_to_text]) (use h in auto)
  have settle: "returns (whole (switch_settled H)) t (\<lambda>r u. r = Some () \<and> ?Q u)" if "in_text H a b t" for t
    unfolding whole_def by (rule r_bind [OF r_settled]) (use h that in \<open>auto simp: r_simps\<close>)
  have "returns (switch H n ''stop'' target) s (\<lambda>r u. r = Some () \<and> ?Q u)"
    unfolding switch_def by (simp, rule r_bindJ [OF arrive settle])
  then show "\<exists>s'. switch H n ''stop'' target s = (Inr (Some ()), s') \<and> ?Q s'"
    by (auto simp: returns_def wp_def split: prod.splits sum.splits)
qed

text \<open>The same host with a clock that stands still.\<close>

definition idle_host :: host where
  "idle_host = toy_host\<lparr>time_says := (\<lambda>_. Fin 0)\<rparr>"

text \<open>The media service is up after the switch to it, and the text model down; the second switch goes back.\<close>

theorem switch_settles_witness:
  "(\<exists>s'. switch toy_host 3 ''start'' ''image'' toy_submitted = (Inr (Some ()), s') \<and> \<not> gate_available s')
   \<and> up_after False COMFY (events toy_switched) \<and> \<not> up_after True ''text'' (events toy_switched)
   \<and> (\<exists>s'. switch idle_host 1 ''stop'' ''text'' toy_switched = (Inr (Some ()), s') \<and> gate_available s' \<and> \<not> up_after False COMFY (events s'))"
proof (intro conjI)
  have run: "fst (switch toy_host 3 ''start'' ''image'' toy_submitted) = Inr (Some ())" "mode (snd (switch toy_host 3 ''start'' ''image'' toy_submitted)) = ''image''"
    by code_simp+
  then obtain s' where s': "switch toy_host 3 ''start'' ''image'' toy_submitted = (Inr (Some ()), s')" by (metis prod.collapse)
  then have "in_step s'" using switch_settles [of toy_host 3 "''start''" "''image''" toy_submitted] by blast
  then have "\<not> gate_available s'" using run(2) by (simp add: s' in_step_def)
  then show "\<exists>s'. switch toy_host 3 ''start'' ''image'' toy_submitted = (Inr (Some ()), s') \<and> \<not> gate_available s'" using s' by blast
  show "up_after False COMFY (events toy_switched)" "\<not> up_after True ''text'' (events toy_switched)" by code_simp+
  have "flt_less (Fin 0) (fl 1800)" by code_simp
  then have "cooperative idle_host True False"
    by (simp add: cooperative_def idle_host_def toy_host_def COMFY_def idle_queue_def get_def get_or_def)
  then show "\<exists>s'. switch idle_host 1 ''stop'' ''text'' toy_switched = (Inr (Some ()), s') \<and> gate_available s' \<and> \<not> up_after False COMFY (events s')"
    using switch_settles [of idle_host 1 "''stop''" "''text''" toy_switched True False] by blast
qed

end
