(* ===== verification/Selection_Check.thy ===== *)
theory Selection_Check
  imports Py_Numbers
begin

text \<open>
  \<open>scripts/model_update_selection.py\<close>: the checks of a benchmark selection document and the classification of
  the watched models against it. Every check recomputes what the document claims: the quality and pass
  rates from the counts, the reasons for ineligibility from the rates, the ranking from
  the eligible candidates, and the winner from the ranking.

  Where the source iterates over a set of field names the order is not determined by the
  source; the model takes them as they are written, which matters only for the message of a refusal.
\<close>

section \<open>Shared checks\<close>

abbreviation SCHEMA_VERSION :: json where
  "SCHEMA_VERSION \<equiv> JInt 1"

definition REVISION_PATTERN :: rexp where
  "REVISION_PATTERN = Seq (Cls is_alnum) (Rep (Cls (\<lambda>c. is_alnum c \<or> c \<in> {CHR ''.'', CHR ''_'', CHR '':'', CHR ''+'', CHR ''@'', CHR ''/'', CHR ''-''})) 0 511)"

definition require_object :: "json \<Rightarrow> string \<Rightarrow> dict res" where
  "require_object v name = (if is_dict v then Inr (dict_of v) else Inl (ValidationError (name @ '' must be a JSON object'')))"

definition require_string :: "json \<Rightarrow> string \<Rightarrow> nat \<Rightarrow> string res" where
  "require_string v name maximum =
     (if is_str v \<and> str_of v \<noteq> [] \<and> length (str_of v) \<le> maximum then Inr (str_of v)
      else Inl (ValidationError (name @ '' must be a non-empty string of at most '' @ int_text (int maximum) @ '' characters'')))"

definition sorted_names :: "string list \<Rightarrow> string" where
  "sorted_names names = join '', '' (map fst (sort_keys (map (\<lambda>k. (k, ())) names)))"

definition check_keys :: "dict \<Rightarrow> string \<Rightarrow> string list \<Rightarrow> unit res" where
  "check_keys d name required =
     (let missing = filter (\<lambda>k. \<not> has d k) required; unknown = filter (\<lambda>k. k \<notin> set required) (keys d) in
      bindr (require (missing = []) (ValidationError (name @ '' is missing fields: '' @ sorted_names missing))) (\<lambda>_.
      require (unknown = []) (ValidationError (name @ '' has unknown fields: '' @ sorted_names unknown))))"

definition require_number :: "json \<Rightarrow> string \<Rightarrow> int option \<Rightarrow> unit res" where
  "require_number v name maximum =
     require (is_number v \<and> isfinite (num v) \<and> \<not> flt_less (num v) (Fin 0) \<and> (case maximum of None \<Rightarrow> True | Some m \<Rightarrow> \<not> flt_less (Fin (of_int m)) (num v)))
       (ValidationError (name @ '' must be a finite number between 0 and '' @ (case maximum of None \<Rightarrow> ''None'' | Some m \<Rightarrow> int_text m)))"

definition canonical_sha256 :: "env \<Rightarrow> json \<Rightarrow> string" where
  "canonical_sha256 E v = sha256 E (dumps (float_text E) canonical_style v)"

definition SHA256 :: rexp where
  "SHA256 = Rep (Cls is_hex) 64 64"

section \<open>Identity and parameters\<close>

definition TRACK :: rexp where
  "TRACK = Rep (Cls (\<lambda>c. is_alnum c \<or> c \<in> {CHR ''.'', CHR ''_'', CHR ''-''})) 1 64"

definition check_identity :: "json \<Rightarrow> unit res" where
  "check_identity v =
     bindr (require_object v ''benchmark selection identity'') (\<lambda>identity.
     bindr (check_keys identity ''benchmark selection identity''
       [''run_id'', ''benchmark_id'', ''benchmark_version'', ''plan_sha256'', ''release_id'', ''release_sha256'', ''tracks'']) (\<lambda>_.
     bindr (for_each (\<lambda>field. bindr (require_string (get identity field) (''benchmark selection identity.'' @ field) 256) (\<lambda>_. Inr ()))
       [''run_id'', ''benchmark_id'', ''benchmark_version'', ''plan_sha256'', ''release_id'', ''release_sha256'']) (\<lambda>_.
     bindr (for_each (\<lambda>field. require (fullmatch REVISION_PATTERN (str_of (get identity field))) (ValidationError (''benchmark selection identity.'' @ field @ '' is invalid'')))
       [''run_id'', ''benchmark_id'', ''benchmark_version'', ''release_id'']) (\<lambda>_.
     let tracks = get identity ''tracks'' in
     bindr (require (is_list tracks \<and> 1 \<le> length (list_of tracks) \<and> length (list_of tracks) \<le> 32 \<and> list_all (\<lambda>t. is_str t \<and> fullmatch TRACK (str_of t)) (list_of tracks))
       (ValidationError ''benchmark selection identity.tracks must contain 1 to 32 identifiers'')) (\<lambda>_.
     for_each (\<lambda>field. require (fullmatch SHA256 (str_of (get identity field))) (ValidationError (''benchmark selection identity.'' @ field @ '' must be a SHA-256 digest'')))
       [''plan_sha256'', ''release_sha256''])))))"

section \<open>One candidate\<close>

abbreviation of_candidate :: "string \<Rightarrow> string" where
  "of_candidate cid \<equiv> ''benchmark candidate '' @ cid"

definition retained_artifact :: "dict \<Rightarrow> json" where
  "retained_artifact a = JObj [(''id'', get a ''artifact_ref''), (''source'', get a ''source''), (''revision'', get a ''revision''), (''runtime'', get a ''runtime''), (''quantization'', get a ''quantization'')]"

definition check_artifact :: "env \<Rightarrow> string \<Rightarrow> json \<Rightarrow> unit res" where
  "check_artifact E cid v =
     bindr (require_object v (of_candidate cid @ '' artifact'')) (\<lambda>a.
     bindr (check_keys a (of_candidate cid @ '' artifact'') [''artifact_ref'', ''source'', ''revision'', ''runtime'', ''quantization'', ''artifact_sha256'']) (\<lambda>_.
     bindr (require_string (get a ''artifact_ref'') (of_candidate cid @ '' artifact.artifact_ref'') 512) (\<lambda>_.
     bindr (for_each (\<lambda>(field, maximum). bindr (require_string (get a field) (of_candidate cid @ '' artifact.'' @ field) maximum) (\<lambda>_. Inr ()))
       [(''source'', 1000), (''revision'', 512), (''runtime'', 1000), (''quantization'', 1000)]) (\<lambda>_.
     bindr (match_text SHA256 (get a ''artifact_sha256'')) (\<lambda>hex.
     bindr (require hex (ValidationError (of_candidate cid @ '' artifact_sha256 is invalid''))) (\<lambda>_.
     require (get a ''artifact_sha256'' = JStr (canonical_sha256 E (retained_artifact a)))
       (ValidationError (of_candidate cid @ '' artifact provenance digest is inconsistent''))))))))"

abbreviation COUNT_FIELDS :: "string list" where
  "COUNT_FIELDS \<equiv> [''expected_evaluations'', ''completed_evaluations'', ''expected_judgments'', ''completed_judgments'', ''fatal_judgments'', ''failed_objective_evaluations'']"

abbreviation count :: "dict \<Rightarrow> string \<Rightarrow> int" where
  "count ev field \<equiv> int_of (get ev field)"

definition check_counts :: "string \<Rightarrow> dict \<Rightarrow> unit res" where
  "check_counts cid ev =
     bindr (require (list_all (\<lambda>field. type_is_int (get ev field) \<and> 0 \<le> count ev field) COUNT_FIELDS) (ValidationError (of_candidate cid @ '' has invalid evidence counts''))) (\<lambda>_.
     require (1 \<le> count ev ''expected_evaluations'' \<and> count ev ''completed_evaluations'' \<le> count ev ''expected_evaluations''
         \<and> count ev ''completed_judgments'' \<le> count ev ''expected_judgments'' \<and> count ev ''fatal_judgments'' \<le> count ev ''completed_judgments''
         \<and> count ev ''failed_objective_evaluations'' \<le> count ev ''expected_evaluations'')
       (ValidationError (of_candidate cid @ '' has inconsistent evidence counts'')))"

definition expected_quality :: "dict \<Rightarrow> flt option res" where
  "expected_quality ev =
     (if flt_eq (num (get ev ''rubric_maximum'')) (Fin 0) then Inr None
      else bindr (true_div (hundred_times (get ev ''rubric_total'')) (get ev ''rubric_maximum'')) (\<lambda>q. Inr (Some (round6 q))))"

definition check_quality :: "string \<Rightarrow> dict \<Rightarrow> unit res" where
  "check_quality cid ev =
     (let quality = get ev ''quality'' in
      bindr (require_number (get ev ''rubric_total'') (of_candidate cid @ '' evidence.rubric_total'') None) (\<lambda>_.
      bindr (require_number (get ev ''rubric_maximum'') (of_candidate cid @ '' evidence.rubric_maximum'') None) (\<lambda>_.
      bindr (require (\<not> num_less (get ev ''rubric_maximum'') (get ev ''rubric_total'')) (ValidationError (of_candidate cid @ '' rubric evidence is inconsistent''))) (\<lambda>_.
      bindr (if quality = JNull then Inr () else require_number quality (of_candidate cid @ '' evidence.quality'') (Some 100)) (\<lambda>_.
      bindr (expected_quality ev) (\<lambda>expected.
      bindr (if quality = JNull \<or> expected = None then Inr (quality = JNull \<and> expected = None) else bindr (py_float quality) (\<lambda>q. Inr (isclose6 q (the expected)))) (\<lambda>same.
      require same (ValidationError (of_candidate cid @ '' quality summary is inconsistent'')))))))))"

definition check_pass_rate :: "string \<Rightarrow> dict \<Rightarrow> unit res" where
  "check_pass_rate cid ev =
     bindr (require_number (get ev ''objective_pass_rate'') (of_candidate cid @ '' evidence.objective_pass_rate'') (Some 100)) (\<lambda>_.
     bindr (true_div (JInt (100 * (count ev ''expected_evaluations'' - count ev ''failed_objective_evaluations''))) (JInt (count ev ''expected_evaluations''))) (\<lambda>rate.
     bindr (py_float (get ev ''objective_pass_rate'')) (\<lambda>claimed.
     require (isclose6 claimed (round6 rate)) (ValidationError (of_candidate cid @ '' objective pass summary is inconsistent'')))))"

definition check_latency :: "string \<Rightarrow> dict \<Rightarrow> unit res" where
  "check_latency cid ev =
     (let median = get ev ''median_duration_ms'' in
      bindr (if median = JNull then Inr () else require_number median (of_candidate cid @ '' evidence.median_duration_ms'') None) (\<lambda>_.
      require ((median = JNull) = (count ev ''completed_evaluations'' = 0)) (ValidationError (of_candidate cid @ '' latency summary is inconsistent''))))"

text \<open>The reasons, in the order of the source.\<close>

definition expected_reasons :: "json \<Rightarrow> json \<Rightarrow> dict \<Rightarrow> string list" where
  "expected_reasons minimum_quality minimum_pass_rate ev =
     (if count ev ''completed_evaluations'' \<noteq> count ev ''expected_evaluations'' then [''incomplete_trials''] else [])
     @ (if count ev ''completed_judgments'' \<noteq> count ev ''expected_judgments'' then [''incomplete_judgments''] else [])
     @ (if count ev ''fatal_judgments'' \<noteq> 0 then [''fatal_judgment''] else [])
     @ (if count ev ''failed_objective_evaluations'' \<noteq> 0 then [''failed_objective_checks''] else [])
     @ (if get ev ''quality'' \<noteq> JNull \<and> num_less (get ev ''quality'') minimum_quality then [''below_minimum_quality''] else [])
     @ (if num_less (get ev ''objective_pass_rate'') minimum_pass_rate then [''below_minimum_objective_pass_rate''] else [])"

definition check_evidence :: "string \<Rightarrow> json \<Rightarrow> dict res" where
  "check_evidence cid v =
     bindr (require_object v (of_candidate cid @ '' evidence'')) (\<lambda>ev.
     bindr (check_keys ev (of_candidate cid @ '' evidence'') (COUNT_FIELDS @ [''rubric_total'', ''rubric_maximum'', ''quality'', ''objective_pass_rate'', ''median_duration_ms''])) (\<lambda>_.
     bindr (check_counts cid ev) (\<lambda>_.
     bindr (check_quality cid ev) (\<lambda>_.
     bindr (check_pass_rate cid ev) (\<lambda>_.
     bindr (check_latency cid ev) (\<lambda>_. Inr ev))))))"

definition check_standing :: "string \<Rightarrow> json \<Rightarrow> json \<Rightarrow> dict \<Rightarrow> dict \<Rightarrow> unit res" where
  "check_standing cid minimum_quality minimum_pass_rate item' ev =
     (let reasons = expected_reasons minimum_quality minimum_pass_rate ev in
      bindr (require (py_eq (get item' ''ineligibility_reasons'') (JArr (map JStr reasons)) \<and> get item' ''eligible'' = JBool (reasons = []))
        (ValidationError (of_candidate cid @ '' eligibility summary is inconsistent''))) (\<lambda>_.
      bindr (require (get item' ''rank'' = JNull \<or> type_is_int (get item' ''rank'') \<and> 1 \<le> int_of (get item' ''rank''))
        (ValidationError (of_candidate cid @ '' has an invalid rank''))) (\<lambda>_.
      require (get item' ''eligible'' = JBool True \<longrightarrow> get ev ''quality'' \<noteq> JNull \<and> get ev ''median_duration_ms'' \<noteq> JNull)
        (ValidationError (''eligible '' @ of_candidate cid @ '' lacks rank evidence'')))))"

definition check_candidate :: "env \<Rightarrow> json \<Rightarrow> json \<Rightarrow> string list \<Rightarrow> nat \<times> json \<Rightarrow> (string \<times> dict) res" where
  "check_candidate E minimum_quality minimum_pass_rate seen entry = (case entry of (index, candidate) \<Rightarrow>
     let name = ''benchmark selection candidate '' @ int_text (int index) in
     bindr (require_object candidate name) (\<lambda>item'.
     bindr (check_keys item' name [''candidate_id'', ''candidate_label'', ''eligible'', ''ineligibility_reasons'', ''evidence'', ''artifact'', ''rank'']) (\<lambda>_.
     bindr (require_string (get item' ''candidate_id'') (''benchmark candidate '' @ int_text (int index) @ '' id'') 128) (\<lambda>cid.
     bindr (require_string (get item' ''candidate_label'') (of_candidate cid @ '' label'') 256) (\<lambda>_.
     bindr (require (cid \<notin> set seen \<and> type_is_bool (get item' ''eligible'')) (ValidationError ''benchmark selection candidate ids must be unique and eligibility boolean'')) (\<lambda>_.
     bindr (check_artifact E cid (get item' ''artifact'')) (\<lambda>_.
     bindr (check_evidence cid (get item' ''evidence'')) (\<lambda>ev.
     bindr (check_standing cid minimum_quality minimum_pass_rate item' ev) (\<lambda>_. Inr (cid, item'))))))))))"

fun check_candidates :: "env \<Rightarrow> json \<Rightarrow> json \<Rightarrow> (string \<times> dict) list \<Rightarrow> (nat \<times> json) list \<Rightarrow> (string \<times> dict) list res" where
  "check_candidates E q p acc [] = Inr acc"
| "check_candidates E q p acc (c # cs) = bindr (check_candidate E q p (map fst acc) c) (\<lambda>x. check_candidates E q p (acc @ [x]) cs)"

section \<open>Rankings\<close>

abbreviation evidence_of :: "dict \<Rightarrow> string \<Rightarrow> json" where
  "evidence_of item' field \<equiv> get (dict_of (get item' ''evidence'')) field"

definition rank_key :: "dict \<Rightarrow> json list" where
  "rank_key item' = [num_neg (evidence_of item' ''quality''), num_neg (evidence_of item' ''objective_pass_rate''), evidence_of item' ''median_duration_ms'', get item' ''candidate_id'']"

definition ranking :: "nat \<times> dict \<Rightarrow> json" where
  "ranking entry = (case entry of (rank, item') \<Rightarrow> JObj
     [(''rank'', JInt (int rank)), (''candidate_id'', get item' ''candidate_id''), (''candidate_label'', get item' ''candidate_label''),
      (''quality'', evidence_of item' ''quality''), (''objective_pass_rate'', evidence_of item' ''objective_pass_rate''),
      (''median_duration_ms'', evidence_of item' ''median_duration_ms''), (''artifact'', get item' ''artifact'')])"

definition expected_rank :: "dict list \<Rightarrow> json \<Rightarrow> json" where
  "expected_rank order cid = (case List.find (\<lambda>(rank, item'). get item' ''candidate_id'' = cid) (enumerate 1 order) of None \<Rightarrow> JNull | Some (rank, _) \<Rightarrow> JInt (int rank))"

definition check_rankings :: "dict \<Rightarrow> (string \<times> dict) list \<Rightarrow> unit res" where
  "check_rankings selection cs =
     bindr (py_sorted py_less_list (\<lambda>item'. Inr (rank_key item')) (filter (\<lambda>item'. get item' ''eligible'' = JBool True) (map snd cs))) (\<lambda>order.
     let rankings = list_of (get selection ''rankings'') in
     bindr (require (py_eq_list rankings (map ranking (enumerate 1 order))) (ValidationError ''benchmark rankings do not match deterministic eligible-candidate order'')) (\<lambda>_.
     bindr (require (list_all (\<lambda>(cid, item'). py_eq (get item' ''rank'') (expected_rank order (get item' ''candidate_id''))) cs) (ValidationError ''candidate ranks do not match recomputed rankings'')) (\<lambda>_.
     require (get selection ''outcome'' = JStr (if rankings \<noteq> [] then ''winner_selected'' else ''no_eligible_winner'')
         \<and> py_eq (get selection ''winner'') (if rankings \<noteq> [] then hd rankings else JNull))
       (ValidationError ''benchmark outcome or winner does not match recomputed rankings''))))"

definition validate_selection :: "env \<Rightarrow> json \<Rightarrow> dict res" where
  "validate_selection E v =
     bindr (require_object v ''benchmark selection'') (\<lambda>selection.
     bindr (check_keys selection ''benchmark selection'' [''schema_version'', ''document_type'', ''identity'', ''parameters'', ''candidates'', ''rankings'', ''outcome'', ''winner'']) (\<lambda>_.
     bindr (require (py_eq (get selection ''schema_version'') SCHEMA_VERSION \<and> get selection ''document_type'' = JStr ''benchmark_selection'')
       (ValidationError ''benchmark selection has an unsupported schema or document_type'')) (\<lambda>_.
     bindr (check_identity (get selection ''identity'')) (\<lambda>_.
     bindr (require_object (get selection ''parameters'') ''benchmark selection parameters'') (\<lambda>parameters.
     bindr (check_keys parameters ''benchmark selection parameters'' [''minimum_quality'', ''minimum_objective_pass_rate'']) (\<lambda>_.
     bindr (require_number (get parameters ''minimum_quality'') ''minimum_quality'' (Some 100)) (\<lambda>_.
     bindr (require_number (get parameters ''minimum_objective_pass_rate'') ''minimum_objective_pass_rate'' (Some 100)) (\<lambda>_.
     let candidates = get selection ''candidates'' in
     bindr (require (is_list candidates \<and> 1 \<le> length (list_of candidates) \<and> length (list_of candidates) \<le> 100 \<and> is_list (get selection ''rankings''))
       (ValidationError ''benchmark selection candidates or rankings is invalid'')) (\<lambda>_.
     bindr (check_candidates E (get parameters ''minimum_quality'') (get parameters ''minimum_objective_pass_rate'') [] (enumerate 0 (list_of candidates))) (\<lambda>cs.
     bindr (check_rankings selection cs) (\<lambda>_. Inr selection)))))))))))"

section \<open>Watched models\<close>















section \<open>The ranking order\<close>

text \<open>
  \<open>better x y\<close>: higher quality, then higher pass rate, then lower latency, then the smaller identifier.
\<close>

definition better :: "dict \<Rightarrow> dict \<Rightarrow> bool" where
  "better x y \<longleftrightarrow>
     (let q = \<lambda>c. num (evidence_of c ''quality''); p = \<lambda>c. num (evidence_of c ''objective_pass_rate''); t = \<lambda>c. num (evidence_of c ''median_duration_ms'');
          i = \<lambda>c. str_of (get c ''candidate_id'')
      in flt_less (q y) (q x) \<or> q x = q y \<and> (flt_less (p y) (p x) \<or> p x = p y \<and> (flt_less (t x) (t y) \<or> t x = t y \<and> lex_less (i x) (i y))))"

definition finite_number :: "json \<Rightarrow> bool" where
  "finite_number v \<longleftrightarrow> is_number v \<and> isfinite (num v)"

definition rank_keys :: "json list set" where
  "rank_keys = {ks. \<exists>a b c s. ks = [a, b, c, JStr s] \<and> finite_number a \<and> finite_number b \<and> finite_number c}"

fun parts_less :: "rat \<times> rat \<times> rat \<times> string \<Rightarrow> rat \<times> rat \<times> rat \<times> string \<Rightarrow> bool" where
  "parts_less (a, b, c, s) (a', b', c', t) \<longleftrightarrow> a < a' \<or> a = a' \<and> (b < b' \<or> b = b' \<and> (c < c' \<or> c = c' \<and> lex_less s t))"

definition rational :: "json \<Rightarrow> rat" where
  "rational v = (case num v of Fin r \<Rightarrow> r | _ \<Rightarrow> 0)"

definition key_parts :: "json list \<Rightarrow> rat \<times> rat \<times> rat \<times> string" where
  "key_parts ks = (rational (ks ! 0), rational (ks ! 1), rational (ks ! 2), str_of (ks ! 3))"

definition key_ahead :: "json list \<Rightarrow> json list \<Rightarrow> bool" where
  "key_ahead ks ls \<longleftrightarrow> parts_less (key_parts ks) (key_parts ls)"

lemma finite_number_num: "finite_number v \<Longrightarrow> num v = Fin (rational v)"
  by (cases "num v") (auto simp: finite_number_def rational_def)

lemma key_compare:
  assumes "finite_number a" "finite_number b" "finite_number c" "finite_number a'" "finite_number b'" "finite_number c'"
  shows "py_less_list [a, b, c, JStr s] [a', b', c', JStr t] = Inr (parts_less (rational a, rational b, rational c, s) (rational a', rational b', rational c', t))"
proof -
  have eq: "py_eq v w \<longleftrightarrow> rational v = rational w" and lt: "py_less v w = Inr (rational v < rational w)" if "finite_number v" "finite_number w" for v w
    using that finite_number_num [OF that(1)] finite_number_num [OF that(2)] by (auto simp: finite_number_def py_eq_numbers py_less_numbers)
  show ?thesis using assms by (auto simp: eq lt)
qed

lemma parts_asym: "parts_less x y \<Longrightarrow> \<not> parts_less y x"
  by (cases x; cases y) (auto dest: lex_less_trans)

lemma parts_trans: "parts_less x y \<Longrightarrow> parts_less y z \<Longrightarrow> parts_less x z"
  by (cases x; cases y; cases z) (auto dest: lex_less_trans)

lemma parts_total: "x \<noteq> y \<Longrightarrow> parts_less x y \<or> parts_less y x"
  by (cases x; cases y) (auto dest: lex_less_total)

lemma parts_weak: "\<not> parts_less x y \<Longrightarrow> \<not> parts_less y z \<Longrightarrow> \<not> parts_less x z"
  using parts_total [of x y] parts_total [of y z] parts_trans [of z y x] parts_asym by blast

interpretation rk: comparable_keys py_less_list key_ahead rank_keys
proof
  fix x y assume "x \<in> rank_keys" "y \<in> rank_keys"
  then show "py_less_list x y = Inr (key_ahead x y)"
    unfolding rank_keys_def mem_Collect_eq by (elim exE conjE) (simp only: key_compare key_ahead_def key_parts_def, simp)
qed (auto simp: key_ahead_def dest: parts_asym parts_weak)
section \<open>What an accepted candidate is\<close>

definition eligible :: "dict \<Rightarrow> bool" where
  "eligible c \<longleftrightarrow> get c ''eligible'' = JBool True"

definition sound_candidate :: "json \<Rightarrow> json \<Rightarrow> dict \<Rightarrow> bool" where
  "sound_candidate q p c \<longleftrightarrow> is_str (get c ''candidate_id'') \<and> get c ''eligible'' = JBool (expected_reasons q p (dict_of (get c ''evidence'')) = [])
     \<and> finite_number (evidence_of c ''objective_pass_rate'') \<and> (eligible c \<longrightarrow> finite_number (evidence_of c ''quality'') \<and> finite_number (evidence_of c ''median_duration_ms''))"

lemma require_number_Inr: "require_number v name m = Inr x \<Longrightarrow> finite_number v"
  by (auto simp: require_number_def finite_number_def require_def split: if_splits)

lemma check_evidence_Inr:
  assumes "check_evidence cid v = Inr ev"
  shows "ev = dict_of v \<and> finite_number (get ev ''objective_pass_rate'') \<and> (get ev ''quality'' \<noteq> JNull \<longrightarrow> finite_number (get ev ''quality''))
    \<and> (get ev ''median_duration_ms'' \<noteq> JNull \<longrightarrow> finite_number (get ev ''median_duration_ms''))"
  using assms
  by (auto simp: check_evidence_def check_quality_def check_pass_rate_def check_latency_def require_object_def Let_def bindr_Inr_iff split: if_splits dest!: require_number_Inr)

lemma check_candidate_Inr:
  assumes "check_candidate E q p seen (i, v) = Inr (cid, c)"
  shows "c = dict_of v \<and> cid = str_of (get c ''candidate_id'') \<and> cid \<notin> set seen \<and> sound_candidate q p c"
proof -
  from assms obtain ev where c: "c = dict_of v" "cid = str_of (get c ''candidate_id'')" "is_str (get c ''candidate_id'')" "cid \<notin> set seen"
    and ev: "check_evidence cid (get c ''evidence'') = Inr ev" and st: "check_standing cid q p c ev = Inr ()"
    by (auto simp: check_candidate_def Let_def bindr_Inr_iff require_object_def require_string_def require_def split: if_splits)
  have e: "ev = dict_of (get c ''evidence'')" "finite_number (get ev ''objective_pass_rate'')" "get ev ''quality'' \<noteq> JNull \<longrightarrow> finite_number (get ev ''quality'')"
      "get ev ''median_duration_ms'' \<noteq> JNull \<longrightarrow> finite_number (get ev ''median_duration_ms'')"
    using check_evidence_Inr [OF ev] by blast+
  from st have "get c ''eligible'' = JBool (expected_reasons q p ev = [])" "eligible c \<longrightarrow> get ev ''quality'' \<noteq> JNull \<and> get ev ''median_duration_ms'' \<noteq> JNull"
    by (simp_all add: check_standing_def Let_def bindr_Inr_iff require_Inr_iff eligible_def)
  then show ?thesis using c e unfolding sound_candidate_def by simp
qed

lemma check_candidates_Inr:
  assumes "check_candidates E q p acc entries = Inr out" and "distinct (map fst acc)" and "\<forall>(cid, c) \<in> set acc. cid = str_of (get c ''candidate_id'') \<and> sound_candidate q p c"
  shows "map snd out = map snd acc @ map (\<lambda>(i, v). dict_of v) entries \<and> distinct (map fst out) \<and> (\<forall>(cid, c) \<in> set out. cid = str_of (get c ''candidate_id'') \<and> sound_candidate q p c)"
  using assms
proof (induction entries arbitrary: acc)
  case (Cons e entries)
  obtain i v where e: "e = (i, v)" by fastforce
  from Cons.prems(1) obtain cid c where c: "check_candidate E q p (map fst acc) (i, v) = Inr (cid, c)" "check_candidates E q p (acc @ [(cid, c)]) entries = Inr out"
    by (auto simp: e bindr_Inr_iff)
  note ok = check_candidate_Inr [OF c(1)]
  have "map snd out = map snd (acc @ [(cid, c)]) @ map (\<lambda>(i, v). dict_of v) entries \<and> distinct (map fst out) \<and> (\<forall>(cid, c) \<in> set out. cid = str_of (get c ''candidate_id'') \<and> sound_candidate q p c)"
    by (rule Cons.IH [OF c(2)]) (use ok Cons.prems(2,3) in auto)
  then show ?case using ok by (simp add: e)
qed simp

text \<open>
  What the recomputation establishes: \<open>claimed\<close> is, within the tolerance of the source, the quotient
  rounded to six digits; the counts fit together; the reasons are those the evidence gives; and the
  digest is that of the retained artifact.
\<close>

definition rate_is :: "json \<Rightarrow> json \<Rightarrow> json \<Rightarrow> bool" where
  "rate_is claimed v w \<longleftrightarrow> (\<exists>x y. true_div v w = Inr x \<and> py_float claimed = Inr y \<and> isclose6 y (round6 x))"

definition counts_fit :: "dict \<Rightarrow> bool" where
  "counts_fit ev \<longleftrightarrow> (\<forall>field \<in> set COUNT_FIELDS. type_is_int (get ev field) \<and> 0 \<le> count ev field)
     \<and> 1 \<le> count ev ''expected_evaluations'' \<and> count ev ''completed_evaluations'' \<le> count ev ''expected_evaluations''
     \<and> count ev ''completed_judgments'' \<le> count ev ''expected_judgments'' \<and> count ev ''fatal_judgments'' \<le> count ev ''completed_judgments''
     \<and> count ev ''failed_objective_evaluations'' \<le> count ev ''expected_evaluations''"

definition recomputed :: "env \<Rightarrow> json \<Rightarrow> json \<Rightarrow> dict \<Rightarrow> bool" where
  "recomputed E q p c \<longleftrightarrow> (let ev = dict_of (get c ''evidence''); a = dict_of (get c ''artifact'') in
     counts_fit ev \<and> \<not> num_less (get ev ''rubric_maximum'') (get ev ''rubric_total'')
     \<and> (if flt_eq (num (get ev ''rubric_maximum'')) (Fin 0) then get ev ''quality'' = JNull
        else get ev ''quality'' \<noteq> JNull \<and> rate_is (get ev ''quality'') (hundred_times (get ev ''rubric_total'')) (get ev ''rubric_maximum''))
     \<and> rate_is (get ev ''objective_pass_rate'') (JInt (100 * (count ev ''expected_evaluations'' - count ev ''failed_objective_evaluations'')))
         (JInt (count ev ''expected_evaluations''))
     \<and> (get ev ''median_duration_ms'' = JNull \<longleftrightarrow> count ev ''completed_evaluations'' = 0)
     \<and> py_eq (get c ''ineligibility_reasons'') (JArr (map JStr (expected_reasons q p ev)))
     \<and> get a ''artifact_sha256'' = JStr (canonical_sha256 E (retained_artifact a)))"

lemma check_quality_recomputes:
  assumes "check_quality cid ev = Inr u"
  shows "\<not> num_less (get ev ''rubric_maximum'') (get ev ''rubric_total'')
    \<and> (if flt_eq (num (get ev ''rubric_maximum'')) (Fin 0) then get ev ''quality'' = JNull
       else get ev ''quality'' \<noteq> JNull \<and> rate_is (get ev ''quality'') (hundred_times (get ev ''rubric_total'')) (get ev ''rubric_maximum''))"
  using assms
  by (auto simp: check_quality_def expected_quality_def rate_is_def Let_def bindr_Inr_iff require_Inr_iff split: if_splits)

lemma check_rate_recomputes:
  assumes "check_pass_rate cid ev = Inr u"
  shows "rate_is (get ev ''objective_pass_rate'') (JInt (100 * (count ev ''expected_evaluations'' - count ev ''failed_objective_evaluations'')))
    (JInt (count ev ''expected_evaluations''))"
  using assms unfolding check_pass_rate_def rate_is_def bindr_Inr_iff require_Inr_iff by blast

lemma check_counts_fit: "check_counts cid ev = Inr u \<Longrightarrow> counts_fit ev"
  by (simp add: check_counts_def counts_fit_def bindr_Inr_iff require_Inr_iff)

lemma check_candidate_recomputed:
  assumes "check_candidate E q p seen e = Inr (cid, c)"
  shows "recomputed E q p c \<and> (get c ''rank'' = JNull \<or> type_is_int (get c ''rank''))"
proof -
  obtain i v where e: "e = (i, v)" by fastforce
  from assms obtain ev where ar: "check_artifact E cid (get c ''artifact'') = Inr ()" and ev: "check_evidence cid (get c ''evidence'') = Inr ev"
    and st: "check_standing cid q p c ev = Inr ()"
    unfolding e check_candidate_def Let_def prod.case bindr_Inr_iff by auto
  from ev have d: "ev = dict_of (get c ''evidence'')" "counts_fit ev" "check_quality cid ev = Inr ()" "check_pass_rate cid ev = Inr ()"
      "get ev ''median_duration_ms'' = JNull \<longleftrightarrow> count ev ''completed_evaluations'' = 0"
    using check_counts_fit by (auto simp: check_evidence_def check_latency_def require_object_def Let_def bindr_Inr_iff require_Inr_iff split: if_splits)
  from ar have "get (dict_of (get c ''artifact'')) ''artifact_sha256'' = JStr (canonical_sha256 E (retained_artifact (dict_of (get c ''artifact''))))"
    unfolding check_artifact_def require_object_def bindr_Inr_iff require_Inr_iff by (auto split: if_splits)
  moreover from st have "py_eq (get c ''ineligibility_reasons'') (JArr (map JStr (expected_reasons q p ev)))" "get c ''rank'' = JNull \<or> type_is_int (get c ''rank'')"
    unfolding check_standing_def Let_def bindr_Inr_iff require_Inr_iff by blast+
  ultimately show ?thesis
    using d(2,5) check_quality_recomputes [OF d(3)] check_rate_recomputes [OF d(4)] unfolding recomputed_def Let_def d(1) by blast
qed

lemma check_candidates_each:
  "check_candidates E q p acc es = Inr out \<Longrightarrow> x \<in> set out \<Longrightarrow> x \<in> set acc \<or> (\<exists>seen e. check_candidate E q p seen e = Inr x)"
proof (induction es arbitrary: acc)
  case (Cons e es)
  then obtain y where y: "check_candidate E q p (map fst acc) e = Inr y" "check_candidates E q p (acc @ [y]) es = Inr out" by (auto simp: bindr_Inr_iff)
  from Cons.IH [OF y(2) Cons.prems(2)] y(1) show ?case by (cases "x = y") (blast, simp)
qed simp

text \<open>The rank a candidate has: its place among the eligible ones, counted from one.\<close>

lemma find_enumerate:
  "distinct (map f xs) \<Longrightarrow> i < length xs \<Longrightarrow> List.find (\<lambda>(n, x). f x = f (xs ! i)) (enumerate n xs) = Some (n + i, xs ! i)"
proof (induction xs arbitrary: n i)
  case (Cons x xs)
  show ?case
  proof (cases i)
    case (Suc j)
    with Cons.prems have "f x \<noteq> f (xs ! j)" by auto
    with Suc show ?thesis using Cons.IH [of j "Suc n"] Cons.prems by simp
  qed simp
qed simp

lemma expected_rank_nth:
  "distinct (map (\<lambda>c. get c ''candidate_id'') order) \<Longrightarrow> i < length order \<Longrightarrow> expected_rank order (get (order ! i) ''candidate_id'') = JInt (int (Suc i))"
  using find_enumerate [of "\<lambda>c. get c ''candidate_id''" order i 1] by (simp add: expected_rank_def)

lemma expected_rank_absent:
  assumes "\<And>c. c \<in> set order \<Longrightarrow> get c ''candidate_id'' \<noteq> v"
  shows "expected_rank order v = JNull"
proof -
  have "List.find (\<lambda>(n, c). get c ''candidate_id'' = v) (enumerate 1 order) = None"
    unfolding find_None_iff in_set_enumerate_eq using assms by (auto simp: in_set_enumerate_eq)
  then show ?thesis by (simp add: expected_rank_def)
qed

lemma neg_finite: "finite_number v \<Longrightarrow> finite_number (num_neg v) \<and> rational (num_neg v) = - rational v"
  using num_neg_number [of v] by (cases "num v") (auto simp: finite_number_def rational_def)

lemma sound_fields:
  assumes "sound_candidate q p c" "eligible c"
  shows "finite_number (evidence_of c ''quality'')" "finite_number (evidence_of c ''objective_pass_rate'')" "finite_number (evidence_of c ''median_duration_ms'')" "is_str (get c ''candidate_id'')"
  using assms unfolding sound_candidate_def by blast+

lemma rank_key_in: "sound_candidate q p c \<Longrightarrow> eligible c \<Longrightarrow> rank_key c \<in> rank_keys"
  using sound_fields [of q p c] neg_finite unfolding rank_keys_def rank_key_def is_str_iff by blast

lemma better_ahead:
  assumes "sound_candidate q p x" "eligible x" "sound_candidate q p y" "eligible y"
  shows "better x y \<longleftrightarrow> key_ahead (rank_key x) (rank_key y)"
proof -
  note f = sound_fields [OF assms(1,2)] sound_fields [OF assms(3,4)]
  show ?thesis unfolding better_def key_ahead_def rank_key_def key_parts_def Let_def
    by (simp add: neg_finite [OF f(1)] neg_finite [OF f(2)] neg_finite [OF f(5)] neg_finite [OF f(6)] finite_number_num [OF f(1)] finite_number_num [OF f(2)] finite_number_num [OF f(3)]
        finite_number_num [OF f(5)] finite_number_num [OF f(6)] finite_number_num [OF f(7)])
qed

lemma sorted_candidates:
  assumes ok: "\<And>c. c \<in> set cs \<Longrightarrow> sound_candidate q p c \<and> eligible c" and s: "py_sorted py_less_list (\<lambda>c. Inr (rank_key c)) cs = Inr order"
  shows "set order = set cs \<and> length order = length cs \<and> sorted_wrt (\<lambda>x y. \<not> better y x) order"
proof -
  have es: "map_res (\<lambda>x. bindr (Inr (rank_key x)) (\<lambda>k. Inr (k, x))) cs = Inr (map (\<lambda>x. (rank_key x, x)) cs)" by (rule map_res_total) simp
  from s es obtain fs where fs: "sort_entries py_less_list (map (\<lambda>x. (rank_key x, x)) cs) = Inr fs" "order = map snd fs"
    by (auto simp: py_sorted_def bindr_Inr_iff)
  have ord: "rk.ordered fs" by (rule rk.sort_ordered [OF fs(1)]) (use ok rank_key_in in fastforce)
  have mem: "fst e = rank_key (snd e) \<and> snd e \<in> set cs" if "e \<in> set fs" for e using that sort_entries_set [OF fs(1)] by auto
  have "sorted_wrt (\<lambda>x y. \<not> better (snd y) (snd x)) fs"
    by (rule sorted_wrt_mono_rel [OF _ ord]) (use mem ok better_ahead in metis)
  then show ?thesis using py_sorted_set [OF s] by (simp add: fs(2) sorted_wrt_map)
qed

lemma best_first:
  assumes "sorted_wrt (\<lambda>x y. \<not> better y x) (w # order)" and "\<And>x y. x \<in> set (w # order) \<Longrightarrow> y \<in> set (w # order) \<Longrightarrow> x \<noteq> y \<Longrightarrow> better x y \<or> better y x"
    and "c \<in> set (w # order)" "c \<noteq> w"
  shows "better w c"
  using assms(1) assms(2) [of w c] assms(3,4) by auto

lemma better_total:
  assumes "sound_candidate q p x" "eligible x" "sound_candidate q p y" "eligible y" "str_of (get x ''candidate_id'') \<noteq> str_of (get y ''candidate_id'')"
  shows "better x y \<or> better y x"
proof -
  have "key_parts (rank_key x) \<noteq> key_parts (rank_key y)" using assms(5) by (simp add: key_parts_def rank_key_def)
  then show ?thesis using parts_total better_ahead assms(1-4) unfolding key_ahead_def by blast
qed

section \<open>Properties\<close>

lemma reasons_empty:
  "expected_reasons q p ev = [] \<longleftrightarrow> count ev ''completed_evaluations'' = count ev ''expected_evaluations'' \<and> count ev ''completed_judgments'' = count ev ''expected_judgments''
     \<and> count ev ''fatal_judgments'' = 0 \<and> count ev ''failed_objective_evaluations'' = 0 \<and> (get ev ''quality'' = JNull \<or> \<not> num_less (get ev ''quality'') q)
     \<and> \<not> num_less (get ev ''objective_pass_rate'') p"
  by (auto simp: expected_reasons_def)

text \<open>The candidates of an accepted document, and the order its rankings follow.\<close>

lemma accepted_candidates:
  assumes "check_candidates E q p [] (enumerate 0 vs) = Inr out"
  shows "map snd out = map dict_of vs" and "distinct (map (\<lambda>c. str_of (get c ''candidate_id'')) (map dict_of vs))"
    and "\<forall>c \<in> set (map dict_of vs). sound_candidate q p c \<and> recomputed E q p c \<and> (get c ''rank'' = JNull \<or> type_is_int (get c ''rank''))"
proof -
  have entries: "map (\<lambda>(i, v). dict_of v) (enumerate n vs) = map dict_of vs" for n and vs :: "json list" by (induction vs arbitrary: n) simp_all
  from check_candidates_Inr [OF assms] show snd: "map snd out = map dict_of vs" by (simp add: entries)
  from check_candidates_Inr [OF assms] have dist: "distinct (map fst out)" and ok: "\<forall>(cid, c) \<in> set out. cid = str_of (get c ''candidate_id'') \<and> sound_candidate q p c" by simp_all
  have "map fst out = map (\<lambda>c. str_of (get c ''candidate_id'')) (map snd out)" using ok by (auto simp: case_prod_beta)
  then show "distinct (map (\<lambda>c. str_of (get c ''candidate_id'')) (map dict_of vs))" using dist unfolding snd by simp
  show "\<forall>c \<in> set (map dict_of vs). sound_candidate q p c \<and> recomputed E q p c \<and> (get c ''rank'' = JNull \<or> type_is_int (get c ''rank''))"
  proof
    fix c assume "c \<in> set (map dict_of vs)"
    then obtain cid where c: "(cid, c) \<in> set out" unfolding snd [symmetric] by auto
    then have "\<exists>seen e. check_candidate E q p seen e = Inr (cid, c)" using check_candidates_each [OF assms c] by simp
    then show "sound_candidate q p c \<and> recomputed E q p c \<and> (get c ''rank'' = JNull \<or> type_is_int (get c ''rank''))"
      using check_candidate_recomputed ok c by blast
  qed
qed

definition ordered_by_rank :: "dict list \<Rightarrow> dict list \<Rightarrow> bool" where
  "ordered_by_rank cs order \<longleftrightarrow> distinct order \<and> set order = {c \<in> set cs. eligible c} \<and> sorted_wrt (\<lambda>x y. \<not> better y x) order"

lemma accepted_order:
  assumes ids: "distinct (map (\<lambda>c. str_of (get c ''candidate_id'')) cs)" and ok: "\<forall>c \<in> set cs. sound_candidate q p c"
    and s: "py_sorted py_less_list (\<lambda>c. Inr (rank_key c)) (filter (\<lambda>c. get c ''eligible'' = JBool True) cs) = Inr order"
  shows "ordered_by_rank cs order"
proof -
  let ?el = "filter (\<lambda>c. get c ''eligible'' = JBool True) cs"
  have srt: "set order = {c \<in> set cs. eligible c}" "sorted_wrt (\<lambda>x y. \<not> better y x) order" "length order = length ?el"
    using sorted_candidates [OF _ s, of q p] ok by (auto simp: eligible_def)
  have "distinct ?el" using ids by (simp only: distinct_map distinct_filter)
  then have "card (set order) = length order" using distinct_card [of ?el] srt(1,3) by (simp only: set_filter eligible_def)
  then show ?thesis using srt card_distinct unfolding ordered_by_rank_def by blast
qed

lemma accepted_ranks:
  assumes ids: "distinct (map (\<lambda>c. str_of (get c ''candidate_id'')) cs)" and order: "ordered_by_rank cs order"
    and ranks: "\<forall>c \<in> set cs. (get c ''rank'' = JNull \<or> type_is_int (get c ''rank'')) \<and> py_eq (get c ''rank'') (expected_rank order (get c ''candidate_id''))"
  shows "\<forall>i < length order. get (order ! i) ''rank'' = JInt (int (Suc i))" and "\<forall>c \<in> set cs. \<not> eligible c \<longrightarrow> get c ''rank'' = JNull"
proof -
  have diff: "x = y" if "x \<in> set cs" "y \<in> set cs" "get x ''candidate_id'' = get y ''candidate_id''" for x y
    using ids that unfolding distinct_map inj_on_def by metis
  have keys: "distinct (map (\<lambda>c. get c ''candidate_id'') order)"
    using order diff unfolding ordered_by_rank_def distinct_map inj_on_def by blast
  show "\<forall>i < length order. get (order ! i) ''rank'' = JInt (int (Suc i))"
  proof (intro allI impI)
    fix i assume i: "i < length order"
    then have "order ! i \<in> set cs" using order nth_mem [OF i] by (simp add: ordered_by_rank_def)
    then show "get (order ! i) ''rank'' = JInt (int (Suc i))"
      using ranks expected_rank_nth [OF keys i] by (auto simp: type_is_int_iff num_of_def)
  qed
  show "\<forall>c \<in> set cs. \<not> eligible c \<longrightarrow> get c ''rank'' = JNull"
  proof (intro ballI impI)
    fix c assume c: "c \<in> set cs" "\<not> eligible c"
    have "expected_rank order (get c ''candidate_id'') = JNull"
      by (rule expected_rank_absent) (use diff c order in \<open>unfold ordered_by_rank_def, blast\<close>)
    then show "get c ''rank'' = JNull" using ranks c(1) by (auto simp: type_is_int_iff num_of_def)
  qed
qed

lemma accepted_winner:
  assumes ids: "distinct (map (\<lambda>c. str_of (get c ''candidate_id'')) cs)" and ok: "\<forall>c \<in> set cs. sound_candidate q p c" and order: "ordered_by_rank cs order"
    and r: "py_eq_list rs (map ranking (enumerate 1 order))" "get d ''outcome'' = JStr (if rs \<noteq> [] then ''winner_selected'' else ''no_eligible_winner'')"
      "py_eq (get d ''winner'') (if rs \<noteq> [] then hd rs else JNull)"
  shows "if \<exists>c \<in> set cs. eligible c
       then \<exists>w \<in> set cs. eligible w \<and> get d ''outcome'' = JStr ''winner_selected'' \<and> (\<exists>r. py_eq (get d ''winner'') r \<and> py_eq r (ranking (1, w))) \<and> (\<forall>c \<in> set cs. eligible c \<and> c \<noteq> w \<longrightarrow> better w c)
       else get d ''outcome'' = JStr ''no_eligible_winner'' \<and> get d ''winner'' = JNull"
proof (cases order)
  case Nil
  then have "rs = []" using r(1) by (cases rs) simp_all
  moreover have "\<not> (\<exists>c \<in> set cs. eligible c)" using order Nil by (auto simp: ordered_by_rank_def)
  moreover have "py_eq x JNull \<Longrightarrow> x = JNull" for x by (cases x) (auto simp: num_of_def)
  ultimately show ?thesis using r(2,3) by simp
next
  case (Cons w rest)
  then obtain r0 where r0: "rs \<noteq> []" "hd rs = r0" "py_eq r0 (ranking (1, w))" using r(1) by (cases rs) simp_all
  have mem: "x \<in> set (w # rest) \<longleftrightarrow> x \<in> set cs \<and> eligible x" for x using order Cons by (auto simp: ordered_by_rank_def)
  have srt: "sorted_wrt (\<lambda>x y. \<not> better y x) (w # rest)" using order Cons by (simp add: ordered_by_rank_def)
  have w: "w \<in> set cs" "eligible w" using mem [of w] by simp_all
  have "better w c" if "c \<in> set cs" "eligible c" "c \<noteq> w" for c
  proof (rule best_first [OF srt])
    fix x y assume xy: "x \<in> set (w # rest)" "y \<in> set (w # rest)" "x \<noteq> y"
    then have m: "x \<in> set cs" "eligible x" "y \<in> set cs" "eligible y" using mem by blast+
    then have "str_of (get x ''candidate_id'') \<noteq> str_of (get y ''candidate_id'')" using ids xy(3) unfolding distinct_map inj_on_def by blast
    then show "better x y \<or> better y x" using better_total ok m by blast
  qed (use that mem in blast)+
  then show ?thesis using w r0 r(2,3) by auto
qed

text \<open>
  C32: an accepted benchmark selection names the right winner. Its candidates have distinct identifiers; the counts of
  each fit together, its quality and pass rate are the ones recomputed from its counts (within the
  tolerance of the source), the reasons listed are those its evidence gives and its artifact digest is the
  recomputed one; a candidate is eligible exactly when all its trials and judgments are complete, none
  was fatal, no objective check failed and its quality and pass rate reach the document's minima;
  its rankings list the eligible candidates once each, best first, and the rank each candidate states is its
  place in that list, none for the others; and if there are any, the winner is the one that is better than every
  other eligible candidate, otherwise there is no winner.
\<close>

theorem selection_sound:
  assumes "validate_selection E v = Inr d"
  shows "let cs = map dict_of (list_of (get d ''candidates'')); q = get (dict_of (get d ''parameters'')) ''minimum_quality''; p = get (dict_of (get d ''parameters'')) ''minimum_objective_pass_rate'' in
    distinct (map (\<lambda>c. str_of (get c ''candidate_id'')) cs)
    \<and> (\<forall>c \<in> set cs. recomputed E q p c) \<and> (\<forall>c \<in> set cs. \<not> eligible c \<longrightarrow> get c ''rank'' = JNull)
    \<and> (\<forall>c \<in> set cs. let ev = dict_of (get c ''evidence'') in eligible c \<longleftrightarrow>
         count ev ''completed_evaluations'' = count ev ''expected_evaluations'' \<and> count ev ''completed_judgments'' = count ev ''expected_judgments''
         \<and> count ev ''fatal_judgments'' = 0 \<and> count ev ''failed_objective_evaluations'' = 0 \<and> (get ev ''quality'' = JNull \<or> \<not> num_less (get ev ''quality'') q)
         \<and> \<not> num_less (get ev ''objective_pass_rate'') p)
    \<and> (\<exists>order. distinct order \<and> set order = {c \<in> set cs. eligible c} \<and> sorted_wrt (\<lambda>x y. \<not> better y x) order
         \<and> (\<forall>i < length order. get (order ! i) ''rank'' = JInt (int (Suc i))) \<and> py_eq_list (list_of (get d ''rankings'')) (map ranking (enumerate 1 order)))
    \<and> (if \<exists>c \<in> set cs. eligible c
       then \<exists>w \<in> set cs. eligible w \<and> get d ''outcome'' = JStr ''winner_selected'' \<and> (\<exists>r. py_eq (get d ''winner'') r \<and> py_eq r (ranking (1, w))) \<and> (\<forall>c \<in> set cs. eligible c \<and> c \<noteq> w \<longrightarrow> better w c)
       else get d ''outcome'' = JStr ''no_eligible_winner'' \<and> get d ''winner'' = JNull)"
proof -
  let ?cs = "map dict_of (list_of (get d ''candidates''))" and ?q = "get (dict_of (get d ''parameters'')) ''minimum_quality''" and ?p = "get (dict_of (get d ''parameters'')) ''minimum_objective_pass_rate''"
  let ?rs = "list_of (get d ''rankings'')"
  from assms obtain out where out: "check_candidates E ?q ?p [] (enumerate 0 (list_of (get d ''candidates''))) = Inr out" and rank: "check_rankings d out = Inr ()"
    by (auto simp: validate_selection_def require_object_def Let_def bindr_Inr_iff split: if_splits)
  note snd = accepted_candidates(1) [OF out] and ids = accepted_candidates(2) [OF out] and each = accepted_candidates(3) [OF out]
  from rank obtain order where order: "py_sorted py_less_list (\<lambda>c. Inr (rank_key c)) (filter (\<lambda>c. get c ''eligible'' = JBool True) ?cs) = Inr order"
      and r: "py_eq_list ?rs (map ranking (enumerate 1 order))" "get d ''outcome'' = JStr (if ?rs \<noteq> [] then ''winner_selected'' else ''no_eligible_winner'')"
        "py_eq (get d ''winner'') (if ?rs \<noteq> [] then hd ?rs else JNull)"
      and ranks: "list_all (\<lambda>(cid, item'). py_eq (get item' ''rank'') (expected_rank order (get item' ''candidate_id''))) out"
    by (auto simp: check_rankings_def snd Let_def bindr_Inr_iff require_Inr_iff)
  have sound: "\<forall>c \<in> set ?cs. sound_candidate ?q ?p c" using each by blast
  note placed = accepted_order [OF ids sound order]
  have "\<forall>c \<in> set (map snd out). py_eq (get c ''rank'') (expected_rank order (get c ''candidate_id''))" using ranks by (auto simp: list_all_iff)
  then have "\<forall>c \<in> set ?cs. (get c ''rank'' = JNull \<or> type_is_int (get c ''rank'')) \<and> py_eq (get c ''rank'') (expected_rank order (get c ''candidate_id''))"
    unfolding snd using each by blast
  note numbered = accepted_ranks [OF ids placed this]
  have elig: "\<forall>c \<in> set ?cs. eligible c \<longleftrightarrow> expected_reasons ?q ?p (dict_of (get c ''evidence'')) = []" using sound by (auto simp: sound_candidate_def eligible_def)
  note o = placed [unfolded ordered_by_rank_def]
  show ?thesis unfolding Let_def
    by (intro conjI ids exI [of _ order] numbered r(1) o [THEN conjunct1] o [THEN conjunct2, THEN conjunct1] o [THEN conjunct2, THEN conjunct2] accepted_winner [OF ids sound placed r])
      (use each elig reasons_empty in blast)+
qed
text \<open>A document with two eligible candidates and one that is not.\<close>

definition demo_env :: env where
  "demo_env = \<lparr>clock = (\<lambda>_. Fin 0), uuid4 = (\<lambda>_. []), token = (\<lambda>_. []), sha256 = (\<lambda>_. replicate 64 CHR ''a''), float_text = (\<lambda>_. ''0'')\<rparr>"

definition demo_evidence :: "int \<Rightarrow> int \<Rightarrow> dict" where
  "demo_evidence fatal total' = [(''expected_evaluations'', JInt 2), (''completed_evaluations'', JInt 2), (''expected_judgments'', JInt 2), (''completed_judgments'', JInt 2),
     (''fatal_judgments'', JInt fatal), (''failed_objective_evaluations'', JInt 0), (''rubric_total'', JInt total'), (''rubric_maximum'', JInt 4), (''quality'', JInt (25 * total')),
     (''objective_pass_rate'', JInt 100), (''median_duration_ms'', JInt 7)]"

definition demo_artifact :: dict where
  "demo_artifact = [(''artifact_ref'', JStr ''a''), (''source'', JStr ''hf''), (''revision'', JStr ''r1''), (''runtime'', JStr ''vllm''), (''quantization'', JStr ''fp8''),
     (''artifact_sha256'', JStr (replicate 64 CHR ''a''))]"

definition demo_candidate :: "string \<Rightarrow> json \<Rightarrow> string list \<Rightarrow> dict \<Rightarrow> dict" where
  "demo_candidate i rank reasons ev = [(''candidate_id'', JStr i), (''candidate_label'', JStr ''L''), (''eligible'', JBool (reasons = [])), (''ineligibility_reasons'', JArr (map JStr reasons)),
     (''evidence'', JObj ev), (''artifact'', JObj demo_artifact), (''rank'', rank)]"

definition demo_identity :: dict where
  "demo_identity = [(''run_id'', JStr ''r''), (''benchmark_id'', JStr ''b''), (''benchmark_version'', JStr ''1''), (''plan_sha256'', JStr (replicate 64 CHR ''a'')),
     (''release_id'', JStr ''rel''), (''release_sha256'', JStr (replicate 64 CHR ''b'')), (''tracks'', JArr [JStr ''code''])]"

definition demo_selection :: dict where
  "demo_selection = (let w = demo_candidate ''m2'' (JInt 1) [] (demo_evidence 0 4); l = demo_candidate ''m1'' (JInt 2) [] (demo_evidence 0 3);
         x = demo_candidate ''m0'' JNull [''fatal_judgment''] (demo_evidence 1 4) in
     [(''schema_version'', JInt 1), (''document_type'', JStr ''benchmark_selection''), (''identity'', JObj demo_identity),
      (''parameters'', JObj [(''minimum_quality'', JInt 70), (''minimum_objective_pass_rate'', JInt 100)]), (''candidates'', JArr [JObj x, JObj l, JObj w]),
      (''rankings'', JArr [ranking (1, w), ranking (2, l)]), (''outcome'', JStr ''winner_selected''), (''winner'', ranking (1, w))])"

lemma validate_selection_same: "validate_selection E (JObj d) = Inr d' \<Longrightarrow> d' = d"
  by (auto simp: validate_selection_def require_object_def Let_def bindr_Inr_iff dict_of_def split: if_splits)

lemma demo_accepted: "validate_selection demo_env (JObj demo_selection) = Inr demo_selection"
proof -
  have "isl (validate_selection demo_env (JObj demo_selection)) = False" by code_simp
  then obtain d where d: "validate_selection demo_env (JObj demo_selection) = Inr d" by (metis isl_def sum.exhaust_sel)
  with validate_selection_same [OF d] show ?thesis by simp
qed

theorem selection_sound_witness: "\<exists>w \<in> set (map dict_of (list_of (get demo_selection ''candidates''))). eligible w \<and> (\<exists>r. py_eq (get demo_selection ''winner'') r \<and> py_eq r (ranking (1, w)))"
proof -
  have "list_ex eligible (map dict_of (list_of (get demo_selection ''candidates'')))" by code_simp
  then have some: "\<exists>c \<in> set (map dict_of (list_of (get demo_selection ''candidates''))). eligible c" by (simp only: list_ex_iff)
  note s = selection_sound [OF demo_accepted, unfolded Let_def, THEN conjunct2, THEN conjunct2, THEN conjunct2, THEN conjunct2, THEN conjunct2]
  show ?thesis using s unfolding if_P [OF some] by blast
qed







end
