(* ===== verification/Benchmark_Selection.thy ===== *)
theory Benchmark_Selection
  imports Selection_Check Ledger_Core
begin

text \<open>
  \<open>benchmarks/selection.py\<close>: ranking the candidates of a benchmark run from its retained evidence. The arguments of
  \<open>select_run\<close> are the decoded files of the run; reading them is I/O. A dictionary keyed by a tuple is an association
  list in insertion order, and the sums are taken in the order of the source, as each addition rounds.
\<close>

section \<open>Sums\<close>

text \<open>\<open>sum\<close> of floats carries a compensation term (CPython 3.12 and later); of nothing it is the integer 0.\<close>

fun compensated :: "flt \<Rightarrow> flt \<Rightarrow> flt list \<Rightarrow> flt \<times> flt" where
  "compensated hi c [] = (hi, c)"
| "compensated hi c (x # xs) =
     (let t = fadd hi x in
      compensated t (fadd c (if flt_le (flt_abs x) (flt_abs hi) then fadd (fsub hi t) x else fadd (fsub x t) hi)) xs)"

fun py_sum :: "flt list \<Rightarrow> json" where
  "py_sum [] = JInt 0"
| "py_sum (x # xs) = (case compensated x (Fin 0) xs of (hi, c) \<Rightarrow> JFlt (if c \<noteq> Fin 0 \<and> isfinite c then fadd hi c else hi))"

definition round_num :: "json \<Rightarrow> json" where
  "round_num v = (case v of JFlt x \<Rightarrow> JFlt (round6 x) | _ \<Rightarrow> v)"

section \<open>The retained documents\<close>

abbreviation sha256_json :: "env \<Rightarrow> json \<Rightarrow> string" where
  "sha256_json \<equiv> canonical_sha256"

definition require_fields :: "dict \<Rightarrow> string list \<Rightarrow> string \<Rightarrow> unit res" where
  "require_fields d names context = (let missing = filter (\<lambda>k. \<not> has d k) names in
     require (missing = []) (SelectionError (context @ '' is missing: '' @ join '', '' missing)))"

definition check_document :: "json \<times> string \<Rightarrow> unit res" where
  "check_document entry = (case entry of (v, context) \<Rightarrow>
     bindr (require (is_dict v) (SelectionError (context @ '' must be a JSON object''))) (\<lambda>_.
     require (py_eq (get (dict_of v) ''schema_version'') SCHEMA_VERSION) (SelectionError (context @ '' has unsupported schema_version''))))"

definition check_run :: "env \<Rightarrow> dict \<Rightarrow> dict \<Rightarrow> dict \<Rightarrow> json \<Rightarrow> unit res" where
  "check_run E run plan release case_rows =
     bindr (require_fields run [''run_id'', ''benchmark_id'', ''benchmark_version'', ''plan_sha256'', ''release_id'', ''release_sha256'', ''trials'', ''candidate_map''] ''run'') (\<lambda>_.
     bindr (require_fields plan [''benchmark_id'', ''version'', ''trials'', ''cases'', ''candidates''] ''plan snapshot'') (\<lambda>_.
     bindr (require (is_list case_rows \<and> list_of case_rows \<noteq> []) (SelectionError ''cases snapshot must be a non-empty array'')) (\<lambda>_.
     bindr (require (get run ''plan_sha256'' = JStr (sha256_json E (JObj plan)) \<and> get run ''release_sha256'' = JStr (sha256_json E (JObj release)))
       (SelectionError ''run identity does not match retained plan and release evidence'')) (\<lambda>_.
     bindr (require (py_eq (get run ''benchmark_id'') (get plan ''benchmark_id'') \<and> py_eq (get run ''benchmark_version'') (get plan ''version''))
       (SelectionError ''run identity is inconsistent with retained evidence'')) (\<lambda>_.
     bindr (item release ''release_id'') (\<lambda>release_id.
     bindr (require (py_eq (get run ''release_id'') release_id \<and> py_eq (get run ''trials'') (get plan ''trials''))
       (SelectionError ''run identity is inconsistent with retained evidence'')) (\<lambda>_.
     require (type_is_int (get plan ''trials'') \<and> 1 \<le> int_of (get plan ''trials'')) (SelectionError ''retained plan trials must be a positive integer''))))))))"

section \<open>Cases\<close>

type_synonym weights = "(string \<times> flt) list"

definition rubric_item :: "string \<Rightarrow> weights \<Rightarrow> json \<Rightarrow> (string \<times> flt) res" where
  "rubric_item cid seen v =
     (let d = dict_of v; bad = SelectionError (''case '' @ cid @ '' has an invalid rubric''); w = get_or d ''weight'' (JInt 1) in
      bindr (require (is_dict v \<and> is_str (get d ''id'')) bad) (\<lambda>_.
      bindr (require (is_number w) bad) (\<lambda>_.
      bindr (py_float w) (\<lambda>x.
      bindr (require (isfinite x \<and> \<not> flt_le (num w) (Fin 0) \<and> str_of (get d ''id'') \<notin> fst ` set seen) bad) (\<lambda>_.
      Inr (str_of (get d ''id''), x))))))"

fun rubric_weights :: "string \<Rightarrow> weights \<Rightarrow> json list \<Rightarrow> weights res" where
  "rubric_weights cid seen [] = Inr seen"
| "rubric_weights cid seen (v # vs) = bindr (rubric_item cid seen v) (\<lambda>w. rubric_weights cid (seen @ [w]) vs)"

definition read_case :: "string list \<Rightarrow> json \<Rightarrow> (string \<times> dict \<times> weights) res" where
  "read_case seen v =
     bindr (require (is_dict v) (SelectionError ''each retained case must be a JSON object'')) (\<lambda>_.
     let c = dict_of v; cid = str_of (get c ''id'') in
     bindr (require_fields c [''schema_version'', ''id'', ''track''] ''retained case'') (\<lambda>_.
     bindr (require (py_eq (get c ''schema_version'') SCHEMA_VERSION \<and> is_str (get c ''id'')) (SelectionError ''retained case has invalid identity'')) (\<lambda>_.
     bindr (require (cid \<notin> set seen) (SelectionError (''duplicate retained case id: '' @ cid))) (\<lambda>_.
     bindr (require (is_str (get c ''track'')) (SelectionError (''case '' @ cid @ '' has an invalid track''))) (\<lambda>_.
     bindr (require (is_list (get_or c ''rubric'' (JArr []))) (SelectionError (''case '' @ cid @ '' has an invalid rubric''))) (\<lambda>_.
     bindr (rubric_weights cid [] (list_of (get_or c ''rubric'' (JArr [])))) (\<lambda>ws. Inr (cid, c, ws))))))))"

fun read_cases :: "(string \<times> dict \<times> weights) list \<Rightarrow> json list \<Rightarrow> (string \<times> dict \<times> weights) list res" where
  "read_cases acc [] = Inr acc"
| "read_cases acc (v # vs) = bindr (read_case (map fst acc) v) (\<lambda>c. read_cases (acc @ [c]) vs)"

definition weights_of :: "(string \<times> dict \<times> weights) list \<Rightarrow> string \<Rightarrow> weights" where
  "weights_of cases cid = (case map_of cases cid of Some (_, ws) \<Rightarrow> ws | None \<Rightarrow> [])"

section \<open>Candidates and judges\<close>

abbreviation ARTIFACT_FIELDS :: "string list" where
  "ARTIFACT_FIELDS \<equiv> [''id'', ''source'', ''revision'', ''runtime'', ''quantization'']"

definition release_artifact :: "json \<Rightarrow> unit res" where
  "release_artifact v =
     bindr (require (is_dict v) (SelectionError ''each retained release artifact must be a JSON object'')) (\<lambda>_.
     bindr (require_fields (dict_of v) ARTIFACT_FIELDS ''retained release artifact'') (\<lambda>_.
     bindr (require (same_keys (dict_of v) ARTIFACT_FIELDS) (SelectionError (''retained release artifact fields must be exactly: '' @ sorted_names ARTIFACT_FIELDS))) (\<lambda>_.
     require (list_all (\<lambda>f. is_str (get (dict_of v) f) \<and> str_of (get (dict_of v) f) \<noteq> []) ARTIFACT_FIELDS)
       (SelectionError ''retained release artifact provenance fields must be non-empty strings''))))"

definition enabled_rows :: "json list \<Rightarrow> dict list" where
  "enabled_rows vs = map dict_of (filter (\<lambda>v. is_dict v \<and> truthy (get_or (dict_of v) ''enabled'' (JBool True))) vs)"

definition unique_ids :: "dict list \<Rightarrow> bool" where
  "unique_ids rows \<longleftrightarrow> rows \<noteq> [] \<and> list_all (\<lambda>r. is_str (get r ''id'')) rows \<and> distinct (map (\<lambda>r. str_of (get r ''id'')) rows)"

definition candidate_artifact :: "env \<Rightarrow> json list \<Rightarrow> dict \<Rightarrow> (string \<times> dict) res" where
  "candidate_artifact E artifacts candidate =
     (let cid = str_of (get candidate ''id''); ref = get candidate ''artifact_ref'';
          matches = filter (\<lambda>a. get (dict_of a) ''id'' = ref) artifacts in
      bindr (require (is_str ref \<and> str_of ref \<noteq> []) (SelectionError (''candidate '' @ cid @ '' has no release artifact linkage''))) (\<lambda>_.
      bindr (require (matches \<noteq> []) (SelectionError (''candidate '' @ cid @ '' has no matching release artifact''))) (\<lambda>_.
      bindr (require (length matches = 1) (SelectionError (''candidate '' @ cid @ '' has ambiguous release artifact linkage''))) (\<lambda>_.
      let a = dict_of (hd matches) in
      Inr (cid, [(''artifact_ref'', ref), (''source'', get a ''source''), (''revision'', get a ''revision''), (''runtime'', get a ''runtime''),
        (''quantization'', get a ''quantization''), (''artifact_sha256'', JStr (sha256_json E (hd matches)))])))))"

definition read_candidates :: "env \<Rightarrow> dict \<Rightarrow> dict \<Rightarrow> nat \<Rightarrow> (string \<times> dict) list res" where
  "read_candidates E plan release n =
     bindr (require (is_list (get plan ''cases'') \<and> length (list_of (get plan ''cases'')) = n) (SelectionError ''retained cases are inconsistent with the retained plan'')) (\<lambda>_.
     bindr (require (is_list (get plan ''candidates'')) (SelectionError ''retained plan candidates must be an array'')) (\<lambda>_.
     let artifacts = get release ''artifacts'' in
     bindr (require (is_list artifacts \<and> list_of artifacts \<noteq> []) (SelectionError ''retained release must contain artifact provenance'')) (\<lambda>_.
     bindr (for_each release_artifact (list_of artifacts)) (\<lambda>_.
     let rows = enabled_rows (list_of (get plan ''candidates'')) in
     bindr (require (unique_ids rows) (SelectionError ''retained plan enabled candidates are invalid'')) (\<lambda>_.
     map_res (candidate_artifact E (list_of artifacts)) rows)))))"

definition check_candidate_map :: "json \<Rightarrow> string list \<Rightarrow> unit res" where
  "check_candidate_map v enabled =
     (let values = map snd (dict_of v) in
      require (is_dict v \<and> dict_of v \<noteq> [] \<and> list_all is_str values \<and> distinct (map str_of values) \<and> set (map str_of values) = set enabled)
        (SelectionError ''run candidate_map is invalid or inconsistent with the retained plan''))"

definition read_judges :: "dict \<Rightarrow> string list res" where
  "read_judges plan =
     (let judges = get_or plan ''judges'' (JArr []) in
      bindr (require (is_list judges) (SelectionError ''retained plan judges must be an array'')) (\<lambda>_.
      bindr (require (unique_ids (enabled_rows (list_of judges))) (SelectionError ''selection requires unique enabled judges in the retained plan'')) (\<lambda>_.
      Inr (map (\<lambda>r. str_of (get r ''id'')) (enabled_rows (list_of judges))))))"

section \<open>Generations\<close>

type_synonym generation_key = "string \<times> string \<times> int"

definition expected_generations :: "string list \<Rightarrow> string list \<Rightarrow> int \<Rightarrow> generation_key list" where
  "expected_generations case_ids labels trials = concat (map (\<lambda>c. concat (map (\<lambda>l. map (\<lambda>t. (c, l, t)) [1..trials]) labels)) case_ids)"

definition text_fields :: "dict \<Rightarrow> string list \<Rightarrow> bool" where
  "text_fields row names \<longleftrightarrow> list_all (\<lambda>f. is_str (get row f)) names"

definition key_of :: "dict \<Rightarrow> generation_key" where
  "key_of row = (str_of (get row ''case_id''), str_of (get row ''candidate_label''), int_of (get row ''trial''))"

definition score_within :: "int \<Rightarrow> json \<Rightarrow> bool" where
  "score_within m v \<longleftrightarrow> is_number v \<and> flt_le (Fin 0) (num v) \<and> flt_le (num v) (Fin (of_int m))"

abbreviation passed :: "json \<Rightarrow> bool" where
  "passed v \<equiv> get (dict_of v) ''passed'' = JBool True"

definition check_objective :: "json \<Rightarrow> unit res" where
  "check_objective v =
     (let checks = get (dict_of v) ''checks'' in
      bindr (require (is_dict v \<and> type_is_bool (get (dict_of v) ''passed'')) (SelectionError ''generation objective evidence is invalid'')) (\<lambda>_.
      require (is_list checks \<and> list_all (\<lambda>c. is_dict c \<and> type_is_bool (get (dict_of c) ''passed'')) (list_of checks) \<and> (passed v \<longleftrightarrow> list_all passed (list_of checks))
          \<and> score_within 100 (get (dict_of v) ''score''))
        (SelectionError ''generation objective evidence is inconsistent'')))"

definition check_duration :: "json \<Rightarrow> unit res" where
  "check_duration v =
     (let bad = SelectionError ''completed generation has invalid duration evidence'' in
      bindr (require (is_number v) bad) (\<lambda>_. bindr (py_float v) (\<lambda>x. require (isfinite x \<and> \<not> flt_less (num v) (Fin 0)) bad)))"

definition check_generation :: "env \<Rightarrow> (string \<times> dict \<times> weights) list \<Rightarrow> generation_key list \<Rightarrow> generation_key list \<Rightarrow> dict \<Rightarrow> unit res" where
  "check_generation E cases expected seen row =
     bindr (require_fields row [''schema_version'', ''case_id'', ''track'', ''case_sha256'', ''candidate_label'', ''trial'', ''status'', ''objective''] ''generation'') (\<lambda>_.
     bindr (require (text_fields row [''case_id'', ''candidate_label''] \<and> type_is_int (get row ''trial'')) (SelectionError ''generation identity is invalid'')) (\<lambda>_.
     bindr (require (py_eq (get row ''schema_version'') SCHEMA_VERSION \<and> key_of row \<in> set expected \<and> key_of row \<notin> set seen)
       (SelectionError ''generation identity is duplicate or inconsistent with retained evidence'')) (\<lambda>_.
     let c = (case map_of cases (fst (key_of row)) of Some (c, _) \<Rightarrow> c | None \<Rightarrow> []) in
     bindr (require (py_eq (get row ''track'') (get c ''track'') \<and> get row ''case_sha256'' = JStr (sha256_json E (JObj c)))
       (SelectionError ''generation track or status is inconsistent with retained evidence'')) (\<lambda>_.
     bindr (in_strs (get row ''status'') [''completed'', ''error'']) (\<lambda>known.
     bindr (require known (SelectionError ''generation track or status is inconsistent with retained evidence'')) (\<lambda>_.
     bindr (check_objective (get row ''objective'')) (\<lambda>_.
     if get row ''status'' = JStr ''completed'' then check_duration (get row ''duration_ms'') else Inr ())))))))"

fun read_generations :: "env \<Rightarrow> (string \<times> dict \<times> weights) list \<Rightarrow> generation_key list \<Rightarrow> (generation_key \<times> dict) list \<Rightarrow> dict list \<Rightarrow> (generation_key \<times> dict) list res" where
  "read_generations E cases expected acc [] = Inr acc"
| "read_generations E cases expected acc (row # rows) = bindr (check_generation E cases expected (map fst acc) row) (\<lambda>_.
     read_generations E cases expected (acc @ [(key_of row, row)]) rows)"

section \<open>Judgments\<close>

type_synonym judgment_key = "string \<times> generation_key"

abbreviation completed :: "dict \<Rightarrow> bool" where
  "completed row \<equiv> get row ''status'' = JStr ''completed''"

definition expected_judgments :: "(string \<times> dict \<times> weights) list \<Rightarrow> generation_key list \<Rightarrow> (generation_key \<times> dict) list \<Rightarrow> string list \<Rightarrow> judgment_key list" where
  "expected_judgments cases expected generations judges =
     concat (map (\<lambda>k. if completed (the (map_of generations k)) \<and> weights_of cases (fst k) \<noteq> [] then map (\<lambda>j. (j, k)) judges else []) expected)"

definition judgment_key_of :: "dict \<Rightarrow> judgment_key" where
  "judgment_key_of row = (str_of (get row ''judge_id''), key_of row)"

definition check_verdict :: "weights \<Rightarrow> json \<Rightarrow> unit res" where
  "check_verdict ws v =
     (let scores = get (dict_of v) ''scores'' in
      bindr (require (is_dict v \<and> type_is_bool (get (dict_of v) ''fatal_error'')) (SelectionError ''completed judgment evidence is invalid'')) (\<lambda>_.
      bindr (require (is_dict scores \<and> same_keys (dict_of scores) (map fst ws)) (SelectionError ''completed judgment scores do not match retained rubric ids'')) (\<lambda>_.
      require (list_all (\<lambda>(k, s). score_within 4 s) (dict_of scores)) (SelectionError ''completed judgment scores must be numbers from 0 to 4''))))"

definition check_judgment :: "(string \<times> dict \<times> weights) list \<Rightarrow> judgment_key list \<Rightarrow> judgment_key list \<Rightarrow> dict \<Rightarrow> unit res" where
  "check_judgment cases expected seen row =
     bindr (require_fields row [''schema_version'', ''judge_id'', ''case_id'', ''candidate_label'', ''trial'', ''status''] ''judgment'') (\<lambda>_.
     bindr (require (text_fields row [''judge_id'', ''case_id'', ''candidate_label''] \<and> type_is_int (get row ''trial'')) (SelectionError ''judgment identity is invalid'')) (\<lambda>_.
     bindr (require (py_eq (get row ''schema_version'') SCHEMA_VERSION \<and> judgment_key_of row \<in> set expected \<and> judgment_key_of row \<notin> set seen)
       (SelectionError ''judgment identity is duplicate or inconsistent with retained evidence'')) (\<lambda>_.
     bindr (in_strs (get row ''status'') [''completed'', ''error'']) (\<lambda>known.
     bindr (require known (SelectionError ''judgment status is invalid'')) (\<lambda>_.
     if completed row then check_verdict (weights_of cases (str_of (get row ''case_id''))) (get row ''judgment'') else Inr ())))))"

fun read_judgments :: "(string \<times> dict \<times> weights) list \<Rightarrow> judgment_key list \<Rightarrow> (judgment_key \<times> dict) list \<Rightarrow> dict list \<Rightarrow> (judgment_key \<times> dict) list res" where
  "read_judgments cases expected acc [] = Inr acc"
| "read_judgments cases expected acc (row # rows) = bindr (check_judgment cases expected (map fst acc) row) (\<lambda>_.
     read_judgments cases expected (acc @ [(judgment_key_of row, row)]) rows)"

section \<open>The evidence of one candidate\<close>

fun generation_less :: "generation_key \<Rightarrow> generation_key \<Rightarrow> bool" where
  "generation_less (a, b, t) (a', b', t') \<longleftrightarrow> lex_less a a' \<or> a = a' \<and> (lex_less b b' \<or> b = b' \<and> t < t')"

fun judgment_less :: "judgment_key \<Rightarrow> judgment_key \<Rightarrow> bool" where
  "judgment_less (j, k) (j', k') \<longleftrightarrow> lex_less j j' \<or> j = j' \<and> generation_less k k'"

definition generation_rows :: "(generation_key \<times> dict) list \<Rightarrow> string \<Rightarrow> dict list" where
  "generation_rows generations label = map snd (filter (\<lambda>((c, l, t), row). l = label) (order_by (\<lambda>x y. generation_less (fst x) (fst y)) generations))"

definition judgment_rows :: "(judgment_key \<times> dict) list \<Rightarrow> string \<Rightarrow> dict list" where
  "judgment_rows judgments label = map snd (filter (\<lambda>((j, c, l, t), row). l = label) (order_by (\<lambda>x y. judgment_less (fst x) (fst y)) judgments))"

abbreviation verdict :: "dict \<Rightarrow> dict" where
  "verdict row \<equiv> dict_of (get row ''judgment'')"

definition rubric_points :: "(string \<times> dict \<times> weights) list \<Rightarrow> dict \<Rightarrow> flt list res" where
  "rubric_points cases row = map_res (\<lambda>(rid, score). bindr (py_float score) (\<lambda>x.
       Inr (fmul x (the (map_of (weights_of cases (str_of (get row ''case_id''))) rid))))) (dict_of (get (verdict row) ''scores''))"

definition rubric_maximum :: "(string \<times> dict \<times> weights) list \<Rightarrow> dict list \<Rightarrow> json" where
  "rubric_maximum cases rows = py_sum (map (\<lambda>row. fmul (Fin 4) (num (py_sum (map snd (weights_of cases (str_of (get row ''case_id''))))))) rows)"

definition reasons_for :: "json \<Rightarrow> json \<Rightarrow> dict list \<Rightarrow> dict list \<Rightarrow> flt option \<Rightarrow> flt \<Rightarrow> string list" where
  "reasons_for minimum_quality minimum_pass_rate gs js quality pass_rate =
     (if list_all completed gs then [] else [''incomplete_trials''])
     @ (if list_all completed js then [] else [''incomplete_judgments''])
     @ (if list_ex (\<lambda>r. completed r \<and> get (verdict r) ''fatal_error'' = JBool True) js then [''fatal_judgment''] else [])
     @ (if list_all (\<lambda>r. passed (get r ''objective'')) gs then [] else [''failed_objective_checks''])
     @ (case quality of Some q \<Rightarrow> if flt_less q (num minimum_quality) then [''below_minimum_quality''] else [] | None \<Rightarrow> [])
     @ (if flt_less pass_rate (num minimum_pass_rate) then [''below_minimum_objective_pass_rate''] else [])"

definition count_rows :: "(dict \<Rightarrow> bool) \<Rightarrow> dict list \<Rightarrow> json" where
  "count_rows p rows = JInt (int (length (filter p rows)))"

definition optional :: "flt option \<Rightarrow> json" where
  "optional x = (case x of None \<Rightarrow> JNull | Some y \<Rightarrow> JFlt (round6 y))"

definition candidate_item :: "(string \<times> dict \<times> weights) list \<Rightarrow> (string \<times> dict) list \<Rightarrow> json \<Rightarrow> json \<Rightarrow> (generation_key \<times> dict) list \<Rightarrow> (judgment_key \<times> dict) list \<Rightarrow> string \<times> string \<Rightarrow> dict res" where
  "candidate_item cases artifacts minimum_quality minimum_pass_rate generations judgments entry = (case entry of (label, cid) \<Rightarrow>
     let gs = generation_rows generations label; js = judgment_rows judgments label in
     bindr (map_res (rubric_points cases) (filter completed js)) (\<lambda>points.
     let rubric_total = py_sum (concat points); maximum = rubric_maximum cases js in
     bindr (if truthy maximum then bindr (true_div (hundred_times rubric_total) maximum) (\<lambda>q. Inr (Some q)) else Inr None) (\<lambda>quality.
     bindr (true_div (JInt (100 * int (length (filter (\<lambda>r. passed (get r ''objective'')) gs)))) (JInt (int (length gs)))) (\<lambda>pass_rate.
     bindr (map_res (\<lambda>r. py_float (get r ''duration_ms'')) (filter completed gs)) (\<lambda>durations.
     let middle = (if durations = [] then None else Some (median durations));
         reasons = reasons_for minimum_quality minimum_pass_rate gs js quality pass_rate;
         evidence = [(''expected_evaluations'', JInt (int (length gs))), (''completed_evaluations'', count_rows completed gs), (''expected_judgments'', JInt (int (length js))),
           (''completed_judgments'', count_rows completed js), (''fatal_judgments'', count_rows (\<lambda>r. completed r \<and> get (verdict r) ''fatal_error'' = JBool True) js),
           (''failed_objective_evaluations'', count_rows (\<lambda>r. \<not> passed (get r ''objective'')) gs), (''rubric_total'', round_num rubric_total), (''rubric_maximum'', round_num maximum),
           (''quality'', optional quality), (''objective_pass_rate'', JFlt (round6 pass_rate)), (''median_duration_ms'', optional middle)]
     in
     bindr (require (reasons = [] \<longrightarrow> quality \<noteq> None \<and> middle \<noteq> None) (SelectionError ''eligible candidate is missing normalized ranking evidence'')) (\<lambda>_.
     Inr [(''candidate_id'', JStr cid), (''candidate_label'', JStr label), (''artifact'', JObj (the (map_of artifacts cid))), (''eligible'', JBool (reasons = [])),
       (''ineligibility_reasons'', JArr (map JStr reasons)), (''evidence'', JObj evidence), (''rank'', JNull)]))))))"

section \<open>The selection\<close>

definition set_rank :: "dict list \<Rightarrow> dict \<Rightarrow> dict" where
  "set_rank order c = put c ''rank'' (expected_rank order (get c ''candidate_id''))"

definition sorted_tracks :: "(string \<times> dict \<times> weights) list \<Rightarrow> json" where
  "sorted_tracks cases = JArr (map (\<lambda>e. JStr (fst e)) (sort_keys (remdups (map (\<lambda>(cid, c, ws). (str_of (get c ''track''), ())) cases))))"

definition selection_document :: "dict \<Rightarrow> (string \<times> dict \<times> weights) list \<Rightarrow> json \<Rightarrow> json \<Rightarrow> dict list \<Rightarrow> dict list \<Rightarrow> dict" where
  "selection_document run cases minimum_quality minimum_pass_rate items order =
     (let rankings = map ranking (enumerate 1 order) in
      [(''schema_version'', SCHEMA_VERSION), (''document_type'', JStr ''benchmark_selection''),
       (''identity'', JObj [(''run_id'', get run ''run_id''), (''benchmark_id'', get run ''benchmark_id''), (''benchmark_version'', get run ''benchmark_version''),
          (''plan_sha256'', get run ''plan_sha256''), (''release_id'', get run ''release_id''), (''release_sha256'', get run ''release_sha256''), (''tracks'', sorted_tracks cases)]),
       (''parameters'', JObj [(''minimum_quality'', minimum_quality), (''minimum_objective_pass_rate'', minimum_pass_rate)]),
       (''candidates'', JArr (map (\<lambda>c. JObj (set_rank order c)) items)), (''rankings'', JArr rankings),
       (''outcome'', JStr (if rankings \<noteq> [] then ''winner_selected'' else ''no_eligible_winner'')), (''winner'', if rankings \<noteq> [] then hd rankings else JNull)])"

definition select_run :: "env \<Rightarrow> json \<Rightarrow> json \<Rightarrow> json \<Rightarrow> json \<Rightarrow> dict list \<Rightarrow> dict list \<Rightarrow> json \<Rightarrow> json \<Rightarrow> dict res" where
  "select_run E run' plan' release' case_rows generation_lines judgment_lines minimum_quality minimum_pass_rate =
     bindr (for_each check_document [(run', ''run''), (plan', ''plan snapshot''), (release', ''release snapshot'')]) (\<lambda>_.
     let run = dict_of run'; plan = dict_of plan'; release = dict_of release' in
     bindr (check_run E run plan release case_rows) (\<lambda>_.
     bindr (read_cases [] (list_of case_rows)) (\<lambda>cases.
     bindr (require (list_ex (\<lambda>(cid, c, ws). ws \<noteq> []) cases) (SelectionError ''selection requires retained cases with rubric judgments'')) (\<lambda>_.
     bindr (read_candidates E plan release (length cases)) (\<lambda>artifacts.
     bindr (check_candidate_map (get run ''candidate_map'') (map fst artifacts)) (\<lambda>_.
     bindr (read_judges plan) (\<lambda>judges.
     let labels = map (\<lambda>(label, v). (label, str_of v)) (dict_of (get run ''candidate_map''));
         expected = expected_generations (map fst cases) (map fst labels) (int_of (get plan ''trials'')) in
     bindr (read_generations E cases expected [] generation_lines) (\<lambda>generations.
     bindr (require (set (map fst generations) = set expected) (SelectionError ''generation evidence is missing for one or more candidate trials'')) (\<lambda>_.
     let wanted = expected_judgments cases expected generations judges in
     bindr (read_judgments cases wanted [] judgment_lines) (\<lambda>judgments.
     bindr (require (set (map fst judgments) = set wanted) (SelectionError ''judgment evidence is missing for one or more completed candidate trials'')) (\<lambda>_.
     bindr (map_res (candidate_item cases artifacts minimum_quality minimum_pass_rate generations judgments) (order_by (\<lambda>x y. lex_less (snd x) (snd y)) labels)) (\<lambda>items.
     bindr (py_sorted py_less_list (\<lambda>c. Inr (rank_key c)) (filter eligible items)) (\<lambda>order.
     Inr (selection_document run cases minimum_quality minimum_pass_rate items order))))))))))))))"


section \<open>What the retained evidence says of an eligible candidate\<close>

lemma read_generations_rows: "read_generations E cases expected acc rows = Inr g \<Longrightarrow> g = acc @ map (\<lambda>r. (key_of r, r)) rows"
  by (induction rows arbitrary: acc) (simp, fastforce simp: bindr_Inr_iff)

lemma read_judgments_rows: "read_judgments cases expected acc rows = Inr g \<Longrightarrow> g = acc @ map (\<lambda>r. (judgment_key_of r, r)) rows"
  by (induction rows arbitrary: acc) (simp, fastforce simp: bindr_Inr_iff)

lemma read_judgments_checked: "read_judgments cases expected acc rows = Inr g \<Longrightarrow> r \<in> set rows \<Longrightarrow> \<exists>seen. check_judgment cases expected seen r = Inr ()"
  by (induction rows arbitrary: acc) (auto simp: bindr_Inr_iff)

lemma verdict_bool: "check_judgment cases expected seen r = Inr u \<Longrightarrow> completed r \<Longrightarrow> type_is_bool (get (verdict r) ''fatal_error'')"
  by (auto simp: check_judgment_def check_verdict_def Let_def bindr_Inr_iff)

lemma rubric_weights_length: "rubric_weights cid seen vs = Inr ws \<Longrightarrow> length ws = length seen + length vs"
  by (induction vs arbitrary: seen) (auto simp: bindr_Inr_iff)

lemma read_case_Inr:
  "read_case seen v = Inr (cid, c, ws) \<Longrightarrow> cid = str_of (get (dict_of v) ''id'') \<and> c = dict_of v \<and> cid \<notin> set seen
     \<and> length ws = length (list_of (get_or (dict_of v) ''rubric'' (JArr [])))"
  by (auto simp: read_case_def Let_def bindr_Inr_iff dest: rubric_weights_length)

lemma read_cases_extends: "read_cases acc vs = Inr cs \<Longrightarrow> distinct (map fst acc) \<Longrightarrow> distinct (map fst cs) \<and> set acc \<subseteq> set cs"
proof (induction vs arbitrary: acc)
  case (Cons v vs)
  then obtain cid c ws where r: "read_case (map fst acc) v = Inr (cid, c, ws)" "read_cases (acc @ [(cid, c, ws)]) vs = Inr cs" by (auto simp: bindr_Inr_iff)
  show ?case using Cons.IH [OF r(2)] Cons.prems(2) read_case_Inr [OF r(1)] by auto
qed auto

lemma read_cases_covers:
  assumes "read_cases acc vs = Inr cs" "distinct (map fst acc)" "v \<in> set vs"
  shows "\<exists>ws. map_of cs (str_of (get (dict_of v) ''id'')) = Some (dict_of v, ws) \<and> length ws = length (list_of (get_or (dict_of v) ''rubric'' (JArr [])))"
  using assms
proof (induction vs arbitrary: acc)
  case (Cons w vs)
  then obtain cid c ws where r: "read_case (map fst acc) w = Inr (cid, c, ws)" "read_cases (acc @ [(cid, c, ws)]) vs = Inr cs" by (auto simp: bindr_Inr_iff)
  have d: "distinct (map fst (acc @ [(cid, c, ws)]))" using Cons.prems(2) read_case_Inr [OF r(1)] by auto
  show ?case
  proof (cases "v = w")
    case True
    have "(cid, c, ws) \<in> set cs" "distinct (map fst cs)" using read_cases_extends [OF r(2) d] by auto
    then show ?thesis using read_case_Inr [OF r(1)] True by (auto simp: map_of_eq_Some_iff)
  next
    case False
    then show ?thesis using Cons.IH [OF r(2) d] Cons.prems(3) by simp
  qed
qed simp

lemma candidate_item_Inr:
  assumes "candidate_item cases artifacts mq mp generations judgments (label, cid) = Inr c"
  shows "\<exists>quality rate evidence. let reasons = reasons_for mq mp (generation_rows generations label) (judgment_rows judgments label) quality rate in
    c = [(''candidate_id'', JStr cid), (''candidate_label'', JStr label), (''artifact'', JObj (the (map_of artifacts cid))), (''eligible'', JBool (reasons = [])),
       (''ineligibility_reasons'', JArr (map JStr reasons)), (''evidence'', JObj evidence), (''rank'', JNull)]"
  using assms unfolding candidate_item_def Let_def split by (elim bindr_Inr_iff [THEN iffD1, THEN exE] conjE) blast

lemma no_reasons:
  "reasons_for mq mp gs js quality rate = [] \<Longrightarrow> (\<forall>r \<in> set gs. completed r \<and> passed (get r ''objective'')) \<and> (\<forall>r \<in> set js. completed r \<and> get (verdict r) ''fatal_error'' \<noteq> JBool True)"
  by (auto simp: reasons_for_def list_all_iff list_ex_iff split: if_splits)

lemma candidate_item_eligible:
  assumes "candidate_item cases artifacts mq mp generations judgments (label, cid) = Inr c"
  shows "get c ''candidate_label'' = JStr label" "get c ''candidate_id'' = JStr cid"
    "eligible c \<Longrightarrow> \<forall>r \<in> set (generation_rows generations label). completed r \<and> passed (get r ''objective'')"
    "eligible c \<Longrightarrow> \<forall>r \<in> set (judgment_rows judgments label). completed r \<and> get (verdict r) ''fatal_error'' \<noteq> JBool True"
  proof -
  from candidate_item_Inr [OF assms] obtain quality rate evidence where c: "let reasons = reasons_for mq mp (generation_rows generations label) (judgment_rows judgments label) quality rate in
      c = [(''candidate_id'', JStr cid), (''candidate_label'', JStr label), (''artifact'', JObj (the (map_of artifacts cid))), (''eligible'', JBool (reasons = [])),
       (''ineligibility_reasons'', JArr (map JStr reasons)), (''evidence'', JObj evidence), (''rank'', JNull)]" by blast
  have "get c ''candidate_label'' = JStr label \<and> get c ''candidate_id'' = JStr cid
      \<and> (eligible c \<longleftrightarrow> reasons_for mq mp (generation_rows generations label) (judgment_rows judgments label) quality rate = [])"
    using c by (simp add: Let_def eligible_def get_def get_or_def)
  then show "get c ''candidate_label'' = JStr label" "get c ''candidate_id'' = JStr cid"
    "eligible c \<Longrightarrow> \<forall>r \<in> set (generation_rows generations label). completed r \<and> passed (get r ''objective'')"
    "eligible c \<Longrightarrow> \<forall>r \<in> set (judgment_rows judgments label). completed r \<and> get (verdict r) ''fatal_error'' \<noteq> JBool True"
    using no_reasons [of mq mp "generation_rows generations label" "judgment_rows judgments label" quality rate] by blast+
qed

lemma set_rank_get: "k \<noteq> ''rank'' \<Longrightarrow> get (set_rank order c) k = get c k"
  by (simp add: set_rank_def)


lemma generation_rows_iff: "r \<in> set (generation_rows generations label) \<longleftrightarrow> (\<exists>c t. ((c, label, t), r) \<in> set generations)"
  by (force simp: generation_rows_def)

lemma judgment_rows_iff: "r \<in> set (judgment_rows judgments label) \<longleftrightarrow> (\<exists>j c t. ((j, c, label, t), r) \<in> set judgments)"
  by (force simp: judgment_rows_def)

lemma map_res_origin: "map_res f xs = Inr ys \<Longrightarrow> y \<in> set ys \<Longrightarrow> \<exists>x \<in> set xs. f x = Inr y"
  by (fastforce simp: map_res_Inr_iff in_set_conv_nth)

definition trial_evidence :: "dict list \<Rightarrow> dict list \<Rightarrow> string list \<Rightarrow> string \<Rightarrow> bool \<Rightarrow> string \<Rightarrow> int \<Rightarrow> bool" where
  "trial_evidence gs js judges cid judged label t \<longleftrightarrow>
     (\<exists>r \<in> set gs. key_of r = (cid, label, t) \<and> completed r \<and> passed (get r ''objective''))
     \<and> (judged \<longrightarrow> (\<forall>j \<in> set judges. \<exists>q \<in> set js. judgment_key_of q = (j, cid, label, t) \<and> completed q \<and> get (verdict q) ''fatal_error'' = JBool False))"

lemma evidence_of_trial:
  assumes gs: "generations = map (\<lambda>r. (key_of r, r)) gs" "set (map fst generations) = set expected"
    and js: "judgments = map (\<lambda>r. (judgment_key_of r, r)) js" "set (map fst judgments) = set (expected_judgments cases expected generations judges)"
    and bools: "\<forall>q \<in> set js. completed q \<longrightarrow> type_is_bool (get (verdict q) ''fatal_error'')"
    and good: "\<forall>r \<in> set (generation_rows generations label). completed r \<and> passed (get r ''objective'')"
      "\<forall>r \<in> set (judgment_rows judgments label). completed r \<and> get (verdict r) ''fatal_error'' \<noteq> JBool True"
    and k: "(cid, label, t) \<in> set expected"
  shows "trial_evidence gs js judges cid (weights_of cases cid \<noteq> []) label t"
proof -
  let ?k = "(cid, label, t)"
  have sound: "completed r \<and> passed (get r ''objective'')" if "(?k, r) \<in> set generations" for r
    using good(1) that by (auto simp: generation_rows_iff)
  have "?k \<in> fst ` set generations" using gs(2) k by simp
  then obtain r where r: "r \<in> set gs" "key_of r = ?k" "(?k, r) \<in> set generations" unfolding gs(1) by force
  moreover obtain r' where r': "map_of generations ?k = Some r'" using r(3) by (metis weak_map_of_SomeI)
  then have "completed (the (map_of generations ?k))" using sound map_of_SomeD by fastforce
  then have wanted: "(j, ?k) \<in> set (expected_judgments cases expected generations judges)" if "weights_of cases cid \<noteq> []" "j \<in> set judges" for j
    using k that unfolding expected_judgments_def by force
  have "\<exists>q \<in> set js. judgment_key_of q = (j, ?k) \<and> completed q \<and> get (verdict q) ''fatal_error'' = JBool False"
    if "weights_of cases cid \<noteq> []" "j \<in> set judges" for j
  proof -
    have "(j, ?k) \<in> fst ` set judgments" using wanted [OF that] js(2) by simp
    then obtain q where q: "q \<in> set js" "judgment_key_of q = (j, ?k)" "((j, ?k), q) \<in> set judgments" unfolding js(1) by force
    then have "completed q" "get (verdict q) ''fatal_error'' \<noteq> JBool True" using good(2) by (auto simp: judgment_rows_iff)
    moreover from this have "type_is_bool (get (verdict q) ''fatal_error'')" using bools q(1) by blast
    ultimately show ?thesis using q by (auto simp: type_is_bool_def split: json.splits)
  qed
  then show ?thesis using r sound unfolding trial_evidence_def by blast
qed


lemma document_get:
  "get (selection_document run cases mq mp items order) ''candidates'' = JArr (map (\<lambda>c. JObj (set_rank order c)) items)"
  "get (selection_document run cases mq mp items order) ''winner'' = (if order \<noteq> [] then ranking (1, hd order) else JNull)"
  by (simp add: selection_document_def Let_def get_def get_or_def) (cases order; simp add: selection_document_def Let_def get_def get_or_def)

lemma eligible_set_rank [simp]: "eligible (set_rank order c) \<longleftrightarrow> eligible c"
  by (simp add: eligible_def set_rank_get)

text \<open>
  C34: a selection is backed by the whole of the retained evidence. If a run yields a selection
  document, then for every eligible candidate of the document, every retained case and every trial of the plan, the
  generation file holds a completed generation of that candidate's label whose objective
  passed and, where the case has a rubric, the judgment file holds a completed judgment without
  a fatal error by every enabled judge; and the winner is an eligible candidate
  whenever there is one.
\<close>

theorem winner_evidence:
  assumes "select_run E run plan release case_rows gs js mq mp = Inr d" "read_judges (dict_of plan) = Inr judges"
    and c: "c \<in> set (map dict_of (list_of (get d ''candidates'')))" "eligible c"
  shows "(\<forall>v \<in> set (list_of case_rows). \<forall>t \<in> {1..int_of (get (dict_of plan) ''trials'')}.
      trial_evidence gs js judges (str_of (get (dict_of v) ''id'')) (list_of (get_or (dict_of v) ''rubric'' (JArr [])) \<noteq> []) (str_of (get c ''candidate_label'')) t)
    \<and> (\<exists>w. eligible w \<and> get d ''winner'' = ranking (1, w) \<and> (\<exists>w' \<in> set (map dict_of (list_of (get d ''candidates''))). eligible w' \<and> get w' ''candidate_id'' = get w ''candidate_id''))"
proof -
  define labels where "labels = map (\<lambda>(label, v). (label, str_of v)) (dict_of (get (dict_of run) ''candidate_map''))"
  from assms(1,2) obtain cases artifacts generations judgments items order where
    cs: "read_cases [] (list_of case_rows) = Inr cases"
    and g: "read_generations E cases (expected_generations (map fst cases) (map fst labels) (int_of (get (dict_of plan) ''trials''))) [] gs = Inr generations"
      "set (map fst generations) = set (expected_generations (map fst cases) (map fst labels) (int_of (get (dict_of plan) ''trials'')))"
    and j: "read_judgments cases (expected_judgments cases (expected_generations (map fst cases) (map fst labels) (int_of (get (dict_of plan) ''trials''))) generations judges) [] js = Inr judgments"
      "set (map fst judgments) = set (expected_judgments cases (expected_generations (map fst cases) (map fst labels) (int_of (get (dict_of plan) ''trials''))) generations judges)"
    and items: "map_res (candidate_item cases artifacts mq mp generations judgments) (order_by (\<lambda>x y. lex_less (snd x) (snd y)) labels) = Inr items"
    and order: "py_sorted py_less_list (\<lambda>c. Inr (rank_key c)) (filter eligible items) = Inr order"
    and d: "d = selection_document (dict_of run) cases mq mp items order"
    unfolding select_run_def Let_def labels_def by (auto simp: bindr_Inr_iff)
  from c(1) obtain x where x: "x \<in> set items" "c = set_rank order x" by (auto simp: d document_get list_of_def dict_of_def)
  then have el: "eligible x" using c(2) by simp
  from map_res_origin [OF items x(1)] obtain label cid where lab: "(label, cid) \<in> set labels" and item: "candidate_item cases artifacts mq mp generations judgments (label, cid) = Inr x"
    by (simp only: set_order_by) fast
  have lb: "str_of (get c ''candidate_label'') = label" using candidate_item_eligible(1) [OF item] by (simp add: x(2) set_rank_get str_of_def)
  have bools: "\<forall>q \<in> set js. completed q \<longrightarrow> type_is_bool (get (verdict q) ''fatal_error'')"
    using read_judgments_checked [OF j(1)] verdict_bool by blast
  have one: "trial_evidence gs js judges (str_of (get (dict_of v) ''id'')) (list_of (get_or (dict_of v) ''rubric'' (JArr [])) \<noteq> []) label t"
    if v: "v \<in> set (list_of case_rows)" and t: "t \<in> {1..int_of (get (dict_of plan) ''trials'')}" for v t
  proof -
    from read_cases_covers [OF cs _ v] obtain ws where ws: "map_of cases (str_of (get (dict_of v) ''id'')) = Some (dict_of v, ws)"
      "length ws = length (list_of (get_or (dict_of v) ''rubric'' (JArr [])))" by auto
    have "(str_of (get (dict_of v) ''id''), label, t) \<in> set (expected_generations (map fst cases) (map fst labels) (int_of (get (dict_of plan) ''trials'')))"
      using map_of_SomeD [OF ws(1)] lab t by (force simp: expected_generations_def)
    from evidence_of_trial [OF read_generations_rows [OF g(1), simplified] g(2) read_judgments_rows [OF j(1), simplified] j(2) bools candidate_item_eligible(3) [OF item el] candidate_item_eligible(4) [OF item el] this]
    moreover have "weights_of cases (str_of (get (dict_of v) ''id'')) \<noteq> [] \<longleftrightarrow> list_of (get_or (dict_of v) ''rubric'' (JArr [])) \<noteq> []"
      using ws by (auto simp: weights_of_def)
    ultimately show ?thesis by (simp only:)
  qed
  have set_order: "set order = {x \<in> set items. eligible x}" using py_sorted_set [OF order] by auto
  then have ne: "order \<noteq> []" using x(1) el by auto
  then have hd: "hd order \<in> set items" "eligible (hd order)" using set_order hd_in_set by blast+
  have w: "get d ''winner'' = ranking (1, hd order)" using ne by (simp add: d document_get)
  have "\<exists>w' \<in> set (map dict_of (list_of (get d ''candidates''))). eligible w' \<and> get w' ''candidate_id'' = get (hd order) ''candidate_id''"
    using hd by (intro bexI [of _ "set_rank order (hd order)"]) (simp_all add: d document_get set_rank_get list_of_def dict_of_def image_image)
  then show ?thesis using one w hd(2) lb by blast
qed


definition demo_plan :: dict where
  "demo_plan = [(''schema_version'', JInt 1), (''benchmark_id'', JStr ''b''), (''version'', JStr ''1''), (''trials'', JInt 1), (''cases'', JArr [JStr ''c1'']),
     (''candidates'', JArr [JObj [(''id'', JStr ''m''), (''artifact_ref'', JStr ''a'')]]), (''judges'', JArr [JObj [(''id'', JStr ''j'')]])]"

definition demo_release :: dict where
  "demo_release = [(''schema_version'', JInt 1), (''release_id'', JStr ''rel''), (''artifacts'', JArr [JObj [(''id'', JStr ''a''), (''source'', JStr ''hf''), (''revision'', JStr ''r1''),
     (''runtime'', JStr ''vllm''), (''quantization'', JStr ''fp8'')]])]"

definition demo_run :: dict where
  "demo_run = [(''schema_version'', JInt 1), (''run_id'', JStr ''r''), (''benchmark_id'', JStr ''b''), (''benchmark_version'', JStr ''1''), (''plan_sha256'', JStr (sha256_json demo_env (JObj demo_plan))),
     (''release_id'', JStr ''rel''), (''release_sha256'', JStr (sha256_json demo_env (JObj demo_release))), (''trials'', JInt 1), (''candidate_map'', JObj [(''A'', JStr ''m'')])]"

definition demo_case :: json where
  "demo_case = JObj [(''schema_version'', JInt 1), (''id'', JStr ''c1''), (''track'', JStr ''code''), (''rubric'', JArr [JObj [(''id'', JStr ''q'')]])]"

definition demo_generation :: dict where
  "demo_generation = [(''schema_version'', JInt 1), (''case_id'', JStr ''c1''), (''track'', JStr ''code''), (''case_sha256'', JStr (sha256_json demo_env demo_case)), (''candidate_label'', JStr ''A''),
     (''trial'', JInt 1), (''status'', JStr ''completed''), (''objective'', JObj [(''passed'', JBool True), (''checks'', JArr []), (''score'', JInt 100)]), (''duration_ms'', JInt 7)]"

definition demo_judgment :: dict where
  "demo_judgment = [(''schema_version'', JInt 1), (''judge_id'', JStr ''j''), (''case_id'', JStr ''c1''), (''candidate_label'', JStr ''A''), (''trial'', JInt 1), (''status'', JStr ''completed''),
     (''judgment'', JObj [(''fatal_error'', JBool False), (''scores'', JObj [(''q'', JInt 3)])])]"

theorem winner_evidence_witness:
  "\<exists>d. select_run demo_env (JObj demo_run) (JObj demo_plan) (JObj demo_release) (JArr [demo_case]) [demo_generation] [demo_judgment] (JInt 70) (JInt 100) = Inr d
     \<and> get d ''winner'' \<noteq> JNull \<and> trial_evidence [demo_generation] [demo_judgment] [''j''] ''c1'' True ''A'' 1"
proof -
  let ?run = "select_run demo_env (JObj demo_run) (JObj demo_plan) (JObj demo_release) (JArr [demo_case]) [demo_generation] [demo_judgment] (JInt 70) (JInt 100)"
  have "(case ?run of Inl e \<Rightarrow> False | Inr d \<Rightarrow> list_ex (\<lambda>c. eligible c \<and> get c ''candidate_label'' = JStr ''A'') (map dict_of (list_of (get d ''candidates''))))" by code_simp
  then obtain d c where d: "?run = Inr d" and c: "c \<in> set (map dict_of (list_of (get d ''candidates'')))" "eligible c" "get c ''candidate_label'' = JStr ''A''"
    by (auto simp: list_ex_iff split: sum.splits)
  have "read_judges (dict_of (JObj demo_plan)) = Inr [''j'']" by code_simp
  from winner_evidence [OF d this c(1,2)] obtain w where w: "get d ''winner'' = ranking (1, w)"
    and all: "\<forall>v \<in> set (list_of (JArr [demo_case])). \<forall>t \<in> {1..int_of (get (dict_of (JObj demo_plan)) ''trials'')}.
      trial_evidence [demo_generation] [demo_judgment] [''j''] (str_of (get (dict_of v) ''id'')) (list_of (get_or (dict_of v) ''rubric'' (JArr [])) \<noteq> []) (str_of (get c ''candidate_label'')) t" by blast
  have n: "get d ''winner'' \<noteq> JNull" by (simp add: w ranking_def)
  have v: "demo_case \<in> set (list_of (JArr [demo_case]))" "int_of (get (dict_of (JObj demo_plan)) ''trials'') = 1" "str_of (get (dict_of demo_case) ''id'') = ''c1''"
    "list_of (get_or (dict_of demo_case) ''rubric'' (JArr [])) \<noteq> []" by code_simp+
  have "trial_evidence [demo_generation] [demo_judgment] [''j''] (str_of (get (dict_of demo_case) ''id'')) (list_of (get_or (dict_of demo_case) ''rubric'' (JArr [])) \<noteq> []) (str_of (get c ''candidate_label'')) 1"
    using all v(1,2) by simp
  then show ?thesis using d n v(3,4) c(3) by (simp add: str_of_def)
qed

end
