(* ===== verification/Spec2Isabelle.thy ===== *)
theory Spec2Isabelle
  imports Site_Service Model_Gateway Version_Policy Codex_Publisher Broker_Service Gpu_Safety Benchmark_Selection
begin

text \<open>
  A verification library for HomeCompute, the Python code that runs a household's assistants, coding
  workers, local models and maintenance.

  \<^bold>\<open>The program.\<close> HomeCompute is a collection of small services and operator scripts. What they have
  in common is the pattern that this library verifies: an assistant may ask for something, an owner or an
  operator has to approve exactly what was asked for, a durable ledger in SQLite records each step, and
  the code fails closed when anything has changed in between. The parts modelled are these.

  \<^item> Websites: an operator registers the sites that assistants may use
  (\<open>scripts/openclaw_site_registry.py\<close>), an owner grants access for a time
  (\<open>scripts/openclaw_access_grants.py\<close>), and purchases and bookings are approved one by one and claimed by
  an executor (\<open>scripts/openclaw_site_transactions.py\<close>). \<open>scripts/openclaw-access.py\<close> puts the two
  ledgers together: claiming a transaction asks the access ledger for a live grant.
  \<^item> Coding work: a broker (\<open>deploy/codex-worker/broker.py\<close>) holds the queue of coding tasks, checks the
  worker's results against the operator's project policy (\<open>policy.py\<close>) and publishes an approved patch as a
  draft pull request (\<open>publisher.py\<close>). The same process holds the ledger of maintenance actions
  (\<open>actions.py\<close>) and offers both to assistants over MCP (\<open>mcp_adapter.py\<close>).
  \<^item> Models: the catalog of model artifacts, deployments and routes (\<open>scripts/model_registry.py\<close>,
  \<open>scripts/model_registry_media.py\<close>) and the gateway configuration rendered from it; the ranking of
  candidates by a benchmark run (\<open>benchmarks/selection.py\<close>) and the check of such a ranking before a
  model is watched for updates (\<open>scripts/model_update_selection.py\<close>).
  \<^item> The shared GPU: a controller switches it between the text model and the media services
  (\<open>scripts/comfyui_lifecycle.py\<close>, \<open>scripts/comfyui_progress.py\<close>), behind a gate that counts the requests in
  flight (\<open>scripts/llm_admission.py\<close>).
  \<^item> Maintenance: which update plans may run without the owner's approval
  (\<open>scripts/infrastructure_update_policy.py\<close>).

  \<^bold>\<open>The theories.\<close>

  \<^item> What the code uses of Python: \<open>Py_Prelude\<close> (decoded JSON, dictionaries in insertion order, text,
  exceptions), \<open>Py_Values\<close> (operations on a value of any type, raising where Python raises),
  \<open>Py_Containers\<close> (iteration and sets), \<open>Py_Numbers\<close> and \<open>Py_Float\<close> (exact integers, binary64 rounding,
  \<open>sum\<close> and \<open>median\<close>), \<open>Py_Json\<close> (\<open>json.dumps\<close>), \<open>Py_Regex\<close> (\<open>fullmatch\<close> and \<open>search\<close> on the
  repository's patterns), \<open>Py_Url\<close> (\<open>urlsplit\<close>) and \<open>Py_Effects\<close> (state with exceptions, and the transaction that
  undoes the writes of a failed call). Which values share a digest is decided by the text of \<open>json.dumps\<close>.
  \<^item> What the ledgers share: \<open>Ledger_Core\<close> (tables of rows, lookup and update by key, forward-only moves of a
  row, reachability over steps and what a predicate of the pre-state gives along it), and \<open>Ledger_Audit\<close> (the
  locale of ledgers that write an event with every change of a state, interpreted for the coding tasks).
  \<^item> Websites: \<open>Site_Registry\<close>, \<open>Access_Grants\<close>, \<open>Site_Transactions\<close> and \<open>Site_Service\<close>, which
  interprets the locale of an access authority on the ledger of \<open>Access_Grants\<close> and holds the properties of
  interleaved calls to both ledgers.
  \<^item> Coding work and actions: \<open>Codex_Policy\<close>, \<open>Codex_Ledger\<close>, \<open>Codex_Publisher\<close>, \<open>Action_Policy\<close>,
  \<open>Action_Ledger\<close>, \<open>Mcp_Adapter\<close> (with the table of tools of \<open>scripts/semantic_operations.py\<close> that it lists) and
  \<open>Broker_Service\<close>, the HTTP handler of the broker process over all of them.
  \<^item> Models: \<open>Model_Registry\<close> (loading and validating), \<open>Model_Gateway\<close> (selecting and rendering),
  \<open>Benchmark_Selection\<close> (computing a selection) and \<open>Selection_Check\<close> (recomputing it from its evidence and
  classifying what is watched).
  \<^item> The GPU: \<open>Gpu_Host\<close> (the host's operations with what docker, the local services and the clock answer as
  an oracle; the gate and its clients), \<open>Gpu_Controller\<close> (every method of the controller) and \<open>Gpu_Safety\<close>
  (the law that every trace of events obeys).
  \<^item> Maintenance: \<open>Version_Policy\<close>.

  In every theory the definitions come in the order of the source and carry its names. A method of a ledger
  is a function from the state to its result and the state it leaves; each \<open>raise\<close> and each exception
  of Python's own, such as the \<open>KeyError\<close> of a missing key, is a value of the result.
\<close>

text \<open>
  \<^bold>\<open>What the theorems show.\<close>

  \<^item> Access and transactions (\<open>Access_Grants\<close>, \<open>Site_Transactions\<close>, \<open>Site_Service\<close>): the invariants
  of the tables hold after every sequence of calls; requests and transactions move only along their status
  graphs; a decision consumes one live challenge for exactly what it decides; an authorization has a live grant of
  the same actor, scope and account; an approved transaction is claimed at most once, and under the conditions it
  was approved with; a failed call leaves the tables as they were.
  \<^item> Coding tasks and actions (\<open>Codex_Ledger\<close>, \<open>Codex_Publisher\<close>, \<open>Action_Ledger\<close>): the invariants
  hold through interleaved requests, reports, publications, stages of an execution and restarts of the process;
  the event log alone determines the state of each task (a refinement of the abstract ledger \<open>trail\<close>); the
  publisher is reached only with an approved digest, and what it writes to GitHub is a beginning of one
  fixed sequence of writes; an execution starts only when all its checks hold and, whatever calls come between, ends
  after at most seven of its stages.
  \<^item> The broker (\<open>Mcp_Adapter\<close>, \<open>Broker_Service\<close>): every answer of the endpoint \<open>/mcp\<close> is a plain refusal
  naming a check that failed, the JSON-RPC error for a body that cannot be decoded, or the JSON-RPC answer to an
  admitted message; and no request without the operator's token reaches an operation of the operator.
  \<^item> Checks of files (\<open>Site_Registry\<close>, \<open>Codex_Policy\<close>, \<open>Model_Registry\<close>): what an accepted file is
  known to satisfy, for every decoded document, whatever its types.
  \<^item> Models (\<open>Model_Gateway\<close>, \<open>Benchmark_Selection\<close>, \<open>Selection_Check\<close>): on accepted registries and under a
  stated condition on embedding routes (without it rendering can raise, \<open>embedding_gap\<close>), rendering succeeds, is
  stable and replaces exactly the one block of the configuration; a selection rests on complete evidence, and an accepted document is the one its evidence determines.
  \<^item> The GPU (\<open>Gpu_Safety\<close>): at every moment of every history, also while a switch is under way or hangs,
  clients enter only an open gate, and the text model is stopped or a media service loaded only after the
  requests have drained; a switch that returns has settled in the state it reports, and on a cooperative host (one whose
  containers obey, whose text model answers and whose media queue is idle) a switch to text does return.
  \<^item> Maintenance (\<open>Version_Policy\<close>): a routine update goes forward within its release, and the comparison of
  Debian versions is a total preorder, the one of its sort keys.

  \<^bold>\<open>Parameters.\<close> What is not in the repository is an argument of the definitions: the clock, new
  identifiers and random tokens, the digest function, \<open>json.loads\<close> on request bodies, \<open>fromisoformat\<close> and the
  time zones (a calendar), GitHub, and the answers of docker, of the host's services and of the optional
  backends of the MCP adapter. A theorem that needs something of a parameter says so in a hypothesis, and its
  witness instantiates the parameter with a concrete function.

  \<^bold>\<open>Bounds and fuel.\<close> Text is a list of characters with code points 0 to 255; the patterns and the escapes of
  \<open>json.dumps\<close> are exact there. Integers are Python's, unbounded. Most loops are structural recursion. The
  wait of the GPU controller for a job (\<open>loop_job\<close>) has no bound in the source; the model runs it for a
  given number of turns and the statements hold for every number, a run cut off in the middle included, so that a
  switch that hangs is covered. The prompt, tick, recovery and switch of the controller hold its \<open>admission\<close> lock
  while they run and are therefore single operations; requests passing the gate and submissions come between.
  Calls to a ledger hold a transaction and are single steps; an action's execution is its first transaction followed
  by stages, between which other calls and a restart may come.

  \<^bold>\<open>Not modelled.\<close> Reading and writing files, sockets, process start and command lines; the creation and
  migration of tables; threads other than as the interleavings above. The largest part of the repository is
  code that deploys, upgrades, qualifies or backs up services by running other programs over SSH, docker
  or a service's HTTP interface (\<open>scripts/setup-*.py\<close>, \<open>scripts/qualify-*.py\<close>, the recovery and rollout scripts, and
  the adapters under \<open>deploy/\<close> and \<open>benchmarks/\<close>): what they compute is what those programs answer. Of the program's
  own logic, the assistant-context store with its sources, briefings and delivery, the team policy, the
  site sessions and their executor, the notification scripts and the maintenance preparation are left out, and the
  graph migration of \<open>scripts/llm_workflow_queue.py\<close>, whose texts have characters beyond the code points above.
\<close>

end
